(* ===== verification/Sentry_Prelude.thy ===== *)
theory Sentry_Prelude
  imports Main "HOL-Library.Word" "HOL-Library.Char_ord"
begin

text \<open>
  What every component of the sentry-micro model shares: the machine integer types, the
  conventions for C strings and C memory, the printf conversions the sources use, and the
  generic lemmas and lemma collections of the development.

  Conventions. A C string is the list of its bytes before the terminating NUL, a value of type
  \<open>string\<close>; a pointer that may be NULL is an \<open>option\<close>. A fixed \<open>char\<close> array that holds a C
  string is modelled by that string, and a bounded copy into it by the truncation the C code
  performs. A block of memory a function writes into is the list of its cells. A
  \<open>size_t\<close> that measures an object in memory is a \<open>nat\<close>; every other integer keeps its width.
\<close>

unbundle bit_operations_syntax

section \<open>Types\<close>

type_synonym u8 = "8 word"
type_synonym u16 = "16 word"
type_synonym u32 = "32 word"
type_synonym u64 = "64 word"
type_synonym i64 = "64 word"
type_synonym bytes = "u8 list"
type_synonym cptr = "string option"

section \<open>Lemma collections\<close>

text \<open>
  \<open>json_emits\<close>: what each statement of a JSON writer emits.
  \<open>ring_arith\<close>: arithmetic of ring indices.
\<close>

named_theorems json_emits
named_theorems ring_arith

section \<open>Characters\<close>

abbreviation NUL :: char where "NUL \<equiv> CHR 0x00"
abbreviation QUOTE :: char where "QUOTE \<equiv> CHR 0x22"
abbreviation BSLASH :: char where "BSLASH \<equiv> CHR 0x5C"
abbreviation NEWLINE :: char where "NEWLINE \<equiv> CHR 0x0A"

abbreviation code_of :: "char \<Rightarrow> nat" where "code_of c \<equiv> of_char c"

definition is_digit :: "char \<Rightarrow> bool" where
  "is_digit c \<longleftrightarrow> CHR ''0'' \<le> c \<and> c \<le> CHR ''9''"

definition is_lower_hex :: "char \<Rightarrow> bool" where
  "is_lower_hex c \<longleftrightarrow> is_digit c \<or> (CHR ''a'' \<le> c \<and> c \<le> CHR ''f'')"

lemma code_of_less_256: "code_of c < 256"
  by (metis of_char_mod_256 mod_less_divisor zero_less_numeral)

lemma is_digit_code: "is_digit c \<longleftrightarrow> 48 \<le> code_of c \<and> code_of c \<le> 57"
  by (simp add: is_digit_def less_eq_char_def)

section \<open>Memory\<close>

text \<open>
  Writing a block at an offset. Past the end of the memory the list would grow, so a lemma
  that the length is kept says that the write stayed in bounds.
\<close>

definition mem_write :: "'a list \<Rightarrow> nat \<Rightarrow> 'a list \<Rightarrow> 'a list" where
  "mem_write mem off data = take off mem @ data @ drop (off + length data) mem"

lemma length_mem_write [simp]:
  "off + length data \<le> length mem \<Longrightarrow> length (mem_write mem off data) = length mem"
  by (simp add: mem_write_def)

lemma take_mem_write:
  "off \<le> length mem \<Longrightarrow> take (off + length data) (mem_write mem off data) = take off mem @ data"
  by (simp add: mem_write_def)

lemma take_mem_write_prefix:
  "n \<le> off \<Longrightarrow> off \<le> length mem \<Longrightarrow> take n (mem_write mem off data) = take n mem"
  by (simp add: mem_write_def)

lemma nth_mem_write_new:
  "off < length mem \<Longrightarrow> mem_write mem off [x] ! off = x"
  by (simp add: mem_write_def nth_append)

lemma drop_mem_write:
  "off \<le> length mem \<Longrightarrow>
     drop (off + length data) (mem_write mem off data) = drop (off + length data) mem"
  by (simp add: mem_write_def)

lemma mem_write_Nil [simp]: "mem_write mem off [] = mem"
  by (simp add: mem_write_def)

lemma mem_write_append:
  "off + length a \<le> length mem \<Longrightarrow>
     mem_write (mem_write mem off a) (off + length a) b = mem_write mem off (a @ b)"
  by (simp add: mem_write_def add.assoc add.commute [of "length b"])

text \<open>Reading a C string: the NUL is the cell after the last byte, and ends the string.\<close>

definition cstr_at :: "string \<Rightarrow> nat \<Rightarrow> char" where
  "cstr_at s i = (if i < length s then s ! i else NUL)"

text \<open>The first \<open>n\<close> cells of a zero-initialised array that holds the string \<open>s\<close>.\<close>

definition cstr_cells :: "nat \<Rightarrow> string \<Rightarrow> string" where
  "cstr_cells n s = map (cstr_at s) [0..<n]"

lemma cstr_cells_full [simp]: "length s = n \<Longrightarrow> cstr_cells n s = s"
  by (auto simp: cstr_cells_def cstr_at_def intro: nth_equalityI)

lemma length_cstr_cells [simp]: "length (cstr_cells n s) = n"
  by (simp add: cstr_cells_def)

text \<open>A scan of the first \<open>n\<close> cells for a class of characters that leaves out NUL.\<close>

lemma cstr_run:
  assumes "\<not> P NUL"
  shows "list_all (\<lambda>i. P (cstr_at s i)) [0..<n] \<longleftrightarrow> n \<le> length s \<and> list_all P (take n s)"
proof (cases "n \<le> length s")
  case True
  then have "list_all (\<lambda>i. P (cstr_at s i)) [0..<n] \<longleftrightarrow> (\<forall>i < n. P (s ! i))"
    by (auto simp: list_all_iff cstr_at_def)
  also have "\<dots> \<longleftrightarrow> list_all P (take n s)"
    using True by (auto simp: list_all_length)
  finally show ?thesis using True by simp
next
  case False
  then have "\<not> P (cstr_at s (length s))" "length s \<in> set [0..<n]"
    using assms by (auto simp: cstr_at_def)
  then have "\<not> list_all (\<lambda>i. P (cstr_at s i)) [0..<n]" unfolding list_all_iff by blast
  with False show ?thesis by simp
qed

section \<open>The printf conversions\<close>

text \<open>The digit table, \<open>HEX\<close> of \<open>sentry_trace.c\<close> and \<open>hex\<close> of \<open>sentry_envelope.c\<close>.\<close>

definition hex_digit :: "nat \<Rightarrow> char" where
  "hex_digit n = ''0123456789abcdef'' ! n"

text \<open>\<open>%u\<close> and \<open>%llu\<close>: decimal digits, no leading zero.\<close>

fun dec :: "nat \<Rightarrow> string" where
  "dec n = (if n < 10 then [hex_digit n] else dec (n div 10) @ [hex_digit (n mod 10)])"

declare dec.simps [simp del]

text \<open>\<open>%lld\<close> of a two's complement value.\<close>

definition dec_signed :: "int \<Rightarrow> string" where
  "dec_signed i = (if i < 0 then CHR ''-'' # dec (nat (- i)) else dec (nat i))"

text \<open>\<open>%llx\<close>: lowercase hexadecimal, no leading zero.\<close>

fun hex_nat :: "nat \<Rightarrow> string" where
  "hex_nat n = (if n < 16 then [hex_digit n] else hex_nat (n div 16) @ [hex_digit (n mod 16)])"

declare hex_nat.simps [simp del]

text \<open>A minimum width with zero padding, as in \<open>%06llu\<close>, \<open>%04x\<close> and \<open>%08x\<close>.\<close>

definition zero_pad :: "nat \<Rightarrow> string \<Rightarrow> string" where
  "zero_pad width s = replicate (width - length s) CHR ''0'' @ s"

text \<open>The bytes \<open>snprintf(out, cap, "%s", s)\<close> leaves in \<open>out\<close> before the NUL.\<close>

definition snprintf_content :: "nat \<Rightarrow> string \<Rightarrow> string" where
  "snprintf_content cap s = take (cap - 1) s"

lemma less_10_cases:
  "(n::nat) < 10 \<Longrightarrow> n = 0 \<or> n = 1 \<or> n = 2 \<or> n = 3 \<or> n = 4 \<or> n = 5 \<or> n = 6 \<or> n = 7 \<or> n = 8 \<or> n = 9"
  by arith

lemma less_16_cases:
  "(n::nat) < 16 \<Longrightarrow> n < 10 \<or> n = 10 \<or> n = 11 \<or> n = 12 \<or> n = 13 \<or> n = 14 \<or> n = 15"
  by arith

lemma hex_digit_decimal [simp]: "n < 10 \<Longrightarrow> is_digit (hex_digit n)"
  by (drule less_10_cases) (auto simp: hex_digit_def is_digit_code)

lemma code_of_hex_digit_decimal: "n < 10 \<Longrightarrow> code_of (hex_digit n) = 48 + n"
  by (drule less_10_cases) (auto simp: hex_digit_def)

lemma hex_digit_lower [simp]: "n < 16 \<Longrightarrow> is_lower_hex (hex_digit n)"
  by (drule less_16_cases)
    (auto simp: is_lower_hex_def is_digit_code hex_digit_def less_eq_char_def dest!: less_10_cases)

lemma hex_digit_0: "hex_digit 0 = CHR ''0''"
  by (simp add: hex_digit_def)

lemma dec_digits: "c \<in> set (dec n) \<Longrightarrow> is_digit c"
  by (induction n rule: dec.induct) (subst (asm) dec.simps, auto split: if_splits)

lemma dec_not_Nil [simp]: "dec n \<noteq> []"
  by (subst dec.simps) simp

text \<open>Reading decimal digits back.\<close>

lemma fold_dec: "fold (\<lambda>c n. 10 * n + (code_of c - 48)) (dec n) 0 = n"
proof (induction n rule: dec.induct)
  case (1 n)
  show ?case
  proof (cases "n < 10")
    case True
    then show ?thesis by (simp add: dec.simps [of n] code_of_hex_digit_decimal)
  next
    case False
    then show ?thesis using 1 by (simp add: dec.simps [of n] code_of_hex_digit_decimal)
  qed
qed

lemma length_dec: "n < 10 ^ k \<Longrightarrow> 0 < k \<Longrightarrow> length (dec n) \<le> k"
proof (induction k arbitrary: n)
  case (Suc k)
  show ?case
  proof (cases "n < 10")
    case True
    then show ?thesis by (simp add: dec.simps [of n])
  next
    case False
    with Suc.prems have "0 < k" "n div 10 < 10 ^ k" by (auto intro: gr0I)
    then show ?thesis using Suc.IH [of "n div 10"] False by (simp add: dec.simps [of n])
  qed
qed simp

section \<open>Bytes as hex digits\<close>

text \<open>The two digits of a byte: \<open>HEX[b >> 4]\<close> and \<open>HEX[b & 0x0f]\<close>, and \<open>%02x\<close>.\<close>

definition hex_byte :: "u8 \<Rightarrow> string" where
  "hex_byte b = [hex_digit (unat (drop_bit 4 b)), hex_digit (unat (b AND 0x0f))]"

lemma length_hex_byte [simp]: "length (hex_byte b) = 2"
  by (simp add: hex_byte_def)

lemma byte_nibbles:
  fixes b :: u8
  shows "unat (drop_bit 4 b) = unat b div 16" "unat (b AND 0x0f) = unat b mod 16"
proof -
  show "unat (drop_bit 4 b) = unat b div 16"
    by (simp add: drop_bit_eq_div unat_div)
  have "b AND 0x0f = take_bit 4 b"
    by (simp add: take_bit_eq_mask mask_eq_exp_minus_1)
  then show "unat (b AND 0x0f) = unat b mod 16"
    by (simp add: take_bit_eq_mod unat_mod)
qed

lemma unat_u8_less [simp]: "unat (b :: u8) < 256"
  using unsigned_less [of b] by simp

lemma nibble_bounds [simp]:
  fixes b :: u8
  shows "unat (drop_bit 4 b) < 16" "unat (b AND 0x0f) < 16"
  by (simp_all add: byte_nibbles less_mult_imp_div_less)

lemma hex_byte_lower: "list_all is_lower_hex (hex_byte b)"
  by (simp add: hex_byte_def)

lemma hex_digit_inj: "m < 16 \<Longrightarrow> n < 16 \<Longrightarrow> hex_digit m = hex_digit n \<longleftrightarrow> m = n"
proof -
  assume "m < 16" "n < 16"
  moreover have "distinct ''0123456789abcdef''" by simp
  moreover have "length ''0123456789abcdef'' = 16" by simp
  ultimately show ?thesis unfolding hex_digit_def by (metis nth_eq_iff_index_eq)
qed

lemma hex_byte_inj: "hex_byte a = hex_byte b \<longleftrightarrow> a = b"
proof
  assume "hex_byte a = hex_byte b"
  then have "unat a div 16 = unat b div 16" "unat a mod 16 = unat b mod 16"
    by (simp_all add: hex_byte_def hex_digit_inj flip: byte_nibbles)
  then have "unat a = unat b" by (metis mult_div_mod_eq)
  then show "a = b" by (simp add: word_unat_eq_iff)
qed simp

section \<open>Counters\<close>

lemma word_succ_less:
  fixes a b :: "'a::len word"
  assumes "a < b"
  shows "unat (a + 1) = Suc (unat a)" and "a + 1 \<le> b" and "a + 1 \<noteq> 0"
proof -
  show "a + 1 \<noteq> 0" using assms word_n1_ge [of b] by (metis add_eq_0_iff2 leD)
  then show "unat (a + 1) = Suc (unat a)" by (simp add: unatSuc add.commute)
  show "a + 1 \<le> b" using assms by (rule inc_le)
qed

section \<open>Rings\<close>

text \<open>
  The cells of a ring of \<open>n\<close> from \<open>h\<close> on, \<open>c\<close> of them, in order; and the queue of bounded
  capacity such a ring implements, which loses its oldest element when it is full.
\<close>

definition ring_window :: "nat \<Rightarrow> nat \<Rightarrow> nat \<Rightarrow> nat list" where
  "ring_window n h c = map (\<lambda>k. (h + k) mod n) [0..<c]"

definition bounded_push :: "nat \<Rightarrow> 'a \<Rightarrow> 'a list \<Rightarrow> 'a list" where
  "bounded_push cap x q = (if length q = cap then tl q else q) @ [x]"

lemma length_ring_window [simp]: "length (ring_window n h c) = c"
  by (simp add: ring_window_def)

lemma ring_window_0 [simp]: "ring_window n h 0 = []"
  by (simp add: ring_window_def)

lemma ring_window_snoc [ring_arith]:
  "ring_window n h (Suc c) = ring_window n h c @ [(h + c) mod n]"
  by (simp add: ring_window_def)

lemma ring_window_Cons [ring_arith]:
  assumes "h < n"
  shows "ring_window n h (Suc c) = h # ring_window n (Suc h mod n) c"
proof -
  have "map (\<lambda>k. (h + k) mod n) [0..<Suc c] = (h mod n) # map (\<lambda>k. (h + Suc k) mod n) [0..<c]"
    by (simp only: upt_conv_Cons zero_less_Suc map_Suc_upt [symmetric] list.map map_map o_def) simp
  moreover have "(h + Suc k) mod n = (Suc h mod n + k) mod n" for k
    by (simp add: mod_add_left_eq)
  ultimately show ?thesis using assms by (simp add: ring_window_def)
qed

lemma ring_next_fresh [ring_arith]:
  assumes "c < n"
  shows "(h + c) mod n \<notin> set (ring_window n h c)"
proof
  assume "(h + c) mod n \<in> set (ring_window n h c)"
  then obtain k where k: "k < c" "(h + c) mod n = (h + k) mod n"
    by (auto simp: ring_window_def)
  then have "n dvd (h + c) - (h + k)"
    using mod_eq_dvd_iff_nat [of "h + k" "h + c" n] by simp
  then have "n dvd c - k" by simp
  then show False using k(1) assms by (auto dest: dvd_imp_le)
qed

lemma ring_window_distinct [ring_arith]: "c \<le> n \<Longrightarrow> distinct (ring_window n h c)"
  by (induction c) (auto simp: ring_window_snoc ring_next_fresh)

lemma ring_window_bounds [ring_arith]: "0 < n \<Longrightarrow> i \<in> set (ring_window n h c) \<Longrightarrow> i < n"
  by (auto simp: ring_window_def)

lemma head_not_in_rest [ring_arith]:
  "h < n \<Longrightarrow> Suc c \<le> n \<Longrightarrow> h \<notin> set (ring_window n (Suc h mod n) c)"
  using ring_window_distinct [of "Suc c" n h] by (simp add: ring_window_Cons)

section \<open>Text as bytes\<close>

definition bytes_of :: "string \<Rightarrow> bytes" where "bytes_of s = map (\<lambda>c. of_nat (code_of c)) s"

definition text_of :: "bytes \<Rightarrow> string" where "text_of b = map (\<lambda>x. char_of (unat x)) b"

lemma length_bytes_of [simp]: "length (bytes_of s) = length s" "bytes_of [] = []"
  by (simp_all add: bytes_of_def)

lemma text_of_bytes_of [simp]: "text_of (bytes_of s) = s"
  using code_of_less_256 by (simp add: bytes_of_def text_of_def o_def unat_of_nat)

section \<open>Little-endian integers\<close>

definition write_u16 :: "u16 \<Rightarrow> bytes" where
  "write_u16 v = [ucast (v AND 0xFF), ucast (drop_bit 8 v AND 0xFF)]"

definition write_u32 :: "u32 \<Rightarrow> bytes" where
  "write_u32 v = [ucast (v AND 0xFF), ucast (drop_bit 8 v AND 0xFF),
     ucast (drop_bit 16 v AND 0xFF), ucast (drop_bit 24 v AND 0xFF)]"

definition read_u16 :: "bytes \<Rightarrow> u16" where
  "read_u16 bs = ucast (bs ! 0) OR push_bit 8 (ucast (bs ! 1))"

definition read_u32 :: "bytes \<Rightarrow> u32" where
  "read_u32 bs = ucast (bs ! 0) OR push_bit 8 (ucast (bs ! 1)) OR push_bit 16 (ucast (bs ! 2)) OR
     push_bit 24 (ucast (bs ! 3))"

lemma length_write_le [simp]: "length (write_u16 v) = 2" "length (write_u32 w) = 4"
  by (simp_all add: write_u16_def write_u32_def)

lemma byte_mask_bit: "bit (255 :: int) n \<longleftrightarrow> n < 8"
proof -
  have "(255 :: int) = mask 8" by (simp add: mask_eq_exp_minus_1)
  then show ?thesis by (simp only: bit_mask_iff) auto
qed

lemma read_u16_write: "read_u16 (write_u16 v @ r) = v"
proof (rule bit_word_eqI)
  fix n
  assume "n < LENGTH(16)"
  then show "bit (read_u16 (write_u16 v @ r)) n = bit v n"
    by (cases "n < 8")
      (auto simp: read_u16_def write_u16_def bit_simps byte_mask_bit)
qed

lemma read_u32_write: "read_u32 (write_u32 v @ r) = v"
proof (rule bit_word_eqI)
  fix n
  assume "n < LENGTH(32)"
  then consider "n < 8" | "8 \<le> n" "n < 16" | "16 \<le> n" "n < 24" | "24 \<le> n" "n < 32"
    by fastforce
  then show "bit (read_u32 (write_u32 v @ r)) n = bit v n"
    by cases (auto simp: read_u32_def write_u32_def bit_simps byte_mask_bit)
qed

lemma write_u16_read: "write_u16 (read_u16 [a, b]) = [a, b]"
  unfolding write_u16_def read_u16_def
  by (simp, intro conjI; rule bit_word_eqI) (auto simp: bit_simps byte_mask_bit dest: bit_imp_le_length)

lemma write_u32_read: "write_u32 (read_u32 [a, b, c, d]) = [a, b, c, d]"
  unfolding write_u32_def read_u32_def
  by (simp, intro conjI; rule bit_word_eqI) (auto simp: bit_simps byte_mask_bit dest: bit_imp_le_length)

end
