(* ===== verification/Sentry_Json.thy ===== *)
theory Sentry_Json
  imports Sentry_Prelude
begin

text \<open>
  The fixed-buffer JSON writer, \<open>src/core/sentry_json.c\<close>.

  The record \<open>sentry_json\<close> is \<open>sentry_json_t\<close> with the memory \<open>buf\<close> points at (\<open>None\<close> for
  the NULL buffer of the counting mode), and each definition is the function of the same name.
  What the writer guarantees is in \<open>Sentry_Json_Correct\<close>, over the documents of
  \<open>Json_Document\<close>.
\<close>

section \<open>The writer\<close>

record sentry_json =
  jw_buf :: "string option"
  jw_cap :: nat
  jw_len :: nat
  jw_overflow :: bool
  jw_need_comma :: bool

definition json_append :: "string \<Rightarrow> sentry_json \<Rightarrow> sentry_json" where
  "json_append data w =
     (let w' =
        (case jw_buf w of
           None \<Rightarrow> w
         | Some mem \<Rightarrow>
             if jw_overflow w then w
             else if jw_len w + length data + 1 > jw_cap w then w\<lparr>jw_overflow := True\<rparr>
             else w\<lparr>jw_buf :=
                 Some (mem_write (mem_write mem (jw_len w) data) (jw_len w + length data) [NUL])\<rparr>)
      in w'\<lparr>jw_len := jw_len w + length data\<rparr>)"

definition append_char :: "char \<Rightarrow> sentry_json \<Rightarrow> sentry_json" where
  "append_char c w = json_append [c] w"

definition append_cstr :: "string \<Rightarrow> sentry_json \<Rightarrow> sentry_json" where
  "append_cstr s w = json_append s w"

definition json_separate :: "sentry_json \<Rightarrow> sentry_json" where
  "json_separate w = (if jw_need_comma w then append_char (CHR '','') w else w)"

definition sentry_json_init :: "string option \<Rightarrow> nat \<Rightarrow> sentry_json" where
  "sentry_json_init buf cap =
     (let w = \<lparr>jw_buf = buf, jw_cap = cap, jw_len = 0, jw_overflow = False,
               jw_need_comma = False\<rparr>
      in case buf of
           Some mem \<Rightarrow>
             if cap > 0 then w\<lparr>jw_buf := Some (mem_write mem 0 [NUL])\<rparr>
             else w\<lparr>jw_overflow := True\<rparr>
         | None \<Rightarrow> w)"

definition sentry_json_object_begin :: "sentry_json \<Rightarrow> sentry_json" where
  "sentry_json_object_begin w =
     (append_char (CHR ''{'') (json_separate w))\<lparr>jw_need_comma := False\<rparr>"

definition sentry_json_object_end :: "sentry_json \<Rightarrow> sentry_json" where
  "sentry_json_object_end w = (append_char (CHR ''}'') w)\<lparr>jw_need_comma := True\<rparr>"

definition sentry_json_array_begin :: "sentry_json \<Rightarrow> sentry_json" where
  "sentry_json_array_begin w =
     (append_char (CHR ''['') (json_separate w))\<lparr>jw_need_comma := False\<rparr>"

definition sentry_json_array_end :: "sentry_json \<Rightarrow> sentry_json" where
  "sentry_json_array_end w = (append_char (CHR '']'') w)\<lparr>jw_need_comma := True\<rparr>"

text \<open>What the \<open>switch\<close> of \<open>write_escaped\<close> appends for one byte.\<close>

definition escape_byte :: "char \<Rightarrow> string" where
  "escape_byte c =
     (if c = QUOTE then [BSLASH, QUOTE]
      else if c = BSLASH then [BSLASH, BSLASH]
      else if c = CHR 0x08 then [BSLASH, CHR ''b'']
      else if c = CHR 0x0C then [BSLASH, CHR ''f'']
      else if c = CHR 0x0A then [BSLASH, CHR ''n'']
      else if c = CHR 0x0D then [BSLASH, CHR ''r'']
      else if c = CHR 0x09 then [BSLASH, CHR ''t'']
      else if code_of c < 0x20 then [BSLASH, CHR ''u''] @ zero_pad 4 (hex_nat (code_of c))
      else [c])"

fun write_escaped_loop :: "string \<Rightarrow> sentry_json \<Rightarrow> sentry_json" where
  "write_escaped_loop [] w = w"
| "write_escaped_loop (c # cs) w = write_escaped_loop cs (append_cstr (escape_byte c) w)"

definition write_escaped :: "string \<Rightarrow> sentry_json \<Rightarrow> sentry_json" where
  "write_escaped s w = append_char QUOTE (write_escaped_loop s (append_char QUOTE w))"

definition sentry_json_key :: "string \<Rightarrow> sentry_json \<Rightarrow> sentry_json" where
  "sentry_json_key key w =
     (append_char (CHR '':'') (write_escaped key (json_separate w)))\<lparr>jw_need_comma := False\<rparr>"

definition sentry_json_null :: "sentry_json \<Rightarrow> sentry_json" where
  "sentry_json_null w = (append_cstr ''null'' (json_separate w))\<lparr>jw_need_comma := True\<rparr>"

definition sentry_json_string :: "cptr \<Rightarrow> sentry_json \<Rightarrow> sentry_json" where
  "sentry_json_string value w =
     (case value of
        None \<Rightarrow> sentry_json_null w
      | Some s \<Rightarrow> (write_escaped s (json_separate w))\<lparr>jw_need_comma := True\<rparr>)"

definition sentry_json_uint :: "u64 \<Rightarrow> sentry_json \<Rightarrow> sentry_json" where
  "sentry_json_uint value w =
     (append_cstr (dec (unat value)) (json_separate w))\<lparr>jw_need_comma := True\<rparr>"

definition sentry_json_int :: "i64 \<Rightarrow> sentry_json \<Rightarrow> sentry_json" where
  "sentry_json_int value w =
     (append_cstr (dec_signed (sint value)) (json_separate w))\<lparr>jw_need_comma := True\<rparr>"

definition sentry_json_bool :: "bool \<Rightarrow> sentry_json \<Rightarrow> sentry_json" where
  "sentry_json_bool value w =
     (append_cstr (if value then ''true'' else ''false'') (json_separate w))
       \<lparr>jw_need_comma := True\<rparr>"

definition sentry_json_kv_string :: "string \<Rightarrow> cptr \<Rightarrow> sentry_json \<Rightarrow> sentry_json" where
  "sentry_json_kv_string key value w = sentry_json_string value (sentry_json_key key w)"

definition sentry_json_kv_uint :: "string \<Rightarrow> u64 \<Rightarrow> sentry_json \<Rightarrow> sentry_json" where
  "sentry_json_kv_uint key value w = sentry_json_uint value (sentry_json_key key w)"

definition sentry_json_kv_bool :: "string \<Rightarrow> bool \<Rightarrow> sentry_json \<Rightarrow> sentry_json" where
  "sentry_json_kv_bool key value w = sentry_json_bool value (sentry_json_key key w)"

definition sentry_json_kv_string_opt :: "string \<Rightarrow> cptr \<Rightarrow> sentry_json \<Rightarrow> sentry_json" where
  "sentry_json_kv_string_opt key value w =
     (if value = None \<or> value = Some [] then w else sentry_json_kv_string key value w)"

text \<open>The text \<open>"%llu.%06llu"\<close> of a microsecond count; \<open>snprintf\<close> into 32 bytes never fails.\<close>

definition micros_text :: "u64 \<Rightarrow> string" where
  "micros_text micros =
     dec (unat (micros div 1000000)) @ ''.'' @ zero_pad 6 (dec (unat (micros mod 1000000)))"

definition sentry_json_kv_micros :: "string \<Rightarrow> u64 \<Rightarrow> sentry_json \<Rightarrow> sentry_json" where
  "sentry_json_kv_micros key micros w =
     (append_cstr (micros_text micros) (json_separate (sentry_json_key key w)))
       \<lparr>jw_need_comma := True\<rparr>"

definition sentry_json_ok :: "sentry_json option \<Rightarrow> bool" where
  "sentry_json_ok writer = (case writer of None \<Rightarrow> False | Some w \<Rightarrow> \<not> jw_overflow w)"

text \<open>
  Statement sequences of a writer, and the two brackets every document is nested with. The C
  code calls \<open>begin\<close>, the statements of the body and \<open>end\<close> one after the other.
\<close>

primrec json_do :: "(sentry_json \<Rightarrow> sentry_json) list \<Rightarrow> sentry_json \<Rightarrow> sentry_json" where
  "json_do [] w = w"
| "json_do (p # ps) w = json_do ps (p w)"

definition json_when :: "bool \<Rightarrow> (sentry_json \<Rightarrow> sentry_json) list \<Rightarrow> sentry_json \<Rightarrow> sentry_json"
  where "json_when b ps w = (if b then json_do ps w else w)"

definition in_object :: "(sentry_json \<Rightarrow> sentry_json) list \<Rightarrow> sentry_json \<Rightarrow> sentry_json" where
  "in_object body w = sentry_json_object_end (json_do body (sentry_json_object_begin w))"

definition in_array :: "(sentry_json \<Rightarrow> sentry_json) list \<Rightarrow> sentry_json \<Rightarrow> sentry_json" where
  "in_array body w = sentry_json_array_end (json_do body (sentry_json_array_begin w))"

end
