(* ===== verification/Json_Document.thy ===== *)
theory Json_Document
  imports Sentry_Json
begin

text \<open>
  The specification side of the writer: a datatype of JSON documents, the text of a document
  (the escaping is the byte table of \<open>write_escaped\<close>), and a reader for that text written
  independently of the writer, after RFC 8259. The reader accepts the text of every document
  with well-formed number literals and gives the document back (\<open>read_json_text\<close>), and the
  text holds no control byte (\<open>json_text_no_control\<close>), which is what makes the
  newline-delimited framing of an envelope unambiguous.
\<close>

section \<open>JSON documents and their text\<close>

datatype json =
    JString string
  | JNumber string
  | JBool bool
  | JNull
  | JArray "json list"
  | JObject "(string \<times> json) list"

definition json_text_string :: "string \<Rightarrow> string" where
  "json_text_string s = [QUOTE] @ concat (map escape_byte s) @ [QUOTE]"

definition comma_if :: "bool \<Rightarrow> string" where
  "comma_if b = (if b then '','' else [])"

fun json_text :: "json \<Rightarrow> string"
  and json_text_values :: "bool \<Rightarrow> json list \<Rightarrow> string"
  and json_text_members :: "bool \<Rightarrow> (string \<times> json) list \<Rightarrow> string" where
  "json_text (JString s) = json_text_string s"
| "json_text (JNumber t) = t"
| "json_text (JBool b) = (if b then ''true'' else ''false'')"
| "json_text JNull = ''null''"
| "json_text (JArray vs) = ''['' @ json_text_values False vs @ '']''"
| "json_text (JObject kvs) = ''{'' @ json_text_members False kvs @ ''}''"
| "json_text_values nc [] = []"
| "json_text_values nc (v # vs) = comma_if nc @ json_text v @ json_text_values True vs"
| "json_text_members nc [] = []"
| "json_text_members nc ((k, v) # kvs) =
     comma_if nc @ json_text_string k @ '':'' @ json_text v @ json_text_members True kvs"

text \<open>Values the writer functions take, as documents.\<close>

definition json_of_cptr :: "cptr \<Rightarrow> json" where
  "json_of_cptr p = (case p of None \<Rightarrow> JNull | Some s \<Rightarrow> JString s)"

definition json_of_uint :: "u64 \<Rightarrow> json" where
  "json_of_uint n = JNumber (dec (unat n))"

definition json_of_int :: "i64 \<Rightarrow> json" where
  "json_of_int i = JNumber (dec_signed (sint i))"

definition opt_member :: "string \<Rightarrow> cptr \<Rightarrow> (string \<times> json) list" where
  "opt_member k p = (if p = None \<or> p = Some [] then [] else [(k, json_of_cptr p)])"


section \<open>Reading the text back\<close>

text \<open>The number grammar of RFC 8259, without exponents.\<close>

definition wf_integer_part :: "string \<Rightarrow> bool" where
  "wf_integer_part s \<longleftrightarrow> s \<noteq> [] \<and> list_all is_digit s \<and> (hd s = CHR ''0'' \<longrightarrow> length s = 1)"

definition wf_unsigned_number :: "string \<Rightarrow> bool" where
  "wf_unsigned_number s \<longleftrightarrow>
     (let ip = takeWhile is_digit s; rest = dropWhile is_digit s
      in wf_integer_part ip \<and>
         (rest = [] \<or> hd rest = CHR ''.'' \<and> tl rest \<noteq> [] \<and> list_all is_digit (tl rest)))"

definition wf_number :: "string \<Rightarrow> bool" where
  "wf_number s \<longleftrightarrow>
     wf_unsigned_number (if s \<noteq> [] \<and> hd s = CHR ''-'' then tl s else s)"

definition number_char :: "char \<Rightarrow> bool" where
  "number_char c \<longleftrightarrow> is_digit c \<or> c = CHR ''-'' \<or> c = CHR ''.''"

definition hex_value_of :: "char \<Rightarrow> nat option" where
  "hex_value_of c =
     (if is_digit c then Some (code_of c - 48)
      else if is_lower_hex c then Some (code_of c - 87) else None)"

text \<open>
  The byte an escape stands for: the one-letter escapes, and \<open>\u00XX\<close> for the code points
  that are one byte.
\<close>

fun unescape :: "string \<Rightarrow> (char \<times> string) option" where
  "unescape (e # cs) =
     (if e = QUOTE \<or> e = BSLASH \<or> e = CHR ''/'' then Some (e, cs)
      else if e = CHR ''b'' then Some (CHR 0x08, cs)
      else if e = CHR ''f'' then Some (CHR 0x0C, cs)
      else if e = CHR ''n'' then Some (CHR 0x0A, cs)
      else if e = CHR ''r'' then Some (CHR 0x0D, cs)
      else if e = CHR ''t'' then Some (CHR 0x09, cs)
      else if e = CHR ''u'' then
        (case cs of
           z1 # z2 # h # l # cs' \<Rightarrow>
             (case (hex_value_of h, hex_value_of l) of
                (Some hv, Some lv) \<Rightarrow>
                  if z1 = CHR ''0'' \<and> z2 = CHR ''0'' \<and> hv < 8
                  then Some (char_of (16 * hv + lv), cs') else None
              | _ \<Rightarrow> None)
         | _ \<Rightarrow> None)
      else None)"
| "unescape [] = None"

lemma unescape_shorter: "unescape s = Some (c, r) \<Longrightarrow> length r < length s"
  by (induction s rule: unescape.induct) (auto split: if_splits list.splits option.splits)

text \<open>The rest of a string literal after its opening quote.\<close>

function read_string :: "string \<Rightarrow> (string \<times> string) option" where
  "read_string [] = None"
| "read_string (c # cs) =
     (if c = QUOTE then Some ([], cs)
      else if c = BSLASH then
        (case unescape cs of
           None \<Rightarrow> None
         | Some (d, r) \<Rightarrow>
             (case read_string r of None \<Rightarrow> None | Some (s, r') \<Rightarrow> Some (d # s, r')))
      else if code_of c < 0x20 then None
      else (case read_string cs of None \<Rightarrow> None | Some (s, r) \<Rightarrow> Some (c # s, r)))"
  by pat_completeness auto
termination
  by (relation "measure length") (auto dest: unescape_shorter)

definition expect :: "string \<Rightarrow> string \<Rightarrow> string option" where
  "expect tok s = (if take (length tok) s = tok then Some (drop (length tok) s) else None)"

text \<open>The reader, with fuel for the nesting; \<open>read_json\<close> gives it the length of the text.\<close>

fun read_value :: "nat \<Rightarrow> string \<Rightarrow> (json \<times> string) option"
  and read_values :: "nat \<Rightarrow> string \<Rightarrow> (json list \<times> string) option"
  and read_members :: "nat \<Rightarrow> string \<Rightarrow> ((string \<times> json) list \<times> string) option" where
  "read_value 0 s = None"
| "read_value (Suc n) [] = None"
| "read_value (Suc n) (c # cs) =
     (if c = QUOTE then
        (case read_string cs of None \<Rightarrow> None | Some (t, r) \<Rightarrow> Some (JString t, r))
      else if c = CHR ''{'' then
        (if expect ''}'' cs \<noteq> None then Some (JObject [], tl cs)
         else (case read_members n cs of
                 None \<Rightarrow> None
               | Some (kvs, r) \<Rightarrow>
                   (case expect ''}'' r of None \<Rightarrow> None | Some r' \<Rightarrow> Some (JObject kvs, r'))))
      else if c = CHR ''['' then
        (if expect '']'' cs \<noteq> None then Some (JArray [], tl cs)
         else (case read_values n cs of
                 None \<Rightarrow> None
               | Some (vs, r) \<Rightarrow>
                   (case expect '']'' r of None \<Rightarrow> None | Some r' \<Rightarrow> Some (JArray vs, r'))))
      else if expect ''true'' (c # cs) \<noteq> None then Some (JBool True, drop 4 (c # cs))
      else if expect ''false'' (c # cs) \<noteq> None then Some (JBool False, drop 5 (c # cs))
      else if expect ''null'' (c # cs) \<noteq> None then Some (JNull, drop 4 (c # cs))
      else (let t = takeWhile number_char (c # cs)
            in if wf_number t then Some (JNumber t, dropWhile number_char (c # cs)) else None))"
| "read_values 0 s = None"
| "read_values (Suc n) s =
     (case read_value n s of
        None \<Rightarrow> None
      | Some (v, r) \<Rightarrow>
          (case expect '','' r of
             None \<Rightarrow> Some ([v], r)
           | Some r' \<Rightarrow>
               (case read_values n r' of
                  None \<Rightarrow> None
                | Some (vs, r'') \<Rightarrow> Some (v # vs, r''))))"
| "read_members 0 s = None"
| "read_members (Suc n) s =
     (case expect [QUOTE] s of
        None \<Rightarrow> None
      | Some s1 \<Rightarrow>
          (case read_string s1 of
             None \<Rightarrow> None
           | Some (k, s2) \<Rightarrow>
               (case expect '':'' s2 of
                  None \<Rightarrow> None
                | Some s3 \<Rightarrow>
                    (case read_value n s3 of
                       None \<Rightarrow> None
                     | Some (v, r) \<Rightarrow>
                         (case expect '','' r of
                            None \<Rightarrow> Some ([(k, v)], r)
                          | Some r' \<Rightarrow>
                              (case read_members n r' of
                                 None \<Rightarrow> None
                               | Some (kvs, r'') \<Rightarrow> Some ((k, v) # kvs, r'')))))))"

definition read_json :: "string \<Rightarrow> json option" where
  "read_json s =
     (case read_value (Suc (length s)) s of
        Some (j, []) \<Rightarrow> Some j
      | _ \<Rightarrow> None)"

text \<open>Documents whose number literals are numbers.\<close>

fun wf_json :: "json \<Rightarrow> bool" where
  "wf_json (JNumber t) = wf_number t"
| "wf_json (JArray vs) = (\<forall>v \<in> set vs. wf_json v)"
| "wf_json (JObject kvs) = (\<forall>kv \<in> set kvs. wf_json (snd kv))"
| "wf_json _ = True"

section \<open>The text is read back\<close>

lemma hex_value_of_hex_digit: "n < 16 \<Longrightarrow> hex_value_of (hex_digit n) = Some n"
  by (drule less_16_cases)
    (auto simp: hex_value_of_def hex_digit_def is_digit_code is_lower_hex_def less_eq_char_def
      dest!: less_10_cases)

lemma hex_nat_short: "n < 16 \<Longrightarrow> hex_nat n = [hex_digit n]"
  by (subst hex_nat.simps) simp

lemma hex_nat_byte: "16 \<le> n \<Longrightarrow> n < 256 \<Longrightarrow> hex_nat n = [hex_digit (n div 16), hex_digit (n mod 16)]"
  by (subst hex_nat.simps) (simp add: hex_nat_short)

lemma zero_pad_hex_byte:
  "n < 256 \<Longrightarrow>
     zero_pad 4 (hex_nat n) = [CHR ''0'', CHR ''0'', hex_digit (n div 16), hex_digit (n mod 16)]"
proof -
  have pad: "replicate 3 x = [x, x, x]" "replicate 2 x = [x, x]" for x :: char
    by (simp_all add: numeral_eq_Suc)
  then show "n < 256 \<Longrightarrow> ?thesis"
    by (cases "n < 16") (simp_all add: zero_pad_def hex_nat_short hex_nat_byte pad hex_digit_0)
qed

lemma unescape_control:
  assumes "code_of c < 32"
  shows "unescape (CHR ''u'' # zero_pad 4 (hex_nat (code_of c)) @ r) = Some (c, r)"
proof -
  have "code_of c div 16 < 8" and "code_of c div 16 < 16" and "code_of c mod 16 < 16"
    using assms by simp_all
  moreover have "char_of (16 * (code_of c div 16) + code_of c mod 16) = c"
    by (simp only: mult_div_mod_eq char_of_char)
  moreover have "code_of c < 256" by (rule code_of_less_256)
  ultimately show ?thesis
    by (simp add: zero_pad_hex_byte hex_value_of_hex_digit)
qed

declare read_string.simps(2) [simp del] unescape.simps [simp del]

lemma read_string_quote: "read_string (QUOTE # cs) = Some ([], cs)"
  by (simp add: read_string.simps(2))

lemma read_string_backslash:
  "read_string (BSLASH # cs) =
     (case unescape cs of
        None \<Rightarrow> None
      | Some (d, r) \<Rightarrow> (case read_string r of None \<Rightarrow> None | Some (s, r') \<Rightarrow> Some (d # s, r')))"
  by (simp add: read_string.simps(2))

lemma read_string_plain:
  "c \<noteq> QUOTE \<Longrightarrow> c \<noteq> BSLASH \<Longrightarrow> \<not> code_of c < 32 \<Longrightarrow>
     read_string (c # cs) = (case read_string cs of None \<Rightarrow> None | Some (s, r) \<Rightarrow> Some (c # s, r))"
  by (simp add: read_string.simps(2))

lemma unescape_short:
  "unescape (QUOTE # r) = Some (QUOTE, r)" "unescape (BSLASH # r) = Some (BSLASH, r)"
  "unescape (CHR ''b'' # r) = Some (CHR 0x08, r)" "unescape (CHR ''f'' # r) = Some (CHR 0x0C, r)"
  "unescape (CHR ''n'' # r) = Some (CHR 0x0A, r)" "unescape (CHR ''r'' # r) = Some (CHR 0x0D, r)"
  "unescape (CHR ''t'' # r) = Some (CHR 0x09, r)"
  by (simp_all add: unescape.simps)

lemma read_string_escape_byte:
  "read_string (escape_byte c @ r) =
     (case read_string r of None \<Rightarrow> None | Some (s, r') \<Rightarrow> Some (c # s, r'))"
proof -
  consider "c = QUOTE" | "c = BSLASH" | "c = CHR 0x08" | "c = CHR 0x0C" | "c = CHR 0x0A"
    | "c = CHR 0x0D" | "c = CHR 0x09"
    | (control) "c \<notin> {QUOTE, BSLASH, CHR 0x08, CHR 0x0C, CHR 0x0A, CHR 0x0D, CHR 0x09}" "code_of c < 32"
    | (plain) "c \<notin> {QUOTE, BSLASH, CHR 0x08, CHR 0x0C, CHR 0x0A, CHR 0x0D, CHR 0x09}" "\<not> code_of c < 32"
    by blast
  then show ?thesis
  proof cases
    case control
    then have "escape_byte c = BSLASH # CHR ''u'' # zero_pad 4 (hex_nat (code_of c))"
      by (simp add: escape_byte_def)
    then show ?thesis
      using unescape_control [OF control(2)] by (simp add: read_string_backslash)
  next
    case plain
    then have "escape_byte c = [c]" by (simp add: escape_byte_def)
    with plain show ?thesis by (simp add: read_string_plain)
  qed (simp_all add: escape_byte_def read_string_backslash unescape_short split: option.split)
qed

lemma read_string_text:
  "read_string (concat (map escape_byte s) @ QUOTE # r) = Some (s, r)"
  by (induction s) (simp_all add: read_string_quote read_string_escape_byte)

lemma wf_number_chars: "wf_number t \<Longrightarrow> list_all number_char t"
proof -
  assume wf: "wf_number t"
  define u where "u = (if t \<noteq> [] \<and> hd t = CHR ''-'' then tl t else t)"
  have "list_all number_char u"
  proof -
    have "list_all number_char (takeWhile is_digit u)"
      by (auto simp: list_all_iff number_char_def dest: set_takeWhileD)
    moreover have "list_all number_char (dropWhile is_digit u)"
    proof (cases "dropWhile is_digit u")
      case Nil
      then show ?thesis by (simp only: list.pred_inject)
    next
      case (Cons c cs)
      with wf show ?thesis
        by (auto simp: wf_number_def wf_unsigned_number_def Let_def u_def [symmetric]
            list_all_iff number_char_def)
    qed
    ultimately have "list_all number_char (takeWhile is_digit u @ dropWhile is_digit u)"
      by (simp only: list_all_append)
    then show ?thesis by simp
  qed
  then show ?thesis
    by (cases t) (auto simp: u_def number_char_def split: if_splits)
qed

lemma wf_number_not_Nil: "wf_number t \<Longrightarrow> t \<noteq> []"
  by (auto simp: wf_number_def wf_unsigned_number_def wf_integer_part_def)

lemma number_text_scan:
  assumes "wf_number t" and "rest = [] \<or> \<not> number_char (hd rest)"
  shows "takeWhile number_char (t @ rest) = t" and "dropWhile number_char (t @ rest) = rest"
proof -
  have "\<forall>c \<in> set t. number_char c"
    using wf_number_chars [OF assms(1)] by (simp add: list_all_iff)
  with assms(2) show "takeWhile number_char (t @ rest) = t"
    and "dropWhile number_char (t @ rest) = rest"
    by (cases rest; simp add: takeWhile_append dropWhile_append)+
qed

lemma number_first_char: "wf_number t \<Longrightarrow> \<exists>c cs. t = c # cs \<and> (is_digit c \<or> c = CHR ''-'')"
  by (cases t)
    (auto simp: wf_number_def wf_unsigned_number_def wf_integer_part_def Let_def
      split: if_splits)

lemma read_value_number:
  assumes "wf_number t" and "rest = [] \<or> \<not> number_char (hd rest)"
  shows "read_value (Suc n) (t @ rest) = Some (JNumber t, rest)"
proof -
  obtain c cs where t: "t = c # cs" and c: "is_digit c \<or> c = CHR ''-''"
    using number_first_char [OF assms(1)] by blast
  have "c \<noteq> QUOTE" "c \<noteq> CHR ''{''" "c \<noteq> CHR ''[''" "c \<noteq> CHR ''t''" "c \<noteq> CHR ''f''" "c \<noteq> CHR ''n''"
    using c by (auto simp: is_digit_code)
  then show ?thesis
    using number_text_scan [OF assms] assms(1) by (simp add: t expect_def Let_def)
qed

lemma json_text_first_char:
  "wf_json j \<Longrightarrow> \<exists>c cs. json_text j = c # cs \<and> c \<noteq> CHR '']'' \<and> c \<noteq> CHR ''}''"
proof (cases j)
  case (JNumber t)
  assume "wf_json j"
  with JNumber have "wf_number t" by simp
  from number_first_char [OF this] JNumber show ?thesis
    by (auto simp: is_digit_code)
qed (auto simp: json_text_string_def)

definition value_ends :: "string \<Rightarrow> bool" where
  "value_ends rest \<longleftrightarrow> rest = [] \<or> \<not> number_char (hd rest)"

definition list_ends :: "string \<Rightarrow> bool" where
  "list_ends rest \<longleftrightarrow> rest = [] \<or> \<not> number_char (hd rest) \<and> hd rest \<noteq> CHR '',''"

lemma list_ends_value_ends: "list_ends rest \<Longrightarrow> value_ends rest"
  by (auto simp: list_ends_def value_ends_def)

lemma list_ends_no_comma: "list_ends rest \<Longrightarrow> expect '','' rest = None"
  by (cases rest) (auto simp: list_ends_def expect_def)

lemma number_char_ends [simp]:
  "\<not> number_char (CHR '','')" "\<not> number_char (CHR ''}'')" "\<not> number_char (CHR '']'')"
  by (simp_all add: number_char_def is_digit_code)

lemma expect_self [simp]: "expect [c] (c # s) = Some s"
  by (simp add: expect_def)

text \<open>
  The reader on the text of a value, a list of values or a list of members, with anything that
  can follow it. The fuel is the length of the text.
\<close>

lemma json_text_pos: "wf_json j \<Longrightarrow> 0 < length (json_text j)"
  using json_text_first_char [of j] by auto

lemma json_text_values_True:
  "vs \<noteq> [] \<Longrightarrow> json_text_values True vs = CHR '','' # json_text_values False vs"
  by (cases vs) (simp_all add: comma_if_def)

lemma json_text_members_True:
  "kvs \<noteq> [] \<Longrightarrow> json_text_members True kvs = CHR '','' # json_text_members False kvs"
  by (cases kvs) (auto simp: comma_if_def)

lemma value_ends_comma [simp]: "value_ends (CHR '','' # s)"
  by (simp add: value_ends_def)

lemma list_ends_brackets [simp]: "list_ends (CHR '']'' # s)" "list_ends (CHR ''}'' # s)"
  by (simp_all add: list_ends_def)

lemma read_value_string:
  "read_value (Suc n) (json_text_string s @ rest) = Some (JString s, rest)"
  by (simp add: json_text_string_def read_string_text)

lemma read_values_step:
  assumes "read_value m (json_text v @ tl_text) = Some (v, tl_text)"
    and "vs = [] \<Longrightarrow> tl_text = rest \<and> list_ends rest"
    and "vs \<noteq> [] \<Longrightarrow> tl_text = CHR '','' # rest2 \<and> read_values m rest2 = Some (vs, rest)"
  shows "read_values (Suc m) (json_text v @ tl_text) = Some (v # vs, rest)"
  using assms by (cases "vs = []") (simp_all add: list_ends_no_comma)

lemma read_members_step:
  assumes "read_value m (json_text v @ tl_text) = Some (v, tl_text)"
    and "kvs = [] \<Longrightarrow> tl_text = rest \<and> list_ends rest"
    and "kvs \<noteq> [] \<Longrightarrow> tl_text = CHR '','' # rest2 \<and> read_members m rest2 = Some (kvs, rest)"
  shows "read_members (Suc m) (json_text_string k @ CHR '':'' # json_text v @ tl_text) =
    Some ((k, v) # kvs, rest)"
  using assms
  by (cases "kvs = []") (simp_all add: json_text_string_def read_string_text list_ends_no_comma)

lemma read_text:
  fixes nc nc' :: bool
  shows "wf_json j \<Longrightarrow> value_ends rest \<Longrightarrow> length (json_text j) \<le> n \<Longrightarrow>
     read_value n (json_text j @ rest) = Some (j, rest)"
  "vs \<noteq> [] \<Longrightarrow> \<forall>v \<in> set vs. wf_json v \<Longrightarrow> list_ends rest' \<Longrightarrow>
     length (json_text_values False vs) \<le> m \<Longrightarrow>
     read_values (Suc m) (json_text_values False vs @ rest') = Some (vs, rest')"
  "kvs \<noteq> [] \<Longrightarrow> \<forall>kv \<in> set kvs. wf_json (snd kv) \<Longrightarrow> list_ends rest'' \<Longrightarrow>
     length (json_text_members False kvs) \<le> l \<Longrightarrow>
     read_members (Suc l) (json_text_members False kvs @ rest'') = Some (kvs, rest'')"
proof (induction j and nc vs and nc' kvs arbitrary: rest n and rest' m and rest'' l
    rule: json_text_json_text_values_json_text_members.induct)
  case (1 s)
  then show ?case by (cases n) (simp_all add: read_string_text json_text_string_def)
next
  case (2 t)
  then show ?case
    by (cases n) (auto simp: read_value_number value_ends_def dest: wf_number_not_Nil)
next
  case (3 b)
  then show ?case by (cases n) (auto simp: expect_def split: if_splits)
next
  case 4
  then show ?case by (cases n) (auto simp: expect_def)
next
  case (5 vs)
  show ?case
  proof (cases "vs = []")
    case False
    obtain n' where n: "n = Suc (Suc n')" "length (json_text_values False vs) \<le> n'"
      using "5.prems"(3) by (cases n; cases "n - 1") auto
    have "read_values (Suc n') (json_text_values False vs @ CHR '']'' # rest) =
        Some (vs, CHR '']'' # rest)"
      using "5.IH" [of "CHR '']'' # rest" n'] "5.prems"(1) False n(2) by simp
    moreover have "expect '']'' (json_text_values False vs @ CHR '']'' # rest) = None"
      using False "5.prems"(1) json_text_first_char [of "hd vs"]
      by (cases vs) (auto simp: expect_def comma_if_def)
    ultimately show ?thesis by (simp add: n)
  qed (use "5.prems" in \<open>cases n; auto\<close>)
next
  case (6 kvs)
  show ?case
  proof (cases "kvs = []")
    case False
    obtain n' where n: "n = Suc (Suc n')" "length (json_text_members False kvs) \<le> n'"
      using "6.prems"(3) by (cases n; cases "n - 1") auto
    have "read_members (Suc n') (json_text_members False kvs @ CHR ''}'' # rest) =
        Some (kvs, CHR ''}'' # rest)"
      using "6.IH" [of "CHR ''}'' # rest" n'] "6.prems"(1) False n(2) by simp
    moreover have "expect ''}'' (json_text_members False kvs @ CHR ''}'' # rest) = None"
      using False
      by (cases kvs) (auto simp: expect_def comma_if_def json_text_string_def)
    ultimately show ?thesis by (simp add: n)
  qed (use "6.prems" in \<open>cases n; auto\<close>)
next
  case (8 nc v vs)
  let ?tl = "json_text_values True vs @ rest'"
  have "value_ends ?tl"
    using "8.prems"(3) by (cases "vs = []") (simp_all add: json_text_values_True list_ends_value_ends)
  moreover have "length (json_text v) \<le> m" "wf_json v"
    using "8.prems" by (simp_all add: comma_if_def)
  ultimately have v: "read_value m (json_text v @ ?tl) = Some (v, ?tl)"
    using "8.IH"(1) by blast
  have "read_values m (json_text_values False vs @ rest') = Some (vs, rest')" if ne: "vs \<noteq> []"
  proof -
    obtain c cs where "json_text v = c # cs"
      using json_text_first_char [of v] "8.prems"(2) by auto
    then obtain m' where "m = Suc m'" "length (json_text_values False vs) \<le> m'"
      using "8.prems"(4) json_text_values_True [OF ne] by (cases m) (simp_all add: comma_if_def)
    then show ?thesis using "8.IH"(2) "8.prems" ne by simp
  qed
  then show ?case
    using read_values_step [OF v, of vs rest' "json_text_values False vs @ rest'"] "8.prems"(3)
    by (cases "vs = []") (simp_all add: comma_if_def json_text_values_True del: read_values.simps)
next
  case (10 nc k v kvs)
  let ?tl = "json_text_members True kvs @ rest''"
  have "value_ends ?tl"
    using "10.prems"(3) by (cases "kvs = []") (simp_all add: json_text_members_True list_ends_value_ends)
  moreover have "length (json_text v) \<le> l" "wf_json v"
    using "10.prems" by (simp_all add: comma_if_def)
  ultimately have v: "read_value l (json_text v @ ?tl) = Some (v, ?tl)"
    using "10.IH"(1) by blast
  have "read_members l (json_text_members False kvs @ rest'') = Some (kvs, rest'')" if ne: "kvs \<noteq> []"
  proof -
    obtain c cs where "json_text v = c # cs"
      using json_text_first_char [of v] "10.prems"(2) by auto
    then obtain l' where "l = Suc l'" "length (json_text_members False kvs) \<le> l'"
      using "10.prems"(4) json_text_members_True [OF ne] by (cases l) (simp_all add: comma_if_def)
    then show ?thesis using "10.IH"(2) "10.prems" ne by simp
  qed
  then show ?case
    using read_members_step [OF v, of kvs rest'' "json_text_members False kvs @ rest''" k] "10.prems"(3)
    by (cases "kvs = []") (simp_all add: comma_if_def json_text_members_True del: read_members.simps)
qed simp_all

theorem read_json_text: "wf_json j \<Longrightarrow> read_json (json_text j) = Some j"
  using read_text(1) [of j "[]" "Suc (length (json_text j))"]
  by (simp add: read_json_def value_ends_def)

text \<open>The text of a document has no control byte, in particular no newline.\<close>

definition printable :: "string \<Rightarrow> bool" where
  "printable s \<longleftrightarrow> (\<forall>c \<in> set s. 0x20 \<le> code_of c)"

lemma printable_simps [simp]:
  "printable []" "printable (c # s) \<longleftrightarrow> 0x20 \<le> code_of c \<and> printable s"
  "printable (s @ t) \<longleftrightarrow> printable s \<and> printable t"
  by (auto simp: printable_def)

lemma printable_no_newline: "printable s \<Longrightarrow> NEWLINE \<notin> set s"
  by (auto simp: printable_def)

lemma printable_digits: "list_all is_digit s \<Longrightarrow> printable s"
  by (auto simp: printable_def list_all_iff is_digit_code)

lemma printable_hex_digit: "n < 16 \<Longrightarrow> 0x20 \<le> code_of (hex_digit n)"
  using hex_digit_lower [of n] by (auto simp: is_lower_hex_def is_digit_code less_eq_char_def)

lemma printable_escape_byte: "printable (escape_byte c)"
  using code_of_less_256 [of c]
  by (auto simp: escape_byte_def zero_pad_hex_byte printable_hex_digit)

lemma printable_string: "printable (json_text_string s)"
  by (induction s) (simp_all add: json_text_string_def printable_escape_byte)

lemma printable_number: "wf_number t \<Longrightarrow> printable t"
  by (drule wf_number_chars) (auto simp: printable_def list_all_iff number_char_def is_digit_code)

lemma json_text_no_control:
  "wf_json j \<Longrightarrow> printable (json_text j)"
  "\<forall>v \<in> set vs. wf_json v \<Longrightarrow> printable (json_text_values nc vs)"
  "\<forall>kv \<in> set kvs. wf_json (snd kv) \<Longrightarrow> printable (json_text_members nc' kvs)"
  by (induction j and nc vs and nc' kvs rule: json_text_json_text_values_json_text_members.induct)
    (auto simp: printable_string printable_number comma_if_def)

end
