(* ===== verification/Sentry_Json_Correct.thy ===== *)
theory Sentry_Json_Correct
  imports Json_Document
begin

text \<open>
  What the writer guarantees. \<open>jw_repr null cap D nc w\<close> is the writer's contract after the
  text \<open>D\<close> was appended: the length counts \<open>D\<close>, whether or not it fitted; the overflow flag
  says exactly that \<open>D\<close> and its NUL do not fit; and as long as they do, the buffer holds \<open>D\<close>
  and a NUL, with not one cell written past its capacity. Every writer call preserves the
  contract and adds a known text, stated once per call: \<open>emits_values\<close> for a value,
  \<open>emits_members\<close> for members of an object, collected in \<open>json_emits\<close>.
\<close>

section \<open>The contract\<close>

definition jw_repr :: "bool \<Rightarrow> nat \<Rightarrow> string \<Rightarrow> bool \<Rightarrow> sentry_json \<Rightarrow> bool" where
  "jw_repr null cap D nc w \<longleftrightarrow>
     (jw_buf w = None) = null \<and> jw_cap w = cap \<and> jw_len w = length D \<and> jw_need_comma w = nc \<and>
     (case jw_buf w of
        None \<Rightarrow> \<not> jw_overflow w
      | Some mem \<Rightarrow>
          length mem = cap \<and> (jw_overflow w \<longleftrightarrow> cap \<le> length D) \<and>
          (\<not> jw_overflow w \<longrightarrow> take (length D) mem = D \<and> mem ! length D = NUL))"

lemma jw_repr_init:
  "(\<And>mem. buf = Some mem \<Longrightarrow> length mem = cap) \<Longrightarrow>
     jw_repr (buf = None) cap [] False (sentry_json_init buf cap)"
  by (auto simp: jw_repr_def sentry_json_init_def mem_write_def Let_def split: option.splits)

lemma jw_repr_append:
  assumes "jw_repr null cap D nc w"
  shows "jw_repr null cap (D @ s) nc (json_append s w)"
proof (cases "jw_buf w")
  case None
  with assms show ?thesis by (simp add: jw_repr_def json_append_def Let_def)
next
  case (Some mem)
  show ?thesis
  proof (cases "jw_overflow w \<or> length D + length s + 1 > cap")
    case True
    with assms Some show ?thesis by (auto simp: jw_repr_def json_append_def Let_def)
  next
    case False
    let ?mem = "mem_write (mem_write mem (length D) s) (length D + length s) [NUL]"
    from assms Some False have len: "length mem = cap" "take (length D) mem = D" "jw_len w = length D"
      by (auto simp: jw_repr_def)
    have "take (length D + length s) (mem_write mem (length D) s) = D @ s"
      using take_mem_write [of "length D" mem s] len False by simp
    then have "take (length D + length s) ?mem = D @ s"
      using len False by (simp add: take_mem_write_prefix)
    moreover have "?mem ! (length D + length s) = NUL"
      using len False by (simp add: nth_mem_write_new)
    ultimately show ?thesis
      using assms Some False len by (auto simp: jw_repr_def json_append_def Let_def)
  qed
qed

lemma jw_repr_need_comma:
  "jw_repr null cap D nc w \<Longrightarrow> jw_repr null cap D b (w\<lparr>jw_need_comma := b\<rparr>)"
  by (simp add: jw_repr_def split: option.splits)

lemma jw_repr_char: "jw_repr null cap D nc w \<Longrightarrow> jw_repr null cap (D @ [c]) nc (append_char c w)"
  by (simp add: append_char_def jw_repr_append)

lemma jw_repr_cstr: "jw_repr null cap D nc w \<Longrightarrow> jw_repr null cap (D @ s) nc (append_cstr s w)"
  by (simp add: append_cstr_def jw_repr_append)

lemma jw_repr_separate:
  "jw_repr null cap D nc w \<Longrightarrow> jw_repr null cap (D @ comma_if nc) nc (json_separate w)"
  using jw_repr_char [of null cap D nc w "CHR '',''"]
  by (auto simp: json_separate_def comma_if_def jw_repr_def)

lemma jw_repr_escaped_loop:
  "jw_repr null cap D nc w \<Longrightarrow>
     jw_repr null cap (D @ concat (map escape_byte s)) nc (write_escaped_loop s w)"
proof (induction s arbitrary: D w)
  case (Cons c s)
  from Cons.IH [OF jw_repr_cstr [OF Cons.prems]] show ?case by simp
qed simp

lemma jw_repr_escaped:
  assumes "jw_repr null cap D nc w"
  shows "jw_repr null cap (D @ json_text_string s) nc (write_escaped s w)"
  using jw_repr_char [OF jw_repr_escaped_loop [OF jw_repr_char [OF assms]]]
  by (simp add: write_escaped_def json_text_string_def)

section \<open>What a statement emits\<close>

definition emits_value :: "(sentry_json \<Rightarrow> sentry_json) \<Rightarrow> json \<Rightarrow> bool" where
  "emits_value p v \<longleftrightarrow>
     (\<forall>null cap D nc w. jw_repr null cap D nc w \<longrightarrow>
        jw_repr null cap (D @ comma_if nc @ json_text v) True (p w))"

definition emits_values :: "(sentry_json \<Rightarrow> sentry_json) \<Rightarrow> json list \<Rightarrow> bool" where
  "emits_values p vs \<longleftrightarrow>
     (\<forall>null cap D nc w. jw_repr null cap D nc w \<longrightarrow>
        jw_repr null cap (D @ json_text_values nc vs) (nc \<or> vs \<noteq> []) (p w))"

definition emits_members :: "(sentry_json \<Rightarrow> sentry_json) \<Rightarrow> (string \<times> json) list \<Rightarrow> bool" where
  "emits_members p kvs \<longleftrightarrow>
     (\<forall>null cap D nc w. jw_repr null cap D nc w \<longrightarrow>
        jw_repr null cap (D @ json_text_members nc kvs) (nc \<or> kvs \<noteq> []) (p w))"

lemma json_text_values_append:
  "json_text_values nc (vs @ us) = json_text_values nc vs @ json_text_values (nc \<or> vs \<noteq> []) us"
  by (induction vs arbitrary: nc) simp_all

lemma json_text_members_append:
  "json_text_members nc (kvs @ us) =
     json_text_members nc kvs @ json_text_members (nc \<or> kvs \<noteq> []) us"
  by (induction kvs arbitrary: nc) auto

lemma emits_values_Nil: "emits_values (json_do []) []"
  by (simp add: emits_values_def)

lemma emits_values_seq:
  assumes "emits_values p vs" and "emits_values (json_do ps) us"
  shows "emits_values (json_do (p # ps)) (vs @ us)"
  using assms unfolding emits_values_def
  by (fastforce simp: json_text_values_append simp flip: append_assoc)

lemma emits_members_Nil: "emits_members (json_do []) []"
  by (simp add: emits_members_def)

lemma emits_members_seq:
  assumes "emits_members p kvs" and "emits_members (json_do ps) us"
  shows "emits_members (json_do (p # ps)) (kvs @ us)"
  using assms unfolding emits_members_def
  by (fastforce simp: json_text_members_append simp flip: append_assoc)

lemma emits_value_values: "emits_value p v \<Longrightarrow> emits_values p [v]"
  by (simp add: emits_value_def emits_values_def)

lemma emits_members_when:
  assumes "emits_members (json_do ps) kvs"
  shows "emits_members (json_when b ps) (if b then kvs else [])"
  using assms by (simp add: emits_members_def json_when_def)

lemma emits_values_when:
  assumes "emits_values (json_do ps) vs"
  shows "emits_values (json_when b ps) (if b then vs else [])"
  using assms by (simp add: emits_values_def json_when_def)

lemma jw_repr_key:
  assumes "jw_repr null cap D nc w"
  shows "jw_repr null cap (D @ comma_if nc @ json_text_string k @ '':'') False (sentry_json_key k w)"
  using jw_repr_need_comma [where b = False, OF jw_repr_char [where c = "CHR '':''",
      OF jw_repr_escaped [where s = k, OF jw_repr_separate [OF assms]]]]
  by (simp add: sentry_json_key_def)

text \<open>A key followed by the statement that writes its value is one member.\<close>

lemma emits_member:
  assumes "emits_value p v"
  shows "emits_members (\<lambda>w. p (sentry_json_key k w)) [(k, v)]"
  unfolding emits_members_def
proof (intro allI impI)
  fix null cap D nc w
  assume "jw_repr null cap D nc w"
  from jw_repr_key [OF this] assms
  have "jw_repr null cap ((D @ comma_if nc @ json_text_string k @ '':'') @ comma_if False @ json_text v)
      True (p (sentry_json_key k w))"
    unfolding emits_value_def by blast
  then show "jw_repr null cap (D @ json_text_members nc [(k, v)]) (nc \<or> [(k, v)] \<noteq> [])
      (p (sentry_json_key k w))"
    by (simp add: comma_if_def)
qed

lemma emits_member_seq:
  assumes "emits_value p v" and "emits_members (json_do ps) us"
  shows "emits_members (json_do (sentry_json_key k # p # ps)) ((k, v) # us)"
  using emits_members_seq [OF emits_member [OF assms(1)] assms(2), of k]
  by (simp add: emits_members_def)

lemma emits_literal:
  "(\<And>w. p w = (append_cstr t (json_separate w))\<lparr>jw_need_comma := True\<rparr>) \<Longrightarrow> json_text v = t \<Longrightarrow>
     emits_value p v"
  unfolding emits_value_def
  using jw_repr_need_comma [OF jw_repr_cstr [OF jw_repr_separate]] by (metis append_assoc)

lemma emits_null: "emits_value sentry_json_null JNull"
  by (rule emits_literal [where t = "''null''"]) (simp_all add: sentry_json_null_def)

lemma emits_uint: "emits_value (sentry_json_uint n) (json_of_uint n)"
  by (rule emits_literal [where t = "dec (unat n)"])
    (simp_all add: sentry_json_uint_def json_of_uint_def)

lemma emits_int: "emits_value (sentry_json_int i) (json_of_int i)"
  by (rule emits_literal [where t = "dec_signed (sint i)"])
    (simp_all add: sentry_json_int_def json_of_int_def)

lemma emits_bool: "emits_value (sentry_json_bool b) (JBool b)"
  by (rule emits_literal [where t = "if b then ''true'' else ''false''"])
    (simp_all add: sentry_json_bool_def)

lemma emits_string: "emits_value (sentry_json_string p) (json_of_cptr p)"
proof (cases p)
  case None
  then show ?thesis
    using emits_null by (simp add: sentry_json_string_def json_of_cptr_def emits_value_def)
next
  case (Some s)
  then show ?thesis
    unfolding emits_value_def sentry_json_string_def json_of_cptr_def
    using jw_repr_need_comma [OF jw_repr_escaped [OF jw_repr_separate]] by simp
qed

lemma emits_in_object:
  assumes "emits_members (json_do body) kvs"
  shows "emits_value (in_object body) (JObject kvs)"
  unfolding emits_value_def
proof (intro allI impI)
  fix null cap D nc w
  assume "jw_repr null cap D nc w"
  from jw_repr_need_comma [where b = False,
      OF jw_repr_char [where c = "CHR ''{''", OF jw_repr_separate [OF this]]]
  have "jw_repr null cap (D @ comma_if nc @ ''{'') False (sentry_json_object_begin w)"
    by (simp add: sentry_json_object_begin_def)
  with assms have "jw_repr null cap ((D @ comma_if nc @ ''{'') @ json_text_members False kvs)
      (False \<or> kvs \<noteq> []) (json_do body (sentry_json_object_begin w))"
    unfolding emits_members_def by blast
  from jw_repr_need_comma [where b = True, OF jw_repr_char [where c = "CHR ''}''", OF this]]
  show "jw_repr null cap (D @ comma_if nc @ json_text (JObject kvs)) True (in_object body w)"
    by (simp add: in_object_def sentry_json_object_end_def)
qed

lemma emits_in_array:
  assumes "emits_values (json_do body) vs"
  shows "emits_value (in_array body) (JArray vs)"
  unfolding emits_value_def
proof (intro allI impI)
  fix null cap D nc w
  assume "jw_repr null cap D nc w"
  from jw_repr_need_comma [where b = False,
      OF jw_repr_char [where c = "CHR ''[''", OF jw_repr_separate [OF this]]]
  have "jw_repr null cap (D @ comma_if nc @ ''['') False (sentry_json_array_begin w)"
    by (simp add: sentry_json_array_begin_def)
  with assms have "jw_repr null cap ((D @ comma_if nc @ ''['') @ json_text_values False vs)
      (False \<or> vs \<noteq> []) (json_do body (sentry_json_array_begin w))"
    unfolding emits_values_def by blast
  from jw_repr_need_comma [where b = True, OF jw_repr_char [where c = "CHR '']''", OF this]]
  show "jw_repr null cap (D @ comma_if nc @ json_text (JArray vs)) True (in_array body w)"
    by (simp add: in_array_def sentry_json_array_end_def)
qed

lemma emits_kv_string: "emits_members (sentry_json_kv_string k p) [(k, json_of_cptr p)]"
  using emits_member [OF emits_string] by (simp add: sentry_json_kv_string_def [abs_def])

lemma emits_kv_uint: "emits_members (sentry_json_kv_uint k n) [(k, json_of_uint n)]"
  using emits_member [OF emits_uint] by (simp add: sentry_json_kv_uint_def [abs_def])

lemma emits_kv_bool: "emits_members (sentry_json_kv_bool k b) [(k, JBool b)]"
  using emits_member [OF emits_bool] by (simp add: sentry_json_kv_bool_def [abs_def])

lemma emits_kv_string_opt: "emits_members (sentry_json_kv_string_opt k p) (opt_member k p)"
  using emits_kv_string [of k p]
  by (cases p) (simp_all add: sentry_json_kv_string_opt_def [abs_def] opt_member_def emits_members_def)

lemma emits_kv_micros: "emits_members (sentry_json_kv_micros k n) [(k, JNumber (micros_text n))]"
proof -
  have "emits_value (\<lambda>w. (append_cstr (micros_text n) (json_separate w))\<lparr>jw_need_comma := True\<rparr>)
      (JNumber (micros_text n))"
    by (rule emits_literal [where t = "micros_text n"]) simp_all
  from emits_member [OF this] show ?thesis by (simp add: sentry_json_kv_micros_def [abs_def])
qed

lemmas [json_emits] = emits_members_Nil emits_values_Nil emits_kv_string emits_kv_uint emits_kv_bool
  emits_kv_string_opt emits_kv_micros emits_members_when emits_in_object emits_in_array
  emits_string emits_uint emits_int emits_bool emits_null

section \<open>Whole documents\<close>

text \<open>
  A program that emits the value \<open>v\<close>, run on a fresh writer: the three outcomes the callers
  rely on.
\<close>

lemma emits_value_counts:
  assumes "emits_value p v"
  shows "jw_len (p (sentry_json_init None 0)) = length (json_text v)"
    and "\<not> jw_overflow (p (sentry_json_init None 0))"
proof -
  have "jw_repr True 0 [] False (sentry_json_init None 0)"
    using jw_repr_init [of None 0] by simp
  with assms have "jw_repr True 0 ([] @ comma_if False @ json_text v) True (p (sentry_json_init None 0))"
    unfolding emits_value_def by blast
  then show "jw_len (p (sentry_json_init None 0)) = length (json_text v)"
    and "\<not> jw_overflow (p (sentry_json_init None 0))"
    by (auto simp: jw_repr_def comma_if_def split: option.splits)
qed

lemma emits_value_writes:
  assumes "emits_value p v" and "length mem = cap"
  shows "jw_repr False cap (json_text v) True (p (sentry_json_init (Some mem) cap))"
proof -
  have "jw_repr False cap [] False (sentry_json_init (Some mem) cap)"
    using jw_repr_init [of "Some mem" cap] assms(2) by simp
  with assms(1) have "jw_repr False cap ([] @ comma_if False @ json_text v) True
      (p (sentry_json_init (Some mem) cap))"
    unfolding emits_value_def by blast
  then show ?thesis by (simp add: comma_if_def)
qed

lemma wf_number_dec: "wf_number (dec n)"
proof -
  have digits: "list_all is_digit (dec n)"
    by (auto simp: list_all_iff dec_digits)
  have lead: "hd (dec n) = CHR ''0'' \<longrightarrow> length (dec n) = 1" for n
  proof (induction n rule: dec.induct)
    case (1 n)
    show ?case
    proof (cases "n < 10")
      case True
      then show ?thesis by (simp add: dec.simps [of n])
    next
      case False
      then have "hd (dec (n div 10)) \<noteq> CHR ''0''"
      proof (cases "n div 10 < 10")
        case True
        then have "dec (n div 10) = [hex_digit (n div 10)]" by (simp add: dec.simps [of "n div 10"])
        moreover have "n div 10 \<noteq> 0" using False by simp
        ultimately show ?thesis
          using True code_of_hex_digit_decimal [of "n div 10"] by (auto dest: arg_cong [of _ _ code_of])
      next
        case F2: False
        then have "length (dec (n div 10)) \<noteq> 1"
          using dec_not_Nil by (subst dec.simps) simp
        then show ?thesis using "1" False by auto
      qed
      then show ?thesis using False by (simp add: dec.simps [of n])
    qed
  qed
  have "dec n \<noteq> []" and "hd (dec n) \<noteq> CHR ''-''"
    using digits dec_not_Nil [of n] by (cases "dec n"; auto simp: is_digit_code)+
  moreover have "takeWhile is_digit (dec n) = dec n" "dropWhile is_digit (dec n) = []"
    using digits by (auto simp: list_all_iff)
  ultimately show ?thesis
    using digits lead
    by (simp add: wf_number_def wf_unsigned_number_def wf_integer_part_def Let_def
        del: takeWhile_eq_all_conv dropWhile_eq_Nil_conv)
qed

lemma wf_number_dec_signed: "wf_number (dec_signed i)"
proof (cases "i < 0")
  case True
  have "dec (nat (- i)) \<noteq> [] \<and> hd (dec (nat (- i))) \<noteq> CHR ''-''"
    using dec_not_Nil [of "nat (- i)"] dec_digits [of "hd (dec (nat (- i)))" "nat (- i)"]
    by (cases "dec (nat (- i))") (auto simp: is_digit_code)
  with wf_number_dec [of "nat (- i)"] True show ?thesis
    by (simp add: wf_number_def dec_signed_def)
qed (simp add: dec_signed_def wf_number_dec)

lemma wf_number_fraction:
  assumes "wf_number ip" and "list_all is_digit ip" and "fp \<noteq> []" and "list_all is_digit fp"
  shows "wf_number (ip @ ''.'' @ fp)"
proof -
  have tw: "takeWhile is_digit (ip @ CHR ''.'' # fp) = ip"
    "dropWhile is_digit (ip @ CHR ''.'' # fp) = CHR ''.'' # fp"
    using assms(2) by (auto simp: list_all_iff is_digit_code takeWhile_append dropWhile_append)
  have "takeWhile is_digit ip = ip" using assms(2) by (simp add: list_all_iff)
  moreover have "ip \<noteq> [] \<and> hd ip \<noteq> CHR ''-''"
    using assms(1,2) wf_number_not_Nil by (cases ip) (auto simp: is_digit_code)
  ultimately show ?thesis
    using assms tw
    by (simp add: wf_number_def wf_unsigned_number_def Let_def
        del: takeWhile_eq_all_conv dropWhile_eq_Nil_conv)
qed

lemma list_all_digits_dec: "list_all is_digit (dec n)"
  by (auto simp: list_all_iff dec_digits)

lemma wf_number_micros: "wf_number (micros_text n)"
proof -
  let ?f = "zero_pad 6 (dec (unat (n mod 1000000)))"
  have "list_all is_digit ?f"
    using list_all_digits_dec by (auto simp: zero_pad_def list_all_iff is_digit_code)
  moreover have "?f \<noteq> []" by (simp add: zero_pad_def)
  ultimately show ?thesis
    unfolding micros_text_def by (intro wf_number_fraction wf_number_dec list_all_digits_dec)
qed

lemma wf_json_values [simp]:
  "wf_json (json_of_cptr p)" "wf_json (json_of_uint n)" "wf_json (json_of_int i)"
  "wf_json (JNumber (micros_text n))"
  by (simp_all add: json_of_cptr_def json_of_uint_def json_of_int_def wf_number_dec
      wf_number_dec_signed wf_number_micros split: option.split)

lemma wf_json_opt_member: "kv \<in> set (opt_member k p) \<Longrightarrow> wf_json (snd kv)"
  by (auto simp: opt_member_def split: if_splits)

section \<open>Any sequence of calls\<close>

text \<open>
  The public calls of the writer as data, so that a property can speak of every program a
  client can write.
\<close>

datatype json_call =
    CallObjectBegin | CallObjectEnd | CallArrayBegin | CallArrayEnd
  | CallKey string | CallString cptr | CallUint u64 | CallInt i64 | CallBool bool | CallNull
  | CallKvString string cptr | CallKvUint string u64 | CallKvBool string bool
  | CallKvStringOpt string cptr | CallKvMicros string u64

fun do_call :: "json_call \<Rightarrow> sentry_json \<Rightarrow> sentry_json" where
  "do_call CallObjectBegin w = sentry_json_object_begin w"
| "do_call CallObjectEnd w = sentry_json_object_end w"
| "do_call CallArrayBegin w = sentry_json_array_begin w"
| "do_call CallArrayEnd w = sentry_json_array_end w"
| "do_call (CallKey k) w = sentry_json_key k w"
| "do_call (CallString p) w = sentry_json_string p w"
| "do_call (CallUint n) w = sentry_json_uint n w"
| "do_call (CallInt i) w = sentry_json_int i w"
| "do_call (CallBool b) w = sentry_json_bool b w"
| "do_call CallNull w = sentry_json_null w"
| "do_call (CallKvString k p) w = sentry_json_kv_string k p w"
| "do_call (CallKvUint k n) w = sentry_json_kv_uint k n w"
| "do_call (CallKvBool k b) w = sentry_json_kv_bool k b w"
| "do_call (CallKvStringOpt k p) w = sentry_json_kv_string_opt k p w"
| "do_call (CallKvMicros k n) w = sentry_json_kv_micros k n w"

definition json_calls :: "json_call list \<Rightarrow> sentry_json \<Rightarrow> sentry_json" where
  "json_calls cs w = fold do_call cs w"

text \<open>The text one call adds and the comma state it leaves.\<close>

fun call_text :: "bool \<Rightarrow> json_call \<Rightarrow> string" where
  "call_text nc CallObjectBegin = comma_if nc @ ''{''"
| "call_text nc CallObjectEnd = ''}''"
| "call_text nc CallArrayBegin = comma_if nc @ ''[''"
| "call_text nc CallArrayEnd = '']''"
| "call_text nc (CallKey k) = comma_if nc @ json_text_string k @ '':''"
| "call_text nc (CallString p) = comma_if nc @ json_text (json_of_cptr p)"
| "call_text nc (CallUint n) = comma_if nc @ dec (unat n)"
| "call_text nc (CallInt i) = comma_if nc @ dec_signed (sint i)"
| "call_text nc (CallBool b) = comma_if nc @ (if b then ''true'' else ''false'')"
| "call_text nc CallNull = comma_if nc @ ''null''"
| "call_text nc (CallKvString k p) = json_text_members nc [(k, json_of_cptr p)]"
| "call_text nc (CallKvUint k n) = json_text_members nc [(k, json_of_uint n)]"
| "call_text nc (CallKvBool k b) = json_text_members nc [(k, JBool b)]"
| "call_text nc (CallKvStringOpt k p) = json_text_members nc (opt_member k p)"
| "call_text nc (CallKvMicros k n) = json_text_members nc [(k, JNumber (micros_text n))]"

fun call_comma :: "bool \<Rightarrow> json_call \<Rightarrow> bool" where
  "call_comma nc CallObjectBegin = False"
| "call_comma nc CallArrayBegin = False"
| "call_comma nc (CallKey k) = False"
| "call_comma nc (CallKvStringOpt k p) = (nc \<or> opt_member k p \<noteq> [])"
| "call_comma nc _ = True"

fun calls_text :: "bool \<Rightarrow> json_call list \<Rightarrow> string" where
  "calls_text nc [] = []"
| "calls_text nc (c # cs) = call_text nc c @ calls_text (call_comma nc c) cs"

fun calls_comma :: "bool \<Rightarrow> json_call list \<Rightarrow> bool" where
  "calls_comma nc [] = nc"
| "calls_comma nc (c # cs) = calls_comma (call_comma nc c) cs"

lemma emits_valueD:
  "emits_value p v \<Longrightarrow> jw_repr null cap D nc w \<Longrightarrow>
     jw_repr null cap (D @ comma_if nc @ json_text v) True (p w)"
  unfolding emits_value_def by blast

lemma emits_membersD:
  "emits_members p kvs \<Longrightarrow> jw_repr null cap D nc w \<Longrightarrow>
     jw_repr null cap (D @ json_text_members nc kvs) (nc \<or> kvs \<noteq> []) (p w)"
  unfolding emits_members_def by blast

lemma jw_repr_call:
  assumes "jw_repr null cap D nc w"
  shows "jw_repr null cap (D @ call_text nc c) (call_comma nc c) (do_call c w)"
proof (cases c)
  case CallObjectBegin
  with assms show ?thesis
    using jw_repr_need_comma [where b = False,
        OF jw_repr_char [where c = "CHR ''{''", OF jw_repr_separate [OF assms]]]
    by (simp add: sentry_json_object_begin_def)
next
  case CallObjectEnd
  with assms show ?thesis
    using jw_repr_need_comma [where b = True, OF jw_repr_char [where c = "CHR ''}''", OF assms]]
    by (simp add: sentry_json_object_end_def)
next
  case CallArrayBegin
  with assms show ?thesis
    using jw_repr_need_comma [where b = False,
        OF jw_repr_char [where c = "CHR ''[''", OF jw_repr_separate [OF assms]]]
    by (simp add: sentry_json_array_begin_def)
next
  case CallArrayEnd
  with assms show ?thesis
    using jw_repr_need_comma [where b = True, OF jw_repr_char [where c = "CHR '']''", OF assms]]
    by (simp add: sentry_json_array_end_def)
next
  case (CallKey k)
  with assms show ?thesis using jw_repr_key [OF assms, of k] by simp
next
  case (CallString p)
  then show ?thesis using emits_valueD [OF emits_string assms] by simp
next
  case (CallUint n)
  then show ?thesis using emits_valueD [OF emits_uint assms] by (simp add: json_of_uint_def)
next
  case (CallInt i)
  then show ?thesis using emits_valueD [OF emits_int assms] by (simp add: json_of_int_def)
next
  case (CallBool b)
  then show ?thesis using emits_valueD [OF emits_bool assms, of b] by simp
next
  case CallNull
  then show ?thesis using emits_valueD [OF emits_null assms] by simp
next
  case (CallKvString k p)
  then show ?thesis using emits_membersD [OF emits_kv_string assms, of k p] by simp
next
  case (CallKvUint k n)
  then show ?thesis using emits_membersD [OF emits_kv_uint assms, of k n] by simp
next
  case (CallKvBool k b)
  then show ?thesis using emits_membersD [OF emits_kv_bool assms, of k b] by simp
next
  case (CallKvStringOpt k p)
  then show ?thesis using emits_membersD [OF emits_kv_string_opt assms, of k p] by simp
next
  case (CallKvMicros k n)
  then show ?thesis using emits_membersD [OF emits_kv_micros assms, of k n] by simp
qed

lemma jw_repr_calls:
  "jw_repr null cap D nc w \<Longrightarrow>
     jw_repr null cap (D @ calls_text nc cs) (calls_comma nc cs) (json_calls cs w)"
proof (induction cs arbitrary: D nc w)
  case (Cons c cs)
  from Cons.IH [OF jw_repr_call [OF Cons.prems, of c]] show ?case by (simp add: json_calls_def)
qed (simp add: json_calls_def)

lemma jw_repr_calls_init:
  "(\<And>mem. buf = Some mem \<Longrightarrow> length mem = cap) \<Longrightarrow>
     jw_repr (buf = None) cap (calls_text False cs) (calls_comma False cs)
       (json_calls cs (sentry_json_init buf cap))"
  using jw_repr_calls [OF jw_repr_init [of buf cap]] by simp

section \<open>Properties\<close>

text \<open>
  C16: The JSON writer never writes outside its buffer, and its counting pass (a NULL buffer)
  reports exactly the length the writing pass needs: for every sequence of public calls, both
  passes count the same length, the overflow flag is set exactly when the text and its NUL do
  not fit, and otherwise the buffer holds the text and a NUL.
\<close>

theorem json_writer_counts_and_bounds:
  fixes cs :: "json_call list" and mem :: string and cap :: nat
  assumes "length mem = cap"
  defines "w \<equiv> json_calls cs (sentry_json_init (Some mem) cap)"
    and "n \<equiv> jw_len (json_calls cs (sentry_json_init None 0))"
  shows "jw_len w = n \<and> n = length (calls_text False cs) \<and> (jw_overflow w \<longleftrightarrow> cap \<le> n) \<and>
    (\<exists>mem'. jw_buf w = Some mem' \<and> length mem' = cap \<and>
       (n < cap \<longrightarrow> take n mem' = calls_text False cs \<and> mem' ! n = NUL))"
proof -
  have "jw_repr True 0 (calls_text False cs) (calls_comma False cs)
      (json_calls cs (sentry_json_init None 0))"
    using jw_repr_calls_init [of None 0 cs] by simp
  then have "n = length (calls_text False cs)" by (simp add: jw_repr_def n_def)
  moreover have "jw_repr False cap (calls_text False cs) (calls_comma False cs) w"
    using jw_repr_calls_init [of "Some mem" cap cs] assms(1) by (simp add: w_def)
  ultimately show ?thesis by (auto simp: jw_repr_def split: option.splits)
qed

theorem json_writer_counts_and_bounds_witness:
  "length (replicate 8 NUL) = 8 \<and>
   jw_overflow (json_calls [CallObjectBegin, CallKvBool ''a'' True, CallObjectEnd]
     (sentry_json_init (Some (replicate 8 NUL)) 8)) \<and>
   jw_len (json_calls [CallObjectBegin, CallKvBool ''a'' True, CallObjectEnd]
     (sentry_json_init (Some (replicate 8 NUL)) 8)) = 10"
  using json_writer_counts_and_bounds
    [of "replicate 8 NUL" 8 "[CallObjectBegin, CallKvBool ''a'' True, CallObjectEnd]"]
  by (simp add: comma_if_def json_text_string_def escape_byte_def)

text \<open>
  String escaping loses nothing: a string of any bytes, written with
  \<open>sentry_json_string\<close> into a buffer that holds the length the counting pass reported, leaves a C
  string that an RFC 8259 reader reads back as that string.
\<close>

theorem json_string_roundtrip:
  assumes "length mem = cap"
    and "jw_len (sentry_json_string (Some s) (sentry_json_init None 0)) < cap"
  shows "\<exists>mem'. jw_buf (sentry_json_string (Some s) (sentry_json_init (Some mem) cap)) = Some mem' \<and>
    read_json (takeWhile (\<lambda>c. c \<noteq> NUL) mem') = Some (JString s)"
proof -
  let ?D = "json_text (JString s)"
  note emits = emits_string [of "Some s", unfolded json_of_cptr_def option.case]
  have "length ?D < cap"
    using emits_value_counts(1) [OF emits] assms(2) by simp
  moreover have "jw_repr False cap ?D True (sentry_json_string (Some s) (sentry_json_init (Some mem) cap))"
    by (rule emits_value_writes [OF emits assms(1)])
  ultimately obtain mem' where
    mem': "jw_buf (sentry_json_string (Some s) (sentry_json_init (Some mem) cap)) = Some mem'"
      "length mem' = cap" "take (length ?D) mem' = ?D" "mem' ! length ?D = NUL"
    by (auto simp: jw_repr_def split: option.splits)
  have "\<forall>c \<in> set ?D. c \<noteq> NUL"
    using json_text_no_control(1) [of "JString s"] by (auto simp: printable_def)
  moreover have "drop (length ?D) mem' = NUL # drop (Suc (length ?D)) mem'"
    using mem'(2,4) \<open>length ?D < cap\<close> by (metis Cons_nth_drop_Suc)
  ultimately have "takeWhile (\<lambda>c. c \<noteq> NUL) (take (length ?D) mem' @ drop (length ?D) mem') = ?D"
    using mem'(3) by simp
  then show ?thesis using mem'(1) read_json_text [of "JString s"] by simp
qed

theorem json_string_roundtrip_witness:
  "\<exists>mem'. jw_buf (sentry_json_string (Some [QUOTE, CHR 0x01, CHR 0xC3])
       (sentry_json_init (Some (replicate 16 NUL)) 16)) = Some mem' \<and>
     read_json (takeWhile (\<lambda>c. c \<noteq> NUL) mem') = Some (JString [QUOTE, CHR 0x01, CHR 0xC3])"
proof (rule json_string_roundtrip)
  show "length (replicate 16 NUL) = 16" by simp
  show "jw_len (sentry_json_string (Some [QUOTE, CHR 0x01, CHR 0xC3]) (sentry_json_init None 0)) < 16"
    using emits_value_counts(1) [OF emits_string [of "Some [QUOTE, CHR 0x01, CHR 0xC3]"]]
    by (simp add: json_of_cptr_def json_text_string_def escape_byte_def zero_pad_hex_byte)
qed

end
