(* ===== verification/Envelope_Frame.thy ===== *)
theory Envelope_Frame
  imports Sentry_Json_Correct
begin

text \<open>
  The envelope frame that the writers of \<open>src/core/sentry_envelope.c\<close>, \<open>sentry_log.c\<close> and
  \<open>sentry_metrics.c\<close> share, statement for statement: measure the payload with a counting pass,
  print the header that states its length, and write the payload behind it when the whole
  envelope and its NUL fit.

  \<open>envelope_payload\<close> is the interface of a payload writer; inside it the frame is proved to
  write exactly the three lines of an envelope. \<open>read_envelope\<close> is a reader of the wire format
  written from the envelope specification, the other end of the contract.
\<close>

section \<open>The frame\<close>

type_synonym payload_fn = "string option \<Rightarrow> nat \<Rightarrow> string option \<times> nat"

definition write_framed :: "string \<Rightarrow> nat \<Rightarrow> payload_fn \<Rightarrow> string \<Rightarrow> nat \<Rightarrow> string" where
  "write_framed header payload_len payload mem cap =
     (let header_len = length header;
          mem1 = mem_write mem 0 header;
          (tail, _) = payload (Some (drop header_len mem1)) (cap - header_len);
          mem2 = take header_len mem1 @ (case tail of Some t \<Rightarrow> t | None \<Rightarrow> []);
          mem3 = mem_write mem2 (header_len + payload_len) [NEWLINE]
      in mem_write mem3 (header_len + payload_len + 1) [NUL])"

definition clear_first :: "string option \<Rightarrow> string option" where
  "clear_first buf = (case buf of None \<Rightarrow> None | Some mem \<Rightarrow> Some (mem_write mem 0 [NUL]))"

definition clear_if_room :: "string option \<Rightarrow> nat \<Rightarrow> string option" where
  "clear_if_room buf cap = (if cap > 0 then clear_first buf else buf)"

text \<open>\<open>header_cap\<close> is the size of the local \<open>header\<close> array and \<open>header_of\<close> its format.\<close>

definition envelope_frame ::
    "nat \<Rightarrow> (nat \<Rightarrow> string) \<Rightarrow> payload_fn \<Rightarrow> string option \<Rightarrow> nat \<Rightarrow> string option \<times> nat" where
  "envelope_frame header_cap header_of payload buf cap =
     (let payload_len = snd (payload None 0);
          header = header_of payload_len;
          total = length header + payload_len + 1
      in if length header \<ge> header_cap then (clear_if_room buf cap, 0)
         else
           (case buf of
              None \<Rightarrow> (None, total)
            | Some mem \<Rightarrow>
                if total + 1 > cap then (clear_first buf, total)
                else (Some (write_framed header payload_len payload mem cap), total)))"

section \<open>Reading an envelope\<close>

definition read_nat :: "string \<Rightarrow> nat option" where
  "read_nat s =
     (if s \<noteq> [] \<and> list_all is_digit s
      then Some (fold (\<lambda>c n. 10 * n + (code_of c - 48)) s 0) else None)"

definition json_member :: "string \<Rightarrow> json \<Rightarrow> json option" where
  "json_member k d = (case d of JObject kvs \<Rightarrow> map_of kvs k | _ \<Rightarrow> None)"

definition length_member :: "json \<Rightarrow> nat option" where
  "length_member d = (case json_member ''length'' d of Some (JNumber t) \<Rightarrow> read_nat t | _ \<Rightarrow> None)"

definition split_line :: "string \<Rightarrow> (string \<times> string) option" where
  "split_line s = (let l = takeWhile (\<lambda>c. c \<noteq> NEWLINE) s in
     if length l < length s then Some (l, drop (length l + 1) s) else None)"

text \<open>
  The envelope header, the header of its one item and the payload: the payload is the
  \<open>length\<close> bytes after the item header, and one newline ends it.
\<close>

definition read_envelope :: "string \<Rightarrow> (json \<times> json \<times> json) option" where
  "read_envelope s =
     (case split_line s of
        None \<Rightarrow> None
      | Some (l1, s1) \<Rightarrow>
          (case split_line s1 of
             None \<Rightarrow> None
           | Some (l2, s2) \<Rightarrow>
               (case (read_json l1, read_json l2) of
                  (Some d1, Some d2) \<Rightarrow>
                    (case length_member d2 of
                       None \<Rightarrow> None
                     | Some n \<Rightarrow>
                         if drop n s2 = [NEWLINE]
                         then map_option (\<lambda>d. (d1, d2, d)) (read_json (take n s2)) else None)
                | _ \<Rightarrow> None)))"

lemma read_nat_dec: "read_nat (dec n) = Some n"
  by (simp add: read_nat_def list_all_digits_dec fold_dec)

lemma split_line_text: "NEWLINE \<notin> set l \<Longrightarrow> split_line (l @ NEWLINE # s) = Some (l, s)"
  by (auto simp: split_line_def takeWhile_append Let_def takeWhile_eq_all_conv [THEN iffD2])

lemma json_text_no_newline: "wf_json d \<Longrightarrow> NEWLINE \<notin> set (json_text d)"
  using json_text_no_control(1) [of d] by (auto simp: printable_def)

definition envelope_text :: "json \<Rightarrow> json \<Rightarrow> json \<Rightarrow> string" where
  "envelope_text d1 d2 d =
     json_text d1 @ [NEWLINE] @ json_text d2 @ [NEWLINE] @ json_text d @ [NEWLINE]"

lemma read_envelope_text:
  assumes "wf_json d1" "wf_json d2" "wf_json d"
    and "length_member d2 = Some (length (json_text d))"
  shows "read_envelope (envelope_text d1 d2 d) = Some (d1, d2, d)"
  using assms
  by (simp add: read_envelope_def envelope_text_def split_line_text json_text_no_newline
      read_json_text)

section \<open>The payload interface\<close>

text \<open>The C string a memory block holds.\<close>

definition cstring_of :: "string \<Rightarrow> string" where
  "cstring_of mem = takeWhile (\<lambda>c. c \<noteq> NUL) mem"

lemma cstring_of_prefix:
  assumes "take n mem = s" and "n < length mem" and "mem ! n = NUL" and "NUL \<notin> set s"
  shows "cstring_of mem = s"
proof -
  have "mem = s @ NUL # drop (Suc n) mem"
    using assms(1,2,3) by (metis Cons_nth_drop_Suc append_take_drop_id)
  then have "cstring_of mem = takeWhile (\<lambda>c. c \<noteq> NUL) (s @ NUL # drop (Suc n) mem)"
    by (simp add: cstring_of_def)
  then show ?thesis using assms(4) by (auto simp: takeWhile_append)
qed

lemma json_text_no_NUL: "wf_json d \<Longrightarrow> NUL \<notin> set (json_text d)"
  using json_text_no_control(1) [of d] by (auto simp: printable_def)

locale envelope_payload =
  fixes payload :: "'a \<Rightarrow> payload_fn"
    and doc :: "'a \<Rightarrow> json"
    and valid :: "'a \<Rightarrow> bool"
  assumes payload_counts: "valid x \<Longrightarrow> payload x None 0 = (None, length (json_text (doc x)))"
    and payload_writes:
      "valid x \<Longrightarrow> length mem = cap \<Longrightarrow> length (json_text (doc x)) < cap \<Longrightarrow>
         \<exists>mem'. payload x (Some mem) cap = (Some mem', length (json_text (doc x))) \<and>
           length mem' = cap \<and> take (length (json_text (doc x))) mem' = json_text (doc x)"
    and doc_wf: "valid x \<Longrightarrow> wf_json (doc x)"
begin

lemma frame_counts:
  assumes "valid x" and "length (header_of (length (json_text (doc x)))) < header_cap"
  shows "envelope_frame header_cap header_of (payload x) None cap =
    (None, length (header_of (length (json_text (doc x)))) + length (json_text (doc x)) + 1)"
  using assms by (simp add: envelope_frame_def payload_counts Let_def)

lemma frame_header_too_long:
  assumes "valid x" and "header_cap \<le> length (header_of (length (json_text (doc x))))"
  shows "envelope_frame header_cap header_of (payload x) buf cap = (clear_if_room buf cap, 0)"
  using assms by (simp add: envelope_frame_def payload_counts Let_def)

lemma frame_too_small:
  assumes "valid x" and "length (header_of (length (json_text (doc x)))) < header_cap"
    and "cap \<le> length (header_of (length (json_text (doc x)))) + length (json_text (doc x)) + 1"
  shows "envelope_frame header_cap header_of (payload x) (Some mem) cap =
    (Some (mem_write mem 0 [NUL]),
     length (header_of (length (json_text (doc x)))) + length (json_text (doc x)) + 1)"
  using assms by (simp add: envelope_frame_def payload_counts Let_def clear_first_def)

lemma framed_text:
  assumes "valid x" and "length mem = cap" and n: "n = length (json_text (doc x))"
    and "length header + n + 1 < cap"
  shows "length (write_framed header n (payload x) mem cap) = cap"
    and "take (length header + n + 1) (write_framed header n (payload x) mem cap) =
      header @ json_text (doc x) @ [NEWLINE]"
    and "write_framed header n (payload x) mem cap ! (length header + n + 1) = NUL"
proof -
  let ?mem1 = "mem_write mem 0 header"
  have mem1: "length ?mem1 = cap" "take (length header) ?mem1 = header"
    using assms(2,4) take_mem_write [of 0 mem header] by simp_all
  then obtain tail where tail: "payload x (Some (drop (length header) ?mem1)) (cap - length header) =
      (Some tail, n)" "length tail = cap - length header" "take n tail = json_text (doc x)"
    using payload_writes [OF assms(1), of "drop (length header) ?mem1" "cap - length header",
        unfolded length_drop mem1(1)] assms(4) unfolding n by (auto simp: less_diff_conv)
  let ?mem2 = "header @ tail"
  have fr: "write_framed header n (payload x) mem cap =
      mem_write (mem_write ?mem2 (length header + n) [NEWLINE]) (length header + n + 1) [NUL]"
    using tail(1) mem1(2) by (simp add: write_framed_def Let_def)
  have len2: "length ?mem2 = cap" and take2: "take (length header + n) ?mem2 = header @ json_text (doc x)"
    using tail(2,3) assms(4) by auto
  have take3: "take (length header + n + 1) (mem_write ?mem2 (length header + n) [NEWLINE]) =
      (header @ json_text (doc x)) @ [NEWLINE]"
    using take_mem_write [of "length header + n" ?mem2 "[NEWLINE]"] len2 take2 assms(4) by simp
  show "length (write_framed header n (payload x) mem cap) = cap"
    using len2 assms(4) by (simp add: fr)
  show "take (length header + n + 1) (write_framed header n (payload x) mem cap) =
      header @ json_text (doc x) @ [NEWLINE]"
    unfolding fr using len2 take3 assms(4) by (simp add: take_mem_write_prefix)
  show "write_framed header n (payload x) mem cap ! (length header + n + 1) = NUL"
    unfolding fr using len2 assms(4) by (simp add: nth_mem_write_new)
qed

text \<open>
  The contract of a whole envelope: with a header that is two documents on two lines, of
  which the second states the payload length, the buffer holds an envelope that reads back as
  those two headers and the document of the payload.
\<close>

theorem frame_reads_back:
  assumes "valid x" and "length mem = cap" and n: "n = length (json_text (doc x))"
    and header: "header_of n = json_text d1 @ [NEWLINE] @ json_text d2 @ [NEWLINE]"
    and "wf_json d1" "wf_json d2" "length_member d2 = Some n"
    and "length (header_of n) < header_cap" and "length (header_of n) + n + 1 < cap"
  shows "\<exists>mem'. envelope_frame header_cap header_of (payload x) (Some mem) cap =
      (Some mem', length (header_of n) + n + 1) \<and> length mem' = cap \<and>
      length (cstring_of mem') = length (header_of n) + n + 1 \<and>
      read_envelope (cstring_of mem') = Some (d1, d2, doc x)"
proof -
  let ?m = "write_framed (header_of n) n (payload x) mem cap"
  note w = framed_text [OF assms(1,2) n assms(9)]
  have eq: "header_of n @ json_text (doc x) @ [NEWLINE] = envelope_text d1 d2 (doc x)"
    by (simp add: header envelope_text_def)
  have "NUL \<notin> set (envelope_text d1 d2 (doc x))"
    using assms(1,5,6) doc_wf by (auto simp: envelope_text_def dest: json_text_no_NUL)
  then have str: "cstring_of ?m = envelope_text d1 d2 (doc x)"
    using w assms(9) unfolding eq by (intro cstring_of_prefix) auto
  have "length (envelope_text d1 d2 (doc x)) = length (header_of n) + n + 1"
    by (simp add: eq [symmetric] n)
  moreover have "read_envelope (envelope_text d1 d2 (doc x)) = Some (d1, d2, doc x)"
    using assms(1,5,6,7) n doc_wf by (simp add: read_envelope_text)
  moreover have "envelope_frame header_cap header_of (payload x) (Some mem) cap =
      (Some ?m, length (header_of n) + n + 1)"
    using assms(1,8,9) n payload_counts by (simp add: envelope_frame_def Let_def)
  ultimately show ?thesis using w(1) str by simp
qed

text \<open>Both cases together, for a header that states the length and fits its array.\<close>

theorem exact_or_absent:
  fixes x header_cap header_of mem cap top item
  defines "wr \<equiv> envelope_frame header_cap header_of (payload x)"
  assumes "valid x" and "length mem = cap" and "cap \<le> 2 ^ 32"
    and header: "\<And>k. k < 2 ^ 32 \<Longrightarrow> header_of k = json_text top @ [NEWLINE] @ json_text (item k) @ [NEWLINE]"
    and "wf_json top" "\<And>k. wf_json (item k)" "\<And>k. length_member (item k) = Some k"
    and short: "\<And>k. length (header_of k) < header_cap"
  shows "if snd (wr None 0) < cap
    then \<exists>mem' k. wr (Some mem) cap = (Some mem', snd (wr None 0)) \<and> length mem' = cap \<and>
      length (cstring_of mem') = snd (wr None 0) \<and>
      read_envelope (cstring_of mem') = Some (top, item k, doc x)
    else wr (Some mem) cap = (Some (mem_write mem 0 [NUL]), snd (wr None 0))"
proof -
  let ?k = "length (json_text (doc x))"
  have n: "snd (wr None 0) = length (header_of ?k) + ?k + 1"
    using frame_counts [OF assms(2) short] by (simp add: wr_def)
  show ?thesis
  proof (cases "snd (wr None 0) < cap")
    case True
    then have k: "?k < 2 ^ 32" using n assms(4) by simp
    from frame_reads_back [where header_of = header_of, OF assms(2,3) refl header [OF k] assms(6-8) short] True n
    show ?thesis unfolding wr_def by (metis (no_types, lifting))
  next
    case False
    with frame_too_small [where header_of = header_of, OF assms(2) short] n
    show ?thesis by (simp add: wr_def)
  qed
qed

end

section \<open>Programs as payloads\<close>

text \<open>
  Running a writer program as a payload. The event writers end with the check of the overflow
  flag, the log and metric writers, which only run into a buffer known to be big enough, do not.
\<close>

definition run_json :: "(sentry_json \<Rightarrow> sentry_json) \<Rightarrow> payload_fn" where
  "run_json p buf cap = (let w = p (sentry_json_init buf cap) in (jw_buf w, jw_len w))"

definition run_json_checked :: "(sentry_json \<Rightarrow> sentry_json) \<Rightarrow> payload_fn" where
  "run_json_checked p buf cap =
     (let w = p (sentry_json_init buf cap)
      in (if buf \<noteq> None \<and> jw_overflow w then clear_first (jw_buf w) else jw_buf w, jw_len w))"

lemma run_json_counts:
  assumes "emits_value p d"
  shows "run_json p None 0 = (None, length (json_text d))"
    and "run_json_checked p None 0 = (None, length (json_text d))"
proof -
  have "jw_repr True 0 [] False (sentry_json_init None 0)"
    using jw_repr_init [of None 0] by simp
  from emits_valueD [OF assms this] have "jw_buf (p (sentry_json_init None 0)) = None"
    by (simp add: jw_repr_def)
  then show "run_json p None 0 = (None, length (json_text d))"
    and "run_json_checked p None 0 = (None, length (json_text d))"
    using emits_value_counts(1) [OF assms] by (simp_all add: run_json_def run_json_checked_def Let_def)
qed

lemma run_json_writes:
  assumes "emits_value p d" and "length mem = cap" and "length (json_text d) < cap"
  shows "\<exists>mem'. run_json p (Some mem) cap = (Some mem', length (json_text d)) \<and>
      length mem' = cap \<and> take (length (json_text d)) mem' = json_text d"
    and "\<exists>mem'. run_json_checked p (Some mem) cap = (Some mem', length (json_text d)) \<and>
      length mem' = cap \<and> take (length (json_text d)) mem' = json_text d"
  using emits_value_writes [OF assms(1,2)] assms(3)
  by (auto simp: run_json_def run_json_checked_def Let_def jw_repr_def split: option.splits)

lemma emits_members_append:
  assumes "emits_members (json_do ps) kvs" and "emits_members (json_do qs) us"
  shows "emits_members (json_do (ps @ qs)) (kvs @ us)"
proof -
  have do_append: "json_do (ps @ qs) w = json_do qs (json_do ps w)" for w
    by (induction ps arbitrary: w) simp_all
  from assms show ?thesis unfolding emits_members_def do_append
    by (fastforce simp: json_text_members_append simp flip: append_assoc)
qed

lemma emits_values_append:
  assumes "emits_values (json_do ps) vs" and "emits_values (json_do qs) us"
  shows "emits_values (json_do (ps @ qs)) (vs @ us)"
proof -
  have do_append: "json_do (ps @ qs) w = json_do qs (json_do ps w)" for w
    by (induction ps arbitrary: w) simp_all
  from assms show ?thesis unfolding emits_values_def do_append
    by (fastforce simp: json_text_values_append simp flip: append_assoc)
qed

text \<open>A loop over a list that writes one value per element.\<close>

lemma emits_values_map:
  "(\<And>x. x \<in> set xs \<Longrightarrow> emits_value (p x) (d x)) \<Longrightarrow> emits_values (json_do (map p xs)) (map d xs)"
proof (induction xs)
  case (Cons x xs)
  then have "emits_values (p x) [d x]" "emits_values (json_do (map p xs)) (map d xs)"
    by (simp_all add: emits_value_values)
  from emits_values_seq [OF this] show ?case by (simp add: emits_values_def)
qed (simp add: emits_values_Nil)

end
