(* ===== verification/Sentry_Trace.thy ===== *)
theory Sentry_Trace
  imports Sentry_Prelude
begin

text \<open>
  Trace context, \<open>src/core/sentry_trace.c\<close>: adopting the \<open>sentry-trace\<close> and \<open>baggage\<close>
  headers of a request, starting a trace, and writing the header of an outbound call.

  The record \<open>sentry_trace_context\<close> is \<open>sentry_trace_context_t\<close>; \<open>trace_zero\<close> is the struct
  after \<open>memset\<close>, the idle context. \<open>trace_wf\<close> is the invariant every operation establishes:
  an active context has a full trace and span id, an inactive one is all zero.
\<close>

section \<open>Data\<close>

record sentry_trace_context =
  tc_trace_id :: string
  tc_span_id :: string
  tc_parent_span_id :: string
  tc_replay_id :: string
  tc_org_id :: string
  tc_sample_rand :: string
  tc_sampled :: bool
  tc_has_sampling_decision :: bool
  tc_active :: bool

definition SENTRY_MICRO_TRACE_ID_LEN :: nat where "SENTRY_MICRO_TRACE_ID_LEN = 33"
definition SENTRY_MICRO_SPAN_ID_LEN :: nat where "SENTRY_MICRO_SPAN_ID_LEN = 17"
definition SENTRY_MICRO_SAMPLE_RAND_LEN :: nat where "SENTRY_MICRO_SAMPLE_RAND_LEN = 9"
definition SENTRY_MICRO_MAX_ORG_ID_LEN :: nat where "SENTRY_MICRO_MAX_ORG_ID_LEN = 21"

lemmas trace_lens = SENTRY_MICRO_TRACE_ID_LEN_def SENTRY_MICRO_SPAN_ID_LEN_def
  SENTRY_MICRO_SAMPLE_RAND_LEN_def SENTRY_MICRO_MAX_ORG_ID_LEN_def

definition trace_zero :: sentry_trace_context where
  "trace_zero = \<lparr>tc_trace_id = [], tc_span_id = [], tc_parent_span_id = [], tc_replay_id = [],
     tc_org_id = [], tc_sample_rand = [], tc_sampled = False,
     tc_has_sampling_decision = False, tc_active = False\<rparr>"

section \<open>Operations\<close>

definition hex_encode :: "bytes \<Rightarrow> nat \<Rightarrow> string" where
  "hex_encode bs count = concat (map (\<lambda>i. hex_byte (bs ! i)) [0..<count])"

definition is_hex_run :: "string \<Rightarrow> nat \<Rightarrow> bool" where
  "is_hex_run text count \<longleftrightarrow> list_all (\<lambda>i. is_lower_hex (cstr_at text i)) [0..<count]"

definition is_all_zero :: "string \<Rightarrow> nat \<Rightarrow> bool" where
  "is_all_zero text count \<longleftrightarrow> list_all (\<lambda>i. cstr_at text i = CHR ''0'') [0..<count]"

definition is_digit_run :: "string \<Rightarrow> nat \<Rightarrow> bool" where
  "is_digit_run text count \<longleftrightarrow> list_all (\<lambda>i. is_digit (cstr_at text i)) [0..<count]"

definition is_well_formed_sample_rand :: "string \<Rightarrow> nat \<Rightarrow> bool" where
  "is_well_formed_sample_rand text len \<longleftrightarrow>
     len = SENTRY_MICRO_SAMPLE_RAND_LEN - 1 \<and> cstr_at text 0 = CHR ''0'' \<and>
     cstr_at text 1 = CHR ''.'' \<and> is_digit_run (drop 2 text) 6"

definition sentry_trace_id_format :: "bytes \<Rightarrow> string" where
  "sentry_trace_id_format random_bytes = hex_encode random_bytes 16"

definition sentry_span_id_format :: "bytes \<Rightarrow> string" where
  "sentry_span_id_format random_bytes = hex_encode random_bytes 8"

definition is_blank :: "char \<Rightarrow> bool" where
  "is_blank c \<longleftrightarrow> c = CHR '' '' \<or> c = CHR 0x09"

definition trim_trailing :: "string \<Rightarrow> string" where
  "trim_trailing s = rev (dropWhile is_blank (rev s))"

text \<open>
  The loop of \<open>baggage_lookup\<close>, over the suffix \<open>cursor\<close> points at. \<open>entry\<close> is the text from
  the cursor to \<open>entry_end\<close>, \<open>name\<close> the text before its first equals sign.
\<close>

function baggage_scan :: "string \<Rightarrow> nat \<Rightarrow> string \<Rightarrow> string option" where
  "baggage_scan key out_cap [] = None"
| "baggage_scan key out_cap (x # xs) =
     (let cursor = dropWhile (\<lambda>c. is_blank c \<or> c = CHR '','') (x # xs);
          entry = takeWhile (\<lambda>c. c \<noteq> CHR '','') cursor;
          entry_end = dropWhile (\<lambda>c. c \<noteq> CHR '','') cursor;
          name = takeWhile (\<lambda>c. c \<noteq> CHR ''='') entry
      in if CHR ''='' \<in> set entry \<and> length name = length key \<and> take (length key) cursor = key then
           (let val_text = trim_trailing (drop (length key + 1) entry)
            in if val_text = [] \<or> length val_text \<ge> out_cap then None else Some val_text)
         else baggage_scan key out_cap (if entry_end = [] then [] else tl entry_end))"
  by pat_completeness auto

termination
  by (relation "measure (\<lambda>(key, out_cap, cursor). length cursor)")
    (auto simp: Let_def less_Suc_eq_le intro!: diff_le_self
      intro: le_trans [OF diff_le_self] le_trans [OF length_dropWhile_le])

definition baggage_lookup :: "cptr \<Rightarrow> string \<Rightarrow> nat \<Rightarrow> string option" where
  "baggage_lookup baggage key out_cap =
     (case baggage of
        None \<Rightarrow> None
      | Some b \<Rightarrow> if out_cap = 0 then None else baggage_scan key out_cap b)"

text \<open>The three optional baggage values, each kept only when well formed.\<close>

definition adopt_replay_id :: "cptr \<Rightarrow> sentry_trace_context \<Rightarrow> sentry_trace_context" where
  "adopt_replay_id baggage ctx =
     (case baggage_lookup baggage ''sentry-replay_id'' SENTRY_MICRO_TRACE_ID_LEN of
        None \<Rightarrow> ctx
      | Some replay \<Rightarrow>
          if length replay = 32 \<and> is_hex_run replay 32 \<and> \<not> is_all_zero replay 32
          then ctx\<lparr>tc_replay_id := replay\<rparr> else ctx)"

definition adopt_org_id :: "cptr \<Rightarrow> sentry_trace_context \<Rightarrow> sentry_trace_context" where
  "adopt_org_id baggage ctx =
     (case baggage_lookup baggage ''sentry-org_id'' SENTRY_MICRO_MAX_ORG_ID_LEN of
        None \<Rightarrow> ctx
      | Some org_id \<Rightarrow>
          if length org_id > 0 \<and> is_digit_run org_id (length org_id)
          then ctx\<lparr>tc_org_id := org_id\<rparr> else ctx)"

definition adopt_sample_rand :: "cptr \<Rightarrow> sentry_trace_context \<Rightarrow> sentry_trace_context" where
  "adopt_sample_rand baggage ctx =
     (case baggage_lookup baggage ''sentry-sample_rand'' SENTRY_MICRO_SAMPLE_RAND_LEN of
        None \<Rightarrow> ctx
      | Some sample_rand \<Rightarrow>
          if is_well_formed_sample_rand sample_rand (length sample_rand)
          then ctx\<lparr>tc_sample_rand := sample_rand\<rparr> else ctx)"

text \<open>
  The third field of the header: \<open>None\<close> when it is malformed, otherwise whether a decision was
  made and what it is.
\<close>

definition parse_sampled :: "string \<Rightarrow> (bool \<times> bool) option" where
  "parse_sampled header =
     (if length header > 49 then
        (if length header \<noteq> 51 \<or> cstr_at header 49 \<noteq> CHR ''-'' then None
         else if cstr_at header 50 = CHR ''1'' then Some (True, True)
         else if cstr_at header 50 \<noteq> CHR ''0'' then None
         else Some (False, True))
      else Some (False, False))"

definition sentry_trace_adopt_header ::
    "cptr \<Rightarrow> cptr \<Rightarrow> bytes option \<Rightarrow> sentry_trace_context \<times> bool" where
  "sentry_trace_adopt_header sentry_trace baggage span_id_bytes =
     (case (sentry_trace, span_id_bytes) of
        (Some header, Some span_bytes) \<Rightarrow>
          if length header < 49 \<or> cstr_at header 32 \<noteq> CHR ''-'' then (trace_zero, False)
          else if \<not> is_hex_run header 32 \<or> \<not> is_hex_run (drop 33 header) 16 then (trace_zero, False)
          else if is_all_zero header 32 \<or> is_all_zero (drop 33 header) 16 then (trace_zero, False)
          else
            (case parse_sampled header of
               None \<Rightarrow> (trace_zero, False)
             | Some (sampled, decided) \<Rightarrow>
                 (let ctx = trace_zero\<lparr>tc_trace_id := take 32 header,
                        tc_parent_span_id := take 16 (drop 33 header),
                        tc_span_id := sentry_span_id_format span_bytes,
                        tc_sampled := sampled, tc_has_sampling_decision := decided,
                        tc_active := True\<rparr>
                  in (adopt_sample_rand baggage (adopt_org_id baggage (adopt_replay_id baggage ctx)),
                      True)))
      | _ \<Rightarrow> (trace_zero, False))"

definition sentry_trace_can_continue :: "cptr \<Rightarrow> cptr \<Rightarrow> bool \<Rightarrow> bool" where
  "sentry_trace_can_continue incoming_org_id own_org_id strict =
     (let incoming_known = (incoming_org_id \<noteq> None \<and> incoming_org_id \<noteq> Some []);
          own_known = (own_org_id \<noteq> None \<and> own_org_id \<noteq> Some [])
      in if incoming_known \<and> own_known then incoming_org_id = own_org_id
         else if incoming_known \<noteq> own_known then \<not> strict
         else True)"

definition sentry_trace_begin :: "bytes \<Rightarrow> bytes \<Rightarrow> bool \<Rightarrow> sentry_trace_context" where
  "sentry_trace_begin trace_id_bytes span_id_bytes sampled =
     trace_zero\<lparr>tc_trace_id := sentry_trace_id_format trace_id_bytes,
       tc_span_id := sentry_span_id_format span_id_bytes,
       tc_sampled := sampled, tc_has_sampling_decision := True, tc_active := True\<rparr>"

definition sentry_trace_clear :: "sentry_trace_context \<Rightarrow> sentry_trace_context" where
  "sentry_trace_clear ctx = trace_zero"

definition sentry_trace_header_write ::
    "string option \<Rightarrow> nat \<Rightarrow> sentry_trace_context \<Rightarrow> string option \<times> nat" where
  "sentry_trace_header_write buf cap ctx =
     (case buf of
        None \<Rightarrow> (None, 0)
      | Some mem \<Rightarrow>
          if \<not> tc_active ctx then (buf, 0)
          else if cap < (if tc_has_sampling_decision ctx then 52 else 50) then (buf, 0)
          else
            (let text = cstr_cells 32 (tc_trace_id ctx) @ ''-'' @ cstr_cells 16 (tc_span_id ctx) @
                   (if tc_has_sampling_decision ctx
                    then [CHR ''-'', if tc_sampled ctx then CHR ''1'' else CHR ''0''] else [])
             in (Some (mem_write mem 0 (text @ [NUL])), length text)))"


section \<open>The header grammar\<close>

definition hex_id :: "nat \<Rightarrow> string \<Rightarrow> bool" where
  "hex_id n s \<longleftrightarrow> length s = n \<and> list_all is_lower_hex s"

definition live_id :: "nat \<Rightarrow> string \<Rightarrow> bool" where
  "live_id n s \<longleftrightarrow> hex_id n s \<and> (\<exists>c \<in> set s. c \<noteq> CHR ''0'')"

text \<open>The three forms of \<open><trace_id>-<span_id>[-<sampled>]\<close>; \<open>None\<close> defers the decision.\<close>

definition header_text :: "string \<Rightarrow> string \<Rightarrow> bool option \<Rightarrow> string" where
  "header_text tid sid decision = tid @ ''-'' @ sid @
     (case decision of None \<Rightarrow> [] | Some True \<Rightarrow> ''-1'' | Some False \<Rightarrow> ''-0'')"

definition trace_header :: "string \<Rightarrow> string \<Rightarrow> string \<Rightarrow> bool option \<Rightarrow> bool" where
  "trace_header h tid sid decision \<longleftrightarrow>
     live_id 32 tid \<and> live_id 16 sid \<and> h = header_text tid sid decision"

definition decision_of :: "sentry_trace_context \<Rightarrow> bool option" where
  "decision_of ctx = (if tc_has_sampling_decision ctx then Some (tc_sampled ctx) else None)"

text \<open>The invariant of a context.\<close>

definition sample_rand_ok :: "string \<Rightarrow> bool" where
  "sample_rand_ok s \<longleftrightarrow>
     s = [] \<or> (\<exists>ds. s = CHR ''0'' # CHR ''.'' # ds \<and> length ds = 6 \<and> list_all is_digit ds)"

definition trace_wf :: "sentry_trace_context \<Rightarrow> bool" where
  "trace_wf ctx \<longleftrightarrow>
     (if tc_active ctx then
        hex_id 32 (tc_trace_id ctx) \<and> hex_id 16 (tc_span_id ctx) \<and>
        (tc_parent_span_id ctx = [] \<or> live_id 16 (tc_parent_span_id ctx)) \<and>
        (tc_replay_id ctx = [] \<or> live_id 32 (tc_replay_id ctx)) \<and>
        length (tc_org_id ctx) < SENTRY_MICRO_MAX_ORG_ID_LEN \<and> list_all is_digit (tc_org_id ctx) \<and>
        sample_rand_ok (tc_sample_rand ctx) \<and>
        (tc_sampled ctx \<longrightarrow> tc_has_sampling_decision ctx)
      else ctx = trace_zero)"

lemma is_hex_run_iff: "is_hex_run s n \<longleftrightarrow> n \<le> length s \<and> list_all is_lower_hex (take n s)"
  unfolding is_hex_run_def by (rule cstr_run) (simp add: is_lower_hex_def is_digit_code less_eq_char_def)

lemma is_all_zero_iff: "is_all_zero s n \<longleftrightarrow> n \<le> length s \<and> list_all (\<lambda>c. c = CHR ''0'') (take n s)"
  unfolding is_all_zero_def by (rule cstr_run) simp

lemma is_digit_run_iff: "is_digit_run s n \<longleftrightarrow> n \<le> length s \<and> list_all is_digit (take n s)"
  unfolding is_digit_run_def by (rule cstr_run) (simp add: is_digit_code)

lemma live_id_run:
  "n \<le> length s \<Longrightarrow> live_id n (take n s) \<longleftrightarrow> is_hex_run s n \<and> \<not> is_all_zero s n"
  by (auto simp: live_id_def hex_id_def is_hex_run_iff is_all_zero_iff list_all_iff)

lemma well_formed_sample_rand_iff:
  "is_well_formed_sample_rand s (length s) \<longleftrightarrow> s \<noteq> [] \<and> sample_rand_ok s"
proof -
  have "\<exists>c1 c2 ds. s = c1 # c2 # ds \<and> length ds = 6" if "length s = 8"
    using that by (auto simp: numeral_eq_Suc length_Suc_conv)
  then show ?thesis
    by (auto simp: is_well_formed_sample_rand_def sample_rand_ok_def trace_lens cstr_at_def
        is_digit_run_iff)
qed

lemma length_hex_encode: "length (hex_encode bs n) = 2 * n"
  by (induction n) (simp_all add: hex_encode_def)

lemma hex_id_hex_encode: "m = 2 * n \<Longrightarrow> hex_id m (hex_encode bs n)"
  using hex_byte_lower length_hex_encode by (auto simp: hex_id_def hex_encode_def list_all_iff)

lemma hex_ids_formatted [simp]:
  "hex_id 32 (sentry_trace_id_format bs)" "hex_id 16 (sentry_span_id_format bs)"
  by (simp_all add: sentry_trace_id_format_def sentry_span_id_format_def hex_id_hex_encode)


section \<open>Adoption\<close>

lemma parse_sampled_iff:
  assumes "49 \<le> length h"
  shows "parse_sampled h = Some (sampled, decided) \<longleftrightarrow>
    drop 49 h = (if decided then (if sampled then ''-1'' else ''-0'') else []) \<and>
    (sampled \<longrightarrow> decided)"
proof -
  obtain r where r: "drop 49 h = r" by simp
  have len: "length h = 49 + length r" using assms r by auto
  have at: "cstr_at h 49 = cstr_at r 0" "cstr_at h 50 = cstr_at r 1"
    using len by (auto simp: cstr_at_def r [symmetric])
  show ?thesis
    unfolding r parse_sampled_def at len
    by (cases r; cases "tl r"; cases sampled; cases decided) (auto simp: cstr_at_def)
qed

lemma header_split:
  assumes "49 \<le> length h" and "cstr_at h 32 = CHR ''-''"
  shows "h = take 32 h @ ''-'' @ take 16 (drop 33 h) @ drop 49 h"
proof -
  have "h = take 32 h @ [h ! 32] @ drop 33 h"
    using assms(1) id_take_nth_drop [of 32 h] by simp
  moreover have "drop 33 h = take 16 (drop 33 h) @ drop 49 h"
    using append_take_drop_id [of 16 "drop 33 h"] by simp
  ultimately show ?thesis using assms by (simp add: cstr_at_def)
qed

lemma header_text_parts:
  assumes "hex_id 32 tid" and "hex_id 16 sid"
  shows "49 \<le> length (header_text tid sid d)" "cstr_at (header_text tid sid d) 32 = CHR ''-''"
    "take 32 (header_text tid sid d) = tid" "take 16 (drop 33 (header_text tid sid d)) = sid"
    "drop 49 (header_text tid sid d) =
       (case d of None \<Rightarrow> [] | Some True \<Rightarrow> ''-1'' | Some False \<Rightarrow> ''-0'')"
  using assms by (auto simp: header_text_def hex_id_def cstr_at_def nth_append)

definition adopted :: "string \<Rightarrow> string \<Rightarrow> bool option \<Rightarrow> bytes \<Rightarrow> sentry_trace_context" where
  "adopted tid sid decision span_bytes =
     trace_zero\<lparr>tc_trace_id := tid, tc_parent_span_id := sid,
       tc_span_id := sentry_span_id_format span_bytes, tc_sampled := decision = Some True,
       tc_has_sampling_decision := decision \<noteq> None, tc_active := True\<rparr>"

lemma adopt_header_accepts:
  assumes "trace_header h tid sid d"
  shows "sentry_trace_adopt_header (Some h) baggage (Some bs) =
    (adopt_sample_rand baggage (adopt_org_id baggage
       (adopt_replay_id baggage (adopted tid sid d bs))), True)"
proof -
  have ids: "live_id 32 tid" "live_id 16 sid" and h: "h = header_text tid sid d"
    using assms by (simp_all add: trace_header_def)
  then have hex: "hex_id 32 tid" "hex_id 16 sid" by (simp_all add: live_id_def)
  note parts = header_text_parts [OF hex, of d, folded h]
  have "is_hex_run h 32 \<and> \<not> is_all_zero h 32"
    using ids parts by (simp flip: live_id_run)
  moreover have "is_hex_run (drop 33 h) 16 \<and> \<not> is_all_zero (drop 33 h) 16"
    using ids parts by (simp flip: live_id_run)
  moreover have "parse_sampled h = Some (d = Some True, d \<noteq> None)"
    using parts by (subst parse_sampled_iff) (auto split: option.splits bool.splits)
  ultimately show ?thesis
    using parts by (simp add: sentry_trace_adopt_header_def adopted_def)
qed

lemma adopt_header_rejects:
  assumes "\<nexists>tid sid d. trace_header h tid sid d"
  shows "sentry_trace_adopt_header (Some h) baggage (Some bs) = (trace_zero, False)"
proof (rule ccontr)
  assume accepted: "\<not> ?thesis"
  then have h: "49 \<le> length h" "cstr_at h 32 = CHR ''-''"
    and runs: "is_hex_run h 32" "is_hex_run (drop 33 h) 16"
      "\<not> is_all_zero h 32" "\<not> is_all_zero (drop 33 h) 16"
    and "parse_sampled h \<noteq> None"
    by (auto simp: sentry_trace_adopt_header_def split: if_splits option.splits)
  then obtain s d where "parse_sampled h = Some (s, d)" by auto
  then have "drop 49 h = (if d then (if s then ''-1'' else ''-0'') else [])"
    using parse_sampled_iff [OF h(1)] by blast
  then have "h = header_text (take 32 h) (take 16 (drop 33 h)) (if d then Some s else None)"
    by (subst header_split [OF h]) (simp add: header_text_def)
  moreover have "live_id 32 (take 32 h)" "live_id 16 (take 16 (drop 33 h))"
    using h runs by (simp_all add: live_id_run)
  ultimately show False using assms by (auto simp: trace_header_def)
qed

lemma adopt_header_null [simp]:
  "sentry_trace_adopt_header None baggage bs = (trace_zero, False)"
  "sentry_trace_adopt_header h baggage None = (trace_zero, False)"
  by (simp_all add: sentry_trace_adopt_header_def split: option.split)

lemmas adopt_baggage_defs = adopt_replay_id_def adopt_org_id_def adopt_sample_rand_def

text \<open>The baggage values touch no field of the header.\<close>

lemma adopt_baggage_keeps [simp]:
  fixes baggage ctx
  defines "ctx' \<equiv> adopt_sample_rand baggage (adopt_org_id baggage (adopt_replay_id baggage ctx))"
  shows "tc_trace_id ctx' = tc_trace_id ctx" "tc_span_id ctx' = tc_span_id ctx"
    "tc_parent_span_id ctx' = tc_parent_span_id ctx" "tc_sampled ctx' = tc_sampled ctx"
    "tc_has_sampling_decision ctx' = tc_has_sampling_decision ctx" "tc_active ctx' = tc_active ctx"
  unfolding ctx'_def by (simp_all add: adopt_baggage_defs split: option.splits)

lemma adopted_fields [simp]:
  "tc_trace_id (adopted tid sid d bs) = tid" "tc_parent_span_id (adopted tid sid d bs) = sid"
  "tc_span_id (adopted tid sid d bs) = sentry_span_id_format bs" "tc_active (adopted tid sid d bs)"
  "tc_sampled (adopted tid sid d bs) = (d = Some True)" "tc_replay_id (adopted tid sid d bs) = []"
  "tc_has_sampling_decision (adopted tid sid d bs) = (d \<noteq> None)"
  "tc_org_id (adopted tid sid d bs) = []" "tc_sample_rand (adopted tid sid d bs) = []"
  by (simp_all add: adopted_def trace_zero_def)

lemma trace_wf_zero [simp]: "trace_wf trace_zero"
  by (simp add: trace_wf_def) (simp add: trace_zero_def)

section \<open>Baggage\<close>

text \<open>
  The specification of \<open>baggage_lookup\<close>: a member is \<open>key=value\<close> with blanks around it, and
  members are separated by commas.
\<close>

type_synonym baggage_member = "string \<times> string \<times> string \<times> string"

fun member_text :: "baggage_member \<Rightarrow> string" where
  "member_text (before, k, v, after) = before @ k @ ''='' @ v @ after"

fun member_ok :: "baggage_member \<Rightarrow> bool" where
  "member_ok (before, k, v, after) \<longleftrightarrow>
     list_all is_blank before \<and> list_all is_blank after \<and>
     k \<noteq> [] \<and> \<not> is_blank (hd k) \<and> CHR '','' \<notin> set k \<and> CHR ''='' \<notin> set k \<and>
     CHR '','' \<notin> set v \<and> (v = [] \<or> \<not> is_blank (last v))"

fun baggage_text :: "baggage_member list \<Rightarrow> string" where
  "baggage_text [] = []"
| "baggage_text [m] = member_text m"
| "baggage_text (m # m' # ms) = member_text m @ CHR '','' # baggage_text (m' # ms)"

fun baggage_map :: "baggage_member list \<Rightarrow> (string \<times> string) list" where
  "baggage_map [] = []"
| "baggage_map ((before, k, v, after) # ms) = (k, v) # baggage_map ms"

definition fitting :: "nat \<Rightarrow> string option \<Rightarrow> string option" where
  "fitting cap v = (case v of None \<Rightarrow> None
     | Some s \<Rightarrow> if s = [] \<or> cap \<le> length s then None else Some s)"

lemma trim_trailing_blanks:
  assumes "list_all is_blank after" and "v = [] \<or> \<not> is_blank (last v)"
  shows "trim_trailing (v @ after) = v"
proof -
  have "dropWhile is_blank (rev after @ rev v) = rev v"
    using assms by (cases v rule: rev_cases) (auto simp: list_all_iff dropWhile_append)
  then show ?thesis by (simp add: trim_trailing_def)
qed

lemma blank_not_comma: "is_blank c \<Longrightarrow> c \<noteq> CHR '',''"
  by (auto simp: is_blank_def)

lemma baggage_scan_member:
  assumes ok: "member_ok (before, k, v, after)" and r: "r = [] \<or> hd r = CHR '',''"
  shows "baggage_scan key cap (member_text (before, k, v, after) @ r) =
    (if k = key then fitting cap (Some v) else baggage_scan key cap (tl r))"
proof -
  let ?sep = "\<lambda>c. is_blank c \<or> c = CHR '',''" and ?in = "\<lambda>c. c \<noteq> CHR '',''"
  let ?entry = "k @ ''='' @ v @ after"
  have "\<forall>c \<in> set after. c \<noteq> CHR '',''"
    using ok by (auto simp: list_all_iff dest: blank_not_comma)
  then have in_entry: "\<forall>c \<in> set ?entry. c \<noteq> CHR '',''" using ok by auto
  obtain c cs where k: "k = c # cs" "\<not> ?sep c" using ok by (cases k) auto
  have cursor: "dropWhile ?sep (before @ ?entry @ r) = ?entry @ r"
    using ok k by (auto simp: list_all_iff dropWhile_append)
  have entry: "takeWhile ?in (?entry @ r) = ?entry" "dropWhile ?in (?entry @ r) = r"
    using in_entry r by (cases r; auto simp: takeWhile_append dropWhile_append)+
  have name: "takeWhile (\<lambda>c. c \<noteq> CHR ''='') ?entry = k"
    using ok by (auto simp: takeWhile_append)
  have rest: "(if r = [] then [] else tl r) = tl r" by simp
  obtain x xs where xs: "member_text (before, k, v, after) @ r = x # xs"
    using k by (cases "member_text (before, k, v, after) @ r") auto
  have cursor': "dropWhile ?sep (x # xs) = ?entry @ r"
    using cursor by (simp flip: xs)
  have "trim_trailing (v @ after) = v" using ok by (intro trim_trailing_blanks) auto
  then show ?thesis
    unfolding xs baggage_scan.simps Let_def cursor' entry name rest
    by (auto simp: fitting_def simp del: baggage_scan.simps)
qed

lemma baggage_scan_text:
  "list_all member_ok ms \<Longrightarrow>
     baggage_scan key cap (baggage_text ms) = fitting cap (map_of (baggage_map ms) key)"
proof (induction ms rule: baggage_text.induct)
  case (2 m)
  obtain b k v a where m: "m = (b, k, v, a)" by (cases m)
  from 2 baggage_scan_member [of b k v a "[]" key cap] show ?case
    by (simp add: m fitting_def del: member_text.simps)
next
  case (3 m m' ms)
  obtain b k v a where m: "m = (b, k, v, a)" by (cases m)
  from 3 baggage_scan_member [of b k v a "CHR '','' # baggage_text (m' # ms)" key cap]
  show ?case by (simp add: m fitting_def del: member_text.simps)
qed (simp add: fitting_def)

text \<open>What a lookup can give: a value that fits its buffer and is not empty.\<close>

lemma baggage_scan_fits: "baggage_scan key cap s = Some v \<Longrightarrow> v \<noteq> [] \<and> length v < cap"
  by (induction key cap s rule: baggage_scan.induct)
    (auto simp: Let_def split: if_splits)

lemma baggage_lookup_fits: "baggage_lookup b key cap = Some v \<Longrightarrow> v \<noteq> [] \<and> length v < cap"
  by (auto simp: baggage_lookup_def baggage_scan_fits split: option.splits if_splits)

section \<open>The invariant\<close>

lemma trace_wf_adopted:
  "trace_header h tid sid d \<Longrightarrow> trace_wf (adopted tid sid d bs)"
  by (auto simp: trace_wf_def trace_header_def live_id_def sample_rand_ok_def trace_lens)

lemma trace_wf_replay:
  assumes "trace_wf ctx" and "tc_active ctx"
  shows "trace_wf (adopt_replay_id baggage ctx)"
proof (cases "baggage_lookup baggage ''sentry-replay_id'' SENTRY_MICRO_TRACE_ID_LEN")
  case (Some r)
  have "live_id 32 r" if "length r = 32" "is_hex_run r 32" "\<not> is_all_zero r 32"
    using that live_id_run [of 32 r] by simp
  with assms Some show ?thesis by (simp add: adopt_replay_id_def trace_wf_def)
qed (simp add: adopt_replay_id_def assms)

lemma trace_wf_org:
  assumes "trace_wf ctx" and "tc_active ctx"
  shows "trace_wf (adopt_org_id baggage ctx)"
proof (cases "baggage_lookup baggage ''sentry-org_id'' SENTRY_MICRO_MAX_ORG_ID_LEN")
  case (Some r)
  from baggage_lookup_fits [OF this] assms Some show ?thesis
    by (simp add: adopt_org_id_def trace_wf_def is_digit_run_iff)
qed (simp add: adopt_org_id_def assms)

lemma trace_wf_sample_rand:
  assumes "trace_wf ctx" and "tc_active ctx"
  shows "trace_wf (adopt_sample_rand baggage ctx)"
  using assms
  by (auto simp: adopt_sample_rand_def trace_wf_def well_formed_sample_rand_iff split: option.split)

lemma adopt_baggage_active [simp]:
  "tc_active (adopt_replay_id baggage ctx) = tc_active ctx"
  "tc_active (adopt_org_id baggage ctx) = tc_active ctx"
  by (simp_all add: adopt_baggage_defs split: option.split)

lemma trace_wf_adopt_header: "trace_wf (fst (sentry_trace_adopt_header header baggage span_bytes))"
proof (cases "\<exists>h bs tid sid d. header = Some h \<and> span_bytes = Some bs \<and> trace_header h tid sid d")
  case True
  then obtain h bs tid sid d where
    "header = Some h" "span_bytes = Some bs" "trace_header h tid sid d" by blast
  then show ?thesis
    by (simp add: adopt_header_accepts trace_wf_sample_rand trace_wf_org trace_wf_replay trace_wf_adopted)
next
  case False
  then show ?thesis
    by (cases header; cases span_bytes) (auto simp: adopt_header_rejects)
qed

lemma trace_wf_begin: "trace_wf (sentry_trace_begin trace_bytes span_bytes sampled)"
  by (simp add: trace_wf_def sentry_trace_begin_def sample_rand_ok_def trace_lens)
    (simp add: trace_zero_def)

section \<open>Writing the header\<close>

lemma header_write_text:
  assumes "trace_wf ctx" and "tc_active ctx" and "length mem = cap"
    and "cap \<ge> (if tc_has_sampling_decision ctx then 52 else 50)"
  defines "h \<equiv> header_text (tc_trace_id ctx) (tc_span_id ctx) (decision_of ctx)"
  shows "sentry_trace_header_write (Some mem) cap ctx = (Some (mem_write mem 0 (h @ [NUL])), length h)"
    and "length h < cap" and "NUL \<notin> set h"
proof -
  have ids: "hex_id 32 (tc_trace_id ctx)" "hex_id 16 (tc_span_id ctx)"
    using assms(1,2) by (simp_all add: trace_wf_def)
  then show "sentry_trace_header_write (Some mem) cap ctx =
      (Some (mem_write mem 0 (h @ [NUL])), length h)"
    using assms(2,4) unfolding h_def
    by (auto simp: sentry_trace_header_write_def header_text_def decision_of_def hex_id_def Let_def)
  show "length h < cap"
    using ids assms(4) unfolding h_def
    by (auto simp: header_text_def decision_of_def hex_id_def split: if_splits bool.splits)
  have "\<not> is_lower_hex NUL" by (simp add: is_lower_hex_def is_digit_code less_eq_char_def)
  then show "NUL \<notin> set h"
    using ids unfolding h_def
    by (auto simp: header_text_def decision_of_def hex_id_def list_all_iff split: if_splits bool.splits)
qed

section \<open>Properties\<close>

text \<open>
  C21: Adopting a header accepts exactly the grammar \<open><trace_id>-<span_id>[-<sampled>]\<close> with two
  lowercase hex ids that are not all zero, takes the ids and the sampling decision from it, and
  leaves the context idle and zeroed for anything else, whatever the baggage says.
\<close>

theorem trace_adopt_grammar:
  fixes h :: string and baggage :: cptr and span_bytes :: bytes
  defines "r \<equiv> sentry_trace_adopt_header (Some h) baggage (Some span_bytes)"
  shows "if (\<exists>tid sid d. trace_header h tid sid d)
    then snd r \<and> tc_active (fst r) \<and>
      trace_header h (tc_trace_id (fst r)) (tc_parent_span_id (fst r)) (decision_of (fst r)) \<and>
      tc_span_id (fst r) = sentry_span_id_format span_bytes
    else r = (trace_zero, False)"
proof (cases "\<exists>tid sid d. trace_header h tid sid d")
  case True
  then obtain tid sid d where h: "trace_header h tid sid d" by blast
  have "decision_of (fst r) = d"
    unfolding r_def adopt_header_accepts [OF h] by (cases d) (auto simp: decision_of_def)
  with h True show ?thesis
    unfolding r_def adopt_header_accepts [OF h] by auto
next
  case False
  then have "r = (trace_zero, False)" unfolding r_def by (intro adopt_header_rejects)
  with False show ?thesis by simp
qed

text \<open>
  The outbound header is one the next hop adopts: written into a buffer of at least 52 bytes
  it stays inside the buffer, and the peer that adopts it continues the same trace, with this
  device's span as its parent and the same sampling decision, deferred ones included.
\<close>

theorem trace_header_roundtrip:
  assumes "trace_wf ctx" and "tc_active ctx" and "live_id 32 (tc_trace_id ctx)"
    and "live_id 16 (tc_span_id ctx)" and "length mem = cap" and "52 \<le> cap"
  shows "\<exists>mem' n peer. sentry_trace_header_write (Some mem) cap ctx = (Some mem', n) \<and>
    length mem' = cap \<and> n < cap \<and>
    sentry_trace_adopt_header (Some (takeWhile (\<lambda>c. c \<noteq> NUL) mem')) baggage (Some bs) = (peer, True) \<and>
    tc_trace_id peer = tc_trace_id ctx \<and> tc_parent_span_id peer = tc_span_id ctx \<and>
    decision_of peer = decision_of ctx"
proof -
  let ?h = "header_text (tc_trace_id ctx) (tc_span_id ctx) (decision_of ctx)"
  note w = header_write_text [OF assms(1,2,5)]
  have wr: "sentry_trace_header_write (Some mem) cap ctx =
      (Some (mem_write mem 0 (?h @ [NUL])), length ?h)" and fits: "length ?h < cap"
    using w assms(6) by simp_all
  have "NUL \<notin> set ?h" using w(3) assms(6) by simp
  then have body: "takeWhile (\<lambda>c. c \<noteq> NUL) (mem_write mem 0 (?h @ [NUL])) = ?h"
    by (auto simp: mem_write_def takeWhile_append)
  have "trace_header ?h (tc_trace_id ctx) (tc_span_id ctx) (decision_of ctx)"
    using assms(3,4) by (simp add: trace_header_def)
  from adopt_header_accepts [OF this, of baggage bs] wr fits body assms(5)
  show ?thesis by (auto simp: decision_of_def)
qed

text \<open>
  Every context an operation leaves is well formed: adopting any header with any baggage, or
  beginning a trace, gives either the zeroed idle context or one with full lowercase hex ids, a
  replay id, an organization id and a sample rand that are each empty or well formed and fit
  their buffers, and a sampled flag only where a decision was made.
\<close>

theorem trace_operations_well_formed:
  "trace_wf (fst (sentry_trace_adopt_header header baggage span_bytes)) \<and>
   trace_wf (sentry_trace_begin trace_id_bytes span_id_bytes sampled) \<and>
   trace_wf (sentry_trace_clear ctx)"
  by (simp add: trace_wf_adopt_header trace_wf_begin sentry_trace_clear_def)

text \<open>
  On a baggage header that lists \<open>key=value\<close> members separated by commas, with blanks before
  the keys and after the values, a lookup gives the first member of that key, when its value is
  not empty and fits the buffer with its NUL, and nothing otherwise.
\<close>

theorem baggage_lookup_is_map_lookup:
  assumes "list_all member_ok ms" and "0 < cap"
  shows "baggage_lookup (Some (baggage_text ms)) key cap = fitting cap (map_of (baggage_map ms) key)"
  using assms by (simp add: baggage_lookup_def baggage_scan_text)

theorem baggage_lookup_is_map_lookup_witness:
  "baggage_lookup (Some ''a=b , sentry-org_id=42 '') ''sentry-org_id'' 21 = Some ''42''"
  using baggage_lookup_is_map_lookup
    [of "[('''', ''a'', ''b'', '' ''), ('' '', ''sentry-org_id'', ''42'', '' '')]" 21 "''sentry-org_id''"]
  by (simp add: is_blank_def fitting_def)

definition sample_context :: sentry_trace_context where
  "sample_context = sentry_trace_begin (replicate 16 0xab) (replicate 8 0x12) True"

lemma hex_encode_replicate: "hex_encode (replicate n b) n = concat (replicate n (hex_byte b))"
  unfolding hex_encode_def by (rule arg_cong [where f = concat]) (auto intro: nth_equalityI)

lemma sample_context_live:
  "live_id 32 (tc_trace_id sample_context)" "live_id 16 (tc_span_id sample_context)"
proof -
  have "hex_byte 0xab = ''ab''" "hex_byte 0x12 = ''12''"
    by (simp_all add: hex_byte_def hex_digit_def)
  then show "live_id 32 (tc_trace_id sample_context)" "live_id 16 (tc_span_id sample_context)"
    by (auto simp: sample_context_def sentry_trace_begin_def live_id_def
        sentry_trace_id_format_def sentry_span_id_format_def hex_encode_replicate
        hex_id_def list_all_iff is_lower_hex_def is_digit_code less_eq_char_def sum_list_replicate length_concat)
qed

theorem trace_header_roundtrip_witness:
  "\<exists>mem' n peer. sentry_trace_header_write (Some (replicate 52 NUL)) 52 sample_context = (Some mem', n) \<and>
    length mem' = 52 \<and> n < 52 \<and>
    sentry_trace_adopt_header (Some (takeWhile (\<lambda>c. c \<noteq> NUL) mem')) None (Some (replicate 8 1)) = (peer, True) \<and>
    tc_trace_id peer = tc_trace_id sample_context \<and>
    tc_parent_span_id peer = tc_span_id sample_context \<and>
    decision_of peer = decision_of sample_context"
proof (rule trace_header_roundtrip)
  show "trace_wf sample_context" "tc_active sample_context"
    unfolding sample_context_def by (simp add: trace_wf_begin, simp add: sentry_trace_begin_def)
qed (simp_all add: sample_context_live)

end
