(* ===== verification/Sentry_Span.thy ===== *)
theory Sentry_Span
  imports Sentry_Trace
begin

text \<open>
  Spans and transactions, \<open>src/core/sentry_span.c\<close>: a transaction is a fixed table of at most
  four spans, each with at most four numeric attributes.

  \<open>tx_spans\<close> is the first \<open>span_count\<close> entries of the C array and \<open>sp_attrs\<close> the first
  \<open>attr_count\<close> attributes, so the two counters are the lengths of the lists. A span pointer
  is an index into \<open>tx_spans\<close>, and NULL is \<open>None\<close>. The pointer to the transaction itself is
  the record passed and returned.
\<close>

section \<open>Data\<close>

definition SENTRY_MICRO_MAX_SPANS :: nat where "SENTRY_MICRO_MAX_SPANS = 4"
definition SENTRY_MICRO_MAX_SPAN_ATTRS :: nat where "SENTRY_MICRO_MAX_SPAN_ATTRS = 4"

lemmas span_limits = SENTRY_MICRO_MAX_SPANS_def SENTRY_MICRO_MAX_SPAN_ATTRS_def

record sentry_span_attr =
  at_key :: string
  at_value :: i64

record sentry_span =
  sp_op :: cptr
  sp_description :: cptr
  sp_span_id :: string
  sp_start_uptime_us :: u64
  sp_end_uptime_us :: u64
  sp_finished :: bool
  sp_attrs :: "sentry_span_attr list"

record sentry_transaction =
  tx_name :: cptr
  tx_op :: cptr
  tx_trace :: sentry_trace_context
  tx_start_uptime_us :: u64
  tx_end_uptime_us :: u64
  tx_end_unix_us :: u64
  tx_spans :: "sentry_span list"
  tx_dropped_spans :: u16
  tx_active :: bool

section \<open>Operations\<close>

definition sentry_transaction_begin ::
    "sentry_trace_context option \<Rightarrow> cptr \<Rightarrow> cptr \<Rightarrow> u64 \<Rightarrow> sentry_transaction" where
  "sentry_transaction_begin trace name op now_uptime_us =
     \<lparr>tx_name = name, tx_op = op,
      tx_trace = (case trace of Some t \<Rightarrow> t | None \<Rightarrow> trace_zero),
      tx_start_uptime_us = now_uptime_us, tx_end_uptime_us = 0, tx_end_unix_us = 0,
      tx_spans = [], tx_dropped_spans = 0, tx_active = True\<rparr>"

definition sentry_span_open ::
    "cptr \<Rightarrow> cptr \<Rightarrow> bytes option \<Rightarrow> u64 \<Rightarrow> sentry_transaction \<Rightarrow>
     sentry_transaction \<times> nat option" where
  "sentry_span_open op description span_id_bytes now_uptime_us txn =
     (case span_id_bytes of
        None \<Rightarrow> (txn, None)
      | Some bs \<Rightarrow>
          if \<not> tx_active txn then (txn, None)
          else if length (tx_spans txn) \<ge> SENTRY_MICRO_MAX_SPANS then
            (txn\<lparr>tx_dropped_spans := tx_dropped_spans txn + 1\<rparr>, None)
          else
            (txn\<lparr>tx_spans := tx_spans txn @
               [\<lparr>sp_op = op, sp_description = description,
                 sp_span_id = sentry_span_id_format bs, sp_start_uptime_us = now_uptime_us,
                 sp_end_uptime_us = 0, sp_finished = False, sp_attrs = []\<rparr>]\<rparr>,
             Some (length (tx_spans txn))))"

definition sentry_span_close :: "u64 \<Rightarrow> sentry_span \<Rightarrow> sentry_span" where
  "sentry_span_close now_uptime_us span =
     (if \<not> sp_finished span then span\<lparr>sp_end_uptime_us := now_uptime_us, sp_finished := True\<rparr>
      else span)"

text \<open>The loop of \<open>sentry_span_set_number\<close>: the first attribute of that key, if any.\<close>

fun set_attr :: "string \<Rightarrow> i64 \<Rightarrow> sentry_span_attr list \<Rightarrow> sentry_span_attr list option" where
  "set_attr key value [] = None"
| "set_attr key value (a # attrs) =
     (if at_key a = key then Some (a\<lparr>at_value := value\<rparr> # attrs)
      else map_option (Cons a) (set_attr key value attrs))"

definition sentry_span_set_number :: "cptr \<Rightarrow> i64 \<Rightarrow> sentry_span \<Rightarrow> sentry_span" where
  "sentry_span_set_number key value span =
     (case key of
        None \<Rightarrow> span
      | Some k \<Rightarrow>
          (case set_attr k value (sp_attrs span) of
             Some attrs \<Rightarrow> span\<lparr>sp_attrs := attrs\<rparr>
           | None \<Rightarrow>
               if length (sp_attrs span) < SENTRY_MICRO_MAX_SPAN_ATTRS then
                 span\<lparr>sp_attrs := sp_attrs span @ [\<lparr>at_key = k, at_value = value\<rparr>]\<rparr>
               else span))"

definition sentry_transaction_end_at ::
    "u64 \<Rightarrow> u64 \<Rightarrow> sentry_transaction \<Rightarrow> sentry_transaction \<times> bool" where
  "sentry_transaction_end_at now_uptime_us now_unix_us txn =
     (if \<not> tx_active txn then (txn, False)
      else
        (let txn' = txn\<lparr>tx_end_uptime_us := now_uptime_us, tx_active := False,
               tx_spans := map (sentry_span_close now_uptime_us) (tx_spans txn)\<rparr>
         in if now_unix_us = 0 then (txn', False)
            else (txn'\<lparr>tx_end_unix_us := now_unix_us\<rparr>, True)))"

definition sentry_transaction_start_unix_us :: "sentry_transaction \<Rightarrow> u64" where
  "sentry_transaction_start_unix_us txn =
     (if tx_end_unix_us txn = 0 then 0
      else
        (let elapsed = tx_end_uptime_us txn - tx_start_uptime_us txn
         in if elapsed > tx_end_unix_us txn then 0 else tx_end_unix_us txn - elapsed))"

text \<open>The span pointer a client holds, used on the transaction it points into.\<close>

definition update_span ::
    "nat option \<Rightarrow> (sentry_span \<Rightarrow> sentry_span) \<Rightarrow> sentry_transaction \<Rightarrow> sentry_transaction" where
  "update_span span f txn =
     (case span of
        None \<Rightarrow> txn
      | Some i \<Rightarrow>
          if i < length (tx_spans txn)
          then txn\<lparr>tx_spans := (tx_spans txn)[i := f (tx_spans txn ! i)]\<rparr> else txn)"

section \<open>The invariant\<close>

definition span_wf :: "sentry_span \<Rightarrow> bool" where
  "span_wf s \<longleftrightarrow> hex_id 16 (sp_span_id s) \<and> length (sp_attrs s) \<le> SENTRY_MICRO_MAX_SPAN_ATTRS \<and>
     distinct (map at_key (sp_attrs s))"

definition txn_wf :: "sentry_transaction \<Rightarrow> bool" where
  "txn_wf t \<longleftrightarrow> length (tx_spans t) \<le> SENTRY_MICRO_MAX_SPANS \<and> list_all span_wf (tx_spans t) \<and>
     (\<not> tx_active t \<longrightarrow> list_all sp_finished (tx_spans t))"

lemma set_attr_keys: "set_attr k v as = Some bs \<Longrightarrow> map at_key bs = map at_key as"
  by (induction as arbitrary: bs) (auto split: if_splits)

lemma set_attr_None: "set_attr k v as = None \<longleftrightarrow> k \<notin> at_key ` set as"
  by (induction as) auto

lemma set_attr_map_of:
  "set_attr k v as = Some bs \<Longrightarrow> map_of (map (\<lambda>a. (at_key a, at_value a)) bs) =
     (map_of (map (\<lambda>a. (at_key a, at_value a)) as))(k \<mapsto> v)"
  by (induction as arbitrary: bs) (auto split: if_splits)

text \<open>The attributes of a span as a map.\<close>

definition attr_map :: "sentry_span \<Rightarrow> string \<rightharpoonup> i64" where
  "attr_map s = map_of (map (\<lambda>a. (at_key a, at_value a)) (sp_attrs s))"

lemma dom_attr_map: "dom (attr_map s) = at_key ` set (sp_attrs s)"
  by (simp add: attr_map_def dom_map_of_conv_image_fst image_image)

lemma span_wf_close [simp]: "span_wf (sentry_span_close now s) = span_wf s"
  by (simp add: span_wf_def sentry_span_close_def)

lemma span_wf_set_number:
  assumes "span_wf s"
  shows "span_wf (sentry_span_set_number key v s)"
proof (cases key)
  case (Some k)
  show ?thesis
  proof (cases "set_attr k v (sp_attrs s)")
    case None
    with Some assms set_attr_None [of k v "sp_attrs s"] show ?thesis
      by (auto simp: sentry_span_set_number_def span_wf_def)
  next
    case (Some bs)
    with \<open>key = Some k\<close> assms set_attr_keys [OF Some] show ?thesis
      by (auto simp: sentry_span_set_number_def span_wf_def dest: map_eq_imp_length_eq)
  qed
qed (simp add: sentry_span_set_number_def assms)

lemma span_finished_set_number [simp]:
  "sp_finished (sentry_span_set_number key v s) = sp_finished s"
  by (simp add: sentry_span_set_number_def split: option.split)

lemma span_finished_close [simp]: "sp_finished (sentry_span_close now s)"
  by (simp add: sentry_span_close_def)

lemma txn_wf_begin [simp]: "txn_wf (sentry_transaction_begin trace name op now)"
  by (simp add: txn_wf_def sentry_transaction_begin_def)

lemma txn_wf_open:
  "txn_wf t \<Longrightarrow> txn_wf (fst (sentry_span_open op d bs now t))"
  by (auto simp: txn_wf_def sentry_span_open_def span_wf_def split: option.split)

lemma list_all_update: "list_all P xs \<Longrightarrow> (P (xs ! i) \<Longrightarrow> P x) \<Longrightarrow> list_all P (xs[i := x])"
  by (cases "i < length xs") (auto simp: list_all_length nth_list_update)

lemma txn_wf_update_span:
  assumes "txn_wf t" and "\<And>s. span_wf s \<Longrightarrow> span_wf (f s)"
    and "\<And>s. sp_finished s \<Longrightarrow> sp_finished (f s)"
  shows "txn_wf (update_span i f t)"
proof (cases i)
  case (Some n)
  with assms show ?thesis
    by (auto simp: txn_wf_def update_span_def intro: list_all_update)
qed (simp add: update_span_def assms)

lemma txn_wf_end_at:
  "txn_wf t \<Longrightarrow> txn_wf (fst (sentry_transaction_end_at now unix t))"
  by (auto simp: txn_wf_def sentry_transaction_end_at_def Let_def list_all_iff)

section \<open>A client's calls\<close>

datatype span_call =
    SpanOpen cptr cptr "bytes option" u64
  | SpanClose "nat option" u64
  | SpanSetNumber "nat option" cptr i64
  | TxnEnd u64 u64

fun do_span_call :: "span_call \<Rightarrow> sentry_transaction \<Rightarrow> sentry_transaction" where
  "do_span_call (SpanOpen op d bs now) t = fst (sentry_span_open op d bs now t)"
| "do_span_call (SpanClose i now) t = update_span i (sentry_span_close now) t"
| "do_span_call (SpanSetNumber i k v) t = update_span i (sentry_span_set_number k v) t"
| "do_span_call (TxnEnd now unix) t = fst (sentry_transaction_end_at now unix t)"

lemma txn_wf_call: "txn_wf t \<Longrightarrow> txn_wf (do_span_call c t)"
  by (cases c) (simp_all add: txn_wf_open txn_wf_end_at txn_wf_update_span span_wf_set_number)

text \<open>The spans asked for while the transaction ran, with an id: those kept and those dropped.\<close>

fun opens :: "span_call list \<Rightarrow> sentry_transaction \<Rightarrow> nat" where
  "opens [] t = 0"
| "opens (c # cs) t =
     (case c of SpanOpen op d (Some bs) now \<Rightarrow> if tx_active t then 1 else 0 | _ \<Rightarrow> 0) +
     opens cs (do_span_call c t)"

lemma length_spans_call:
  "length (tx_spans (update_span i f t)) = length (tx_spans t)"
  "length (tx_spans (fst (sentry_transaction_end_at now unix t))) = length (tx_spans t)"
  "tx_dropped_spans (update_span i f t) = tx_dropped_spans t"
  "tx_dropped_spans (fst (sentry_transaction_end_at now unix t)) = tx_dropped_spans t"
  by (auto simp: update_span_def sentry_transaction_end_at_def Let_def split: option.split)

lemma spans_accounted:
  "length (tx_spans t) + unat (tx_dropped_spans t) + opens cs t < 2 ^ 16 \<Longrightarrow>
     length (tx_spans (fold do_span_call cs t)) + unat (tx_dropped_spans (fold do_span_call cs t)) =
     length (tx_spans t) + unat (tx_dropped_spans t) + opens cs t"
proof (induction cs arbitrary: t)
  case (Cons c cs)
  have step: "length (tx_spans (do_span_call c t)) + unat (tx_dropped_spans (do_span_call c t)) =
      length (tx_spans t) + unat (tx_dropped_spans t) +
      (case c of SpanOpen op d (Some bs) now \<Rightarrow> if tx_active t then 1 else 0 | _ \<Rightarrow> 0)"
  proof (cases c)
    case (SpanOpen op d bs now)
    have "unat (tx_dropped_spans t + 1) = unat (tx_dropped_spans t) + 1"
      if "unat (tx_dropped_spans t) + 1 < 2 ^ 16"
      using that by (simp add: unat_word_ariths)
    with SpanOpen Cons.prems show ?thesis
      by (auto simp: sentry_span_open_def split: option.splits if_splits)
  qed (simp_all add: length_spans_call)
  with Cons.prems show ?case by (simp add: Cons.IH)
qed simp

lemma spans_kept:
  "length (tx_spans t) \<le> SENTRY_MICRO_MAX_SPANS \<Longrightarrow>
     length (tx_spans (fold do_span_call cs t)) =
     min SENTRY_MICRO_MAX_SPANS (length (tx_spans t) + opens cs t)"
proof (induction cs arbitrary: t)
  case (Cons c cs)
  show ?case
  proof (cases c)
    case (SpanOpen op d bs now)
    with Cons.prems show ?thesis
      by (auto simp: Cons.IH sentry_span_open_def split: option.split)
  qed (use Cons.prems in \<open>simp_all add: Cons.IH length_spans_call\<close>)
qed simp

lemma txn_wf_calls: "txn_wf t \<Longrightarrow> txn_wf (fold do_span_call cs t)"
  by (induction cs arbitrary: t) (simp_all add: txn_wf_call)

section \<open>Properties\<close>

text \<open>
  A transaction never holds more than four spans nor a span more than four attributes, all
  with distinct keys, and no span that was asked for goes unaccounted: whatever the calls, the
  first four are kept, and the drop counter counts every one after them.
\<close>

theorem spans_kept_or_counted:
  fixes trace name op now cs
  defines "t0 \<equiv> sentry_transaction_begin trace name op now"
  defines "t \<equiv> fold do_span_call cs t0"
  assumes "opens cs t0 < 2 ^ 16"
  shows "txn_wf t \<and> length (tx_spans t) = min SENTRY_MICRO_MAX_SPANS (opens cs t0) \<and>
    unat (tx_dropped_spans t) = opens cs t0 - SENTRY_MICRO_MAX_SPANS"
proof -
  have t0: "tx_spans t0 = []" "tx_dropped_spans t0 = 0"
    by (simp_all add: t0_def sentry_transaction_begin_def)
  have "txn_wf t" by (simp add: t_def t0_def txn_wf_calls)
  moreover have kept: "length (tx_spans t) = min SENTRY_MICRO_MAX_SPANS (opens cs t0)"
    using spans_kept [of t0 cs] t0 by (simp add: t_def)
  moreover have "length (tx_spans t) + unat (tx_dropped_spans t) = opens cs t0"
    using spans_accounted [of t0 cs] t0 assms(3) by (simp add: t_def)
  ultimately show ?thesis by linarith
qed

lemma opens_replicate:
  "tx_active t \<Longrightarrow> opens (replicate n (SpanOpen op d (Some bs) now)) t = n"
proof (induction n arbitrary: t)
  case (Suc n)
  have "tx_active (fst (sentry_span_open op d (Some bs) now t))"
    using Suc.prems by (simp add: sentry_span_open_def)
  with Suc show ?case by simp
qed simp

theorem spans_kept_or_counted_witness:
  "tx_dropped_spans (fold do_span_call (replicate 6 (SpanOpen (Some ''op'') None (Some [7]) 5))
     (sentry_transaction_begin None (Some ''boot'') None 0)) = 2"
proof -
  let ?cs = "replicate 6 (SpanOpen (Some ''op'') None (Some [7]) 5)"
  let ?t = "sentry_transaction_begin None (Some ''boot'') None 0"
  have n: "opens ?cs ?t = 6"
    by (rule opens_replicate) (simp add: sentry_transaction_begin_def)
  show ?thesis
    using spans_kept_or_counted [of ?cs None "Some ''boot''" None 0] unfolding n
    by (simp add: span_limits word_unat_eq_iff)
qed

text \<open>
  Setting a number on a span is an update of a map from keys to values: a key already there
  takes the new value, a new key is added while there is room, and a span that is full of other
  keys is left as it was.
\<close>

theorem span_set_number_is_map_update:
  "attr_map (sentry_span_set_number (Some k) v s) =
     (if k \<in> dom (attr_map s) \<or> length (sp_attrs s) < SENTRY_MICRO_MAX_SPAN_ATTRS
      then (attr_map s)(k \<mapsto> v) else attr_map s) \<and>
   sentry_span_set_number None v s = s"
proof (cases "set_attr k v (sp_attrs s)")
  case None
  then have "k \<notin> dom (attr_map s)" by (simp add: dom_attr_map set_attr_None)
  moreover have "map_of (map (\<lambda>a. (at_key a, at_value a)) (sp_attrs s) @ [(k, v)]) = (attr_map s)(k \<mapsto> v)"
    using \<open>k \<notin> dom (attr_map s)\<close> by (auto simp: attr_map_def map_add_def split: option.split)
  ultimately show ?thesis using None
    by (auto simp: sentry_span_set_number_def attr_map_def)
next
  case (Some bs)
  then have "k \<in> dom (attr_map s)"
    using set_attr_None [of k v "sp_attrs s"] by (auto simp: dom_attr_map)
  then show ?thesis using Some set_attr_map_of [OF Some]
    by (simp add: sentry_span_set_number_def attr_map_def)
qed

lemma end_at_times:
  fixes t now unix
  defines "t' \<equiv> fst (sentry_transaction_end_at now unix t)"
  assumes "tx_active t" and "tx_start_uptime_us t \<le> now" and "unix \<noteq> 0"
  shows "unat (sentry_transaction_start_unix_us t') =
    unat unix - (unat now - unat (tx_start_uptime_us t))"
proof -
  let ?e = "now - tx_start_uptime_us t"
  have e: "unat ?e = unat now - unat (tx_start_uptime_us t)"
    using assms(3) by (simp add: unat_sub)
  have "tx_end_unix_us t' = unix" "tx_end_uptime_us t' = now"
      "tx_start_uptime_us t' = tx_start_uptime_us t"
    using assms(2,4) by (simp_all add: t'_def sentry_transaction_end_at_def Let_def)
  then have "sentry_transaction_start_unix_us t' = (if ?e > unix then 0 else unix - ?e)"
    using assms(4) by (simp add: sentry_transaction_start_unix_us_def Let_def)
  moreover have "unat (unix - ?e) = unat unix - unat ?e" if "\<not> ?e > unix"
    using that by (simp add: unat_sub not_less)
  ultimately show ?thesis using e by (auto simp: word_less_nat_alt)
qed

text \<open>
  Ending a transaction closes every span exactly once: one already closed keeps its end
  time, any other ends with the transaction; and when the wall clock is known the start instant
  derived from it is the end instant less the monotonic duration, never wrapped around.
\<close>

theorem transaction_end_times:
  fixes t now unix
  defines "t' \<equiv> fst (sentry_transaction_end_at now unix t)"
  assumes "tx_active t" and "tx_start_uptime_us t \<le> now"
  shows "(snd (sentry_transaction_end_at now unix t) \<longleftrightarrow> unix \<noteq> 0) \<and>
    (\<forall>i < length (tx_spans t). sp_finished (tx_spans t' ! i) \<and>
       sp_end_uptime_us (tx_spans t' ! i) =
         (if sp_finished (tx_spans t ! i) then sp_end_uptime_us (tx_spans t ! i) else now)) \<and>
    (unix \<noteq> 0 \<longrightarrow> unat (sentry_transaction_start_unix_us t') =
       unat unix - (unat now - unat (tx_start_uptime_us t)))"
proof -
  have "snd (sentry_transaction_end_at now unix t) \<longleftrightarrow> unix \<noteq> 0"
    using assms by (simp add: sentry_transaction_end_at_def Let_def)
  moreover have "\<forall>i < length (tx_spans t). sp_finished (tx_spans t' ! i) \<and>
      sp_end_uptime_us (tx_spans t' ! i) =
        (if sp_finished (tx_spans t ! i) then sp_end_uptime_us (tx_spans t ! i) else now)"
    using assms by (auto simp: t'_def sentry_transaction_end_at_def sentry_span_close_def Let_def)
  moreover have "unix \<noteq> 0 \<longrightarrow> unat (sentry_transaction_start_unix_us t') =
      unat unix - (unat now - unat (tx_start_uptime_us t))"
    unfolding t'_def using end_at_times [OF assms(2,3)] by blast
  ultimately show ?thesis by blast
qed

theorem transaction_end_times_witness:
  "unat (sentry_transaction_start_unix_us (fst (sentry_transaction_end_at 250 1000
     (sentry_transaction_begin None (Some ''ota'') None 100)))) = 850"
  using transaction_end_times [of "sentry_transaction_begin None (Some ''ota'') None 100" 250 1000]
  by (simp add: sentry_transaction_begin_def)

end
