(* ===== verification/Sentry_Device_Info.thy ===== *)
theory Sentry_Device_Info
  imports Sentry_Prelude
begin

text \<open>
  The facts every event carries: \<open>sentry_device_info_t\<close> and the reset reasons of
  \<open>src/core/sentry_device_info.c\<close>, and the crash record \<open>sentry_coredump_t\<close> of
  \<open>src/core/sentry_coredump.h\<close>. Both are filled in by the device layer.
\<close>

section \<open>Reset reasons\<close>

datatype sentry_reset_reason =
    SENTRY_RESET_UNKNOWN | SENTRY_RESET_POWERON | SENTRY_RESET_EXTERNAL | SENTRY_RESET_SOFTWARE
  | SENTRY_RESET_PANIC | SENTRY_RESET_INT_WDT | SENTRY_RESET_TASK_WDT | SENTRY_RESET_WDT
  | SENTRY_RESET_DEEPSLEEP | SENTRY_RESET_BROWNOUT | SENTRY_RESET_SDIO | SENTRY_RESET_USB
  | SENTRY_RESET_JTAG

fun sentry_reset_reason_name :: "sentry_reset_reason \<Rightarrow> string" where
  "sentry_reset_reason_name SENTRY_RESET_POWERON = ''poweron''"
| "sentry_reset_reason_name SENTRY_RESET_EXTERNAL = ''external''"
| "sentry_reset_reason_name SENTRY_RESET_SOFTWARE = ''software''"
| "sentry_reset_reason_name SENTRY_RESET_PANIC = ''panic''"
| "sentry_reset_reason_name SENTRY_RESET_INT_WDT = ''int_wdt''"
| "sentry_reset_reason_name SENTRY_RESET_TASK_WDT = ''task_wdt''"
| "sentry_reset_reason_name SENTRY_RESET_WDT = ''wdt''"
| "sentry_reset_reason_name SENTRY_RESET_DEEPSLEEP = ''deepsleep''"
| "sentry_reset_reason_name SENTRY_RESET_BROWNOUT = ''brownout''"
| "sentry_reset_reason_name SENTRY_RESET_SDIO = ''sdio''"
| "sentry_reset_reason_name SENTRY_RESET_USB = ''usb''"
| "sentry_reset_reason_name SENTRY_RESET_JTAG = ''jtag''"
| "sentry_reset_reason_name SENTRY_RESET_UNKNOWN = ''unknown''"

fun sentry_reset_reason_is_crash :: "sentry_reset_reason \<Rightarrow> bool" where
  "sentry_reset_reason_is_crash SENTRY_RESET_PANIC = True"
| "sentry_reset_reason_is_crash SENTRY_RESET_INT_WDT = True"
| "sentry_reset_reason_is_crash SENTRY_RESET_TASK_WDT = True"
| "sentry_reset_reason_is_crash SENTRY_RESET_WDT = True"
| "sentry_reset_reason_is_crash SENTRY_RESET_BROWNOUT = True"
| "sentry_reset_reason_is_crash _ = False"

lemma reset_reason_name_inj: "inj sentry_reset_reason_name"
proof (rule injI)
  fix a b
  assume "sentry_reset_reason_name a = sentry_reset_reason_name b"
  then show "a = b" by (cases a; cases b) auto
qed

section \<open>Device facts\<close>

record sentry_device_info =
  di_chip_model :: string
  di_device_id :: string
  di_sdk_version :: string
  di_arch :: string
  di_chip_revision :: u16
  di_cpu_cores :: u8
  di_flash_size_bytes :: u32
  di_total_heap_bytes :: u32
  di_reset_reason :: sentry_reset_reason

section \<open>Crash records\<close>

definition SENTRY_MICRO_MAX_FRAMES :: nat where "SENTRY_MICRO_MAX_FRAMES = 16"

text \<open>\<open>cd_frames\<close> is the whole array of \<open>SENTRY_MICRO_MAX_FRAMES\<close> words.\<close>

record sentry_coredump =
  cd_available :: bool
  cd_task_name :: string
  cd_exception_type :: string
  cd_exception_pc :: u32
  cd_exception_addr :: u32
  cd_exception_addr_valid :: bool
  cd_frames :: "u32 list"
  cd_frame_count :: u32
  cd_truncated :: bool
  cd_app_elf_sha256 :: string

definition coredump_wf :: "sentry_coredump \<Rightarrow> bool" where
  "coredump_wf c \<longleftrightarrow> length (cd_frames c) = SENTRY_MICRO_MAX_FRAMES \<and>
     unat (cd_frame_count c) \<le> SENTRY_MICRO_MAX_FRAMES \<and> length (cd_task_name c) < 16 \<and>
     length (cd_exception_type c) < 32"

definition coredump_zero :: sentry_coredump where
  "coredump_zero = \<lparr>cd_available = False, cd_task_name = [], cd_exception_type = [],
     cd_exception_pc = 0, cd_exception_addr = 0, cd_exception_addr_valid = False,
     cd_frames = replicate SENTRY_MICRO_MAX_FRAMES 0, cd_frame_count = 0, cd_truncated = False,
     cd_app_elf_sha256 = []\<rparr>"

end
