(* ===== verification/Sentry_Envelope.thy ===== *)
theory Sentry_Envelope
  imports Envelope_Frame Sentry_Span Sentry_Device_Info
begin

text \<open>
  Event and transaction envelopes, \<open>src/core/sentry_envelope.c\<close>. The long \<open>write_event\<close> is
  split where its sections are: head, tags, contexts, exception, debug images; each section is
  the list of writer statements the C code executes. What the sections emit, and what an
  envelope therefore reads back as, is in \<open>Sentry_Envelope_Correct\<close>.
\<close>

section \<open>Levels and ids\<close>

datatype sentry_level =
    SENTRY_LEVEL_DEBUG | SENTRY_LEVEL_INFO | SENTRY_LEVEL_WARNING | SENTRY_LEVEL_ERROR
  | SENTRY_LEVEL_FATAL

fun level_number :: "sentry_level \<Rightarrow> nat" where
  "level_number SENTRY_LEVEL_DEBUG = 0"
| "level_number SENTRY_LEVEL_INFO = 1"
| "level_number SENTRY_LEVEL_WARNING = 2"
| "level_number SENTRY_LEVEL_ERROR = 3"
| "level_number SENTRY_LEVEL_FATAL = 4"

lemma level_number_eq [simp]: "level_number a = level_number b \<longleftrightarrow> a = b"
  by (cases a; cases b) simp_all

text \<open>C compares levels by the number of the enumerator.\<close>

instantiation sentry_level :: linorder
begin

definition less_eq_sentry_level :: "sentry_level \<Rightarrow> sentry_level \<Rightarrow> bool" where
  "less_eq_sentry_level a b \<longleftrightarrow> level_number a \<le> level_number b"

definition less_sentry_level :: "sentry_level \<Rightarrow> sentry_level \<Rightarrow> bool" where
  "less_sentry_level a b \<longleftrightarrow> level_number a < level_number b"

instance
  by standard (auto simp: less_eq_sentry_level_def less_sentry_level_def)

end

fun sentry_level_name :: "sentry_level \<Rightarrow> string" where
  "sentry_level_name SENTRY_LEVEL_DEBUG = ''debug''"
| "sentry_level_name SENTRY_LEVEL_INFO = ''info''"
| "sentry_level_name SENTRY_LEVEL_WARNING = ''warning''"
| "sentry_level_name SENTRY_LEVEL_FATAL = ''fatal''"
| "sentry_level_name SENTRY_LEVEL_ERROR = ''error''"

definition sentry_event_id_format :: "bytes \<Rightarrow> string" where
  "sentry_event_id_format random_bytes =
     (let bs = take 16 random_bytes;
          bs = bs[6 := (bs ! 6 AND 0x0f) OR 0x40];
          bs = bs[8 := (bs ! 8 AND 0x3f) OR 0x80]
      in concat (map hex_byte bs))"

definition hex_value :: "char \<Rightarrow> int" where
  "hex_value c =
     (if CHR ''0'' \<le> c \<and> c \<le> CHR ''9'' then int (code_of c) - int (code_of CHR ''0'')
      else if CHR ''a'' \<le> c \<and> c \<le> CHR ''f'' then int (code_of c) - int (code_of CHR ''a'') + 10
      else if CHR ''A'' \<le> c \<and> c \<le> CHR ''F'' then int (code_of c) - int (code_of CHR ''A'') + 10
      else -1)"

text \<open>
  The decoding loop from byte \<open>i\<close> on: \<open>None\<close> for the early return on a bad digit, otherwise
  the final index and the bytes stored.
\<close>

function debug_id_bytes :: "string \<Rightarrow> nat \<Rightarrow> bytes \<Rightarrow> (nat \<times> bytes) option" where
  "debug_id_bytes code i bs =
     (if i < 16 \<and> cstr_at code (i * 2) \<noteq> NUL \<and> cstr_at code (i * 2 + 1) \<noteq> NUL then
        (let high = hex_value (cstr_at code (i * 2));
             low = hex_value (cstr_at code (i * 2 + 1))
         in if high < 0 \<or> low < 0 then None
            else debug_id_bytes code (i + 1) (bs[i := word_of_int (16 * high + low)]))
      else Some (i, bs))"
  by pat_completeness auto
termination by (relation "measure (\<lambda>(code, i, bs). 16 - i)") auto

declare debug_id_bytes.simps [simp del]

definition debug_id_text :: "bytes \<Rightarrow> string" where
  "debug_id_text bs =
     concat (map (\<lambda>i. hex_byte (bs ! i)) [3, 2, 1, 0]) @ ''-'' @
     concat (map (\<lambda>i. hex_byte (bs ! i)) [5, 4]) @ ''-'' @
     concat (map (\<lambda>i. hex_byte (bs ! i)) [7, 6]) @ ''-'' @
     concat (map (\<lambda>i. hex_byte (bs ! i)) [8, 9]) @ ''-'' @
     concat (map (\<lambda>i. hex_byte (bs ! i)) [10, 11, 12, 13, 14, 15])"

text \<open>\<open>None\<close> is the return value false, with \<open>out\<close> left empty.\<close>

definition sentry_debug_id_from_code_id :: "cptr \<Rightarrow> string option" where
  "sentry_debug_id_from_code_id code_id_hex =
     (case code_id_hex of
        None \<Rightarrow> None
      | Some code \<Rightarrow>
          (case debug_id_bytes code 0 (replicate 16 0) of
             None \<Rightarrow> None
           | Some (i, bs) \<Rightarrow>
               if i = 0 then None
               else if cstr_at code (i * 2) \<noteq> NUL \<and> cstr_at code (i * 2 + 1) = NUL then None
               else Some (debug_id_text bs)))"

section \<open>Events\<close>

record sentry_event =
  ev_event_id :: cptr
  ev_level :: sentry_level
  ev_message :: cptr
  ev_release :: cptr
  ev_environment :: cptr
  ev_board :: cptr
  ev_timestamp :: u64
  ev_device :: "sentry_device_info option"
  ev_build_id :: cptr
  ev_coredump :: "sentry_coredump option"
  ev_image_addr :: u64
  ev_image_size :: u64
  ev_image_name :: cptr
  ev_trace :: "sentry_trace_context option"
  ev_free_heap_bytes :: u32
  ev_min_free_heap_bytes :: u32
  ev_uptime_ms :: u64

definition SENTRY_MICRO_SDK_NAME :: string where "SENTRY_MICRO_SDK_NAME = ''sentry.micro.esp32''"
definition SENTRY_MICRO_SDK_VERSION :: string where "SENTRY_MICRO_SDK_VERSION = ''0.1.0''"

type_synonym json_stmts = "(sentry_json \<Rightarrow> sentry_json) list"

definition sdk_stmts :: json_stmts where
  "sdk_stmts =
     [sentry_json_key ''sdk'',
      in_object [sentry_json_kv_string ''name'' (Some SENTRY_MICRO_SDK_NAME),
                 sentry_json_kv_string ''version'' (Some SENTRY_MICRO_SDK_VERSION)]]"

text \<open>\<open>event->coredump && event->coredump->available\<close>, and the record when it holds.\<close>

definition ev_crash :: "sentry_event \<Rightarrow> sentry_coredump option" where
  "ev_crash ev = (case ev_coredump ev of
     Some c \<Rightarrow> if cd_available c then Some c else None | None \<Rightarrow> None)"

definition ev_live_trace :: "sentry_event \<Rightarrow> sentry_trace_context option" where
  "ev_live_trace ev = (case ev_trace ev of
     Some t \<Rightarrow> if tc_active t then Some t else None | None \<Rightarrow> None)"

definition if_some :: "'a option \<Rightarrow> ('a \<Rightarrow> 'b list) \<Rightarrow> 'b list" where
  "if_some x f = (case x of None \<Rightarrow> [] | Some y \<Rightarrow> f y)"

definition if_true :: "bool \<Rightarrow> 'b list \<Rightarrow> 'b list" where
  "if_true b xs = (if b then xs else [])"

definition event_head :: "sentry_event \<Rightarrow> json_stmts" where
  "event_head ev =
     [sentry_json_kv_string ''event_id'' (ev_event_id ev),
      sentry_json_kv_string ''platform'' (Some ''native''),
      sentry_json_kv_string ''level'' (Some (sentry_level_name (ev_level ev))),
      json_when (ev_timestamp ev > 0) [sentry_json_kv_uint ''timestamp'' (ev_timestamp ev)],
      sentry_json_kv_string_opt ''release'' (ev_release ev),
      sentry_json_kv_string_opt ''environment'' (ev_environment ev)] @
     sdk_stmts @
     [json_when (ev_message ev \<noteq> None \<and> ev_message ev \<noteq> Some [])
        [sentry_json_key ''message'',
         in_object [sentry_json_kv_string ''formatted'' (ev_message ev)]]]"

definition event_tags :: "sentry_event \<Rightarrow> json_stmts" where
  "event_tags ev =
     [sentry_json_key ''tags'',
      in_object
        (if_some (ev_device ev) (\<lambda>device.
           [sentry_json_kv_string_opt ''chip'' (Some (di_chip_model device)),
            sentry_json_kv_string_opt ''device_id'' (Some (di_device_id device)),
            sentry_json_kv_string ''reset_reason''
              (Some (sentry_reset_reason_name (di_reset_reason device))),
            sentry_json_kv_bool ''crashed''
              (sentry_reset_reason_is_crash (di_reset_reason device) \<or> ev_crash ev \<noteq> None)]) @
         [sentry_json_kv_string_opt ''board'' (ev_board ev)] @
         if_some (ev_crash ev) (\<lambda>crash.
           [sentry_json_kv_string ''backtrace''
              (Some (if cd_truncated crash then ''truncated'' else ''complete''))]))]"

definition event_device_contexts :: "sentry_event \<Rightarrow> sentry_device_info \<Rightarrow> json_stmts" where
  "event_device_contexts ev device =
     [sentry_json_key ''device'',
      in_object
        [sentry_json_kv_string ''type'' (Some ''device''),
         sentry_json_kv_string_opt ''model'' (Some (di_chip_model device)),
         sentry_json_kv_string_opt ''arch'' (Some (di_arch device)),
         sentry_json_kv_uint ''memory_size'' (ucast (di_total_heap_bytes device)),
         sentry_json_kv_uint ''free_memory'' (ucast (ev_free_heap_bytes ev)),
         sentry_json_kv_uint ''processor_count'' (ucast (di_cpu_cores device)),
         sentry_json_kv_uint ''storage_size'' (ucast (di_flash_size_bytes device))],
      sentry_json_key ''os'',
      in_object
        [sentry_json_kv_string ''type'' (Some ''os''),
         sentry_json_kv_string ''name'' (Some ''esp-idf''),
         sentry_json_kv_string_opt ''version'' (Some (di_sdk_version device))]]"

definition event_esp32_context :: "sentry_event \<Rightarrow> json_stmts" where
  "event_esp32_context ev =
     [sentry_json_key ''esp32'',
      in_object
        ([sentry_json_kv_string ''type'' (Some ''esp32''),
          sentry_json_kv_uint ''uptime_ms'' (ev_uptime_ms ev),
          sentry_json_kv_uint ''free_heap'' (ucast (ev_free_heap_bytes ev)),
          sentry_json_kv_uint ''min_free_heap'' (ucast (ev_min_free_heap_bytes ev))] @
         if_some (ev_crash ev) (\<lambda>crash.
           [sentry_json_kv_uint ''frames_captured'' (ucast (cd_frame_count crash)),
            sentry_json_kv_bool ''backtrace_truncated'' (cd_truncated crash),
            sentry_json_kv_string_opt ''crash_task'' (Some (cd_task_name crash))]) @
         if_some (ev_device ev) (\<lambda>device.
           [sentry_json_kv_uint ''chip_revision'' (ucast (di_chip_revision device))]))]"

definition event_trace_contexts :: "sentry_trace_context \<Rightarrow> json_stmts" where
  "event_trace_contexts trace =
     [sentry_json_key ''trace'',
      in_object
        [sentry_json_kv_string ''type'' (Some ''trace''),
         sentry_json_kv_string ''trace_id'' (Some (tc_trace_id trace)),
         sentry_json_kv_string ''span_id'' (Some (tc_span_id trace)),
         json_when (tc_parent_span_id trace \<noteq> [])
           [sentry_json_kv_string ''parent_span_id'' (Some (tc_parent_span_id trace))]],
      json_when (tc_replay_id trace \<noteq> [])
        [sentry_json_key ''replay'',
         in_object
           [sentry_json_kv_string ''type'' (Some ''replay''),
            sentry_json_kv_string ''replay_id'' (Some (tc_replay_id trace))]]]"

definition event_contexts :: "sentry_event \<Rightarrow> json_stmts" where
  "event_contexts ev =
     [sentry_json_key ''contexts'',
      in_object
        (if_some (ev_device ev) (event_device_contexts ev) @ event_esp32_context ev @
         if_some (ev_live_trace ev) event_trace_contexts)]"

text \<open>\<open>"0x%08x"\<close> into 24 bytes.\<close>

definition frame_address :: "u32 \<Rightarrow> string" where
  "frame_address pc = snprintf_content 24 (''0x'' @ zero_pad 8 (hex_nat (unat pc)))"

definition frame_stmts :: "u32 \<Rightarrow> sentry_json \<Rightarrow> sentry_json" where
  "frame_stmts pc = in_object [sentry_json_kv_string ''instruction_addr'' (Some (frame_address pc))]"

definition exception_value :: "sentry_coredump \<Rightarrow> json_stmts" where
  "exception_value crash =
     (if cd_exception_addr_valid crash then
        [sentry_json_kv_string ''value''
           (Some (snprintf_content 32
              (''accessing 0x'' @ zero_pad 8 (hex_nat (unat (cd_exception_addr crash))))))]
      else if cd_task_name crash \<noteq> [] then
        [sentry_json_kv_string ''value''
           (Some (snprintf_content 20 (''in '' @ cd_task_name crash)))]
      else [])"

definition exception_frames :: "sentry_coredump \<Rightarrow> json_stmts" where
  "exception_frames crash =
     if_true (cd_frame_count crash = 0 \<and> cd_exception_pc crash \<noteq> 0)
       [frame_stmts (cd_exception_pc crash)] @
     map (\<lambda>i. frame_stmts (cd_frames crash ! i)) (rev [0..<unat (cd_frame_count crash)])"

definition event_exception :: "sentry_coredump \<Rightarrow> json_stmts" where
  "event_exception crash =
     [sentry_json_key ''exception'',
      in_object
        [sentry_json_key ''values'',
         in_array
           [in_object
              ([sentry_json_kv_string ''type''
                  (Some (if cd_exception_type crash \<noteq> [] then cd_exception_type crash else ''Panic''))] @
               exception_value crash @
               [sentry_json_kv_string_opt ''thread_id'' (Some (cd_task_name crash)),
                sentry_json_kv_string ''platform'' (Some ''native''),
                sentry_json_key ''stacktrace'',
                in_object
                  [sentry_json_key ''frames'', in_array (exception_frames crash)]])]]]"

definition event_image :: "sentry_event \<Rightarrow> string \<Rightarrow> json_stmts" where
  "event_image ev debug_id =
     [sentry_json_key ''debug_meta'',
      in_object
        [sentry_json_key ''images'',
         in_array
           [in_object
              [sentry_json_kv_string ''type'' (Some ''elf''),
               sentry_json_kv_string ''code_id'' (ev_build_id ev),
               sentry_json_kv_string ''debug_id'' (Some debug_id),
               sentry_json_kv_string ''image_addr''
                 (Some (snprintf_content 24 (''0x'' @ hex_nat (unat (ev_image_addr ev))))),
               sentry_json_kv_string_opt ''code_file'' (ev_image_name ev),
               json_when (ev_image_size ev > 0)
                 [sentry_json_kv_uint ''image_size'' (ev_image_size ev)]]]]]"

definition event_debug_meta :: "sentry_event \<Rightarrow> json_stmts" where
  "event_debug_meta ev =
     if_true (ev_build_id ev \<noteq> None \<and> ev_build_id ev \<noteq> Some [])
       (if_some (sentry_debug_id_from_code_id (ev_build_id ev)) (event_image ev))"

definition write_event :: "sentry_event \<Rightarrow> sentry_json \<Rightarrow> sentry_json" where
  "write_event ev =
     in_object (event_head ev @ event_tags ev @ event_contexts ev @
       if_some (ev_crash ev) event_exception @ event_debug_meta ev)"

definition sentry_event_write ::
    "sentry_event option \<Rightarrow> string option \<Rightarrow> nat \<Rightarrow> string option \<times> nat" where
  "sentry_event_write event buf cap =
     (case event of
        None \<Rightarrow> (clear_if_room buf cap, 0)
      | Some ev \<Rightarrow>
          if ev_event_id ev = None then (clear_if_room buf cap, 0)
          else run_json_checked (write_event ev) buf cap)"

text \<open>The text of a C string argument of \<open>%s\<close>; the callers have ruled NULL out.\<close>

definition cptr_text :: "cptr \<Rightarrow> string" where
  "cptr_text p = (case p of None \<Rightarrow> [] | Some s \<Rightarrow> s)"

definition item_header :: "string \<Rightarrow> cptr \<Rightarrow> nat \<Rightarrow> string" where
  "item_header type_text event_id payload_len =
     ''{'' @ [QUOTE] @ ''event_id'' @ [QUOTE] @ '':'' @ [QUOTE] @ cptr_text event_id @ [QUOTE] @ ''}'' @
     [NEWLINE] @
     ''{'' @ [QUOTE] @ ''type'' @ [QUOTE] @ '':'' @ [QUOTE] @ type_text @ [QUOTE] @ '','' @
     [QUOTE] @ ''length'' @ [QUOTE] @ '':'' @ dec (payload_len mod 2 ^ 32) @ ''}'' @ [NEWLINE]"

definition sentry_envelope_write ::
    "sentry_event option \<Rightarrow> string option \<Rightarrow> nat \<Rightarrow> string option \<times> nat" where
  "sentry_envelope_write event buf cap =
     (case event of
        None \<Rightarrow> (clear_if_room buf cap, 0)
      | Some ev \<Rightarrow>
          if ev_event_id ev = None then (clear_if_room buf cap, 0)
          else envelope_frame 128 (item_header ''event'' (ev_event_id ev))
                 (sentry_event_write (Some ev)) buf cap)"

section \<open>Transactions\<close>

record sentry_transaction_meta =
  tm_event_id :: cptr
  tm_release :: cptr
  tm_environment :: cptr
  tm_board :: cptr
  tm_device :: "sentry_device_info option"

definition span_unix_us :: "sentry_transaction \<Rightarrow> u64 \<Rightarrow> u64" where
  "span_unix_us txn uptime_us =
     sentry_transaction_start_unix_us txn + (uptime_us - tx_start_uptime_us txn)"

definition span_attr_stmts :: "sentry_span_attr \<Rightarrow> json_stmts" where
  "span_attr_stmts a = [sentry_json_key (at_key a), sentry_json_int (at_value a)]"

definition span_stmts :: "sentry_transaction \<Rightarrow> sentry_span \<Rightarrow> sentry_json \<Rightarrow> sentry_json" where
  "span_stmts txn span =
     in_object
       [sentry_json_kv_string ''span_id'' (Some (sp_span_id span)),
        sentry_json_kv_string ''parent_span_id'' (Some (tc_span_id (tx_trace txn))),
        sentry_json_kv_string ''trace_id'' (Some (tc_trace_id (tx_trace txn))),
        sentry_json_kv_string_opt ''op'' (sp_op span),
        sentry_json_kv_string_opt ''description'' (sp_description span),
        sentry_json_kv_micros ''start_timestamp'' (span_unix_us txn (sp_start_uptime_us span)),
        sentry_json_kv_micros ''timestamp'' (span_unix_us txn (sp_end_uptime_us span)),
        json_when (length (sp_attrs span) > 0)
          [sentry_json_key ''data'', in_object (concat (map span_attr_stmts (sp_attrs span)))]]"

definition transaction_trace_context :: "sentry_transaction \<Rightarrow> json_stmts" where
  "transaction_trace_context txn =
     [sentry_json_key ''trace'',
      in_object
        [sentry_json_kv_string ''type'' (Some ''trace''),
         sentry_json_kv_string ''trace_id'' (Some (tc_trace_id (tx_trace txn))),
         sentry_json_kv_string ''span_id'' (Some (tc_span_id (tx_trace txn))),
         json_when (tc_parent_span_id (tx_trace txn) \<noteq> [])
           [sentry_json_kv_string ''parent_span_id'' (Some (tc_parent_span_id (tx_trace txn)))],
         sentry_json_kv_string_opt ''op'' (tx_op txn)]]"

definition write_transaction ::
    "sentry_transaction \<Rightarrow> sentry_transaction_meta \<Rightarrow> sentry_json \<Rightarrow> sentry_json" where
  "write_transaction txn meta =
     in_object
       ([sentry_json_kv_string ''event_id'' (tm_event_id meta),
         sentry_json_kv_string ''type'' (Some ''transaction''),
         sentry_json_kv_string ''platform'' (Some ''native''),
         sentry_json_kv_string ''transaction''
           (Some (case tx_name txn of Some n \<Rightarrow> n | None \<Rightarrow> ''operation'')),
         sentry_json_kv_micros ''start_timestamp'' (sentry_transaction_start_unix_us txn),
         sentry_json_kv_micros ''timestamp'' (tx_end_unix_us txn),
         sentry_json_kv_string_opt ''release'' (tm_release meta),
         sentry_json_kv_string_opt ''environment'' (tm_environment meta)] @
        sdk_stmts @
        [sentry_json_key ''tags'',
         in_object
           (if_some (tm_device meta) (\<lambda>device.
              [sentry_json_kv_string_opt ''chip'' (Some (di_chip_model device)),
               sentry_json_kv_string_opt ''device_id'' (Some (di_device_id device))]) @
            [sentry_json_kv_string_opt ''board'' (tm_board meta),
             json_when (tx_dropped_spans txn > 0)
               [sentry_json_kv_string ''spans_dropped'' (Some ''true'')]]),
         sentry_json_key ''contexts'',
         in_object (transaction_trace_context txn),
         sentry_json_key ''spans'',
         in_array (map (span_stmts txn) (tx_spans txn))])"

definition transaction_write ::
    "sentry_transaction \<times> sentry_transaction_meta \<Rightarrow> string option \<Rightarrow> nat \<Rightarrow> string option \<times> nat" where
  "transaction_write tm buf cap = run_json_checked (write_transaction (fst tm) (snd tm)) buf cap"

definition sentry_transaction_envelope_write ::
    "sentry_transaction option \<Rightarrow> sentry_transaction_meta option \<Rightarrow> string option \<Rightarrow> nat \<Rightarrow>
     string option \<times> nat" where
  "sentry_transaction_envelope_write txn meta buf cap =
     (let buf = clear_if_room buf cap
      in case (txn, meta) of
           (Some t, Some m) \<Rightarrow>
             if tm_event_id m = None \<or> tx_end_unix_us t = 0 \<or>
                sentry_transaction_start_unix_us t = 0 then (buf, 0)
             else envelope_frame 128 (item_header ''transaction'' (tm_event_id m))
                    (transaction_write (t, m)) buf cap
         | _ \<Rightarrow> (buf, 0))"

end
