(* ===== verification/Sentry_Envelope_Correct.thy ===== *)
theory Sentry_Envelope_Correct
  imports Sentry_Envelope
begin

text \<open>
  What the event and transaction writers emit. \<open>event_document\<close> and \<open>transaction_document\<close>
  are the JSON documents, written as data; the writers emit exactly them, and the envelope
  frames, through the interface \<open>envelope_payload\<close>, produce envelopes that read back as them.
\<close>

section \<open>Rules for the statements of the sections\<close>

lemma emits_members_eq: "emits_members p kvs \<Longrightarrow> kvs = kvs' \<Longrightarrow> emits_members p kvs'"
  by simp

lemma emits_value_eq: "emits_value p v \<Longrightarrow> v = v' \<Longrightarrow> emits_value p v'"
  by simp

lemma emits_if_some:
  "(\<And>y. emits_members (json_do (f y)) (g y)) \<Longrightarrow> emits_members (json_do (if_some x f)) (if_some x g)"
  by (cases x) (simp_all add: if_some_def emits_members_Nil)

lemma emits_values_single: "emits_value p v \<Longrightarrow> emits_values (json_do [p]) [v]"
  using emits_values_seq [OF emits_value_values emits_values_Nil] by simp

lemmas stmt_rules = emits_members_append emits_member_seq emits_members_seq emits_if_some
  emits_values_single json_emits

section \<open>The documents\<close>

definition sdk_member :: "string \<times> json" where
  "sdk_member = (''sdk'', JObject [(''name'', JString SENTRY_MICRO_SDK_NAME),
     (''version'', JString SENTRY_MICRO_SDK_VERSION)])"

definition head_members :: "sentry_event \<Rightarrow> (string \<times> json) list" where
  "head_members ev =
     [(''event_id'', json_of_cptr (ev_event_id ev)), (''platform'', JString ''native''),
      (''level'', JString (sentry_level_name (ev_level ev)))] @
     if_true (ev_timestamp ev > 0) [(''timestamp'', json_of_uint (ev_timestamp ev))] @
     opt_member ''release'' (ev_release ev) @ opt_member ''environment'' (ev_environment ev) @
     [sdk_member] @
     if_true (ev_message ev \<noteq> None \<and> ev_message ev \<noteq> Some [])
       [(''message'', JObject [(''formatted'', json_of_cptr (ev_message ev))])]"

definition tag_members :: "sentry_event \<Rightarrow> (string \<times> json) list" where
  "tag_members ev =
     if_some (ev_device ev) (\<lambda>device.
       opt_member ''chip'' (Some (di_chip_model device)) @
       opt_member ''device_id'' (Some (di_device_id device)) @
       [(''reset_reason'', JString (sentry_reset_reason_name (di_reset_reason device))),
        (''crashed'', JBool (sentry_reset_reason_is_crash (di_reset_reason device) \<or>
           ev_crash ev \<noteq> None))]) @
     opt_member ''board'' (ev_board ev) @
     if_some (ev_crash ev) (\<lambda>crash.
       [(''backtrace'', JString (if cd_truncated crash then ''truncated'' else ''complete''))])"

definition device_context_members :: "sentry_event \<Rightarrow> sentry_device_info \<Rightarrow> (string \<times> json) list" where
  "device_context_members ev device =
     [(''device'', JObject
        ([(''type'', JString ''device'')] @ opt_member ''model'' (Some (di_chip_model device)) @
         opt_member ''arch'' (Some (di_arch device)) @
         [(''memory_size'', json_of_uint (ucast (di_total_heap_bytes device))),
          (''free_memory'', json_of_uint (ucast (ev_free_heap_bytes ev))),
          (''processor_count'', json_of_uint (ucast (di_cpu_cores device))),
          (''storage_size'', json_of_uint (ucast (di_flash_size_bytes device)))])),
      (''os'', JObject
        ([(''type'', JString ''os''), (''name'', JString ''esp-idf'')] @
         opt_member ''version'' (Some (di_sdk_version device))))]"

definition esp32_members :: "sentry_event \<Rightarrow> (string \<times> json) list" where
  "esp32_members ev =
     [(''esp32'', JObject
        ([(''type'', JString ''esp32''), (''uptime_ms'', json_of_uint (ev_uptime_ms ev)),
          (''free_heap'', json_of_uint (ucast (ev_free_heap_bytes ev))),
          (''min_free_heap'', json_of_uint (ucast (ev_min_free_heap_bytes ev)))] @
         if_some (ev_crash ev) (\<lambda>crash.
           [(''frames_captured'', json_of_uint (ucast (cd_frame_count crash))),
            (''backtrace_truncated'', JBool (cd_truncated crash))] @
           opt_member ''crash_task'' (Some (cd_task_name crash))) @
         if_some (ev_device ev) (\<lambda>device.
           [(''chip_revision'', json_of_uint (ucast (di_chip_revision device)))])))]"

definition trace_context_members :: "sentry_trace_context \<Rightarrow> (string \<times> json) list" where
  "trace_context_members trace =
     [(''trace'', JObject
        ([(''type'', JString ''trace''), (''trace_id'', JString (tc_trace_id trace)),
          (''span_id'', JString (tc_span_id trace))] @
         if_true (tc_parent_span_id trace \<noteq> [])
           [(''parent_span_id'', JString (tc_parent_span_id trace))]))] @
     if_true (tc_replay_id trace \<noteq> [])
       [(''replay'', JObject [(''type'', JString ''replay''),
          (''replay_id'', JString (tc_replay_id trace))])]"

definition context_members :: "sentry_event \<Rightarrow> (string \<times> json) list" where
  "context_members ev =
     if_some (ev_device ev) (device_context_members ev) @ esp32_members ev @
     if_some (ev_live_trace ev) trace_context_members"

text \<open>The stack of a crash as Sentry wants it: the oldest frame first.\<close>

definition crash_stack :: "sentry_coredump \<Rightarrow> u32 list" where
  "crash_stack crash =
     (if cd_frame_count crash = 0
      then if_true (cd_exception_pc crash \<noteq> 0) [cd_exception_pc crash]
      else rev (take (unat (cd_frame_count crash)) (cd_frames crash)))"

definition address_text :: "u32 \<Rightarrow> string" where
  "address_text a = ''0x'' @ zero_pad 8 (hex_nat (unat a))"

definition frame_document :: "u32 \<Rightarrow> json" where
  "frame_document pc = JObject [(''instruction_addr'', JString (address_text pc))]"

definition value_members :: "sentry_coredump \<Rightarrow> (string \<times> json) list" where
  "value_members crash =
     (if cd_exception_addr_valid crash
      then [(''value'', JString (''accessing '' @ address_text (cd_exception_addr crash)))]
      else if_true (cd_task_name crash \<noteq> []) [(''value'', JString (''in '' @ cd_task_name crash))])"

definition exception_members :: "sentry_coredump \<Rightarrow> (string \<times> json) list" where
  "exception_members crash =
     [(''exception'', JObject [(''values'', JArray [JObject
        ([(''type'', JString (if cd_exception_type crash \<noteq> [] then cd_exception_type crash else ''Panic''))] @
         value_members crash @ opt_member ''thread_id'' (Some (cd_task_name crash)) @
         [(''platform'', JString ''native''),
          (''stacktrace'', JObject [(''frames'', JArray (map frame_document (crash_stack crash)))])])])])]"

definition image_members :: "sentry_event \<Rightarrow> string \<Rightarrow> (string \<times> json) list" where
  "image_members ev debug_id =
     [(''debug_meta'', JObject [(''images'', JArray [JObject
        ([(''type'', JString ''elf''), (''code_id'', json_of_cptr (ev_build_id ev)),
          (''debug_id'', JString debug_id),
          (''image_addr'', JString (''0x'' @ hex_nat (unat (ev_image_addr ev))))] @
         opt_member ''code_file'' (ev_image_name ev) @
         if_true (ev_image_size ev > 0) [(''image_size'', json_of_uint (ev_image_size ev))])])])]"

definition event_document :: "sentry_event \<Rightarrow> json" where
  "event_document ev = JObject
     (head_members ev @ [(''tags'', JObject (tag_members ev))] @
      [(''contexts'', JObject (context_members ev))] @
      if_some (ev_crash ev) exception_members @
      if_true (ev_build_id ev \<noteq> None \<and> ev_build_id ev \<noteq> Some [])
        (if_some (sentry_debug_id_from_code_id (ev_build_id ev)) (image_members ev)))"

section \<open>The sections emit their members\<close>

lemma json_of_cptr_Some [simp]: "json_of_cptr (Some s) = JString s"
  by (simp add: json_of_cptr_def)

lemma if_as_if_true: "(if b then xs else []) = if_true b xs"
  by (simp add: if_true_def)

lemma emits_sdk: "emits_members (json_do sdk_stmts) [sdk_member]"
  unfolding sdk_stmts_def
  by (rule emits_members_eq, (rule stmt_rules)+) (simp add: sdk_member_def)

lemma emits_head: "emits_members (json_do (event_head ev)) (head_members ev)"
  unfolding event_head_def
  by (rule emits_members_eq, (rule emits_sdk stmt_rules)+)
    (simp add: head_members_def if_true_def)

lemma emits_tags: "emits_members (json_do (event_tags ev)) [(''tags'', JObject (tag_members ev))]"
  unfolding event_tags_def
  by (rule emits_members_eq, (rule stmt_rules)+) (simp add: tag_members_def if_some_def split: option.split)

lemma emits_device_contexts:
  "emits_members (json_do (event_device_contexts ev device)) (device_context_members ev device)"
  unfolding event_device_contexts_def
  by (rule emits_members_eq, (rule stmt_rules)+) (simp add: device_context_members_def)

lemma emits_esp32: "emits_members (json_do (event_esp32_context ev)) (esp32_members ev)"
  unfolding event_esp32_context_def
  by (rule emits_members_eq, (rule stmt_rules)+)
    (simp add: esp32_members_def if_some_def split: option.split)

lemma emits_trace_contexts:
  "emits_members (json_do (event_trace_contexts trace)) (trace_context_members trace)"
  unfolding event_trace_contexts_def
  by (rule emits_members_eq, (rule stmt_rules)+) (simp add: trace_context_members_def if_true_def)

lemma emits_contexts:
  "emits_members (json_do (event_contexts ev)) [(''contexts'', JObject (context_members ev))]"
  unfolding event_contexts_def
  by (rule emits_members_eq,
      (rule emits_device_contexts emits_esp32 emits_trace_contexts stmt_rules)+)
    (simp add: context_members_def)

section \<open>Printed addresses fit their buffers\<close>

lemma length_hex_nat: "n < 16 ^ k \<Longrightarrow> 0 < k \<Longrightarrow> length (hex_nat n) \<le> k"
proof (induction k arbitrary: n)
  case (Suc k)
  show ?case
  proof (cases "n < 16")
    case True
    then show ?thesis by (simp add: hex_nat.simps [of n])
  next
    case False
    with Suc.prems have "0 < k" "n div 16 < 16 ^ k" by (auto intro: gr0I)
    then show ?thesis using Suc.IH [of "n div 16"] False by (simp add: hex_nat.simps [of n])
  qed
qed simp

lemma length_hex_u32: "length (hex_nat (unat (a :: u32))) \<le> 8"
  using unsigned_less [of a, where ?'a = nat] by (intro length_hex_nat) simp_all

lemma length_hex_u64: "length (hex_nat (unat (a :: u64))) \<le> 16"
  using unsigned_less [of a, where ?'a = nat] by (intro length_hex_nat) simp_all

lemma snprintf_content_fits: "length s < cap \<Longrightarrow> snprintf_content cap s = s"
  by (simp add: snprintf_content_def)

lemma length_address_text: "length (address_text a) = 10"
  using length_hex_u32 [of a] by (simp add: address_text_def zero_pad_def)

lemma frame_address_text: "frame_address a = address_text a"
  using length_address_text [of a] unfolding frame_address_def
  by (simp add: address_text_def snprintf_content_fits)

lemma exception_value_text:
  "snprintf_content 32 (''accessing 0x'' @ zero_pad 8 (hex_nat (unat a))) = ''accessing '' @ address_text a"
  using length_address_text [of a] by (simp add: address_text_def snprintf_content_fits)

lemma task_value_text:
  "length task < 16 \<Longrightarrow> snprintf_content 20 (''in '' @ task) = ''in '' @ task"
  by (simp add: snprintf_content_fits)

lemma image_addr_text:
  "snprintf_content 24 (''0x'' @ hex_nat (unat (a :: u64))) = ''0x'' @ hex_nat (unat a)"
  using length_hex_u64 [of a] by (simp add: snprintf_content_fits)

section \<open>The crash and the debug image\<close>

lemma emits_frame: "emits_value (frame_stmts pc) (frame_document pc)"
  unfolding frame_stmts_def
  by (rule emits_value_eq, (rule stmt_rules)+) (simp add: frame_document_def frame_address_text)

lemma emits_frames:
  assumes "coredump_wf crash"
  shows "emits_values (json_do (exception_frames crash)) (map frame_document (crash_stack crash))"
proof -
  let ?n = "unat (cd_frame_count crash)"
  have one: "emits_values (json_do (if_true b [frame_stmts pc])) (map frame_document (if_true b [pc]))"
    for b pc
    using emits_values_single [OF emits_frame] by (simp add: if_true_def emits_values_Nil)
  have loop: "emits_values (json_do (map (\<lambda>i. frame_stmts (cd_frames crash ! i)) (rev [0..<?n])))
      (map (\<lambda>i. frame_document (cd_frames crash ! i)) (rev [0..<?n]))"
    by (intro emits_values_map emits_frame)
  have "map (\<lambda>i. frame_document (cd_frames crash ! i)) (rev [0..<?n]) =
      map frame_document (rev (take ?n (cd_frames crash)))"
    using assms unfolding rev_map [symmetric] coredump_wf_def
    by (intro arg_cong [where f = rev] nth_equalityI) auto
  moreover have "crash_stack crash =
      if_true (cd_frame_count crash = 0 \<and> cd_exception_pc crash \<noteq> 0) [cd_exception_pc crash] @
      rev (take ?n (cd_frames crash))"
    by (simp add: crash_stack_def if_true_def)
  ultimately show ?thesis
    using emits_values_append [OF one loop] by (simp add: exception_frames_def)
qed

lemma emits_value_stmts:
  "coredump_wf crash \<Longrightarrow> emits_members (json_do (exception_value crash)) (value_members crash)"
  using emits_members_seq [OF emits_kv_string emits_members_Nil]
  by (auto simp: exception_value_def value_members_def coredump_wf_def exception_value_text
      task_value_text if_true_def emits_members_Nil simp flip: json_of_cptr_Some
      simp del: append.simps)

lemma emits_exception:
  assumes "coredump_wf crash"
  shows "emits_members (json_do (event_exception crash)) (exception_members crash)"
  unfolding event_exception_def
  by (rule emits_members_eq,
      (rule emits_value_stmts [OF assms] emits_frames [OF assms] stmt_rules)+)
    (simp add: exception_members_def)

lemma emits_image: "emits_members (json_do (event_image ev debug_id)) (image_members ev debug_id)"
  unfolding event_image_def
  by (rule emits_members_eq, (rule stmt_rules)+)
    (simp add: image_members_def if_true_def image_addr_text [simplified])

definition event_wf :: "sentry_event \<Rightarrow> bool" where
  "event_wf ev \<longleftrightarrow> ev_event_id ev \<noteq> None \<and> (\<forall>c. ev_coredump ev = Some c \<longrightarrow> coredump_wf c)"

lemma concat_if_true: "concat (map (\<lambda>x. if_true (P x) [f x]) xs) = map f (filter P xs)"
  by (induction xs) (simp_all add: if_true_def)

lemma emits_if_true: "emits_members (json_do ps) kvs \<Longrightarrow> emits_members (json_do (if_true b ps)) (if_true b kvs)"
  by (simp add: if_true_def emits_members_Nil)

lemma emits_crash:
  assumes "event_wf ev"
  shows "emits_members (json_do (if_some (ev_crash ev) event_exception)) (if_some (ev_crash ev) exception_members)"
  using assms emits_exception
  by (auto simp: ev_crash_def event_wf_def if_some_def emits_members_Nil split: option.split)

theorem emits_event:
  assumes "event_wf ev"
  shows "emits_value (write_event ev) (event_document ev)"
  unfolding write_event_def
  by (rule emits_value_eq,
      (rule emits_in_object emits_head emits_tags emits_contexts emits_crash [OF assms] emits_image
         emits_if_true emits_members_append emits_if_some | simp only: event_debug_meta_def)+)
    (simp add: event_document_def)

section \<open>Transactions\<close>

definition span_document :: "sentry_transaction \<Rightarrow> sentry_span \<Rightarrow> json" where
  "span_document txn span = JObject
     ([(''span_id'', JString (sp_span_id span)),
       (''parent_span_id'', JString (tc_span_id (tx_trace txn))),
       (''trace_id'', JString (tc_trace_id (tx_trace txn)))] @
      opt_member ''op'' (sp_op span) @ opt_member ''description'' (sp_description span) @
      [(''start_timestamp'', JNumber (micros_text (span_unix_us txn (sp_start_uptime_us span)))),
       (''timestamp'', JNumber (micros_text (span_unix_us txn (sp_end_uptime_us span))))] @
      if_true (sp_attrs span \<noteq> [])
        [(''data'', JObject (map (\<lambda>a. (at_key a, json_of_int (at_value a))) (sp_attrs span)))])"

definition transaction_document :: "sentry_transaction \<Rightarrow> sentry_transaction_meta \<Rightarrow> json" where
  "transaction_document txn meta = JObject
     ([(''event_id'', json_of_cptr (tm_event_id meta)), (''type'', JString ''transaction''),
       (''platform'', JString ''native''),
       (''transaction'', JString (case tx_name txn of Some n \<Rightarrow> n | None \<Rightarrow> ''operation'')),
       (''start_timestamp'', JNumber (micros_text (sentry_transaction_start_unix_us txn))),
       (''timestamp'', JNumber (micros_text (tx_end_unix_us txn)))] @
      opt_member ''release'' (tm_release meta) @ opt_member ''environment'' (tm_environment meta) @
      [sdk_member,
       (''tags'', JObject
          (if_some (tm_device meta) (\<lambda>device.
             opt_member ''chip'' (Some (di_chip_model device)) @
             opt_member ''device_id'' (Some (di_device_id device))) @
           opt_member ''board'' (tm_board meta) @
           if_true (tx_dropped_spans txn > 0) [(''spans_dropped'', JString ''true'')])),
       (''contexts'', JObject [(''trace'', JObject
          ([(''type'', JString ''trace''), (''trace_id'', JString (tc_trace_id (tx_trace txn))),
            (''span_id'', JString (tc_span_id (tx_trace txn)))] @
           if_true (tc_parent_span_id (tx_trace txn) \<noteq> [])
             [(''parent_span_id'', JString (tc_parent_span_id (tx_trace txn)))] @
           opt_member ''op'' (tx_op txn)))]),
       (''spans'', JArray (map (span_document txn) (tx_spans txn)))])"

lemma emits_attrs:
  "emits_members (json_do (concat (map span_attr_stmts as)))
     (map (\<lambda>a. (at_key a, json_of_int (at_value a))) as)"
proof (induction as)
  case (Cons a as)
  have "emits_members (json_do (span_attr_stmts a)) [(at_key a, json_of_int (at_value a))]"
    unfolding span_attr_stmts_def by (rule stmt_rules)+
  from emits_members_append [OF this Cons.IH] show ?case by simp
qed (simp add: emits_members_def)

lemma emits_span: "emits_value (span_stmts txn span) (span_document txn span)"
  unfolding span_stmts_def
  by (rule emits_value_eq, (rule emits_attrs stmt_rules)+) (simp add: span_document_def if_true_def)

theorem emits_transaction:
  "emits_value (write_transaction txn meta) (transaction_document txn meta)"
  unfolding write_transaction_def transaction_trace_context_def
  by (rule emits_value_eq,
      (rule emits_sdk emits_values_map emits_span stmt_rules)+)
    (simp add: transaction_document_def if_some_def if_true_def split: option.split)

section \<open>The documents are well formed\<close>

definition wf_members :: "(string \<times> json) list \<Rightarrow> bool" where
  "wf_members kvs \<longleftrightarrow> list_all (\<lambda>kv. wf_json (snd kv)) kvs"

lemma wf_members_simps [simp]:
  "wf_members []" "wf_members (kv # kvs) \<longleftrightarrow> wf_json (snd kv) \<and> wf_members kvs"
  "wf_members (kvs @ us) \<longleftrightarrow> wf_members kvs \<and> wf_members us" "wf_members (opt_member k p)"
  by (auto simp: wf_members_def opt_member_def)

lemma wf_members_if_some [simp]:
  "wf_members (if_some x f) \<longleftrightarrow> (\<forall>y. x = Some y \<longrightarrow> wf_members (f y))"
  by (simp add: if_some_def split: option.split)

lemma wf_members_if_true [simp]: "wf_members (if_true b kvs) \<longleftrightarrow> (b \<longrightarrow> wf_members kvs)"
  by (simp add: if_true_def)

lemma wf_json_members [simp]: "wf_json (JObject kvs) \<longleftrightarrow> wf_members kvs"
  by (auto simp: wf_members_def list_all_iff)

declare wf_json.simps(3) [simp del] wf_number_micros [simp]

lemma wf_json_array [simp]: "wf_json (JArray (map f xs)) \<longleftrightarrow> (\<forall>x \<in> set xs. wf_json (f x))"
  by auto

lemma wf_members_map [simp]:
  "wf_members (map (\<lambda>a. (k a, json_of_int (v a))) as)"
  by (induction as) simp_all

lemma wf_sdk_member [simp]: "wf_json (snd sdk_member)"
  by (simp add: sdk_member_def)

lemma wf_frame [simp]: "wf_json (frame_document pc)"
  by (simp add: frame_document_def)

lemma wf_event_document: "wf_json (event_document ev)"
  by (simp add: event_document_def head_members_def tag_members_def context_members_def
      device_context_members_def esp32_members_def trace_context_members_def
      exception_members_def value_members_def image_members_def)

lemma wf_span_document [simp]: "wf_json (span_document txn span)"
  by (simp add: span_document_def)

lemma wf_transaction_document: "wf_json (transaction_document txn meta)"
  by (simp add: transaction_document_def)

section \<open>The envelope headers\<close>

lemma escape_byte_hex: "is_lower_hex c \<Longrightarrow> escape_byte c = [c]"
proof -
  assume "is_lower_hex c"
  then have "48 \<le> code_of c \<and> code_of c \<le> 57 \<or> 97 \<le> code_of c \<and> code_of c \<le> 102"
    by (simp add: is_lower_hex_def is_digit_code less_eq_char_def)
  then have "c \<noteq> QUOTE" "c \<noteq> BSLASH" "c \<noteq> CHR 0x08" "c \<noteq> CHR 0x0C" "c \<noteq> CHR 0x0A" "c \<noteq> CHR 0x0D"
    "c \<noteq> CHR 0x09" "\<not> code_of c < 0x20"
    by auto
  then show ?thesis by (simp add: escape_byte_def)
qed

lemma json_text_hex: "list_all is_lower_hex s \<Longrightarrow> json_text (JString s) = [QUOTE] @ s @ [QUOTE]"
  by (induction s) (simp_all add: json_text_string_def escape_byte_hex)

definition id_header :: "string \<Rightarrow> json" where
  "id_header event_id = JObject [(''event_id'', JString event_id)]"

definition type_header :: "string \<Rightarrow> nat \<Rightarrow> json" where
  "type_header type_text n = JObject [(''type'', JString type_text), (''length'', JNumber (dec n))]"

lemma wf_headers [simp]: "wf_json (id_header s)" "wf_json (type_header ty n)"
  by (simp_all add: id_header_def type_header_def wf_number_dec wf_members_def)

lemma length_type_header: "length_member (type_header ty n) = Some n"
  by (simp add: length_member_def type_header_def json_member_def read_nat_dec)

lemma length_item_header:
  assumes "hex_id 32 event_id" and "type_text \<in> {''event'', ''transaction''}"
  shows "length (item_header type_text (Some event_id) n) < 128"
proof -
  have "length (dec (n mod 2 ^ 32)) \<le> 10" by (intro length_dec) simp_all
  then show ?thesis using assms by (auto simp: item_header_def cptr_text_def hex_id_def)
qed

lemma item_header_text:
  assumes "hex_id 32 event_id" and "n < 2 ^ 32" and "type_text \<in> {''event'', ''transaction''}"
  shows "item_header type_text (Some event_id) n =
      json_text (id_header event_id) @ [NEWLINE] @ json_text (type_header type_text n) @ [NEWLINE]"
proof -
  have id: "json_text_string event_id = [QUOTE] @ event_id @ [QUOTE]"
    using json_text_hex [of event_id] assms(1) by (simp add: hex_id_def)
  show ?thesis
    using assms(2,3) id
    by (auto simp: item_header_def cptr_text_def id_header_def type_header_def comma_if_def)
      (auto simp: json_text_string_def escape_byte_def)
qed

context envelope_payload
begin

lemma item_envelope:
  fixes x type_text event_id mem cap
  defines "write \<equiv> envelope_frame 128 (item_header type_text (Some event_id)) (payload x)"
  assumes "valid x" and id: "hex_id 32 event_id" and ty: "type_text \<in> {''event'', ''transaction''}"
    and "length mem = cap" and "cap \<le> 2 ^ 32"
  shows "if snd (write None 0) < cap
    then \<exists>mem' k. write (Some mem) cap = (Some mem', snd (write None 0)) \<and> length mem' = cap \<and>
      length (cstring_of mem') = snd (write None 0) \<and>
      read_envelope (cstring_of mem') = Some (id_header event_id, type_header type_text k, doc x)
    else write (Some mem) cap = (Some (mem_write mem 0 [NUL]), snd (write None 0))"
  unfolding write_def
  by (rule exact_or_absent [OF assms(2,5,6)])
    (simp_all add: item_header_text [OF id _ ty] length_item_header [OF id ty] length_type_header)

end

section \<open>The payloads meet the interface\<close>

interpretation event_payload: envelope_payload
  "\<lambda>ev. sentry_event_write (Some ev)" event_document event_wf
proof
  fix ev
  assume wf: "event_wf ev"
  then have run: "sentry_event_write (Some ev) buf cap = run_json_checked (write_event ev) buf cap" for buf cap
    by (auto simp: sentry_event_write_def event_wf_def)
  show "sentry_event_write (Some ev) None 0 = (None, length (json_text (event_document ev)))"
    by (simp add: run run_json_counts(2) [OF emits_event [OF wf]])
  show "\<exists>mem'. sentry_event_write (Some ev) (Some mem) cap =
        (Some mem', length (json_text (event_document ev))) \<and> length mem' = cap \<and>
        take (length (json_text (event_document ev))) mem' = json_text (event_document ev)"
    if "length mem = cap" "length (json_text (event_document ev)) < cap" for mem cap
    unfolding run by (rule run_json_writes(2) [OF emits_event [OF wf] that])
qed (rule wf_event_document)

interpretation transaction_payload: envelope_payload
  transaction_write "\<lambda>tm. transaction_document (fst tm) (snd tm)" "\<lambda>tm. True"
  by standard
    (simp_all add: transaction_write_def run_json_counts(2) [OF emits_transaction]
      run_json_writes(2) [OF emits_transaction] wf_transaction_document)

section \<open>Ids\<close>

lemma hex_value_hex_digit: "n < 16 \<Longrightarrow> hex_value (hex_digit n) = int n"
  by (drule less_16_cases) (auto simp: hex_value_def hex_digit_def less_eq_char_def dest!: less_10_cases)

lemma lower_hex_not_NUL: "is_lower_hex c \<Longrightarrow> c \<noteq> NUL"
  by (auto simp: is_lower_hex_def is_digit_code less_eq_char_def)

definition hex_text :: "bytes \<Rightarrow> string" where
  "hex_text bs = concat (map hex_byte bs)"

lemma length_hex_text: "length (hex_text bs) = 2 * length bs"
  by (induction bs) (simp_all add: hex_text_def)

lemma hex_text_at:
  "i < length bs \<Longrightarrow> hex_text bs ! (2 * i) = hex_digit (unat (bs ! i) div 16)"
  "i < length bs \<Longrightarrow> hex_text bs ! (2 * i + 1) = hex_digit (unat (bs ! i) mod 16)"
proof (induction bs arbitrary: i)
  case (Cons b bs)
  { case 1 with Cons show ?case
      by (cases i) (simp_all add: hex_text_def hex_byte_def byte_nibbles nth_append) }
  { case 2 with Cons show ?case
      by (cases i) (simp_all add: hex_text_def hex_byte_def byte_nibbles nth_append) }
qed simp_all

lemma hex_text_cells:
  assumes "i < length bs"
  shows "cstr_at (hex_text bs) (i * 2) = hex_digit (unat (bs ! i) div 16)"
    and "cstr_at (hex_text bs) (i * 2 + 1) = hex_digit (unat (bs ! i) mod 16)"
  using hex_text_at [OF assms] assms
  by (simp_all add: cstr_at_def length_hex_text mult.commute)

lemma hex_text_decodes:
  assumes "i \<le> length bs" and "i \<le> 16" and "length acc = 16"
  shows "debug_id_bytes (hex_text bs) i acc =
    Some (min 16 (length bs), take i acc @ take (16 - i) (drop i bs) @ drop (min 16 (length bs)) acc)"
  using assms
proof (induction "16 - i" arbitrary: i acc)
  case 0
  then show ?case by (subst debug_id_bytes.simps) (simp add: min_def)
next
  case (Suc k)
  show ?case
  proof (cases "i < length bs")
    case False
    with Suc.prems have "i = length bs" by simp
    moreover have "cstr_at (hex_text bs) (length bs * 2) = NUL"
      by (simp add: cstr_at_def length_hex_text)
    ultimately show ?thesis
      using Suc.prems by (subst debug_id_bytes.simps) (simp add: min_def)
  next
    case True
    let ?b = "bs ! i"
    have nib: "unat ?b div 16 < 16" "unat ?b mod 16 < 16"
      using unat_u8_less [of ?b] by (simp_all add: less_mult_imp_div_less)
    have i: "i < 16" using Suc.hyps(2) by simp
    have cells: "cstr_at (hex_text bs) (i * 2) = hex_digit (unat ?b div 16)"
        "cstr_at (hex_text bs) (i * 2 + 1) = hex_digit (unat ?b mod 16)"
      by (rule hex_text_cells [OF True])+
    have "word_of_int (16 * int (unat ?b div 16) + int (unat ?b mod 16)) = ?b"
      by (metis mult_div_mod_eq of_nat_add of_nat_mult of_nat_numeral word_of_int_uint uint_nat)
    then have "debug_id_bytes (hex_text bs) i acc = debug_id_bytes (hex_text bs) (i + 1) (acc[i := ?b])"
      using nib i
      by (subst debug_id_bytes.simps)
        (simp add: cells [simplified] hex_value_hex_digit lower_hex_not_NUL)
    also have "\<dots> = Some (min 16 (length bs), take (i + 1) (acc[i := ?b]) @
        take (16 - (i + 1)) (drop (i + 1) bs) @ drop (min 16 (length bs)) (acc[i := ?b]))"
      using Suc.hyps Suc.prems True by (intro Suc.hyps(1)) simp_all
    also have "take (i + 1) (acc[i := ?b]) = take i acc @ [?b]"
      using Suc.prems Suc.hyps(2) by (simp add: take_Suc_conv_app_nth)
    also have "drop (min 16 (length bs)) (acc[i := ?b]) = drop (min 16 (length bs)) acc"
      using True Suc.hyps(2) Suc.prems by (intro drop_update_cancel) simp
    finally have "debug_id_bytes (hex_text bs) i acc = Some (min 16 (length bs),
        (take i acc @ [?b]) @ take (16 - (i + 1)) (drop (i + 1) bs) @ drop (min 16 (length bs)) acc)" .
    moreover have "take (16 - i) (drop i bs) = ?b # take (16 - (i + 1)) (drop (i + 1) bs)"
    proof -
      have "drop i bs = ?b # drop (i + 1) bs" using True by (simp add: Cons_nth_drop_Suc)
      moreover have "16 - i = Suc (16 - (i + 1))" using Suc.hyps(2) by simp
      ultimately show ?thesis by simp
    qed
    ultimately show ?thesis by simp
  qed
qed

lemma debug_id_of_hex_text:
  assumes "bs \<noteq> []"
  shows "sentry_debug_id_from_code_id (Some (hex_text bs)) =
    Some (debug_id_text (take 16 (bs @ replicate 16 0)))"
proof -
  let ?i = "min 16 (length bs)"
  have dec: "debug_id_bytes (hex_text bs) 0 (replicate 16 0) =
      Some (?i, take 16 bs @ replicate (16 - ?i) 0)"
    using hex_text_decodes [of 0 bs "replicate 16 0"] by simp
  have pad: "take 16 bs @ replicate (16 - ?i) 0 = take 16 (bs @ replicate 16 0)"
    by (simp add: min_def)
  have tail: "\<not> (cstr_at (hex_text bs) (?i * 2) \<noteq> NUL \<and> cstr_at (hex_text bs) (?i * 2 + 1) = NUL)"
  proof (cases "length bs \<le> 16")
    case True
    then show ?thesis by (simp add: min_def cstr_at_def length_hex_text)
  next
    case False
    then have "cstr_at (hex_text bs) (?i * 2 + 1) = hex_digit (unat (bs ! 16) mod 16)"
      using hex_text_cells(2) [of 16 bs] by (simp add: min_def)
    then show ?thesis by (simp add: lower_hex_not_NUL)
  qed
  have "?i \<noteq> 0" using assms by simp
  with dec tail show ?thesis
    unfolding pad [symmetric] sentry_debug_id_from_code_id_def by (simp del: min_less_iff_conj)
qed

text \<open>A UUID printed with its first three fields byte-swapped.\<close>

definition uuid_le_bytes :: "bytes \<Rightarrow> bytes" where
  "uuid_le_bytes bs = rev (take 4 bs) @ rev (take 2 (drop 4 bs)) @ rev (take 2 (drop 6 bs)) @ drop 8 bs"

section \<open>Paths into a document\<close>

datatype json_step = Key string | Index nat

fun json_path :: "json_step list \<Rightarrow> json \<Rightarrow> json option" where
  "json_path [] d = Some d"
| "json_path (Key k # ps) d =
     (case json_member k d of None \<Rightarrow> None | Some d' \<Rightarrow> json_path ps d')"
| "json_path (Index i # ps) d =
     (case d of JArray vs \<Rightarrow> if i < length vs then json_path ps (vs ! i) else None | _ \<Rightarrow> None)"

lemma map_of_if_true: "map_of (if_true b [(k, v)]) j = (if b \<and> j = k then Some v else None)"
  by (simp add: if_true_def)

lemma map_of_opt_member:
  "map_of (opt_member k p) j =
     (if j = k \<and> p \<noteq> None \<and> p \<noteq> Some [] then Some (json_of_cptr p) else None)"
  by (auto simp: opt_member_def)

lemmas path_simps = json_member_def map_of_if_true map_of_opt_member if_some_def map_add_def

lemma event_exception_path:
  assumes "ev_crash ev = Some crash"
  shows "json_path [Key ''exception'', Key ''values'', Index 0, Key ''stacktrace'', Key ''frames'']
    (event_document ev) = Some (JArray (map frame_document (crash_stack crash)))"
proof -
  have exc: "json_path [Key ''values'', Index 0, Key ''stacktrace'', Key ''frames'']
      (snd (hd (exception_members crash))) = Some (JArray (map frame_document (crash_stack crash)))"
    by (simp add: exception_members_def value_members_def path_simps)
  have "json_member ''exception'' (event_document ev) = Some (snd (hd (exception_members crash)))"
    using assms
    by (simp add: event_document_def head_members_def sdk_member_def path_simps)
      (simp add: exception_members_def)
  then show ?thesis using exc by simp
qed

lemma event_crashed_path:
  assumes "ev_crash ev = Some crash" and "ev_device ev = Some device"
  shows "json_path [Key ''tags'', Key ''crashed''] (event_document ev) = Some (JBool True)"
  using assms
  by (simp add: event_document_def head_members_def sdk_member_def path_simps)
    (simp add: tag_members_def path_simps)

section \<open>Properties\<close>

text \<open>
  C13: An event envelope is exact or absent. The length the counting call reports is the length
  written; when it fits with its NUL, nothing is written outside the buffer and the C string in
  it reads back as the three lines of the format: the id, an item header whose length is the
  payload's, and the document of the event. When it does not fit the buffer is left an empty
  string and the length needed is returned.
\<close>

theorem event_envelope_reads_back:
  fixes ev mem cap event_id
  defines "n \<equiv> snd (sentry_envelope_write (Some ev) None 0)"
  assumes "event_wf ev" and "ev_event_id ev = Some event_id" and "hex_id 32 event_id"
    and "length mem = cap" and "cap \<le> 2 ^ 32"
  shows "if n < cap
    then \<exists>mem' k. sentry_envelope_write (Some ev) (Some mem) cap = (Some mem', n) \<and>
      length mem' = cap \<and> length (cstring_of mem') = n \<and>
      read_envelope (cstring_of mem') = Some (id_header event_id, type_header ''event'' k, event_document ev)
    else sentry_envelope_write (Some ev) (Some mem) cap = (Some (mem_write mem 0 [NUL]), n)"
proof -
  have eq: "sentry_envelope_write (Some ev) buf c =
      envelope_frame 128 (item_header ''event'' (Some event_id)) (sentry_event_write (Some ev)) buf c"
    for buf c using assms(3) by (simp add: sentry_envelope_write_def)
  show ?thesis
    unfolding n_def eq
    by (rule event_payload.item_envelope) (use assms in simp_all)
qed

text \<open>
  C17: A transaction envelope is exact or absent, like an event's, whenever the transaction has
  its wall-clock anchor and a start instant; without either nothing is written and 0 returned.
\<close>

theorem transaction_envelope_reads_back:
  fixes t m mem cap event_id
  defines "n \<equiv> snd (sentry_transaction_envelope_write (Some t) (Some m) None 0)"
    and "result \<equiv> sentry_transaction_envelope_write (Some t) (Some m) (Some mem) cap"
  assumes "tm_event_id m = Some event_id" and "hex_id 32 event_id"
    and "length mem = cap" and "0 < cap" and "cap \<le> 2 ^ 32"
  shows "if tx_end_unix_us t = 0 \<or> sentry_transaction_start_unix_us t = 0
    then result = (Some (mem_write mem 0 [NUL]), 0)
    else if n < cap
    then \<exists>mem' k. result = (Some mem', n) \<and> length mem' = cap \<and> length (cstring_of mem') = n \<and>
      read_envelope (cstring_of mem') =
        Some (id_header event_id, type_header ''transaction'' k, transaction_document t m)
    else result = (Some (mem_write (mem_write mem 0 [NUL]) 0 [NUL]), n)"
proof -
  have len: "length (mem_write mem 0 [NUL]) = cap" using assms(5,6) by simp
  show ?thesis
  proof (cases "tx_end_unix_us t = 0 \<or> sentry_transaction_start_unix_us t = 0")
    case True
    then show ?thesis
      using assms(6) by (auto simp: result_def sentry_transaction_envelope_write_def
        clear_if_room_def clear_first_def Let_def)
  next
    case False
    let ?wr = "envelope_frame 128 (item_header ''transaction'' (Some event_id)) (transaction_write (t, m))"
    have eqs: "result = ?wr (Some (mem_write mem 0 [NUL])) cap" "n = snd (?wr None 0)"
      using False assms(3,6) by (simp_all add: result_def n_def sentry_transaction_envelope_write_def
        clear_if_room_def clear_first_def Let_def)
    show ?thesis
      unfolding if_not_P [OF False] eqs
      by (rule transaction_payload.item_envelope [where x = "(t, m)", unfolded fst_conv snd_conv])
        (use assms(4,7) len in simp_all)
  qed
qed

text \<open>
  C15: In the payload of a crash report, read back from the buffer, the frames of the exception
  are the recorded program counters with the crashing frame last, the program counter of the
  fault standing in when the unwinder recorded none, and the event is tagged as crashed whatever
  the reset reason of the boot that reports it.
\<close>

theorem crash_report_reads_back:
  assumes "event_wf ev" and "ev_crash ev = Some crash" and "length mem = cap"
    and "snd (sentry_event_write (Some ev) None 0) < cap"
  shows "\<exists>mem' d. fst (sentry_event_write (Some ev) (Some mem) cap) = Some mem' \<and>
    read_json (cstring_of mem') = Some d \<and>
    json_path [Key ''exception'', Key ''values'', Index 0, Key ''stacktrace'', Key ''frames''] d =
      Some (JArray (map frame_document
        (if cd_frame_count crash = 0 \<and> cd_exception_pc crash \<noteq> 0 then [cd_exception_pc crash]
         else rev (take (unat (cd_frame_count crash)) (cd_frames crash))))) \<and>
    (ev_device ev \<noteq> None \<longrightarrow> json_path [Key ''tags'', Key ''crashed''] d = Some (JBool True))"
proof -
  let ?D = "json_text (event_document ev)"
  have run: "sentry_event_write (Some ev) buf c = run_json_checked (write_event ev) buf c" for buf c
    using assms(1) by (auto simp: sentry_event_write_def event_wf_def)
  have fits: "length ?D < cap"
    using assms(4) by (simp add: run run_json_counts(2) [OF emits_event [OF assms(1)]])
  from emits_value_writes [OF emits_event [OF assms(1)] assms(3)] fits
  obtain mem' where mem': "jw_buf (write_event ev (sentry_json_init (Some mem) cap)) = Some mem'"
    "\<not> jw_overflow (write_event ev (sentry_json_init (Some mem) cap))"
    "length mem' = cap" "take (length ?D) mem' = ?D" "mem' ! length ?D = NUL"
    by (auto simp: jw_repr_def split: option.splits)
  then have "fst (sentry_event_write (Some ev) (Some mem) cap) = Some mem'"
    by (simp add: run run_json_checked_def Let_def)
  moreover have "cstring_of mem' = ?D"
    using mem' fits json_text_no_NUL [OF wf_event_document] by (intro cstring_of_prefix) auto
  then have "read_json (cstring_of mem') = Some (event_document ev)"
    by (simp add: read_json_text wf_event_document)
  moreover have "crash_stack crash =
      (if cd_frame_count crash = 0 \<and> cd_exception_pc crash \<noteq> 0 then [cd_exception_pc crash]
       else rev (take (unat (cd_frame_count crash)) (cd_frames crash)))"
    by (simp add: crash_stack_def if_true_def)
  ultimately show ?thesis
    using event_exception_path [OF assms(2)] event_crashed_path [OF assms(2)] by auto
qed

text \<open>
  Every span of a finished transaction is written inside it: with a monotonic clock and a
  wall clock that is not earlier than the transaction is long, the instants written for a span
  are in order, between the start and the end of the transaction, and as far apart as its
  monotonic duration.
\<close>

theorem spans_inside_transaction:
  assumes "tx_end_unix_us t \<noteq> 0"
    and "tx_start_uptime_us t \<le> sp_start_uptime_us s" and "sp_start_uptime_us s \<le> sp_end_uptime_us s"
    and "sp_end_uptime_us s \<le> tx_end_uptime_us t"
    and "tx_end_uptime_us t - tx_start_uptime_us t \<le> tx_end_unix_us t"
  shows "sentry_transaction_start_unix_us t \<le> span_unix_us t (sp_start_uptime_us s) \<and>
    span_unix_us t (sp_end_uptime_us s) \<le> tx_end_unix_us t \<and>
    span_unix_us t (sp_start_uptime_us s) \<le> span_unix_us t (sp_end_uptime_us s) \<and>
    span_unix_us t (sp_end_uptime_us s) - span_unix_us t (sp_start_uptime_us s) =
      sp_end_uptime_us s - sp_start_uptime_us s"
proof -
  let ?S = "sentry_transaction_start_unix_us t" and ?b = "tx_start_uptime_us t"
  let ?e = "tx_end_uptime_us t - ?b"
  have S: "?S = tx_end_unix_us t - ?e"
    using assms(1,5) by (simp add: sentry_transaction_start_unix_us_def Let_def leD)
  have unat_S: "unat ?S = unat (tx_end_unix_us t) - unat ?e" using assms(5) by (simp add: S unat_sub)
  have e_le: "unat ?e \<le> unat (tx_end_unix_us t)" using assms(5) by (simp add: word_le_nat_alt)
  have up: "unat (span_unix_us t u) = unat ?S + (unat u - unat ?b)"
    if "?b \<le> u" "u \<le> tx_end_uptime_us t" for u
  proof -
    have "unat (u - ?b) = unat u - unat ?b" using that(1) by (simp add: unat_sub)
    moreover have "unat ?e = unat (tx_end_uptime_us t) - unat ?b"
      using that by (simp add: unat_sub word_le_nat_alt)
    ultimately have "unat ?S + unat (u - ?b) \<le> unat (tx_end_unix_us t)"
      using unat_S e_le that by (simp add: word_le_nat_alt)
    moreover have "unat (tx_end_unix_us t) < 2 ^ 64" using unsigned_less [of "tx_end_unix_us t"] by simp
    ultimately show ?thesis
      using \<open>unat (u - ?b) = _\<close> unfolding span_unix_us_def
      by (subst unat_add_lem [THEN iffD1]) simp_all
  qed
  have s: "?b \<le> sp_end_uptime_us s" "sp_start_uptime_us s \<le> tx_end_uptime_us t"
    using assms(2-4) by (auto intro: order_trans)
  have e: "unat ?e = unat (tx_end_uptime_us t) - unat ?b"
    using assms(2) s by (simp add: unat_sub word_le_nat_alt)
  show ?thesis
    using up [OF assms(2) s(2)] up [OF s(1) assms(4)] unat_S e_le e assms(2-4)
    unfolding word_le_nat_alt
    by (intro conjI; (linarith | simp add: span_unix_us_def))
qed

lemma hex_text_inj: "length bs = length cs \<Longrightarrow> hex_text bs = hex_text cs \<longleftrightarrow> bs = cs"
proof (induction bs cs rule: list_induct2)
  case (Cons b bs c cs)
  have "hex_byte b @ hex_text bs = hex_byte c @ hex_text cs \<longleftrightarrow>
      hex_byte b = hex_byte c \<and> hex_text bs = hex_text cs"
    by (rule append_eq_append_conv) simp
  with Cons show ?case by (simp add: hex_text_def hex_byte_inj)
qed simp

lemma stamp_version:
  fixes a b :: u8
  shows "(a AND 0x0f) OR 0x40 = (b AND 0x0f) OR 0x40 \<longleftrightarrow> a AND 0x0f = b AND 0x0f"
    and "drop_bit 4 ((a AND 0x0f) OR 0x40) = 4"
proof -
  have keep: "((x AND 0x0f) OR 0x40) AND 0x0f = x AND 0x0f" for x :: u8
    by (simp add: bit.conj_disj_distrib2 and.assoc)
  show "(a AND 0x0f) OR 0x40 = (b AND 0x0f) OR 0x40 \<longleftrightarrow> a AND 0x0f = b AND 0x0f"
    using keep [of a] keep [of b] by metis
  show "drop_bit 4 ((a AND 0x0f) OR 0x40) = 4" by simp
qed

lemma stamp_variant:
  fixes a b :: u8
  shows "(a AND 0x3f) OR 0x80 = (b AND 0x3f) OR 0x80 \<longleftrightarrow> a AND 0x3f = b AND 0x3f"
    and "unat (drop_bit 4 ((a AND 0x3f) OR 0x80)) \<in> {8, 9, 10, 11}"
proof -
  have keep: "((x AND 0x3f) OR 0x80) AND 0x3f = x AND 0x3f" for x :: u8
    by (simp add: bit.conj_disj_distrib2 and.assoc)
  show "(a AND 0x3f) OR 0x80 = (b AND 0x3f) OR 0x80 \<longleftrightarrow> a AND 0x3f = b AND 0x3f"
    using keep [of a] keep [of b] by metis
  have "drop_bit 4 ((a AND 0x3f) OR 0x80) = (drop_bit 4 a AND 3) OR 8"
    by simp
  moreover have "drop_bit 4 a AND 3 \<in> {0, 1, 2, 3}"
  proof -
    have "drop_bit 4 a AND 3 \<le> 3" by (rule word_and_le1)
    then have "unat (drop_bit 4 a AND 3) \<le> 3" by (simp add: word_le_nat_alt)
    then have "unat (drop_bit 4 a AND 3) \<in> {0, 1, 2, 3}" by auto
    then show ?thesis by (auto simp: word_unat_eq_iff)
  qed
  ultimately show "unat (drop_bit 4 ((a AND 0x3f) OR 0x80)) \<in> {8, 9, 10, 11}" by auto
qed

definition stamp_bytes :: "bytes \<Rightarrow> bytes" where
  "stamp_bytes bs = (bs[6 := (bs ! 6 AND 0x0f) OR 0x40])[8 := (bs ! 8 AND 0x3f) OR 0x80]"

lemma event_id_hex_text: "length bs = 16 \<Longrightarrow> sentry_event_id_format bs = hex_text (stamp_bytes bs)"
  by (simp add: sentry_event_id_format_def stamp_bytes_def hex_text_def Let_def)

text \<open>
  An event id is a version 4 UUID in 32 lowercase hex digits, and keeps every random bit but
  the six that the version and the variant take: two ids are the same exactly when the random
  bytes agree outside those bits.
\<close>

theorem event_id_is_uuid_v4:
  assumes "length bs = 16" and "length cs = 16"
  shows "hex_id 32 (sentry_event_id_format bs) \<and> sentry_event_id_format bs ! 12 = CHR ''4'' \<and>
    sentry_event_id_format bs ! 16 \<in> set ''89ab'' \<and>
    (sentry_event_id_format bs = sentry_event_id_format cs \<longleftrightarrow>
       (\<forall>i < 16. i \<noteq> 6 \<and> i \<noteq> 8 \<longrightarrow> bs ! i = cs ! i) \<and>
       bs ! 6 AND 0x0f = cs ! 6 AND 0x0f \<and> bs ! 8 AND 0x3f = cs ! 8 AND 0x3f)"
proof -
  have len: "length (stamp_bytes xs) = length xs" for xs by (simp add: stamp_bytes_def)
  have at: "stamp_bytes xs ! 6 = (xs ! 6 AND 0x0f) OR 0x40"
      "stamp_bytes xs ! 8 = (xs ! 8 AND 0x3f) OR 0x80"
      "\<And>i. i \<noteq> 6 \<Longrightarrow> i \<noteq> 8 \<Longrightarrow> stamp_bytes xs ! i = xs ! i" if "length xs = 16" for xs
    using that by (simp_all add: stamp_bytes_def)
  have "hex_id 32 (hex_text (stamp_bytes bs))"
    using assms(1) hex_byte_lower len
    by (auto simp: hex_id_def length_hex_text) (auto simp: hex_text_def list_all_iff)
  moreover have "hex_text (stamp_bytes bs) ! 12 = CHR ''4''"
    using hex_text_at(1) [of 6 "stamp_bytes bs"] assms(1)
    by (simp add: len at(1) stamp_version(2) flip: byte_nibbles(1)) (simp add: hex_digit_def)
  moreover have "hex_text (stamp_bytes bs) ! 16 \<in> set ''89ab''"
    using hex_text_at(1) [of 8 "stamp_bytes bs"] stamp_variant(2) [of "bs ! 8"] assms(1)
    by (auto simp: len at(2) hex_digit_def simp flip: byte_nibbles(1))
  moreover have "stamp_bytes bs = stamp_bytes cs \<longleftrightarrow>
      (\<forall>i < 16. i \<noteq> 6 \<and> i \<noteq> 8 \<longrightarrow> bs ! i = cs ! i) \<and>
      bs ! 6 AND 0x0f = cs ! 6 AND 0x0f \<and> bs ! 8 AND 0x3f = cs ! 8 AND 0x3f"
  proof -
    have "stamp_bytes bs = stamp_bytes cs \<longleftrightarrow> (\<forall>i < 16. stamp_bytes bs ! i = stamp_bytes cs ! i)"
      using assms by (auto simp: list_eq_iff_nth_eq len)
    also have "\<dots> \<longleftrightarrow> (\<forall>i < 16. i \<noteq> 6 \<and> i \<noteq> 8 \<longrightarrow> bs ! i = cs ! i) \<and>
        stamp_bytes bs ! 6 = stamp_bytes cs ! 6 \<and> stamp_bytes bs ! 8 = stamp_bytes cs ! 8"
      using at(3) [OF assms(1)] at(3) [OF assms(2)] by (auto; metis)
    finally show ?thesis
      by (simp add: at(1,2) [OF assms(1)] at(1,2) [OF assms(2)] stamp_version(1) stamp_variant(1))
  qed
  ultimately show ?thesis
    using assms hex_text_inj [of "stamp_bytes bs" "stamp_bytes cs"] by (simp add: event_id_hex_text len)
qed

text \<open>
  The debug id of a build is the first sixteen bytes of its build id, padded with zeros when
  there are fewer, printed as a UUID whose first three fields are byte-swapped; two builds get
  the same one only when those bytes agree.
\<close>

theorem debug_id_is_little_endian_uuid:
  assumes "bs \<noteq> []" and "cs \<noteq> []"
  defines "first16 \<equiv> \<lambda>xs :: bytes. take 16 (xs @ replicate 16 0)"
  shows "(\<exists>a b c d e. sentry_debug_id_from_code_id (Some (hex_text bs)) =
       Some (a @ ''-'' @ b @ ''-'' @ c @ ''-'' @ d @ ''-'' @ e) \<and>
       a @ b @ c @ d @ e = hex_text (uuid_le_bytes (first16 bs)) \<and>
       map length [a, b, c, d, e] = [8, 4, 4, 4, 12]) \<and>
    (sentry_debug_id_from_code_id (Some (hex_text bs)) =
       sentry_debug_id_from_code_id (Some (hex_text cs)) \<longleftrightarrow> first16 bs = first16 cs)"
proof -
  have parts: "\<exists>b0 b1 b2 b3 b4 b5 b6 b7 b8 b9 b10 b11 b12 b13 b14 b15. first16 xs =
      [b0, b1, b2, b3, b4, b5, b6, b7, b8, b9, b10, b11, b12, b13, b14, b15]" for xs
  proof -
    have "length (first16 xs) = 16" by (simp add: first16_def)
    then show ?thesis by (auto simp: numeral_eq_Suc length_Suc_conv)
  qed
  have id: "sentry_debug_id_from_code_id (Some (hex_text bs)) = Some (debug_id_text (first16 bs))"
      "sentry_debug_id_from_code_id (Some (hex_text cs)) = Some (debug_id_text (first16 cs))"
    unfolding first16_def by (rule debug_id_of_hex_text [OF assms(1)] debug_id_of_hex_text [OF assms(2)])+
  obtain b0 b1 b2 b3 b4 b5 b6 b7 b8 b9 b10 b11 b12 b13 b14 b15 where b: "first16 bs =
      [b0, b1, b2, b3, b4, b5, b6, b7, b8, b9, b10, b11, b12, b13, b14, b15]"
    using parts [of bs] by (elim exE) (rule that)
  obtain c0 c1 c2 c3 c4 c5 c6 c7 c8 c9 c10 c11 c12 c13 c14 c15 where c: "first16 cs =
      [c0, c1, c2, c3, c4, c5, c6, c7, c8, c9, c10, c11, c12, c13, c14, c15]"
    using parts [of cs] by (elim exE) (rule that)
  have "debug_id_text (first16 bs) = debug_id_text (first16 cs) \<longleftrightarrow> first16 bs = first16 cs"
    unfolding b c by (auto simp: debug_id_text_def hex_byte_inj)
  moreover have "debug_id_text (first16 bs) = hex_text [b3, b2, b1, b0] @ ''-'' @ hex_text [b5, b4] @
      ''-'' @ hex_text [b7, b6] @ ''-'' @ hex_text [b8, b9] @ ''-'' @ hex_text [b10, b11, b12, b13, b14, b15]"
    unfolding b by (simp add: debug_id_text_def hex_text_def)
  moreover have "hex_text [b3, b2, b1, b0] @ hex_text [b5, b4] @ hex_text [b7, b6] @ hex_text [b8, b9] @
      hex_text [b10, b11, b12, b13, b14, b15] = hex_text (uuid_le_bytes (first16 bs))"
    unfolding b by (simp add: uuid_le_bytes_def hex_text_def numeral_eq_Suc)
  moreover have "map length [hex_text [b3, b2, b1, b0], hex_text [b5, b4], hex_text [b7, b6],
      hex_text [b8, b9], hex_text [b10, b11, b12, b13, b14, b15]] = [8, 4, 4, 4, 12]"
    by (simp add: length_hex_text)
  ultimately show ?thesis unfolding id option.inject by - (intro conjI exI; assumption)
qed

section \<open>Witnesses\<close>

definition sample_crash :: sentry_coredump where
  "sample_crash = coredump_zero\<lparr>cd_available := True, cd_task_name := ''loopTask'',
     cd_exception_pc := 0x42000000\<rparr>"

definition sample_event :: sentry_event where
  "sample_event = \<lparr>ev_event_id = Some (replicate 32 CHR ''a''), ev_level = SENTRY_LEVEL_FATAL,
     ev_message = None, ev_release = Some ''app@1.0'', ev_environment = None, ev_board = None,
     ev_timestamp = 0, ev_device = None, ev_build_id = None, ev_coredump = Some sample_crash,
     ev_image_addr = 0, ev_image_size = 0, ev_image_name = None, ev_trace = None,
     ev_free_heap_bytes = 1000, ev_min_free_heap_bytes = 900, ev_uptime_ms = 12\<rparr>"

lemma sample_event_wf: "event_wf sample_event"
  by (simp add: event_wf_def sample_event_def sample_crash_def coredump_zero_def coredump_wf_def
      SENTRY_MICRO_MAX_FRAMES_def)

lemma hex_id_replicate: "hex_id n (replicate n CHR ''a'')"
  by (simp add: hex_id_def is_lower_hex_def is_digit_code less_eq_char_def list_all_iff)

theorem event_envelope_reads_back_witness:
  "snd (sentry_envelope_write (Some sample_event) (Some []) 0) =
   snd (sentry_envelope_write (Some sample_event) None 0)"
  using event_envelope_reads_back [of sample_event "replicate 32 CHR ''a''" "[]" 0]
  by (simp add: sample_event_wf hex_id_replicate) (simp add: sample_event_def)

definition sample_transaction :: sentry_transaction where
  "sample_transaction = fst (sentry_transaction_end_at 500 9000
     (sentry_transaction_begin None (Some ''ota'') None 100))"

definition sample_meta :: sentry_transaction_meta where
  "sample_meta = \<lparr>tm_event_id = Some (replicate 32 CHR ''a''), tm_release = None,
     tm_environment = None, tm_board = None, tm_device = None\<rparr>"

theorem transaction_envelope_reads_back_witness:
  "sentry_transaction_envelope_write
     (Some (sentry_transaction_begin None (Some ''ota'') None 100)) (Some sample_meta) (Some ''xyz'') 3 =
   (Some [NUL, CHR ''y'', CHR ''z''], 0)"
  using transaction_envelope_reads_back [of sample_meta "replicate 32 CHR ''a''" "''xyz''" 3
      "sentry_transaction_begin None (Some ''ota'') None 100"]
  by (simp add: sample_meta_def hex_id_replicate sentry_transaction_begin_def mem_write_def)

theorem crash_report_reads_back_witness:
  fixes n :: nat
  defines "n \<equiv> Suc (snd (sentry_event_write (Some sample_event) None 0))"
  shows "\<exists>mem' d. fst (sentry_event_write (Some sample_event) (Some (replicate n NUL)) n) = Some mem' \<and>
    read_json (cstring_of mem') = Some d \<and>
    json_path [Key ''exception'', Key ''values'', Index 0, Key ''stacktrace'', Key ''frames''] d =
      Some (JArray [frame_document 0x42000000])"
proof -
  have "ev_crash sample_event = Some sample_crash"
    by (simp add: ev_crash_def sample_event_def sample_crash_def)
  then show ?thesis
    using crash_report_reads_back [OF sample_event_wf, of sample_crash "replicate n NUL" n]
    by (auto simp: n_def sample_crash_def coredump_zero_def)
qed

theorem spans_inside_transaction_witness:
  "span_unix_us sample_transaction 200 = 8700"
proof -
  let ?s = "\<lparr>sp_op = None, sp_description = None, sp_span_id = [], sp_start_uptime_us = 200,
    sp_end_uptime_us = 500, sp_finished = True, sp_attrs = []\<rparr>"
  have "span_unix_us sample_transaction 500 - span_unix_us sample_transaction 200 = 300"
    using spans_inside_transaction [of sample_transaction ?s]
    by (simp add: sample_transaction_def sentry_transaction_end_at_def sentry_transaction_begin_def)
  moreover have "span_unix_us sample_transaction 500 = 9000"
    by (simp add: sample_transaction_def sentry_transaction_end_at_def sentry_transaction_begin_def
        span_unix_us_def sentry_transaction_start_unix_us_def)
  ultimately show ?thesis by (simp add: algebra_simps)
qed

theorem event_id_is_uuid_v4_witness:
  "sentry_event_id_format (replicate 16 0xff) ! 12 = CHR ''4''"
  using event_id_is_uuid_v4 [of "replicate 16 0xff" "replicate 16 0"] by simp

theorem debug_id_is_little_endian_uuid_witness:
  "sentry_debug_id_from_code_id (Some (hex_text [1, 2, 3])) \<noteq>
   sentry_debug_id_from_code_id (Some (hex_text [1, 2, 4]))"
  using debug_id_is_little_endian_uuid [of "[1, 2, 3]" "[1, 2, 4]"] by simp

end
