(* ===== verification/Sentry_Buffer.thy ===== *)
theory Sentry_Buffer
  imports Sentry_Prelude
begin

text \<open>
  The offline ring buffer of undelivered envelopes, \<open>src/core/sentry_buffer.c\<close>.

  The storage is a vtable: \<open>sentry_storage\<close> is \<open>sentry_storage_t\<close> with its function pointers
  as options, and the memory behind its \<open>ctx\<close> is the state \<open>'s\<close> threaded through every call.
  An operation returns the new storage state and buffer, and the C return value.

  Three contracts of a storage rest on one: \<open>ring_storage\<close> says that slots are independent and that a
  read gives what a slot holds. \<open>slot_storage\<close> adds that a write that answers yes has stored its
  envelope, \<open>reliable_storage\<close> that calls do not fail; there the buffer is a bounded queue of
  envelopes. \<open>bounded_damage\<close> adds to the first what a call that fails can leave behind, and there the
  buffer is shown to be a queue over failures, boots and resets (\<open>queue_may\<close>). They are interpreted in
  \<open>Sentry_Storage_Nvs\<close> (flash), \<open>Sentry_Storage_Fs\<close> (files) and \<open>Sentry_Storage_Ram\<close> (the array of the
  host tests).
\<close>

section \<open>Storage\<close>

record 's sentry_storage =
  st_write :: "('s \<Rightarrow> u32 \<Rightarrow> bytes \<Rightarrow> 's \<times> bool) option"
  st_read :: "('s \<Rightarrow> u32 \<Rightarrow> nat \<Rightarrow> 's \<times> bytes option) option"
  st_erase :: "('s \<Rightarrow> u32 \<Rightarrow> 's \<times> bool) option"
  st_load_meta :: "('s \<Rightarrow> 's \<times> (u32 \<times> u32 \<times> u32) option) option"
  st_save_meta :: "('s \<Rightarrow> u32 \<Rightarrow> u32 \<Rightarrow> u32 \<Rightarrow> 's \<times> bool) option"
  st_slot_count :: u32

definition storage_usable :: "'s sentry_storage option \<Rightarrow> bool" where
  "storage_usable storage \<longleftrightarrow>
     (case storage of
        None \<Rightarrow> False
      | Some st \<Rightarrow> st_write st \<noteq> None \<and> st_read st \<noteq> None \<and> st_erase st \<noteq> None \<and>
          st_load_meta st \<noteq> None \<and> st_save_meta st \<noteq> None \<and> st_slot_count st > 0)"

section \<open>The buffer\<close>

record 's sentry_buffer =
  sb_storage :: "'s sentry_storage option"
  sb_head :: u32
  sb_tail :: u32
  sb_count :: u32
  sb_dropped :: u32

definition buffer_zero :: "'s sentry_buffer" where
  "buffer_zero = \<lparr>sb_storage = None, sb_head = 0, sb_tail = 0, sb_count = 0, sb_dropped = 0\<rparr>"

definition persist_meta :: "'s sentry_storage \<Rightarrow> 's \<Rightarrow> 's sentry_buffer \<Rightarrow> 's" where
  "persist_meta st s b =
     fst (the (st_save_meta st) s (sb_head b) (sb_tail b) (sb_dropped b))"

definition sentry_buffer_init ::
    "'s sentry_storage option \<Rightarrow> 's \<Rightarrow> 's \<times> 's sentry_buffer \<times> bool" where
  "sentry_buffer_init storage s =
     (if \<not> storage_usable storage then (s, buffer_zero, False)
      else
        (let st = the storage;
             b = buffer_zero\<lparr>sb_storage := storage\<rparr>;
             (s, loaded) = the (st_load_meta st) s
         in case loaded of
              None \<Rightarrow> (s, b, True)
            | Some (head, tail, dropped) \<Rightarrow>
                if head \<ge> st_slot_count st \<or> tail \<ge> st_slot_count st then (s, b, True)
                else
                  (s, b\<lparr>sb_head := head, sb_tail := tail, sb_dropped := dropped,
                        sb_count := (if tail \<ge> head then tail - head
                                     else st_slot_count st - head + tail)\<rparr>, True)))"

text \<open>The eviction of a full buffer, and the push; \<open>len == 0\<close> is the empty envelope.\<close>

definition buffer_evict :: "'s sentry_storage \<Rightarrow> 's \<Rightarrow> 's sentry_buffer \<Rightarrow> 's \<times> 's sentry_buffer" where
  "buffer_evict st s b =
     (if sb_count b = st_slot_count st then
        (fst (the (st_erase st) s (sb_head b)),
         b\<lparr>sb_head := (sb_head b + 1) mod st_slot_count st,
           sb_count := sb_count b - 1,
           sb_dropped := (if sb_dropped b < 0xFFFFFFFF then sb_dropped b + 1 else sb_dropped b)\<rparr>)
      else (s, b))"

definition sentry_buffer_push ::
    "bytes \<Rightarrow> 's \<Rightarrow> 's sentry_buffer \<Rightarrow> 's \<times> 's sentry_buffer \<times> bool" where
  "sentry_buffer_push envelope s b =
     (case sb_storage b of
        None \<Rightarrow> (s, b, False)
      | Some st \<Rightarrow>
          if envelope = [] then (s, b, False)
          else
            (let (s, b) = buffer_evict st s b;
                 (s, written) = the (st_write st) s (sb_tail b) envelope
             in if \<not> written then (s, b, False)
                else
                  (let b = b\<lparr>sb_tail := (sb_tail b + 1) mod st_slot_count st,
                             sb_count := sb_count b + 1\<rparr>
                   in (persist_meta st s b, b, True))))"

definition sentry_buffer_peek ::
    "nat \<Rightarrow> 's \<Rightarrow> 's sentry_buffer \<Rightarrow> 's \<times> bytes option" where
  "sentry_buffer_peek cap s b =
     (case sb_storage b of
        None \<Rightarrow> (s, None)
      | Some st \<Rightarrow>
          if sb_count b = 0 then (s, None) else the (st_read st) s (sb_head b) cap)"

definition sentry_buffer_pop ::
    "'s \<Rightarrow> 's sentry_buffer \<Rightarrow> 's \<times> 's sentry_buffer \<times> bool" where
  "sentry_buffer_pop s b =
     (case sb_storage b of
        None \<Rightarrow> (s, b, False)
      | Some st \<Rightarrow>
          if sb_count b = 0 then (s, b, False)
          else
            (let s = fst (the (st_erase st) s (sb_head b));
                 b = b\<lparr>sb_head := (sb_head b + 1) mod st_slot_count st, sb_count := sb_count b - 1\<rparr>
             in (persist_meta st s b, b, True)))"

definition sentry_buffer_count :: "'s sentry_buffer \<Rightarrow> u32" where
  "sentry_buffer_count b = sb_count b"

definition sentry_buffer_dropped :: "'s sentry_buffer \<Rightarrow> u32" where
  "sentry_buffer_dropped b = sb_dropped b"

definition sentry_buffer_reset_dropped ::
    "'s \<Rightarrow> 's sentry_buffer \<Rightarrow> 's \<times> 's sentry_buffer" where
  "sentry_buffer_reset_dropped s b =
     (case sb_storage b of
        None \<Rightarrow> (s, b)
      | Some st \<Rightarrow> (let b = b\<lparr>sb_dropped := 0\<rparr> in (persist_meta st s b, b)))"

lemma pop_shrinks:
  "sb_storage b \<noteq> None \<Longrightarrow> sb_count b \<noteq> 0 \<Longrightarrow>
     unat (sb_count (fst (snd (sentry_buffer_pop s b)))) < unat (sb_count b)"
proof -
  assume "sb_storage b \<noteq> None" "sb_count b \<noteq> 0"
  moreover from this have "unat (sb_count b - 1) = unat (sb_count b) - 1" "unat (sb_count b) \<noteq> 0"
    by (simp_all add: unat_minus_one unat_eq_zero)
  ultimately show ?thesis by (auto simp: sentry_buffer_pop_def Let_def)
qed

function sentry_buffer_clear :: "'s \<Rightarrow> 's sentry_buffer \<Rightarrow> 's \<times> 's sentry_buffer" where
  "sentry_buffer_clear s b =
     (if sb_storage b = None \<or> sb_count b = 0 then (s, b)
      else (let (s, b, _) = sentry_buffer_pop s b in sentry_buffer_clear s b))"
  by pat_completeness auto
termination
proof (relation "measure (\<lambda>(s, b). unat (sb_count b))")
  fix s :: 's and b :: "'s sentry_buffer" and x y s' z b' ok
  assume "\<not> (sb_storage b = None \<or> sb_count b = 0)" "x = sentry_buffer_pop s b" "(s', y) = x"
    "(b', ok) = y"
  then show "((s', b'), s, b) \<in> measure (\<lambda>(s, b). unat (sb_count b))"
    using pop_shrinks [of b s] by (metis case_prod_conv fst_conv in_measure snd_conv)
qed simp

declare sentry_buffer_clear.simps [simp del]

section \<open>Indices\<close>

lemma ring_index_step [ring_arith]:
  fixes a n :: u32
  assumes "a < n"
  shows "unat ((a + 1) mod n) = Suc (unat a) mod unat n"
  using word_succ_less(1) [OF assms] by (simp add: unat_mod)

lemma unat_less_iff [ring_arith]: "(a :: u32) < b \<longleftrightarrow> unat a < unat b"
  by (rule word_less_nat_alt)

lemma unat_pred [ring_arith]: "(a :: u32) \<noteq> 0 \<Longrightarrow> unat (a - 1) = unat a - 1"
  by (rule unat_minus_one)

lemma unat_succ_below [ring_arith]:
  fixes a n :: u32
  shows "unat a < unat n \<Longrightarrow> unat (a + 1) = Suc (unat a)"
  by (rule word_succ_less(1)) (simp add: unat_less_iff)

section \<open>The storage interface\<close>

definition storage_of where
  "storage_of w r e l sv n =
     \<lparr>st_write = Some w, st_read = Some r, st_erase = Some e, st_load_meta = Some l,
      st_save_meta = Some sv, st_slot_count = n\<rparr>"

lemma storage_of_simps [simp]:
  "st_write (storage_of w r e l sv n) = Some w" "st_read (storage_of w r e l sv n) = Some r"
  "st_erase (storage_of w r e l sv n) = Some e" "st_load_meta (storage_of w r e l sv n) = Some l"
  "st_save_meta (storage_of w r e l sv n) = Some sv" "st_slot_count (storage_of w r e l sv n) = n"
  "storage_usable (Some (storage_of w r e l sv n)) \<longleftrightarrow> 0 < n"
  by (simp_all add: storage_of_def storage_usable_def)

text \<open>
  What a storage is to the ring: slots are independent, a read gives what a slot holds, a failed
  call concerns only its own slot, and the metadata are kept apart from the slots. \<open>slots\<close> and
  \<open>meta\<close> are what is stored. Nothing is said here of what a write leaves in its slot.
\<close>

locale ring_storage =
  fixes put :: "'s \<Rightarrow> u32 \<Rightarrow> bytes \<Rightarrow> 's \<times> bool"
    and get :: "'s \<Rightarrow> u32 \<Rightarrow> nat \<Rightarrow> 's \<times> bytes option"
    and erase :: "'s \<Rightarrow> u32 \<Rightarrow> 's \<times> bool"
    and load_meta :: "'s \<Rightarrow> 's \<times> (u32 \<times> u32 \<times> u32) option"
    and save_meta :: "'s \<Rightarrow> u32 \<Rightarrow> u32 \<Rightarrow> u32 \<Rightarrow> 's \<times> bool"
    and slot_count :: u32
    and slots :: "'s \<Rightarrow> u32 \<Rightarrow> bytes option"
    and meta :: "'s \<Rightarrow> (u32 \<times> u32 \<times> u32) option"
    and inv :: "'s \<Rightarrow> bool"
  assumes slot_count_pos: "0 < slot_count"
    and put_frame: "inv s \<Longrightarrow> i < slot_count \<Longrightarrow> put s i d = (s', ok) \<Longrightarrow>
      inv s' \<and> (\<forall>j < slot_count. j \<noteq> i \<longrightarrow> slots s' j = slots s j) \<and> meta s' = meta s"
    and erase_frame: "inv s \<Longrightarrow> i < slot_count \<Longrightarrow> erase s i = (s', ok) \<Longrightarrow>
      inv s' \<and> (\<forall>j < slot_count. j \<noteq> i \<longrightarrow> slots s' j = slots s j) \<and> meta s' = meta s"
    and get_frame: "inv s \<Longrightarrow> i < slot_count \<Longrightarrow> get s i cap = (s', r) \<Longrightarrow>
      inv s' \<and> (\<forall>j < slot_count. slots s' j = slots s j) \<and> meta s' = meta s"
    and get_ok: "inv s \<Longrightarrow> i < slot_count \<Longrightarrow> get s i cap = (s', Some d) \<Longrightarrow>
      slots s i = Some d \<and> length d \<le> cap"
    and load_frame: "inv s \<Longrightarrow> load_meta s = (s', loaded) \<Longrightarrow>
      inv s' \<and> (\<forall>j < slot_count. slots s' j = slots s j) \<and> meta s' = meta s"
    and load_ok: "inv s \<Longrightarrow> load_meta s = (s', Some m) \<Longrightarrow> meta s = Some m"
    and save_frame: "inv s \<Longrightarrow> save_meta s h t dr = (s', ok) \<Longrightarrow>
      inv s' \<and> (\<forall>j < slot_count. slots s' j = slots s j)"
begin

abbreviation st :: "'s sentry_storage" where
  "st \<equiv> storage_of put get erase load_meta save_meta slot_count"

abbreviation N :: nat where "N \<equiv> unat slot_count"

abbreviation window :: "'s \<Rightarrow> nat \<Rightarrow> nat \<Rightarrow> bytes option list" where
  "window s h c \<equiv> map (\<lambda>i. slots s (word_of_nat i)) (ring_window N h c)"

text \<open>The buffer \<open>b\<close> over the storage state \<open>s\<close> spans slots that hold \<open>q\<close>, oldest first.\<close>

definition ring :: "'s \<Rightarrow> 's sentry_buffer \<Rightarrow> bytes option list \<Rightarrow> bool" where
  "ring s b q \<longleftrightarrow> inv s \<and> sb_storage b = Some st \<and> sb_head b < slot_count \<and>
     unat (sb_tail b) = (unat (sb_head b) + length q) mod N \<and>
     unat (sb_count b) = length q \<and> length q \<le> N \<and> window s (unat (sb_head b)) (length q) = q"

lemma N_pos [simp]: "0 < N"
  using slot_count_pos by (simp add: unat_less_iff)

lemma slot_of_nat: "i < N \<Longrightarrow> word_of_nat i < slot_count \<and> unat (word_of_nat i :: u32) = i"
  using unsigned_less [of slot_count, where ?'a = nat]
  by (simp add: unat_less_iff unat_of_nat take_bit_nat_eq_self)

lemma window_agrees:
  assumes "\<And>j. j < slot_count \<Longrightarrow> unat j \<in> set w \<Longrightarrow> slots s' j = slots s j" and "\<And>i. i \<in> set w \<Longrightarrow> i < N"
  shows "map (\<lambda>i. slots s' (word_of_nat i)) w = map (\<lambda>i. slots s (word_of_nat i)) w"
  using assms slot_of_nat by (auto intro!: map_cong)

lemma ring_transfer:
  assumes "ring s b q" and "inv s'"
    and "\<And>j. j < slot_count \<Longrightarrow> unat j \<in> set (ring_window N (unat (sb_head b)) (length q)) \<Longrightarrow>
      slots s' j = slots s j"
  shows "ring s' b q"
proof -
  have "window s' (unat (sb_head b)) (length q) = window s (unat (sb_head b)) (length q)"
    by (rule window_agrees) (use assms(3) ring_window_bounds [OF N_pos] in auto)
  then show ?thesis using assms(1,2) by (simp add: ring_def del: map_eq_conv)
qed

lemma ring_facts:
  assumes "ring s b q"
  shows "inv s" "sb_storage b = Some st" "sb_head b < slot_count" "length q \<le> N"
    "sb_count b = slot_count \<longleftrightarrow> length q = N" "sb_count b = 0 \<longleftrightarrow> q = []"
  using assms by (auto simp: ring_def word_unat_eq_iff)

text \<open>Dropping the oldest envelope, after an erase of its slot that may have failed.\<close>

lemma ring_tl:
  assumes "ring s b q" and "q \<noteq> []" and "erase s (sb_head b) = (s', ok)"
  shows "ring s' (b\<lparr>sb_head := (sb_head b + 1) mod slot_count, sb_count := sb_count b - 1\<rparr>) (tl q)"
proof -
  let ?h = "unat (sb_head b)"
  from assms(2) obtain x r where q: "q = x # r" by (cases q) auto
  have h: "sb_head b < slot_count" "?h < N" and len: "Suc (length r) \<le> N"
    using assms(1) q by (auto simp: ring_def unat_less_iff)
  have e: "inv s'" "\<forall>j < slot_count. j \<noteq> sb_head b \<longrightarrow> slots s' j = slots s j"
    using erase_frame [OF _ h(1) assms(3)] assms(1) by (auto simp: ring_def)
  have h': "unat ((sb_head b + 1) mod slot_count) = Suc ?h mod N"
    by (rule ring_index_step [OF h(1)])
  have "window s ?h (Suc (length r)) = x # r" using assms(1) q by (simp add: ring_def)
  then have old: "window s (Suc ?h mod N) (length r) = r" by (simp add: ring_window_Cons [OF h(2)])
  have "window s' (Suc ?h mod N) (length r) = window s (Suc ?h mod N) (length r)"
    using e(2) head_not_in_rest [OF h(2) len] ring_window_bounds [OF N_pos]
    by (intro window_agrees) auto
  moreover have "(?h + length q) mod N = (Suc ?h mod N + length r) mod N"
    by (simp add: q mod_add_left_eq)
  moreover have "(sb_head b + 1) mod slot_count < slot_count"
    by (simp add: unat_less_iff h')
  moreover have "unat (sb_count b) = Suc (length r)" using assms(1) q by (simp add: ring_def)
  then have "unat (sb_count b - 1) = length r"
    using unat_pred [of "sb_count b"] by (cases "sb_count b = 0") simp_all
  ultimately show ?thesis
    using assms(1) e(1) len old q by (simp add: ring_def h' del: map_eq_conv)
qed

lemma evict_ring:
  assumes "ring s b q" and "buffer_evict st s b = (s', b')"
  shows "ring s' b' (if length q = N then tl q else q)" and "sb_tail b' = sb_tail b"
    and "\<forall>j < slot_count. j \<noteq> sb_tail b \<longrightarrow> slots s' j = slots s j" and "meta s' = meta s"
    and "s' = s \<or> (\<exists>ok. erase s (sb_tail b) = (s', ok))"
proof -
  note f = ring_facts [OF assms(1)]
  have "ring s' b' (if length q = N then tl q else q) \<and> (s' = s \<or> (\<exists>ok. erase s (sb_tail b) = (s', ok)))"
  proof (cases "length q = N")
    case True
    obtain s1 ok where e: "erase s (sb_head b) = (s1, ok)" by (cases "erase s (sb_head b)")
    have "unat (sb_tail b) = unat (sb_head b)" using assms(1) True f(3) by (simp add: ring_def unat_less_iff)
    then have same: "sb_tail b = sb_head b" by (simp add: word_unat_eq_iff)
    have "q \<noteq> []" using True N_pos by (cases q) (simp_all del: N_pos)
    from ring_tl [OF assms(1) this e]
    show ?thesis using True f(5) assms(2) e same by (auto simp: buffer_evict_def ring_def)
  qed (use assms f(5) in \<open>auto simp: buffer_evict_def\<close>)
  then show "ring s' b' (if length q = N then tl q else q)"
    and *: "s' = s \<or> (\<exists>ok. erase s (sb_tail b) = (s', ok))" by blast+
  have "sb_tail b < slot_count" using assms(1) by (simp add: ring_def unat_less_iff)
  with * show "\<forall>j < slot_count. j \<noteq> sb_tail b \<longrightarrow> slots s' j = slots s j" "meta s' = meta s"
    using erase_frame [OF f(1)] by blast+
  show "sb_tail b' = sb_tail b"
    using assms(2) by (auto simp: buffer_evict_def split: if_splits)
qed

lemma tail_of_ring:
  assumes "ring s b q"
  shows "sb_tail b < slot_count" and "length q < N \<Longrightarrow>
    unat (sb_tail b) \<notin> set (ring_window N (unat (sb_head b)) (length q))"
  using assms ring_next_fresh by (auto simp: ring_def unat_less_iff)

text \<open>A write to the free slot, and what it has left there.\<close>

lemma ring_snoc:
  assumes "ring s b q" and "length q < N" and "put s (sb_tail b) d = (s', ok)"
  shows "ring s' (b\<lparr>sb_tail := (sb_tail b + 1) mod slot_count, sb_count := sb_count b + 1\<rparr>)
    (q @ [slots s' (sb_tail b)])"
proof -
  let ?h = "unat (sb_head b)"
  note t = tail_of_ring [OF assms(1)]
  have inv: "inv s" and tail: "unat (sb_tail b) = (?h + length q) mod N" and cnt: "unat (sb_count b) = length q"
    using assms(1) by (simp_all add: ring_def)
  note p = put_frame [OF inv t(1) assms(3)]
  have "window s' ?h (length q) = window s ?h (length q)"
    using p t(2) [OF assms(2)] ring_window_bounds [OF N_pos] by (intro window_agrees) auto
  then have "window s' ?h (length q) = q"
    using assms(1) by (simp add: ring_def del: map_eq_conv)
  then have "window s' ?h (Suc (length q)) = q @ [slots s' (sb_tail b)]"
    by (simp add: ring_window_snoc tail [symmetric] del: map_eq_conv)
  moreover have "unat ((sb_tail b + 1) mod slot_count) = (?h + Suc (length q)) mod N"
    by (simp add: ring_index_step [OF t(1)] tail mod_Suc_eq)
  moreover have "unat (sb_count b + 1) = Suc (length q)"
    using unat_succ_below [of "sb_count b" slot_count] cnt assms(2) by simp
  ultimately show ?thesis
    using assms(1,2) p by (simp add: ring_def del: map_eq_conv)
qed

lemma persist_ring: "ring s b q \<Longrightarrow> ring (persist_meta st s b) b q"
proof -
  assume h: "ring s b q"
  obtain s' ok where sv: "save_meta s (sb_head b) (sb_tail b) (sb_dropped b) = (s', ok)"
    by (cases "save_meta s (sb_head b) (sb_tail b) (sb_dropped b)")
  from save_frame [OF ring_facts(1) [OF h] sv] show ?thesis
    using h sv by (auto simp: persist_meta_def intro: ring_transfer)
qed

text \<open>
  A push, in its steps: \<open>s1\<close> after the eviction, \<open>s2\<close> after the write, \<open>b2\<close> with the new envelope.
\<close>

lemma push_steps:
  assumes "ring s b q" and "d \<noteq> []" and "sentry_buffer_push d s b = (s', b', ok)"
  obtains s1 b1 s2 where "buffer_evict st s b = (s1, b1)" "put s1 (sb_tail b) d = (s2, ok)"
    "inv s2" "\<forall>j < slot_count. j \<noteq> sb_tail b \<longrightarrow> slots s2 j = slots s j" "meta s2 = meta s"
    "ok \<Longrightarrow> ring s2 b' (bounded_push N (slots s2 (sb_tail b)) q) \<and> s' = persist_meta st s2 b'"
    "\<not> ok \<Longrightarrow> ring s2 b' (if length q = N then tl q else q) \<and> s' = s2 \<and> b' = b1" "sb_dropped b' = sb_dropped b1"
proof -
  let ?q = "if length q = N then tl q else q"
  obtain s1 b1 where ev: "buffer_evict st s b = (s1, b1)" by (cases "buffer_evict st s b")
  note h1 = evict_ring [OF assms(1) ev]
  obtain s2 w where p: "put s1 (sb_tail b) d = (s2, w)" by (cases "put s1 (sb_tail b) d")
  have room: "length ?q < N" using ring_facts(4) [OF assms(1)] N_pos by auto
  note f = put_frame [OF ring_facts(1) [OF h1(1)] tail_of_ring(1) [OF assms(1)] p]
  have push: "(s', b', ok) = (if w
      then let b2 = b1\<lparr>sb_tail := (sb_tail b + 1) mod slot_count, sb_count := sb_count b1 + 1\<rparr>
        in (persist_meta st s2 b2, b2, True) else (s2, b1, False))"
    using assms(2,3) ring_facts(2) [OF assms(1)] ev p h1(2) by (cases w) (auto simp: sentry_buffer_push_def Let_def)
  have "ring s2 b1 ?q" if "\<not> w"
    using f tail_of_ring(2) [OF h1(1) room] h1(2) by (intro ring_transfer [OF h1(1)]) auto
  moreover have "ring s2 (b1\<lparr>sb_tail := (sb_tail b + 1) mod slot_count, sb_count := sb_count b1 + 1\<rparr>)
      (bounded_push N (slots s2 (sb_tail b)) q)"
    using ring_snoc [OF h1(1) room] p h1(2) by (simp add: bounded_push_def)
  ultimately show ?thesis
    using push p f h1(3,4) ev by (intro that [of s1 b1 s2]) (auto simp: Let_def split: if_splits)
qed

text \<open>A pop, in its steps.\<close>

lemma pop_steps:
  assumes "ring s b (x # q)" and "sentry_buffer_pop s b = (s', b', ok)"
  obtains s1 e where "ok" "erase s (sb_head b) = (s1, e)" "ring s1 b' q" "s' = persist_meta st s1 b'"
    "sb_dropped b' = sb_dropped b"
proof -
  obtain s1 e where er: "erase s (sb_head b) = (s1, e)" by (cases "erase s (sb_head b)")
  have "sb_count b \<noteq> 0" using ring_facts(6) [OF assms(1)] by simp
  with assms(2) ring_facts(2) [OF assms(1)] er ring_tl [OF assms(1) _ er] show ?thesis
    by (intro that [of s1 e]) (auto simp: sentry_buffer_pop_def Let_def)
qed

lemma pop_empty: "ring s b [] \<Longrightarrow> sentry_buffer_pop s b = (s, b, False)"
  using ring_facts(2,6) [of s b "[]"] by (simp add: sentry_buffer_pop_def)

lemma pop_ring: "ring s b q \<Longrightarrow> sentry_buffer_pop s b = (s', b', ok) \<Longrightarrow> ring s' b' (tl q) \<and> (ok \<longleftrightarrow> q \<noteq> [])"
  by (cases q) (auto simp: pop_empty elim!: pop_steps intro: persist_ring)

lemma ring_front: "ring s b q \<Longrightarrow> q \<noteq> [] \<Longrightarrow> slots s (sb_head b) = hd q"
  by (cases q) (auto simp: ring_def unat_less_iff ring_window_Cons)

lemma peek_ring:
  assumes "ring s b q" and "sentry_buffer_peek cap s b = (s', r)"
  shows "ring s' b q" and "r = Some d \<Longrightarrow> q \<noteq> [] \<and> hd q = Some d \<and> length d \<le> cap"
    and "meta s' = meta s" and "\<forall>j < slot_count. slots s' j = slots s j"
proof -
  note f = ring_facts [OF assms(1)]

  have "ring s' b q \<and> meta s' = meta s \<and> (\<forall>j < slot_count. slots s' j = slots s j)"
  proof (cases "q = []")
    case False
    with assms(2) f have "get s (sb_head b) cap = (s', r)" by (simp add: sentry_buffer_peek_def)
    from get_frame [OF f(1,3) this] show ?thesis by (auto intro: ring_transfer [OF assms(1)])
  qed (use assms f in \<open>auto simp: sentry_buffer_peek_def\<close>)
  then show "ring s' b q" "meta s' = meta s" "\<forall>j < slot_count. slots s' j = slots s j" by blast+
  assume "r = Some d"
  with assms(2) f have "q \<noteq> []" and "get s (sb_head b) cap = (s', Some d)"
    by (auto simp: sentry_buffer_peek_def split: if_splits)
  with get_ok [OF f(1,3) this(2)] ring_front [OF assms(1)] show "q \<noteq> [] \<and> hd q = Some d \<and> length d \<le> cap" by simp
qed

lemma reset_ring: "ring s b q \<Longrightarrow> ring s (b\<lparr>sb_dropped := 0\<rparr>) q"
  by (simp add: ring_def del: map_eq_conv)

end

text \<open>
  What \<open>sentry_buffer.h\<close> asks of a storage besides: a write that succeeded is what a later read
  gives, and so are the metadata.
\<close>

locale slot_storage = ring_storage put get erase load_meta save_meta slot_count slots meta inv
  for put :: "'s \<Rightarrow> u32 \<Rightarrow> bytes \<Rightarrow> 's \<times> bool" and get erase load_meta save_meta slot_count slots meta inv +
  assumes put_ok: "inv s \<Longrightarrow> i < slot_count \<Longrightarrow> put s i d = (s', True) \<Longrightarrow>
      inv s' \<and> slots s' i = Some d"
    and save_ok: "inv s \<Longrightarrow> save_meta s h t dr = (s', True) \<Longrightarrow> meta s' = Some (h, t, dr)"
begin

text \<open>The buffer \<open>b\<close> over the storage state \<open>s\<close> holds the queue \<open>q\<close>, oldest first.\<close>

definition holds :: "'s \<Rightarrow> 's sentry_buffer \<Rightarrow> bytes list \<Rightarrow> bool" where
  "holds s b q \<longleftrightarrow> inv s \<and> sb_storage b = Some st \<and> sb_head b < slot_count \<and>
     unat (sb_tail b) = (unat (sb_head b) + length q) mod N \<and>
     unat (sb_count b) = length q \<and> length q \<le> N \<and>
     map (\<lambda>i. slots s (word_of_nat i)) (ring_window N (unat (sb_head b)) (length q)) = map Some q"

lemma holds_ring: "holds s b q \<longleftrightarrow> ring s b (map Some q)"
  by (simp add: holds_def ring_def del: map_eq_conv)

lemma holds_transfer:
  "holds s b q \<Longrightarrow> inv s' \<Longrightarrow>
    (\<And>j. j < slot_count \<Longrightarrow> unat j \<in> set (ring_window N (unat (sb_head b)) (length q)) \<Longrightarrow> slots s' j = slots s j) \<Longrightarrow>
    holds s' b q"
  using ring_transfer [of s b "map Some q" s'] by (simp add: holds_ring)

lemma tail_index: "holds s b q \<Longrightarrow> sb_tail b < slot_count"
  by (simp add: holds_ring tail_of_ring(1))

lemma persist_holds: "holds s b q \<Longrightarrow> holds (persist_meta st s b) b q"
  by (simp add: holds_ring persist_ring)

lemma bounded_push_Some: "map Some (bounded_push n x q) = bounded_push n (Some x) (map Some q)"
  by (simp add: bounded_push_def map_tl)

lemma drop_Some: "map Some (if length q = N then tl q else q) = (if length q = N then tl (map Some q) else map Some q)"
  by (simp add: map_tl)

lemma push_holds:
  assumes "holds s b q" and "d \<noteq> []" and "sentry_buffer_push d s b = (s', b', ok)"
  shows "holds s' b' (if ok then bounded_push N d q else if length q = N then tl q else q)"
proof -
  obtain s1 b1 s2 where p: "buffer_evict st s b = (s1, b1)" "put s1 (sb_tail b) d = (s2, ok)"
    "ok \<Longrightarrow> ring s2 b' (bounded_push N (slots s2 (sb_tail b)) (map Some q)) \<and> s' = persist_meta st s2 b'"
    "\<not> ok \<Longrightarrow> ring s2 b' (if length q = N then tl (map Some q) else map Some q) \<and> s' = s2"
    using push_steps [OF assms(1) [unfolded holds_ring] assms(2,3)] by (metis length_map)
  have "inv s1" using evict_ring(1) [OF assms(1) [unfolded holds_ring] p(1)] by (rule ring_facts(1))
  then have "ok \<Longrightarrow> slots s2 (sb_tail b) = Some d" using put_ok [of s1 "sb_tail b" d s2] tail_index [OF assms(1)] p(2) by simp
  then show ?thesis
    using p(3,4) persist_ring by (cases ok) (simp_all add: holds_ring bounded_push_Some drop_Some)
qed

lemma pop_holds:
  assumes "holds s b q" and "sentry_buffer_pop s b = (s', b', ok)"
  shows "holds s' b' (tl q)" and "ok \<longleftrightarrow> q \<noteq> []"
  using pop_ring [OF assms(1) [unfolded holds_ring] assms(2)] by (simp_all add: holds_ring map_tl)

lemma peek_holds:
  assumes "holds s b q" and "sentry_buffer_peek cap s b = (s', r)"
  shows "holds s' b q" and "r = Some d \<Longrightarrow> q \<noteq> [] \<and> d = hd q \<and> length d \<le> cap"
  using peek_ring(1,2) [OF assms(1) [unfolded holds_ring] assms(2)] by (auto simp: holds_ring hd_map)

end

section \<open>Storage that does not fail\<close>

text \<open>
  A storage with room: it takes every envelope that fits a slot, reads back what it holds when
  the caller's memory is big enough, and keeps its metadata.
\<close>

locale reliable_storage = slot_storage put get erase load_meta save_meta slot_count slots meta inv
  for put :: "'s \<Rightarrow> u32 \<Rightarrow> bytes \<Rightarrow> 's \<times> bool" and get erase load_meta save_meta slot_count slots meta inv +
  fixes fits :: "bytes \<Rightarrow> bool"
  assumes put_total: "inv s \<Longrightarrow> i < slot_count \<Longrightarrow> fits d \<Longrightarrow> snd (put s i d)"
    and get_total: "inv s \<Longrightarrow> i < slot_count \<Longrightarrow> slots s i = Some d \<Longrightarrow> length d \<le> cap \<Longrightarrow>
      snd (get s i cap) = Some d"
    and load_total: "inv s \<Longrightarrow> snd (load_meta s) = meta s"
    and save_total: "inv s \<Longrightarrow> snd (save_meta s h t dr)"

text \<open>The calls of a client, a reboot included, and their effect on a queue and a drop count.\<close>

datatype buffer_op = Push bytes | Pop | Peek nat | Clear | Count | Dropped | Reset_Dropped | Reboot

datatype buffer_out = Returned bool | Envelope "bytes option" | Number nat | Nothing

fun buffer_step :: "'s sentry_storage \<Rightarrow> buffer_op \<Rightarrow> 's \<times> 's sentry_buffer \<Rightarrow>
    ('s \<times> 's sentry_buffer) \<times> buffer_out" where
  "buffer_step st (Push d) (s, b) = (let (s, b, ok) = sentry_buffer_push d s b in ((s, b), Returned ok))"
| "buffer_step st Pop (s, b) = (let (s, b, ok) = sentry_buffer_pop s b in ((s, b), Returned ok))"
| "buffer_step st (Peek cap) (s, b) = (let (s, r) = sentry_buffer_peek cap s b in ((s, b), Envelope r))"
| "buffer_step st Clear (s, b) = (sentry_buffer_clear s b, Nothing)"
| "buffer_step st Count (s, b) = ((s, b), Number (unat (sentry_buffer_count b)))"
| "buffer_step st Dropped (s, b) = ((s, b), Number (unat (sentry_buffer_dropped b)))"
| "buffer_step st Reset_Dropped (s, b) = (sentry_buffer_reset_dropped s b, Nothing)"
| "buffer_step st Reboot (s, b) =
     (let (s, b, ok) = sentry_buffer_init (Some st) s in ((s, b), Returned ok))"

fun queue_step :: "nat \<Rightarrow> buffer_op \<Rightarrow> bytes list \<times> nat \<Rightarrow> (bytes list \<times> nat) \<times> buffer_out" where
  "queue_step cap (Push d) (q, lost) =
     (if d = [] then ((q, lost), Returned False)
      else ((bounded_push cap d q, if length q = cap then min (Suc lost) (2 ^ 32 - 1) else lost),
            Returned True))"
| "queue_step cap Pop (q, lost) = ((tl q, lost), Returned (q \<noteq> []))"
| "queue_step cap (Peek n) (q, lost) =
     ((q, lost), Envelope (if q \<noteq> [] \<and> length (hd q) \<le> n then Some (hd q) else None))"
| "queue_step cap Clear (q, lost) = (([], lost), Nothing)"
| "queue_step cap Count (q, lost) = ((q, lost), Number (length q))"
| "queue_step cap Dropped (q, lost) = ((q, lost), Number lost)"
| "queue_step cap Reset_Dropped (q, lost) = ((q, 0), Nothing)"
| "queue_step cap Reboot (q, lost) = ((if length q = cap then [] else q, lost), Returned True)"

fun outputs :: "('op \<Rightarrow> 'st \<Rightarrow> 'st \<times> 'out) \<Rightarrow> 'op list \<Rightarrow> 'st \<Rightarrow> 'out list" where
  "outputs step [] s = []"
| "outputs step (x # xs) s = (let (s, r) = step x s in r # outputs step xs s)"

section \<open>What a boot finds\<close>

text \<open>
  The ring indices that a boot restores from the metadata, and the slots between them: what the
  next boot finds. A head that is also the tail counts as empty.
\<close>

definition restored :: "u32 \<Rightarrow> (u32 \<times> u32 \<times> u32) option \<Rightarrow> u32 \<times> u32 \<times> u32" where
  "restored n m = (case m of None \<Rightarrow> (0, 0, 0)
     | Some (h, t, d) \<Rightarrow> if h \<ge> n \<or> t \<ge> n then (0, 0, 0) else (h, t, d))"

definition boot_ring_of :: "u32 \<Rightarrow> ('s \<Rightarrow> u32 \<Rightarrow> bytes option) \<Rightarrow> ('s \<Rightarrow> (u32 \<times> u32 \<times> u32) option) \<Rightarrow> 's \<Rightarrow> bytes option list" where
  "boot_ring_of n slots meta s =
     (case restored n (meta s) of (h, t, _) \<Rightarrow>
        map (\<lambda>i. slots s (word_of_nat i)) (ring_window (unat n) (unat h) ((unat t + unat n - unat h) mod unat n)))"

lemma restored_bounds:
  assumes "0 < n" and "restored n m = (h, t, d)"
  shows "h < n" "t < n"
  using assms by (auto simp: restored_def not_le split: option.splits prod.splits if_splits)

context ring_storage
begin

lemma boot_ring:
  assumes "inv s" and "sentry_buffer_init (Some st) s = (s', b, ok)"
  obtains loaded where "ok" "load_meta s = (s', loaded)" "loaded = None \<or> loaded = meta s"
    "(sb_head b, sb_tail b, sb_dropped b) = restored slot_count loaded"
    "ring s' b (boot_ring_of slot_count slots (\<lambda>_. loaded) s)"
proof -
  obtain s1 loaded where l: "load_meta s = (s1, loaded)" by (cases "load_meta s")
  note f = load_frame [OF assms(1) l]
  obtain h t d where r: "restored slot_count loaded = (h, t, d)" by (rule prod_cases3)
  note ht = restored_bounds [OF slot_count_pos r]
  let ?c = "if t \<ge> h then t - h else slot_count - h + t"
  let ?b = "\<lparr>sb_storage = Some st, sb_head = h, sb_tail = t, sb_count = ?c, sb_dropped = d\<rparr>"
  let ?q = "boot_ring_of slot_count slots (\<lambda>_. loaded) s"
  have init: "s' = s1" "b = ?b" "ok"
    using assms(2) l r slot_count_pos
    by (auto simp: sentry_buffer_init_def restored_def buffer_zero_def Let_def split: option.splits if_splits)
  have HT: "unat h < N" "unat t < N" using ht by (simp_all add: unat_less_iff)
  have "unat ?c = (unat t + N - unat h) mod N"
  proof (cases "h \<le> t")
    case True
    then have "(unat t + N - unat h) mod N = (unat t - unat h) mod N"
      using mod_add_self2 [of "unat t - unat h" N] by (simp add: word_le_nat_alt)
    then show ?thesis using True HT by (simp add: unat_sub word_le_nat_alt)
  next
    case False
    have "unat (slot_count - h) = N - unat h" using HT by (simp add: unat_sub word_le_nat_alt)
    moreover have "N - unat h + unat t < 2 ^ 32"
      using False HT unsigned_less [of slot_count, where ?'a = nat] by (simp add: word_le_nat_alt)
    ultimately show ?thesis using False HT by (simp add: word_le_nat_alt unat_word_ariths)
  qed
  moreover have "length ?q = (unat t + N - unat h) mod N" by (simp add: boot_ring_of_def r)
  moreover have "(unat h + (unat t + N - unat h) mod N) mod N = unat t"
    using HT by (simp add: mod_add_right_eq)
  moreover have "window s (unat h) (length ?q) = ?q" by (simp add: boot_ring_of_def r)
  ultimately have "ring s ?b ?q"
    using assms(1) ht(1) HT by (simp add: ring_def less_imp_le)
  then have "ring s' b ?q" using f init by (auto intro: ring_transfer)
  then show ?thesis
    using that [of loaded] init l r load_ok [OF assms(1)] by (cases loaded) auto
qed

lemma found_blank [simp]: "boot_ring_of slot_count slots (\<lambda>_. None) s = []"
  by (simp add: boot_ring_of_def restored_def)

text \<open>Indices that are in step with the buffer: a boot finds what it spans, unless it spans every slot.\<close>

lemma found_in_step:
  assumes "ring s b q" and "restored slot_count (meta s) = (sb_head b, sb_tail b, d)"
  shows "boot_ring_of slot_count slots meta s = (if length q = N then [] else q)"
proof -
  have H: "unat (sb_head b) < N" and T: "unat (sb_tail b) = (unat (sb_head b) + length q) mod N" and len: "length q \<le> N"
    and w: "window s (unat (sb_head b)) (length q) = q"
    using assms(1) by (simp_all add: ring_def unat_less_iff)
  have "(unat (sb_tail b) + N - unat (sb_head b)) mod N = (if length q = N then 0 else length q)"
  proof (cases "unat (sb_head b) + length q < N")
    case False
    then have "unat (sb_tail b) = unat (sb_head b) + length q - N" using T H len by (simp add: mod_if)
    then show ?thesis using H False len by (auto simp: mod_if)
  qed (use H T len in auto)
  then show ?thesis using w by (auto simp: boot_ring_of_def assms(2))
qed

end

context reliable_storage
begin

definition saved :: "'s \<Rightarrow> 's sentry_buffer \<Rightarrow> bool" where
  "saved s b \<longleftrightarrow> restored slot_count (meta s) = (sb_head b, sb_tail b, sb_dropped b)"

definition refines :: "'s \<times> 's sentry_buffer \<Rightarrow> bytes list \<times> nat \<Rightarrow> bool" where
  "refines sb ql \<longleftrightarrow> holds (fst sb) (snd sb) (fst ql) \<and> saved (fst sb) (snd sb) \<and>
     unat (sb_dropped (snd sb)) = snd ql"

lemma saved_persist: "ring s b q \<Longrightarrow> saved (persist_meta st s b) b"
proof -
  assume h: "ring s b q"
  note f = ring_facts [OF h] and tl = tail_of_ring(1) [OF h]
  obtain s' where "save_meta s (sb_head b) (sb_tail b) (sb_dropped b) = (s', True)"
    using save_total [OF f(1), of "sb_head b" "sb_tail b" "sb_dropped b"] by (metis (full_types) prod.collapse)
  with save_ok [OF f(1) this] f(3) tl show ?thesis
    by (simp add: saved_def restored_def persist_meta_def flip: not_le)
qed

lemma evict_counts:
  assumes "holds s b q" and "buffer_evict st s b = (s', b')"
  shows "unat (sb_dropped b') = (if length q = N then min (Suc (unat (sb_dropped b))) (2 ^ 32 - 1) else unat (sb_dropped b))"
proof -
  have full: "sb_count b = slot_count \<longleftrightarrow> length q = N" using assms(1) by (simp add: holds_def word_unat_eq_iff)
  show ?thesis
  proof (cases "length q = N")
    case True
    have "unat (0xFFFFFFFF :: u32) = 2 ^ 32 - 1" by simp
    moreover have "unat (sb_dropped b) \<le> 2 ^ 32 - 1"
      using unsigned_less [of "sb_dropped b", where ?'a = nat] by simp
    ultimately show ?thesis
      using True full assms(2) unat_succ_below [of "sb_dropped b" "0xFFFFFFFF"]
      by (auto simp: buffer_evict_def unat_less_iff min_def)
  qed (use assms(2) full in \<open>auto simp: buffer_evict_def\<close>)
qed

lemma push_refines:
  assumes "refines (s, b) (q, lost)" and "fits d"
  shows "refines (fst (buffer_step st (Push d) (s, b))) (fst (queue_step N (Push d) (q, lost)))"
    and "snd (buffer_step st (Push d) (s, b)) = snd (queue_step N (Push d) (q, lost))"
proof -
  have h: "holds s b q" and lost: "unat (sb_dropped b) = lost" using assms(1) by (simp_all add: refines_def)
  obtain s' b' ok where p: "sentry_buffer_push d s b = (s', b', ok)" by (rule prod_cases3)
  have "refines (s', b') (fst (queue_step N (Push d) (q, lost))) \<and> ok = (d \<noteq> [])"
  proof (cases "d = []")
    case False
    note h' = h [unfolded holds_ring]
    obtain s1 b1 s2 where st: "buffer_evict st s b = (s1, b1)" "put s1 (sb_tail b) d = (s2, ok)"
      "ok \<Longrightarrow> ring s2 b' (bounded_push N (slots s2 (sb_tail b)) (map Some q)) \<and> s' = persist_meta st s2 b'"
      "sb_dropped b' = sb_dropped b1"
      by (rule push_steps [OF h' False p]) blast
    have "inv s1" by (rule ring_facts(1) [OF evict_ring(1) [OF h' st(1)]])
    then have "ok" using put_total [OF _ tail_index [OF h] assms(2)] st(2) by (metis snd_conv)
    moreover have "saved s' b'" using saved_persist st(3) \<open>ok\<close> by blast
    ultimately show ?thesis
      using push_holds [OF h False p] evict_counts [OF h st(1)] st(4) lost False by (simp add: refines_def)
  qed (use assms(1) h p in \<open>simp add: sentry_buffer_push_def holds_def\<close>)
  then show "refines (fst (buffer_step st (Push d) (s, b))) (fst (queue_step N (Push d) (q, lost)))"
    and "snd (buffer_step st (Push d) (s, b)) = snd (queue_step N (Push d) (q, lost))"
    using p by simp_all
qed

lemma pop_refines:
  assumes "refines (s, b) (q, lost)"
  shows "refines (fst (buffer_step st Pop (s, b))) (fst (queue_step N Pop (q, lost)))"
    and "snd (buffer_step st Pop (s, b)) = snd (queue_step N Pop (q, lost))"
proof -
  have h: "holds s b q" using assms by (simp add: refines_def)
  obtain s' b' ok where p: "sentry_buffer_pop s b = (s', b', ok)" by (cases "sentry_buffer_pop s b")
  note ph = pop_holds [OF h p]
  show "snd (buffer_step st Pop (s, b)) = snd (queue_step N Pop (q, lost))"
    using p ph(2) by simp
  have "saved s' b' \<and> sb_dropped b' = sb_dropped b"
  proof (cases q)
    case Nil
    then show ?thesis using pop_empty [of s b] h p assms by (simp add: holds_ring refines_def)
  next
    case (Cons x xs)
    then have "ring s b (Some x # map Some xs)" using h by (simp add: holds_ring)
    then show ?thesis by (rule pop_steps [OF _ p]) (auto intro: saved_persist)
  qed
  then show "refines (fst (buffer_step st Pop (s, b))) (fst (queue_step N Pop (q, lost)))"
    using p ph(1) assms by (simp add: refines_def)
qed

lemma peek_refines:
  assumes "refines (s, b) (q, lost)"
  shows "refines (fst (buffer_step st (Peek n) (s, b))) (fst (queue_step N (Peek n) (q, lost)))"
    and "snd (buffer_step st (Peek n) (s, b)) = snd (queue_step N (Peek n) (q, lost))"
proof -
  have h: "holds s b q" using assms by (simp add: refines_def)
  obtain s' r where p: "sentry_buffer_peek n s b = (s', r)" by (cases "sentry_buffer_peek n s b")
  note ph = peek_holds [OF h p]
  have st: "sb_storage b = Some st" and cnt: "sb_count b = 0 \<longleftrightarrow> q = []"
    and inv: "inv s" and hd: "sb_head b < slot_count"
    using h by (auto simp: holds_def unat_eq_zero [symmetric])
  have r: "r = (if q \<noteq> [] \<and> length (hd q) \<le> n then Some (hd q) else None)"
  proof (cases "q \<noteq> [] \<and> length (hd q) \<le> n")
    case True
    then obtain x xs where q: "q = x # xs" by (cases q) auto
    have "map (\<lambda>i. slots s (word_of_nat i)) (ring_window N (unat (sb_head b)) (Suc (length xs))) = map Some (x # xs)"
      using h q by (simp add: holds_def)
    then have "slots s (sb_head b) = Some x"
      using hd by (simp add: ring_window_Cons unat_less_iff)
    then show ?thesis
      using get_total [OF inv hd, of x n] p True q st cnt by (auto simp: sentry_buffer_peek_def)
  qed (use ph(2) in \<open>cases r; auto\<close>)
  then show "snd (buffer_step st (Peek n) (s, b)) = snd (queue_step N (Peek n) (q, lost))"
    using p by simp
  have "meta s' = meta s" by (rule peek_ring(3) [OF h [unfolded holds_ring] p])
  then show "refines (fst (buffer_step st (Peek n) (s, b))) (fst (queue_step N (Peek n) (q, lost)))"
    using p ph(1) assms by (simp add: refines_def saved_def)
qed

end

context reliable_storage
begin

lemma clear_refines:
  "refines (s, b) (q, lost) \<Longrightarrow> refines (sentry_buffer_clear s b) ([], lost)"
proof (induction "length q" arbitrary: s b q)
  case 0
  then show ?case
    by (subst sentry_buffer_clear.simps) (auto simp: refines_def holds_def unat_eq_zero [symmetric])
next
  case (Suc n)
  have h: "holds s b q" using Suc.prems by (simp add: refines_def)
  have "sb_storage b = Some st" "sb_count b \<noteq> 0"
    using h Suc.hyps(2) by (auto simp: holds_def)
  moreover obtain s' b' ok where p: "sentry_buffer_pop s b = (s', b', ok)"
    by (cases "sentry_buffer_pop s b")
  moreover have "refines (s', b') (tl q, lost)" using pop_refines(1) [OF Suc.prems] p by simp
  moreover have "n = length (tl q)" using Suc.hyps(2) by simp
  ultimately show ?case
    using Suc.hyps(1) [of "tl q" s' b'] by (subst sentry_buffer_clear.simps) simp
qed

lemma reset_refines:
  assumes "refines (s, b) (q, lost)"
  shows "refines (sentry_buffer_reset_dropped s b) (q, 0)"
proof -
  have h: "holds s b q" using assms by (simp add: refines_def)
  then have r: "ring s (b\<lparr>sb_dropped := 0\<rparr>) (map Some q)" and st: "sb_storage b = Some st"
    using reset_ring ring_facts(2) by (auto simp: holds_ring)
  from persist_ring [OF r] saved_persist [OF r] st show ?thesis
    by (simp add: refines_def sentry_buffer_reset_dropped_def holds_ring Let_def)
qed

text \<open>A boot finds what was last persisted, but for a buffer that was exactly full.\<close>

lemma reboot_refines:
  assumes "refines (s, b) (q, lost)"
  shows "refines (fst (buffer_step st Reboot (s, b))) (if length q = N then [] else q, lost)"
    and "snd (buffer_step st Reboot (s, b)) = Returned True"
proof -
  have h: "ring s b (map Some q)" and sv: "saved s b" using assms by (simp_all add: refines_def holds_ring)
  obtain s' b' ok where init: "sentry_buffer_init (Some st) s = (s', b', ok)" by (rule prod_cases3)
  obtain loaded where boot: "ok" "load_meta s = (s', loaded)"
    "(sb_head b', sb_tail b', sb_dropped b') = restored slot_count loaded"
    "ring s' b' (boot_ring_of slot_count slots (\<lambda>_. loaded) s)"
    by (rule boot_ring [OF ring_facts(1) [OF h] init]) blast
  have meta: "loaded = meta s" using load_total [OF ring_facts(1) [OF h]] boot(2) by simp
  then have "boot_ring_of slot_count slots (\<lambda>_. loaded) s = map Some (if length q = N then [] else q)"
    using found_in_step [OF h sv [unfolded saved_def]] by (auto simp: boot_ring_of_def)
  moreover have "saved s' b' \<and> sb_dropped b' = sb_dropped b"
    using load_frame [OF ring_facts(1) [OF h] boot(2)] boot(3) sv by (simp add: saved_def meta)
  ultimately show "refines (fst (buffer_step st Reboot (s, b))) (if length q = N then [] else q, lost)"
    and "snd (buffer_step st Reboot (s, b)) = Returned True"
    using init boot assms by (simp_all add: refines_def holds_ring)
qed

lemma step_refines:
  assumes "refines sb ql" and "\<And>d. op = Push d \<Longrightarrow> fits d"
  shows "refines (fst (buffer_step st op sb)) (fst (queue_step N op ql)) \<and>
    snd (buffer_step st op sb) = snd (queue_step N op ql)"
proof -
  obtain s b q lost where sb: "sb = (s, b)" and ql: "ql = (q, lost)" by (cases sb; cases ql)
  note r = assms(1) [unfolded sb ql]
  show ?thesis
  proof (cases op)
    case (Push d)
    then show ?thesis using push_refines [OF r assms(2)] sb ql by blast
  next
    case Clear
    then show ?thesis using clear_refines [OF r] sb ql by simp
  next
    case Count
    then show ?thesis using r sb ql by (simp add: refines_def holds_def sentry_buffer_count_def)
  next
    case Dropped
    then show ?thesis using r sb ql by (simp add: refines_def sentry_buffer_dropped_def)
  next
    case Reset_Dropped
    then show ?thesis using reset_refines [OF r] sb ql by simp
  next
    case Reboot
    then show ?thesis using reboot_refines [OF r] sb ql by simp
  qed (use pop_refines [OF r] peek_refines [OF r] sb ql in auto)
qed

theorem runs_refine:
  assumes "refines sb ql" and "list_all (\<lambda>op. \<forall>d. op = Push d \<longrightarrow> fits d) ops"
  shows "outputs (buffer_step st) ops sb = outputs (queue_step N) ops ql"
  using assms
proof (induction ops arbitrary: sb ql)
  case (Cons op ops)
  have "refines (fst (buffer_step st op sb)) (fst (queue_step N op ql)) \<and>
      snd (buffer_step st op sb) = snd (queue_step N op ql)"
    using Cons.prems by (intro step_refines) simp_all
  with Cons.IH [of "fst (buffer_step st op sb)" "fst (queue_step N op ql)"] Cons.prems(2)
  show ?case by (simp add: case_prod_unfold Let_def)
qed simp

lemma refines_boot:
  assumes "inv s" and "meta s = None" and "sentry_buffer_init (Some st) s = (s', b, ok)"
  shows "refines (s', b) ([], 0)" and "ok"
proof -
  obtain loaded where boot: "ok" "load_meta s = (s', loaded)"
    "(sb_head b, sb_tail b, sb_dropped b) = restored slot_count loaded"
    "ring s' b (boot_ring_of slot_count slots (\<lambda>_. loaded) s)"
    by (rule boot_ring [OF assms(1,3)]) blast
  have "loaded = None" "meta s' = None"
    using load_total [OF assms(1)] load_frame [OF assms(1) boot(2)] assms(2) boot(2) by simp_all
  then show "refines (s', b) ([], 0)" and "ok"
    using boot by (simp_all add: refines_def saved_def holds_ring) (simp add: restored_def)
qed

end

section \<open>Storage that may fail\<close>

text \<open>
  What a call that fails can leave behind: a write leaves in its slot what was there, nothing, or a
  beginning of the envelope; an erase leaves what was there or nothing; a save leaves the metadata as
  they were, the new ones, or none that are valid. \<open>sure\<close> says whether a write that answered yes has
  stored its envelope whole.
\<close>

locale bounded_damage = ring_storage put get erase load_meta save_meta slot_count slots meta inv
  for put :: "'s \<Rightarrow> u32 \<Rightarrow> bytes \<Rightarrow> 's \<times> bool" and get erase load_meta save_meta slot_count slots meta inv +
  fixes sure :: bool
  assumes put_left: "inv s \<Longrightarrow> i < slot_count \<Longrightarrow> put s i d = (s', ok) \<Longrightarrow>
      slots s' i = slots s i \<or> slots s' i = None \<or> (\<exists>k. slots s' i = Some (take k d))"
    and put_sure: "sure \<Longrightarrow> inv s \<Longrightarrow> i < slot_count \<Longrightarrow> put s i d = (s', True) \<Longrightarrow> slots s' i = Some d"
    and erase_left: "inv s \<Longrightarrow> i < slot_count \<Longrightarrow> erase s i = (s', ok) \<Longrightarrow>
      slots s' i = slots s i \<or> slots s' i = None"
    and save_left: "inv s \<Longrightarrow> save_meta s h t dr = (s', ok) \<Longrightarrow>
      meta s' = meta s \<or> meta s' = None \<or> meta s' = Some (h, t, dr)"

text \<open>
  The ring on such a storage, as a queue \<open>q\<close> of what the slots in use hold, where \<open>None\<close> is a slot
  that cannot be shown, and what the next boot would find when that is not known to be the same:
  \<open>None\<close> when the saved indices are those of \<open>q\<close>, and \<open>Some m\<close> when they lag behind it, because a
  save has failed. A ring of which every slot is in use reads as empty at a boot.
\<close>

type_synonym ring_state = "bytes option list \<times> bytes option list option"

definition next_boot :: "nat \<Rightarrow> ring_state \<Rightarrow> bytes option list" where
  "next_boot cap ql = (case snd ql of None \<Rightarrow> if length (fst ql) = cap then [] else fst ql | Some m \<Rightarrow> m)"

text \<open>What indices that are saved, or not, leave for the next boot; what a write leaves of it.\<close>

definition filed :: "bytes option list \<Rightarrow> bytes option list option \<Rightarrow> bool" where
  "filed m l \<longleftrightarrow> l = None \<or> l = Some m \<or> l = Some []"

definition touched :: "bytes \<Rightarrow> bytes option list \<Rightarrow> bytes option list \<Rightarrow> bool" where
  "touched d m m' \<longleftrightarrow> m' = m \<or> (\<exists>k. m' = m[k := None] \<or> (\<exists>j. m' = m[k := Some (take j d)]))"

text \<open>
  The steps of the ring. A push adds its envelope at the end or is refused. A refused push changes
  nothing, not even for the next boot, while the ring has room and its indices are saved; on a full
  ring the oldest envelope has been dropped by then. Peek shows the head or fails, pop removes it.
  Only a reboot goes from what the indices in the storage say, or from nothing if they cannot be read.
\<close>

inductive queue_may :: "bool \<Rightarrow> nat \<Rightarrow> buffer_op \<Rightarrow> ring_state \<Rightarrow> buffer_out \<Rightarrow> ring_state \<Rightarrow> bool" for sure cap where
  may_refuse_empty: "queue_may sure cap (Push []) ql (Returned False) ql"
| may_push: "d \<noteq> [] \<Longrightarrow> (sure \<Longrightarrow> x = Some d) \<Longrightarrow> (l = None \<Longrightarrow> m = next_boot cap (q, l)) \<Longrightarrow>
    touched d (next_boot cap (q, l)) m \<Longrightarrow> filed m l' \<Longrightarrow>
    queue_may sure cap (Push d) (q, l) (Returned True) (bounded_push cap x q, l')"
| may_fail_push: "d \<noteq> [] \<Longrightarrow> length q < cap \<Longrightarrow> queue_may sure cap (Push d) (q, None) (Returned False) (q, None)"
| may_fail_push_unsaved: "d \<noteq> [] \<Longrightarrow> length q < cap \<Longrightarrow> touched d m m' \<Longrightarrow>
    queue_may sure cap (Push d) (q, Some m) (Returned False) (q, Some m')"
| may_fail_push_full: "d \<noteq> [] \<Longrightarrow> length q = cap \<Longrightarrow> touched d (next_boot cap (q, l)) m \<Longrightarrow>
    queue_may sure cap (Push d) (q, l) (Returned False) (tl q, Some m)"
| may_pop_none: "queue_may sure cap Pop ([], l) (Returned False) ([], l)"
| may_pop: "m = next_boot cap (x # q, l) \<or> m = (next_boot cap (x # q, l))[k := None] \<Longrightarrow> (l = None \<Longrightarrow> k = 0) \<Longrightarrow>
    filed m l' \<Longrightarrow> queue_may sure cap Pop (x # q, l) (Returned True) (q, l')"
| may_peek: "length d \<le> n \<Longrightarrow> queue_may sure cap (Peek n) (Some d # q, l) (Envelope (Some d)) (Some d # q, l)"
| may_fail_peek: "queue_may sure cap (Peek n) ql (Envelope None) ql"
| may_clear_none: "queue_may sure cap Clear ([], l) Nothing ([], l)"
| may_clear: "queue_may sure cap Pop ql (Returned True) ql1 \<Longrightarrow> queue_may sure cap Clear ql1 Nothing ql' \<Longrightarrow>
    queue_may sure cap Clear ql Nothing ql'"
| may_count: "queue_may sure cap Count (q, l) (Number (length q)) (q, l)"
| may_dropped: "queue_may sure cap Dropped ql (Number k) ql"
| may_reset: "filed (next_boot cap (q, l)) l' \<Longrightarrow> queue_may sure cap Reset_Dropped (q, l) Nothing (q, l')"
| may_boot: "queue_may sure cap Reboot ql (Returned True) (next_boot cap ql, None)"
| may_boot_blank: "queue_may sure cap Reboot ql (Returned True) ([], Some (next_boot cap ql))"

inductive_cases may_peekE: "queue_may sure cap (Peek n) ql out ql'"

inductive queue_runs :: "bool \<Rightarrow> nat \<Rightarrow> buffer_op list \<Rightarrow> ring_state \<Rightarrow> buffer_out list \<Rightarrow> bool" for sure cap where
  runs_nil: "queue_runs sure cap [] ql []"
| runs_step: "queue_may sure cap op ql out ql' \<Longrightarrow> queue_runs sure cap ops ql' outs \<Longrightarrow>
    queue_runs sure cap (op # ops) ql (out # outs)"

text \<open>A step, where the device is reset before it boots; and the state after a run.\<close>

definition reset_step :: "('s \<Rightarrow> 's) \<Rightarrow> 's sentry_storage \<Rightarrow> buffer_op \<Rightarrow> 's \<times> 's sentry_buffer \<Rightarrow>
    ('s \<times> 's sentry_buffer) \<times> buffer_out" where
  "reset_step reset st op sb = buffer_step st op (if op = Reboot then (reset (fst sb), snd sb) else sb)"

definition state_after :: "('op \<Rightarrow> 'st \<Rightarrow> 'st \<times> 'out) \<Rightarrow> 'op list \<Rightarrow> 'st \<Rightarrow> 'st" where
  "state_after step ops s = fold (\<lambda>op s. fst (step op s)) ops s"

text \<open>An envelope that was stored at the start, or the beginning of one that was pushed.\<close>

definition known :: "bytes set \<Rightarrow> buffer_op list \<Rightarrow> bytes set" where
  "known start ops = start \<union> {take k d | k d. Push d \<in> set ops}"

context bounded_damage
begin

abbreviation boot :: "'s \<Rightarrow> bytes option list" where
  "boot \<equiv> boot_ring_of slot_count slots meta"

text \<open>The buffer \<open>b\<close> over the storage state \<open>s\<close> is at the state \<open>(q, l)\<close>.\<close>

definition spans :: "'s \<Rightarrow> 's sentry_buffer \<Rightarrow> ring_state \<Rightarrow> bool" where
  "spans s b ql \<longleftrightarrow> ring s b (fst ql) \<and>
     (case snd ql of None \<Rightarrow> \<exists>d. restored slot_count (meta s) = (sb_head b, sb_tail b, d) | Some m \<Rightarrow> boot s = m)"

lemma boot_spans: "spans s b ql \<Longrightarrow> boot s = next_boot N ql"
  using found_in_step by (auto simp: spans_def next_boot_def split: option.splits)

lemma boot_same:
  assumes "\<forall>j < slot_count. slots s' j = slots s j" and "meta s' = meta s"
  shows "boot s' = boot s"
proof -
  obtain h t d where r: "restored slot_count (meta s) = (h, t, d)" by (rule prod_cases3)
  show ?thesis
    using assms slot_of_nat ring_window_bounds [OF N_pos] by (auto simp: boot_ring_of_def r intro!: map_cong)
qed

lemma boot_touched:
  assumes "\<forall>j < slot_count. j \<noteq> i \<longrightarrow> slots s' j = slots s j" and "meta s' = meta s"
  obtains k where "boot s' = (boot s)[k := slots s' i]"
proof -
  obtain h t d where r: "restored slot_count (meta s) = (h, t, d)" by (rule prod_cases3)
  define w where "w = ring_window N (unat h) ((unat t + N - unat h) mod N)"
  have b: "boot s = map (\<lambda>i. slots s (word_of_nat i)) w" "boot s' = map (\<lambda>i. slots s' (word_of_nat i)) w"
    using assms(2) by (simp_all add: boot_ring_of_def r w_def)
  have w: "distinct w" "\<And>x. x \<in> set w \<Longrightarrow> x < N"
    using ring_window_bounds [OF N_pos] by (auto simp: w_def intro!: ring_window_distinct less_imp_le)
  have other: "slots s' (word_of_nat x) = slots s (word_of_nat x)" if "x \<in> set w" "x \<noteq> unat i" for x
    using assms(1) slot_of_nat [OF w(2) [OF that(1)]] that(2) by auto
  show ?thesis
  proof (cases "unat i \<in> set w")
    case False
    then have "map (\<lambda>i. slots s' (word_of_nat i)) w = map (\<lambda>i. slots s (word_of_nat i)) w" using other by (auto intro!: map_cong)
    then show ?thesis by (intro that [of "length w"]) (simp add: b list_update_beyond del: map_eq_conv)
  next
    case True
    then obtain k where k: "k < length w" "w ! k = unat i" by (auto simp: in_set_conv_nth)
    have "boot s' = (boot s)[k := slots s' i]"
    proof (rule nth_equalityI)
      fix j assume "j < length (boot s')"
      then have j: "j < length w" by (simp add: b)
      have "j \<noteq> k \<Longrightarrow> w ! j \<noteq> unat i" using j k w(1) by (metis nth_eq_iff_index_eq)
      then show "boot s' ! j = (boot s)[k := slots s' i] ! j"
        using k j other [of "w ! j"] by (cases "j = k") (simp_all add: b)
    qed (simp add: b)
    then show ?thesis by (rule that)
  qed
qed

lemma boot_written:
  assumes "\<forall>j < slot_count. j \<noteq> i \<longrightarrow> slots s' j = slots s j" and "meta s' = meta s"
    and "slots s' i = slots s i \<or> slots s' i = None \<or> (\<exists>j. slots s' i = Some (take j d))"
  shows "touched d (boot s) (boot s')"
proof (cases "slots s' i = slots s i")
  case True
  then show ?thesis using assms boot_same by (metis touched_def)
next
  case False
  obtain k where "boot s' = (boot s)[k := slots s' i]" by (rule boot_touched [OF assms(1,2)])
  with False assms(3) show ?thesis unfolding touched_def by metis
qed

lemma persist_spans:
  assumes "ring s b q"
  shows "\<exists>l. filed (boot s) l \<and> spans (persist_meta st s b) b (q, l)"
proof -
  obtain s' ok where sv: "save_meta s (sb_head b) (sb_tail b) (sb_dropped b) = (s', ok)"
    by (cases "save_meta s (sb_head b) (sb_tail b) (sb_dropped b)")
  have p: "persist_meta st s b = s'" by (simp add: persist_meta_def sv)
  note f = ring_facts [OF assms] and slots = save_frame [OF ring_facts(1) [OF assms] sv]
    and r = persist_ring [OF assms, unfolded p]
  consider "meta s' = Some (sb_head b, sb_tail b, sb_dropped b)" | "meta s' = None" | "meta s' = meta s"
    using save_left [OF f(1) sv] by metis
  then show ?thesis
  proof cases
    case 1
    then have "spans s' b (q, None)"
      using r f(3) tail_of_ring(1) [OF assms] by (auto simp: spans_def restored_def simp flip: not_le)
    then show ?thesis using p by (auto simp: filed_def)
  next
    case 2
    then have "spans s' b (q, Some [])" using r by (simp add: spans_def boot_ring_of_def restored_def)
    then show ?thesis using p by (auto simp: filed_def)
  next
    case 3
    then have "spans s' b (q, Some (boot s))" using r slots boot_same by (simp add: spans_def)
    then show ?thesis using p by (auto simp: filed_def)
  qed
qed

end

context bounded_damage
begin

text \<open>What a push leaves in the slot of its envelope, an eviction of that slot included.\<close>

lemma push_slot:
  assumes "ring s b q" and "buffer_evict st s b = (s1, b1)" and "put s1 (sb_tail b) d = (s2, ok)"
  shows "slots s2 (sb_tail b) = slots s (sb_tail b) \<or> slots s2 (sb_tail b) = None \<or>
    (\<exists>j. slots s2 (sb_tail b) = Some (take j d))"
proof -
  note e = evict_ring [OF assms(1,2)] and t = tail_of_ring(1) [OF assms(1)]
  have "slots s1 (sb_tail b) = slots s (sb_tail b) \<or> slots s1 (sb_tail b) = None"
    using e(5) erase_left [OF ring_facts(1) [OF assms(1)] t] by metis
  with put_left [OF ring_facts(1) [OF e(1)] t assms(3)] show ?thesis by metis
qed

lemma push_may:
  assumes "spans s b (q, l)" and "sentry_buffer_push d s b = (s', b', ok)"
  shows "\<exists>ql. queue_may sure N (Push d) (q, l) (Returned ok) ql \<and> spans s' b' ql"
proof -
  have r: "ring s b q" and bt: "boot s = next_boot N (q, l)" using assms(1) boot_spans by (simp_all add: spans_def)
  show ?thesis
  proof (cases "d = []")
    case True
    then have "(s', b', ok) = (s, b, False)"
      using assms ring_facts(2) [OF r] by (simp add: sentry_buffer_push_def)
    then show ?thesis using True assms(1) may_refuse_empty by blast
  next
    case False
    obtain s1 b1 s2 where st: "buffer_evict st s b = (s1, b1)" "put s1 (sb_tail b) d = (s2, ok)" "inv s2"
      "\<forall>j < slot_count. j \<noteq> sb_tail b \<longrightarrow> slots s2 j = slots s j" "meta s2 = meta s"
      "ok \<Longrightarrow> ring s2 b' (bounded_push N (slots s2 (sb_tail b)) q) \<and> s' = persist_meta st s2 b'"
      "\<not> ok \<Longrightarrow> ring s2 b' (if length q = N then tl q else q) \<and> s' = s2 \<and> b' = b1"
      by (rule push_steps [OF r False assms(2)]) blast
    note tail = tail_of_ring [OF r] and e = evict_ring [OF r st(1)]
    note inv = ring_facts(1) [OF r] ring_facts(1) [OF e(1)]
    have t: "touched d (next_boot N (q, l)) (boot s2)"
      using boot_written [OF st(4,5) push_slot [OF r st(1,2)]] bt by metis
    have room: "ring s2 b q" if "length q < N"
      using st(3,4) tail(2) [OF that] by (intro ring_transfer [OF r]) auto
    have now: "boot s2 = next_boot N (q, l)" if "l = None"
    proof (cases "length q = N")
      case True
      with that t show ?thesis by (auto simp: touched_def next_boot_def)
    next
      case False
      then have "spans s2 b (q, None)"
        using room ring_facts(4) [OF r] assms(1) that st(5) by (simp add: spans_def)
      then show ?thesis using boot_spans that by blast
    qed
    show ?thesis
    proof (cases ok)
      case True
      have x: "sure \<Longrightarrow> slots s2 (sb_tail b) = Some d" using put_sure [OF _ inv(2) tail(1), of d s2] st(2) True by simp
      obtain l' where "filed (boot s2) l'" "spans s' b' (bounded_push N (slots s2 (sb_tail b)) q, l')"
        using persist_spans st(6) [OF True] by blast
      with may_push [OF False x now t this(1)] True show ?thesis by (intro exI conjI) simp_all
    next
      case ok: False
      show ?thesis
      proof (cases "length q = N")
        case True
        then have "spans s' b' (tl q, Some (boot s2))" using st(7) [OF ok] by (auto simp: spans_def)
        with may_fail_push_full [OF False True t, of sure] ok show ?thesis by (intro exI conjI) simp_all
      next
        case nf: False
        then have "length q < N" "b' = b" "s' = s2" "ring s2 b q"
          using ring_facts(4,5) [OF r] st(1,7) room ok by (auto simp: buffer_evict_def)
        then have "queue_may sure N (Push d) (q, l) (Returned False) (q, map_option (\<lambda>_. boot s2) l)"
          and "spans s' b' (q, map_option (\<lambda>_. boot s2) l)"
          using may_fail_push [OF False] may_fail_push_unsaved [OF False] t assms(1) st(5)
          by (cases l; simp add: spans_def next_boot_def)+
        then show ?thesis using ok by (intro exI conjI) simp_all
      qed
    qed
  qed
qed

end

context bounded_damage
begin

lemma ring_head:
  assumes "ring s b (x # q)" and "erase s (sb_head b) = (s', e)"
  shows "ring s' b (slots s' (sb_head b) # q)"
proof -
  note f = ring_facts [OF assms(1)]
  note e = erase_frame [OF f(1,3) assms(2)]
  have h: "unat (sb_head b) < N" using f(3) by (simp add: unat_less_iff)
  have "window s (unat (sb_head b)) (Suc (length q)) = x # q" using assms(1) by (simp add: ring_def)
  then have old: "window s (Suc (unat (sb_head b)) mod N) (length q) = q" by (simp add: ring_window_Cons [OF h])
  have "window s' (Suc (unat (sb_head b)) mod N) (length q) = window s (Suc (unat (sb_head b)) mod N) (length q)"
    using e head_not_in_rest [OF h, of "length q"] f(4) ring_window_bounds [OF N_pos] by (intro window_agrees) auto
  then have "window s' (unat (sb_head b)) (Suc (length q)) = slots s' (sb_head b) # q"
    using old by (simp add: ring_window_Cons [OF h] del: map_eq_conv)
  then show ?thesis using assms(1) e by (simp add: ring_def del: map_eq_conv)
qed

lemma pop_may:
  assumes "spans s b (x # q, l)" and "sentry_buffer_pop s b = (s', b', ok)"
  shows "\<exists>l'. queue_may sure N Pop (x # q, l) (Returned True) (q, l') \<and> spans s' b' (q, l') \<and> ok"
proof -
  have r: "ring s b (x # q)" and bt: "boot s = next_boot N (x # q, l)" using assms(1) boot_spans by (simp_all add: spans_def)
  obtain s1 e where st: "ok" "erase s (sb_head b) = (s1, e)" "ring s1 b' q" "s' = persist_meta st s1 b'"
    by (rule pop_steps [OF r assms(2)]) blast
  note h = ring_facts(1,3) [OF r]
  note f = erase_frame [OF h st(2)]
  have left: "slots s1 (sb_head b) = slots s (sb_head b) \<or> slots s1 (sb_head b) = None" by (rule erase_left [OF h st(2)])
  have "\<exists>k. (boot s1 = boot s \<or> boot s1 = (boot s)[k := None]) \<and> (l = None \<longrightarrow> k = 0)"
  proof (cases l)
    case None
    have r1: "ring s1 b (slots s1 (sb_head b) # q)" by (rule ring_head [OF r st(2)])
    have "spans s1 b (slots s1 (sb_head b) # q, None)" using r1 assms(1) f None by (simp add: spans_def)
    then have b1: "boot s1 = next_boot N (slots s1 (sb_head b) # q, None)" by (rule boot_spans)
    have "slots s1 (sb_head b) = slots s (sb_head b) \<Longrightarrow> boot s1 = boot s" using f boot_same by metis
    with left b1 bt show ?thesis by (auto simp: None next_boot_def)
  next
    case (Some m)
    with left f boot_touched [of "sb_head b" s1 s] boot_same [of s1 s] show ?thesis by (metis option.distinct(1))
  qed
  then obtain k where k: "boot s1 = next_boot N (x # q, l) \<or> boot s1 = (next_boot N (x # q, l))[k := None]" "l = None \<Longrightarrow> k = 0"
    by (metis bt)
  obtain l' where "filed (boot s1) l'" "spans s' b' (q, l')" using persist_spans [OF st(3)] st(4) by blast
  with may_pop [OF k] st(1) show ?thesis by blast
qed

lemma clear_may:
  "spans s b (q, l) \<Longrightarrow> sentry_buffer_clear s b = (s', b') \<Longrightarrow>
    \<exists>ql. queue_may sure N Clear (q, l) Nothing ql \<and> spans s' b' ql"
proof (induction q arbitrary: s b l)
  case Nil
  then have "(s', b') = (s, b)"
    using ring_facts(6) [of s b "[]"] by (subst (asm) sentry_buffer_clear.simps) (simp add: spans_def)
  then show ?case using Nil.prems(1) may_clear_none by blast
next
  case (Cons x q)
  have r: "ring s b (x # q)" using Cons.prems(1) by (simp add: spans_def)
  obtain s1 b1 ok where p: "sentry_buffer_pop s b = (s1, b1, ok)" by (rule prod_cases3)
  obtain l' where l': "queue_may sure N Pop (x # q, l) (Returned True) (q, l')" "spans s1 b1 (q, l')"
    using pop_may [OF Cons.prems(1) p] by blast
  have "sentry_buffer_clear s1 b1 = (s', b')"
    using Cons.prems(2) p ring_facts(2,6) [OF r] by (subst (asm) sentry_buffer_clear.simps) simp
  from Cons.IH [OF l'(2) this] l'(1) show ?case by (blast intro: may_clear)
qed

lemma boot_may:
  assumes "inv s" and "boot s = next_boot N ql" and "sentry_buffer_init (Some st) s = (s', b, ok)"
  shows "\<exists>ql'. queue_may sure N Reboot ql (Returned ok) ql' \<and> spans s' b ql'"
proof -
  obtain loaded where l: "ok" "load_meta s = (s', loaded)" "loaded = None \<or> loaded = meta s"
    "(sb_head b, sb_tail b, sb_dropped b) = restored slot_count loaded"
    "ring s' b (boot_ring_of slot_count slots (\<lambda>_. loaded) s)"
    by (rule boot_ring [OF assms(1,3)]) blast
  have s': "boot s' = boot s" "meta s' = meta s" using load_frame [OF assms(1) l(2)] boot_same by blast+
  show ?thesis
  proof (cases "loaded = meta s")
    case True
    then have "boot_ring_of slot_count slots (\<lambda>_. loaded) s = boot s" by (simp add: boot_ring_of_def)
    moreover have "restored slot_count (meta s') = (sb_head b, sb_tail b, sb_dropped b)" using l(4) True s'(2) by simp
    ultimately have "spans s' b (next_boot N ql, None)" using l(5) assms(2) by (simp add: spans_def)
    then show ?thesis using l(1) may_boot [of sure N ql] by (intro exI conjI) simp_all
  next
    case False
    then have "spans s' b ([], Some (next_boot N ql))" using l s' assms(2) by (auto simp: spans_def)
    then show ?thesis using l(1) may_boot_blank [of sure N ql] by (intro exI conjI) simp_all
  qed
qed

end

context bounded_damage
begin

text \<open>A reset keeps what is stored.\<close>

definition harmless :: "('s \<Rightarrow> 's) \<Rightarrow> bool" where
  "harmless reset \<longleftrightarrow>
     (\<forall>s. inv s \<longrightarrow> inv (reset s) \<and> (\<forall>j < slot_count. slots (reset s) j = slots s j) \<and> meta (reset s) = meta s)"

text \<open>Where an operation can start: at a buffer that spans its ring, or, to boot, at any storage.\<close>

definition ready :: "buffer_op \<Rightarrow> 's \<Rightarrow> 's sentry_buffer \<Rightarrow> ring_state \<Rightarrow> bool" where
  "ready op s b ql \<longleftrightarrow> spans s b ql \<or> op = Reboot \<and> inv s \<and> boot s = next_boot N ql"

lemma ready_facts: "ready op s b ql \<Longrightarrow> inv s \<and> boot s = next_boot N ql"
  unfolding ready_def using boot_spans ring_facts(1) spans_def by metis

lemma step_may:
  assumes "harmless reset" and "ready op s b ql" and "reset_step reset st op (s, b) = ((s', b'), out)"
  shows "\<exists>ql'. queue_may sure N op ql out ql' \<and> spans s' b' ql'"
proof (cases "op = Reboot")
  case True
  have r: "inv (reset s)" "boot (reset s) = next_boot N ql"
    using ready_facts [OF assms(2)] assms(1) boot_same [of "reset s" s] by (simp_all add: harmless_def)
  obtain ok where "sentry_buffer_init (Some st) (reset s) = (s', b', ok)" "out = Returned ok"
    using assms(3) True by (auto simp: reset_step_def split: prod.splits)
  with boot_may [OF r] True show ?thesis by simp
next
  case False
  obtain q l where ql: "ql = (q, l)" by (cases ql)
  have sp: "spans s b (q, l)" and step: "buffer_step st op (s, b) = ((s', b'), out)"
    using False assms(2,3) by (simp_all add: ready_def reset_step_def ql)
  then have r: "ring s b q" by (simp add: spans_def)
  show ?thesis
  proof (cases op)
    case (Push d)
    then show ?thesis using step push_may [OF sp] ql by (auto split: prod.splits)
  next
    case Pop
    obtain s1 b1 ok where p: "sentry_buffer_pop s b = (s1, b1, ok)" by (rule prod_cases3)
    show ?thesis
    proof (cases q)
      case Nil
      then show ?thesis using step Pop pop_empty [of s b] r sp may_pop_none [of sure N l] ql p by auto
    next
      case (Cons x xs)
      then obtain l' where "queue_may sure N Pop (x # xs, l) (Returned True) (xs, l')" "spans s1 b1 (xs, l')" ok
        using pop_may [of s b x xs l s1 b1 ok] sp p by blast
      then show ?thesis using step Pop p ql Cons by (intro exI [of _ "(xs, l')"]) simp
    qed
  next
    case (Peek n)
    obtain s1 x where p: "sentry_buffer_peek n s b = (s1, x)" by (cases "sentry_buffer_peek n s b")
    note k = peek_ring [OF r p]
    have "queue_may sure N (Peek n) (q, l) (Envelope x) (q, l)"
    proof (cases x)
      case (Some d)
      with k(2) [OF Some] show ?thesis using may_peek [of d n sure N "tl q" l] by (cases q) auto
    qed (simp add: may_fail_peek)
    moreover have "spans s1 b (q, l)" using sp k(1,3) boot_same [OF k(4,3)] by (simp add: spans_def split: option.splits)
    ultimately show ?thesis using Peek p step ql by auto
  next
    case Clear
    then show ?thesis using step clear_may [OF sp] ql by (cases "sentry_buffer_clear s b") auto
  next
    case Count
    have "unat (sb_count b) = length q" using r by (simp add: ring_def)
    then show ?thesis
      using Count step sp may_count [of sure N q l] ql by (intro exI [of _ ql]) (simp add: sentry_buffer_count_def)
  next
    case Dropped
    then show ?thesis using step sp may_dropped [of sure N ql] ql by (intro exI [of _ ql]) auto
  next
    case Reset_Dropped
    have r0: "ring s (b\<lparr>sb_dropped := 0\<rparr>) q" by (rule reset_ring [OF r])
    obtain l' where l': "filed (boot s) l'" "spans (persist_meta st s (b\<lparr>sb_dropped := 0\<rparr>)) (b\<lparr>sb_dropped := 0\<rparr>) (q, l')"
      using persist_spans [OF r0] by blast
    have "queue_may sure N Reset_Dropped (q, l) Nothing (q, l')" using l'(1) boot_spans [OF sp] by (simp add: may_reset)
    with l'(2) Reset_Dropped step ring_facts(2) [OF r] ql show ?thesis
      by (auto simp: sentry_buffer_reset_dropped_def Let_def)
  qed (use False in simp)
qed

lemma ready_next: "spans s b ql \<Longrightarrow> ready op s b ql"
  by (simp add: ready_def)

theorem runs_may:
  assumes "harmless reset"
  shows "(ops \<noteq> [] \<Longrightarrow> ready (hd ops) s b ql) \<Longrightarrow> queue_runs sure N ops ql (outputs (reset_step reset st) ops (s, b))"
proof (induction ops arbitrary: s b ql)
  case (Cons op ops)
  obtain s' b' out where step: "reset_step reset st op (s, b) = ((s', b'), out)" by (metis prod.collapse)
  obtain ql' where q: "queue_may sure N op ql out ql'" "spans s' b' ql'"
    using step_may [OF assms _ step, of ql] Cons.prems by auto
  from runs_step [OF q(1) Cons.IH [OF ready_next [OF q(2)]]] step show ?case by simp
qed (simp add: runs_nil)

lemma runs_keep_invariant:
  assumes "harmless reset"
  shows "(ops \<noteq> [] \<Longrightarrow> ready (hd ops) s b ql) \<Longrightarrow> inv s \<Longrightarrow> inv (fst (state_after (reset_step reset st) ops (s, b)))"
proof (induction ops arbitrary: s b ql)
  case (Cons op ops)
  obtain s' b' out where step: "reset_step reset st op (s, b) = ((s', b'), out)" by (metis prod.collapse)
  obtain ql' where q: "spans s' b' ql'" using step_may [OF assms _ step, of ql] Cons.prems by auto
  then have "inv s'" using ring_facts(1) [of s' b' "fst ql'"] by (simp add: spans_def)
  with Cons.IH [OF ready_next [OF q]] step show ?case by (simp add: state_after_def)
qed (simp add: state_after_def)

end

text \<open>What comes into the slots: nothing but beginnings of the envelopes that are pushed.\<close>

context bounded_damage
begin

definition brings :: "bytes set \<Rightarrow> 's \<Rightarrow> 's \<Rightarrow> bool" where
  "brings E s s' \<longleftrightarrow> (\<forall>j < slot_count. \<forall>e. slots s' j = Some e \<longrightarrow> slots s j = Some e \<or> e \<in> E)"

lemma brings_nothing: "\<forall>j < slot_count. slots s' j = slots s j \<Longrightarrow> brings E s s'"
  by (simp add: brings_def)

lemma brings_trans: "brings E s s' \<Longrightarrow> brings E s' s'' \<Longrightarrow> brings E s s''"
  unfolding brings_def by blast

lemma persist_brings: "ring s b q \<Longrightarrow> brings E s (persist_meta st s b)"
  using save_frame [OF ring_facts(1), of s b q "sb_head b" "sb_tail b" "sb_dropped b"]
  by (cases "save_meta s (sb_head b) (sb_tail b) (sb_dropped b)") (simp add: persist_meta_def brings_nothing)

lemma push_brings:
  assumes "ring s b q" and "sentry_buffer_push d s b = (s', b', ok)"
  shows "brings {take k d | k. True} s s'"
proof (cases "d = []")
  case True
  then have "s' = s" using assms ring_facts(2) [OF assms(1)] by (simp add: sentry_buffer_push_def)
  then show ?thesis by (simp add: brings_nothing)
next
  case False
  obtain s1 b1 s2 where st: "buffer_evict st s b = (s1, b1)" "put s1 (sb_tail b) d = (s2, ok)"
    "\<forall>j < slot_count. j \<noteq> sb_tail b \<longrightarrow> slots s2 j = slots s j"
    "ok \<Longrightarrow> ring s2 b' (bounded_push N (slots s2 (sb_tail b)) q) \<and> s' = persist_meta st s2 b'" "\<not> ok \<Longrightarrow> s' = s2"
    by (rule push_steps [OF assms(1) False assms(2)]) blast
  have "brings {take k d | k. True} s s2"
    using st(3) push_slot [OF assms(1) st(1,2)] unfolding brings_def by (metis (mono_tags, lifting) mem_Collect_eq option.inject option.distinct(1))
  moreover have "brings {take k d | k. True} s2 s'"
    using st(4,5) persist_brings brings_nothing by (cases ok) auto
  ultimately show ?thesis by (rule brings_trans)
qed

lemma pop_brings:
  assumes "ring s b q" and "sentry_buffer_pop s b = (s', b', ok)"
  shows "brings E s s'"
proof (cases q)
  case Nil
  then show ?thesis using assms pop_empty [of s b] by (simp add: brings_nothing)
next
  case (Cons x xs)
  obtain s1 e where st: "erase s (sb_head b) = (s1, e)" "ring s1 b' xs" "s' = persist_meta st s1 b'"
    by (rule pop_steps [OF assms(1) [unfolded Cons] assms(2)]) blast
  note h = ring_facts(1,3) [OF assms(1)]
  have "brings E s s1"
    using erase_frame [OF h st(1)] erase_left [OF h st(1)] unfolding brings_def by (metis option.distinct(1))
  then show ?thesis unfolding st(3) using persist_brings [OF st(2)] by (rule brings_trans)
qed

lemma clear_brings: "ring s b q \<Longrightarrow> brings E s (fst (sentry_buffer_clear s b))"
proof (induction q arbitrary: s b)
  case Nil
  then show ?case
    using ring_facts(6) [of s b "[]"] by (subst sentry_buffer_clear.simps) (simp add: brings_nothing)
next
  case (Cons x q)
  obtain s1 b1 ok where p: "sentry_buffer_pop s b = (s1, b1, ok)" by (rule prod_cases3)
  have "ring s1 b1 q" using pop_ring [OF Cons.prems p] by simp
  from brings_trans [OF pop_brings [OF Cons.prems p] Cons.IH [OF this]] p show ?case
    using ring_facts(2,6) [OF Cons.prems] by (subst sentry_buffer_clear.simps) simp
qed

lemma step_brings:
  assumes "harmless reset" and "ready op s b ql" and "reset_step reset st op (s, b) = ((s', b'), out)"
  shows "brings {take k d | k d. op = Push d} s s'"
proof (cases "op = Reboot")
  case True
  have r: "inv (reset s)" "\<forall>j < slot_count. slots (reset s) j = slots s j"
    using ready_facts [OF assms(2)] assms(1) by (simp_all add: harmless_def)
  obtain ok where "sentry_buffer_init (Some st) (reset s) = (s', b', ok)"
    using assms(3) True by (auto simp: reset_step_def split: prod.splits)
  then obtain loaded where "load_meta (reset s) = (s', loaded)" by (rule boot_ring [OF r(1)]) blast
  from load_frame [OF r(1) this] r(2) show ?thesis by (simp add: brings_nothing)
next
  case False
  then have r: "ring s b (fst ql)" and step: "buffer_step st op (s, b) = ((s', b'), out)"
    using assms(2,3) by (simp_all add: ready_def reset_step_def spans_def)
  show ?thesis
  proof (cases op)
    case (Push d)
    then show ?thesis using step push_brings [OF r, of d] by (auto split: prod.splits)
  next
    case Pop
    then show ?thesis using step pop_brings [OF r] by (auto split: prod.splits)
  next
    case (Peek n)
    then show ?thesis using step peek_ring(4) [OF r] brings_nothing by (auto split: prod.splits)
  next
    case Clear
    then have "s' = fst (sentry_buffer_clear s b)" using step by (cases "sentry_buffer_clear s b") simp
    then show ?thesis using clear_brings [OF r] by simp
  next
    case Reset_Dropped
    then show ?thesis
      using step persist_brings [OF reset_ring [OF r]] ring_facts(2) [OF r]
      by (auto simp: sentry_buffer_reset_dropped_def Let_def)
  qed (use False step brings_nothing in auto)
qed

lemma step_shows:
  assumes "ready op s b ql" and "reset_step reset st op (s, b) = ((s', b'), Envelope (Some e))"
  shows "\<exists>j < slot_count. slots s j = Some e"
proof -
  obtain n where n: "op = Peek n" using assms(2) by (cases op) (auto simp: reset_step_def split: prod.splits)
  then have r: "ring s b (fst ql)" and p: "sentry_buffer_peek n s b = (s', Some e)"
    using assms by (auto simp: ready_def spans_def reset_step_def split: prod.splits)
  from peek_ring(2) [OF r p refl] ring_front [OF r] ring_facts(3) [OF r] show ?thesis by auto
qed

lemma runs_show_known:
  assumes "harmless reset"
  shows "(ops \<noteq> [] \<Longrightarrow> ready (hd ops) s b ql) \<Longrightarrow> (\<And>j d. j < slot_count \<Longrightarrow> slots s j = Some d \<Longrightarrow> d \<in> E) \<Longrightarrow>
    (\<And>d k. Push d \<in> set ops \<Longrightarrow> take k d \<in> E) \<Longrightarrow>
    Envelope (Some e) \<in> set (outputs (reset_step reset st) ops (s, b)) \<Longrightarrow> e \<in> E"
proof (induction ops arbitrary: s b ql)
  case (Cons op ops)
  obtain s' b' out where step: "reset_step reset st op (s, b) = ((s', b'), out)" by (metis prod.collapse)
  have rd: "ready op s b ql" using Cons.prems(1) by simp
  show ?case
  proof (cases "out = Envelope (Some e)")
    case True
    then show ?thesis using step_shows [OF rd] step Cons.prems(2) by blast
  next
    case False
    obtain ql' where q: "spans s' b' ql'" using step_may [OF assms rd step] by blast
    have "d \<in> E" if "j < slot_count" "slots s' j = Some d" for j d
      using step_brings [OF assms rd step] that Cons.prems(2) [of j d] Cons.prems(3) by (auto simp: brings_def)
    moreover have "Envelope (Some e) \<in> set (outputs (reset_step reset st) ops (s', b'))"
      using Cons.prems(4) step False by auto
    ultimately show ?thesis using Cons.IH [OF ready_next [OF q]] Cons.prems(3) by simp
  qed
qed simp

end

text \<open>A run that begins with a boot, from whatever the storage holds.\<close>

context bounded_damage
begin

lemma boots_may:
  assumes "harmless reset" and "inv s"
  shows "queue_runs sure N (Reboot # ops) (q, Some (boot s)) (outputs (reset_step reset st) (Reboot # ops) (s, b))"
    and "Envelope (Some e) \<in> set (outputs (reset_step reset st) (Reboot # ops) (s, b)) \<Longrightarrow>
      e \<in> known {e. \<exists>j < slot_count. slots s j = Some e} ops"
    and "inv (fst (state_after (reset_step reset st) (Reboot # ops) (s, b)))"
proof -
  have rd: "ready (hd (Reboot # ops)) s b (q, Some (boot s))" using assms(2) by (simp add: ready_def next_boot_def)
  show "queue_runs sure N (Reboot # ops) (q, Some (boot s)) (outputs (reset_step reset st) (Reboot # ops) (s, b))"
    by (rule runs_may [OF assms(1) rd])
  show "inv (fst (state_after (reset_step reset st) (Reboot # ops) (s, b)))"
    by (rule runs_keep_invariant [OF assms(1) rd assms(2)])
  show "e \<in> known {e. \<exists>j < slot_count. slots s j = Some e} ops"
    if "Envelope (Some e) \<in> set (outputs (reset_step reset st) (Reboot # ops) (s, b))"
    by (rule runs_show_known [OF assms(1) rd _ _ that]) (auto simp: known_def)
qed

end

section \<open>Properties\<close>

text \<open>
  C9: On a storage that does not fail, the buffer is a bounded queue that survives reboots: over
  any sequence of pushes, pops, peeks, clears and reboots from a blank device, it returns what a
  queue of \<open>slot_count\<close> envelopes would, which drops its oldest element when it is full and
  counts the loss; the one thing a reboot loses is a buffer that was exactly full.
\<close>

theorem buffer_is_bounded_queue:
  assumes "reliable_storage put get erase load_meta save_meta n slots meta sound fits"
    and "sound s" and "meta s = None" and "list_all (\<lambda>op. \<forall>d. op = Push d \<longrightarrow> fits d) ops"
  shows "outputs (buffer_step (storage_of put get erase load_meta save_meta n)) (Reboot # ops) (s, b) =
    Returned True # outputs (queue_step (unat n)) ops ([], 0)"
proof -
  obtain s' b' ok where init:
    "sentry_buffer_init (Some (storage_of put get erase load_meta save_meta n)) s = (s', b', ok)"
    by (cases "sentry_buffer_init (Some (storage_of put get erase load_meta save_meta n)) s")
  note boot = reliable_storage.refines_boot [OF assms(1-3) init]
  show ?thesis using reliable_storage.runs_refine [OF assms(1) boot(1) assms(4)] boot(2) init by simp
qed

text \<open>
  C19: On a storage where any call may fail, the buffer behaves as a queue, from whatever the storage
  holds and over any calls, boots and resets that keep what is stored. It shows only the oldest
  envelope it has; a push adds its envelope at the end or is refused, and a pop removes the oldest
  one. A push that is refused changes nothing while the ring has room, and the next boot still finds
  the same queue if its indices were saved; in a full ring the code drops the oldest envelope before
  it writes, so there a refused push has lost that one, as \<open>queue_may\<close> says. A boot goes from what
  the last saved indices span, or from an empty ring if they cannot be read. Whatever is shown was
  stored at the start or is the beginning of an envelope pushed since, and the whole of it, in its
  place, when a write that answers yes has stored its envelope (\<open>sure\<close>). The drop count is left open
  here; C9 has it.
\<close>

theorem buffer_safe_on_failing_storage:
  assumes "bounded_damage put get erase load_meta save_meta n slots meta sound sure" and "sound s"
    and "\<And>s. sound s \<Longrightarrow> sound (reset s) \<and> (\<forall>j < n. slots (reset s) j = slots s j) \<and> meta (reset s) = meta s"
  shows "let outs = outputs (reset_step reset (storage_of put get erase load_meta save_meta n)) (Reboot # ops) (s, b)
    in queue_runs sure (unat n) (Reboot # ops) ([], Some (boot_ring_of n slots meta s)) outs \<and>
      (\<forall>e. Envelope (Some e) \<in> set outs \<longrightarrow> e \<in> known {e. \<exists>j < n. slots s j = Some e} ops)"
proof -
  have "bounded_damage.harmless n slots meta sound reset"
    using assms(3) by (simp add: bounded_damage.harmless_def [OF assms(1)])
  note r = bounded_damage.boots_may [OF assms(1) this assms(2)]
  show ?thesis unfolding Let_def using r(1,2) by blast
qed

end
