(* ===== verification/Sentry_Storage_Ram.thy ===== *)
theory Sentry_Storage_Ram
  imports Sentry_Buffer
begin

text \<open>
  The storage of the host tests, \<open>test/test_buffer/test_buffer.c\<close>: four slots of 256 bytes in
  plain memory, and a flag that makes the next write fail. It meets both storage interfaces,
  which shows that what the buffer assumes can be met, and gives their witnesses.
\<close>

definition SLOTS :: nat where "SLOTS = 4"
definition SLOT_CAP :: nat where "SLOT_CAP = 256"

text \<open>\<open>occupied[i]\<close> with \<open>data[i]\<close> and \<open>len[i]\<close> is one optional cell.\<close>

record fake_storage =
  fs_cells :: "bytes option list"
  fs_meta :: "(u32 \<times> u32 \<times> u32) option"
  fs_fail_next_write :: bool

definition fake_write :: "fake_storage \<Rightarrow> u32 \<Rightarrow> bytes \<Rightarrow> fake_storage \<times> bool" where
  "fake_write s index data =
     (if fs_fail_next_write s then (s\<lparr>fs_fail_next_write := False\<rparr>, False)
      else if unat index \<ge> SLOTS \<or> length data > SLOT_CAP then (s, False)
      else (s\<lparr>fs_cells := (fs_cells s)[unat index := Some data]\<rparr>, True))"

definition fake_read :: "fake_storage \<Rightarrow> u32 \<Rightarrow> nat \<Rightarrow> fake_storage \<times> bytes option" where
  "fake_read s index cap =
     (if unat index \<ge> SLOTS then (s, None)
      else (case fs_cells s ! unat index of
              None \<Rightarrow> (s, None)
            | Some d \<Rightarrow> if length d > cap then (s, None) else (s, Some d)))"

definition fake_erase :: "fake_storage \<Rightarrow> u32 \<Rightarrow> fake_storage \<times> bool" where
  "fake_erase s index =
     (if unat index \<ge> SLOTS then (s, False)
      else (s\<lparr>fs_cells := (fs_cells s)[unat index := None]\<rparr>, True))"

definition fake_load_meta :: "fake_storage \<Rightarrow> fake_storage \<times> (u32 \<times> u32 \<times> u32) option" where
  "fake_load_meta s = (s, fs_meta s)"

definition fake_save_meta :: "fake_storage \<Rightarrow> u32 \<Rightarrow> u32 \<Rightarrow> u32 \<Rightarrow> fake_storage \<times> bool" where
  "fake_save_meta s head tail dropped = (s\<lparr>fs_meta := Some (head, tail, dropped)\<rparr>, True)"

definition fake_slots :: "fake_storage \<Rightarrow> u32 \<Rightarrow> bytes option" where
  "fake_slots s i = (if unat i < SLOTS then fs_cells s ! unat i else None)"

definition fake_sound :: "fake_storage \<Rightarrow> bool" where
  "fake_sound s \<longleftrightarrow> length (fs_cells s) = SLOTS"

definition fake_zero :: "bool \<Rightarrow> fake_storage" where
  "fake_zero failing = \<lparr>fs_cells = replicate SLOTS None, fs_meta = None, fs_fail_next_write = failing\<rparr>"

lemma fake_frame [simp]:
  "fs_meta (fst (fake_write s i d)) = fs_meta s" "fake_sound (fst (fake_write s i d)) = fake_sound s"
  "fs_meta (fst (fake_erase s i)) = fs_meta s" "fake_sound (fst (fake_erase s i)) = fake_sound s"
  "fst (fake_read s i cap) = s"
  by (simp_all add: fake_write_def fake_erase_def fake_read_def fake_sound_def split: option.split)

lemma fake_slot_bound: "i < (4 :: u32) \<Longrightarrow> unat i < SLOTS"
  by (simp add: word_less_nat_alt SLOTS_def)

lemma fake_is_slot_storage:
  "slot_storage fake_write fake_read fake_erase fake_load_meta fake_save_meta 4 fake_slots fs_meta fake_sound"
proof
  fix s s' :: fake_storage and i :: u32 and d :: bytes and ok :: bool
  assume s: "fake_sound s" and i: "i < 4"
  have cell: "unat i \<noteq> unat j" if "j \<noteq> i" for j :: u32 using that by (simp add: word_unat_eq_iff)
  show "fake_sound s' \<and> fake_slots s' i = Some d" if "fake_write s i d = (s', True)"
    using that s fake_slot_bound [OF i]
    by (auto simp: fake_write_def fake_slots_def fake_sound_def split: if_splits)
  show "fake_sound s' \<and> (\<forall>j < 4. j \<noteq> i \<longrightarrow> fake_slots s' j = fake_slots s j) \<and> fs_meta s' = fs_meta s"
    if "fake_write s i d = (s', ok)"
    using that s cell by (auto simp: fake_write_def fake_slots_def fake_sound_def split: if_splits)
  show "fake_sound s' \<and> (\<forall>j < 4. j \<noteq> i \<longrightarrow> fake_slots s' j = fake_slots s j) \<and> fs_meta s' = fs_meta s"
    if "fake_erase s i = (s', ok)"
    using that s cell by (auto simp: fake_erase_def fake_slots_def fake_sound_def split: if_splits)
next
  fix s s' :: fake_storage and i :: u32 and cap r and d :: bytes
  assume s: "fake_sound s" and i: "i < 4"
  show "fake_sound s' \<and> (\<forall>j < 4. fake_slots s' j = fake_slots s j) \<and> fs_meta s' = fs_meta s"
    if "fake_read s i cap = (s', r)" using that s fake_frame(5) [of s i cap] by simp
  show "fake_slots s i = Some d \<and> length d \<le> cap" if "fake_read s i cap = (s', Some d)"
    using that fake_slot_bound [OF i]
    by (auto simp: fake_read_def fake_slots_def split: if_splits option.splits)
qed (auto simp: fake_load_meta_def fake_save_meta_def fake_sound_def fake_slots_def)

interpretation fake: slot_storage fake_write fake_read fake_erase fake_load_meta fake_save_meta 4
  fake_slots fs_meta fake_sound
  by (rule fake_is_slot_storage)

text \<open>A call that fails leaves its slot as it was.\<close>

lemma fake_is_bounded:
  "bounded_damage fake_write fake_read fake_erase fake_load_meta fake_save_meta 4 fake_slots fs_meta fake_sound True"
proof (rule bounded_damage.intro [OF fake.ring_storage_axioms], unfold_locales)
  fix s s' :: fake_storage and i :: u32 and d :: bytes and ok :: bool
  assume s: "fake_sound s" and i: "i < 4"
  show "fake_slots s' i = fake_slots s i \<or> fake_slots s' i = None \<or> (\<exists>k. fake_slots s' i = Some (take k d))"
    if "fake_write s i d = (s', ok)"
    using that fake.put_ok [OF s i, of d s']
    by (cases ok) (auto simp: fake_write_def fake_slots_def split: if_splits intro: exI [of _ "length d"])
  show "fake_slots s' i = fake_slots s i \<or> fake_slots s' i = None" if "fake_erase s i = (s', ok)"
    using that s fake_slot_bound [OF i] by (auto simp: fake_erase_def fake_slots_def fake_sound_def split: if_splits)
  show "fake_slots s' i = Some d" if "fake_write s i d = (s', True)" using fake.put_ok [OF s i that] by simp
qed (auto simp: fake_save_meta_def)

interpretation damaged: bounded_damage fake_write fake_read fake_erase fake_load_meta fake_save_meta 4
  fake_slots fs_meta fake_sound True
  by (rule fake_is_bounded)

text \<open>Without the failure flag it is reliable for envelopes of at most \<open>SLOT_CAP\<close> bytes.\<close>

definition fake_working :: "fake_storage \<Rightarrow> bool" where
  "fake_working s \<longleftrightarrow> fake_sound s \<and> \<not> fs_fail_next_write s"

lemma fake_is_reliable:
  "reliable_storage fake_write fake_read fake_erase fake_load_meta fake_save_meta 4 fake_slots fs_meta
     fake_working (\<lambda>d. length d \<le> SLOT_CAP)"
proof
  show "(0 :: u32) < 4" by simp
next
  fix s s' :: fake_storage and i :: u32 and d :: bytes and ok :: bool
  assume s: "fake_working s" and i: "i < 4"
  show "fake_working s' \<and> fake_slots s' i = Some d" if "fake_write s i d = (s', True)"
    using that s fake.put_ok [of s i d s'] i
    by (auto simp: fake_working_def fake_write_def split: if_splits)
  show "fake_working s' \<and> (\<forall>j < 4. j \<noteq> i \<longrightarrow> fake_slots s' j = fake_slots s j) \<and> fs_meta s' = fs_meta s"
    if "fake_write s i d = (s', ok)"
    using that s fake.put_frame [of s i d s' ok] i
    by (auto simp: fake_working_def fake_write_def split: if_splits)
  show "fake_working s' \<and> (\<forall>j < 4. j \<noteq> i \<longrightarrow> fake_slots s' j = fake_slots s j) \<and> fs_meta s' = fs_meta s"
    if "fake_erase s i = (s', ok)"
    using that s fake.erase_frame [of s i s' ok] i
    by (auto simp: fake_working_def fake_erase_def split: if_splits)
  show "snd (fake_write s i d)" if "length d \<le> SLOT_CAP"
    using that s fake_slot_bound [OF i] by (simp add: fake_working_def fake_write_def)
next
  fix s s' :: fake_storage and i :: u32 and cap r and d :: bytes
  assume s: "fake_working s" and i: "i < 4"
  then have sound: "fake_sound s" by (simp add: fake_working_def)
  show "fake_working s' \<and> (\<forall>j < 4. fake_slots s' j = fake_slots s j) \<and> fs_meta s' = fs_meta s"
    if "fake_read s i cap = (s', r)" using that s fake_frame(5) [of s i cap] by simp
  show "fake_slots s i = Some d \<and> length d \<le> cap" if "fake_read s i cap = (s', Some d)"
    using fake.get_ok [OF sound i that] .
  show "snd (fake_read s i cap) = Some d" if "fake_slots s i = Some d" "length d \<le> cap"
    using that fake_slot_bound [OF i] by (simp add: fake_read_def fake_slots_def)
qed (auto simp: fake_load_meta_def fake_save_meta_def fake_working_def fake_sound_def fake_slots_def)

interpretation working: reliable_storage fake_write fake_read fake_erase fake_load_meta fake_save_meta 4
  fake_slots fs_meta fake_working "\<lambda>d. length d \<le> SLOT_CAP"
  by (rule fake_is_reliable)

text \<open>
  A push that fails on a full ring: the oldest envelope is gone, and the new one is not stored.
\<close>

lemma failed_push_on_a_full_ring:
  "outputs (buffer_step (storage_of fake_write fake_read fake_erase fake_load_meta fake_save_meta 4))
     [Count, Peek 9, Push [5], Count, Peek 9]
     (\<lparr>fs_cells = [Some [1], Some [2], Some [3], Some [4]], fs_meta = Some (0, 0, 0), fs_fail_next_write = True\<rparr>,
      \<lparr>sb_storage = Some (storage_of fake_write fake_read fake_erase fake_load_meta fake_save_meta 4),
       sb_head = 0, sb_tail = 0, sb_count = 4, sb_dropped = 0\<rparr>) =
   [Number 4, Envelope (Some [1]), Returned False, Number 3, Envelope (Some [2])]"
  by (simp add: sentry_buffer_count_def sentry_buffer_peek_def sentry_buffer_push_def buffer_evict_def fake_write_def
      fake_read_def fake_erase_def SLOTS_def Let_def)

section \<open>Witnesses\<close>

theorem buffer_is_bounded_queue_witness:
  "outputs (buffer_step (storage_of fake_write fake_read fake_erase fake_load_meta fake_save_meta 4))
     [Reboot, Push [1], Push [2], Push [3], Reboot, Push [4], Push [5], Dropped, Peek 10, Pop, Peek 10]
     (fake_zero False, buffer_zero) =
   [Returned True, Returned True, Returned True, Returned True, Returned True, Returned True,
    Returned True, Number 1, Envelope (Some [2]), Returned True, Envelope (Some [3])]"
  using buffer_is_bounded_queue [OF fake_is_reliable, of "fake_zero False"
      "[Push [1], Push [2], Push [3], Reboot, Push [4], Push [5], Dropped, Peek 10, Pop, Peek 10]" buffer_zero]
  by (simp add: fake_zero_def fake_working_def fake_sound_def SLOT_CAP_def bounded_push_def)

theorem buffer_safe_on_failing_storage_witness:
  "let st = storage_of fake_write fake_read fake_erase fake_load_meta fake_save_meta 4;
       s = \<lparr>fs_cells = [None, Some [7], Some [8], None], fs_meta = Some (1, 3, 0), fs_fail_next_write = True\<rparr>;
       outs = outputs (reset_step (\<lambda>s. s) st) [Reboot, Push [1], Push [2], Peek 9, Reboot, Pop, Peek 9] (s, buffer_zero)
   in outs = [Returned True, Returned False, Returned True, Envelope (Some [7]), Returned True, Returned True,
        Envelope (Some [8])] \<and>
      queue_runs True 4 [Reboot, Push [1], Push [2], Peek 9, Reboot, Pop, Peek 9]
        ([], Some [Some [7], Some [8]]) outs"
proof -
  let ?s = "\<lparr>fs_cells = [None, Some [7], Some [8], None], fs_meta = Some (1, 3, 0), fs_fail_next_write = True\<rparr>"
  have start: "fake_sound ?s" "boot_ring_of 4 fake_slots fs_meta ?s = [Some [7], Some [8]]"
    by (simp_all add: fake_sound_def boot_ring_of_def restored_def fake_slots_def SLOTS_def ring_window_def upt_rec word_le_nat_alt)
  have "\<not> (4 :: u32) \<le> 1" "(1 :: u32) \<le> 3" by (simp_all add: word_le_nat_alt)
  then have outs: "outputs (reset_step (\<lambda>s. s) (storage_of fake_write fake_read fake_erase fake_load_meta fake_save_meta 4))
      [Reboot, Push [1], Push [2], Peek 9, Reboot, Pop, Peek 9] (?s, buffer_zero) =
    [Returned True, Returned False, Returned True, Envelope (Some [7]), Returned True, Returned True, Envelope (Some [8])]"
    by (simp add: reset_step_def sentry_buffer_init_def sentry_buffer_push_def sentry_buffer_peek_def sentry_buffer_pop_def
        buffer_evict_def persist_meta_def buffer_zero_def fake_write_def fake_read_def fake_erase_def fake_load_meta_def
        fake_save_meta_def SLOTS_def SLOT_CAP_def Let_def)
  have "queue_runs True (unat (4 :: u32)) [Reboot, Push [1], Push [2], Peek 9, Reboot, Pop, Peek 9]
      ([], Some (boot_ring_of 4 fake_slots fs_meta ?s)) (outputs (reset_step (\<lambda>s. s)
        (storage_of fake_write fake_read fake_erase fake_load_meta fake_save_meta 4))
        [Reboot, Push [1], Push [2], Peek 9, Reboot, Pop, Peek 9] (?s, buffer_zero))"
    using buffer_safe_on_failing_storage [OF fake_is_bounded start(1), of "\<lambda>s. s"
      "[Push [1], Push [2], Peek 9, Reboot, Pop, Peek 9]" buffer_zero] by (simp only: Let_def simp_thms)
  then have "queue_runs True 4 [Reboot, Push [1], Push [2], Peek 9, Reboot, Pop, Peek 9] ([], Some [Some [7], Some [8]])
      [Returned True, Returned False, Returned True, Envelope (Some [7]), Returned True, Returned True, Envelope (Some [8])]"
    unfolding outs start(2) by simp
  then show ?thesis unfolding Let_def outs by blast
qed

end
