(* ===== verification/Sentry_Storage_Nvs.thy ===== *)
theory Sentry_Storage_Nvs
  imports Sentry_Buffer
begin

text \<open>
  Buffer storage in ESP-IDF's non-volatile storage, \<open>src/device/sentry_storage_nvs.c\<close>.

  The NVS library is not part of the repository: \<open>nvs_api\<close> is the record of its calls over a
  device state \<open>'w\<close>, a parameter of every definition, and the locale \<open>nvs_flash\<close> states what
  its documentation says of them, with what is stored in flash apart from what an open handle has set
  and not committed. From it the adapter is shown to be a \<open>slot_storage\<close> that bounds its damage,
  with what is stored for its slots, so the guarantees of the buffer hold on it over resets.
\<close>

section \<open>The NVS calls\<close>

type_synonym esp_err = "32 word"

definition ESP_OK :: esp_err where "ESP_OK = 0"
definition ESP_ERR_NVS_NOT_FOUND :: esp_err where "ESP_ERR_NVS_NOT_FOUND = 0x1102"

text \<open>\<open>nvs_get_blob\<close> gives the error, and the blob it copied when there is none.\<close>

record 'w nvs_api =
  nv_open :: "'w \<Rightarrow> string \<Rightarrow> 'w \<times> esp_err \<times> u32"
  nv_set_blob :: "'w \<Rightarrow> u32 \<Rightarrow> string \<Rightarrow> bytes \<Rightarrow> 'w \<times> esp_err"
  nv_get_blob :: "'w \<Rightarrow> u32 \<Rightarrow> string \<Rightarrow> nat \<Rightarrow> 'w \<times> esp_err \<times> bytes"
  nv_erase_key :: "'w \<Rightarrow> u32 \<Rightarrow> string \<Rightarrow> 'w \<times> esp_err"
  nv_commit :: "'w \<Rightarrow> u32 \<Rightarrow> 'w \<times> esp_err"
  nv_close :: "'w \<Rightarrow> u32 \<Rightarrow> 'w"

section \<open>The adapter\<close>

definition SENTRY_NVS_NAMESPACE :: string where "SENTRY_NVS_NAMESPACE = ''sentry''"
definition SENTRY_NVS_META_KEY :: string where "SENTRY_NVS_META_KEY = ''sm_meta''"
definition SENTRY_NVS_MAX_SLOTS :: u32 where "SENTRY_NVS_MAX_SLOTS = 64"
definition SENTRY_NVS_META_MAGIC :: u32 where "SENTRY_NVS_META_MAGIC = 0x534D4231"

text \<open>The bytes of a \<open>sentry_nvs_meta_t\<close>: four little-endian words without padding.\<close>

definition meta_bytes :: "u32 \<Rightarrow> u32 \<Rightarrow> u32 \<Rightarrow> bytes" where
  "meta_bytes head tail dropped =
     write_u32 SENTRY_NVS_META_MAGIC @ write_u32 head @ write_u32 tail @ write_u32 dropped"

definition slot_key :: "u32 \<Rightarrow> nat \<Rightarrow> string" where
  "slot_key index cap = snprintf_content cap (''sm_e'' @ dec (unat index))"

definition open_handle :: "'w nvs_api \<Rightarrow> 'w \<Rightarrow> 'w \<times> u32 option" where
  "open_handle api w =
     (let (w, err, handle) = nv_open api w SENTRY_NVS_NAMESPACE
      in (w, if err = ESP_OK then Some handle else None))"

definition nvs_write :: "'w nvs_api \<Rightarrow> 'w \<Rightarrow> u32 \<Rightarrow> bytes \<Rightarrow> 'w \<times> bool" where
  "nvs_write api w index data =
     (case open_handle api w of
        (w, None) \<Rightarrow> (w, False)
      | (w, Some handle) \<Rightarrow>
          (let (w, err) = nv_set_blob api w handle (slot_key index 16) data;
               (w, err) = (if err = ESP_OK then nv_commit api w handle else (w, err))
           in (nv_close api w handle, err = ESP_OK)))"

definition nvs_read :: "'w nvs_api \<Rightarrow> 'w \<Rightarrow> u32 \<Rightarrow> nat \<Rightarrow> 'w \<times> bytes option" where
  "nvs_read api w index cap =
     (case open_handle api w of
        (w, None) \<Rightarrow> (w, None)
      | (w, Some handle) \<Rightarrow>
          (let (w, err, data) = nv_get_blob api w handle (slot_key index 16) cap
           in (nv_close api w handle, if err \<noteq> ESP_OK then None else Some data)))"

definition nvs_erase :: "'w nvs_api \<Rightarrow> 'w \<Rightarrow> u32 \<Rightarrow> 'w \<times> bool" where
  "nvs_erase api w index =
     (case open_handle api w of
        (w, None) \<Rightarrow> (w, False)
      | (w, Some handle) \<Rightarrow>
          (let (w, err) = nv_erase_key api w handle (slot_key index 16);
               err = (if err = ESP_ERR_NVS_NOT_FOUND then ESP_OK else err);
               (w, err) = (if err = ESP_OK then nv_commit api w handle else (w, err))
           in (nv_close api w handle, err = ESP_OK)))"

definition nvs_load_meta :: "'w nvs_api \<Rightarrow> 'w \<Rightarrow> 'w \<times> (u32 \<times> u32 \<times> u32) option" where
  "nvs_load_meta api w =
     (case open_handle api w of
        (w, None) \<Rightarrow> (w, None)
      | (w, Some handle) \<Rightarrow>
          (let (w, err, data) = nv_get_blob api w handle SENTRY_NVS_META_KEY 16;
               w = nv_close api w handle
           in if err \<noteq> ESP_OK \<or> length data \<noteq> 16 \<or> read_u32 data \<noteq> SENTRY_NVS_META_MAGIC
              then (w, None)
              else (w, Some (read_u32 (drop 4 data), read_u32 (drop 8 data), read_u32 (drop 12 data)))))"

definition nvs_save_meta :: "'w nvs_api \<Rightarrow> 'w \<Rightarrow> u32 \<Rightarrow> u32 \<Rightarrow> u32 \<Rightarrow> 'w \<times> bool" where
  "nvs_save_meta api w head tail dropped =
     (case open_handle api w of
        (w, None) \<Rightarrow> (w, False)
      | (w, Some handle) \<Rightarrow>
          (let (w, err) = nv_set_blob api w handle SENTRY_NVS_META_KEY (meta_bytes head tail dropped);
               (w, err) = (if err = ESP_OK then nv_commit api w handle else (w, err))
           in (nv_close api w handle, err = ESP_OK)))"

definition sentry_storage_nvs :: "'w nvs_api \<Rightarrow> u32 \<Rightarrow> 'w \<Rightarrow> 'w \<times> 'w sentry_storage option" where
  "sentry_storage_nvs api slot_count w =
     (if slot_count = 0 \<or> slot_count > SENTRY_NVS_MAX_SLOTS then (w, None)
      else
        (case open_handle api w of
           (w, None) \<Rightarrow> (w, None)
         | (w, Some handle) \<Rightarrow>
             (nv_close api w handle,
              Some (storage_of (nvs_write api) (nvs_read api) (nvs_erase api) (nvs_load_meta api)
                (nvs_save_meta api) slot_count))))"

section \<open>Keys\<close>

lemma dec_inj: "dec m = dec n \<longleftrightarrow> m = n"
proof
  show "dec m = dec n \<Longrightarrow> m = n"
  proof (induction m arbitrary: n rule: dec.induct)
    case (1 m)
    have digit: "hex_digit a = hex_digit b \<longleftrightarrow> a = b" if "a < 10" "b < 10" for a b
      using that by (intro hex_digit_inj) auto
    show ?case
    proof (cases "m < 10 \<or> n < 10")
      case True
      then have "m < 10 \<and> n < 10"
        using "1.prems" dec_not_Nil
        by (cases "m < 10"; cases "n < 10") (auto simp: dec.simps [of m] dec.simps [of n] Cons_eq_append_conv)
      then show ?thesis using "1.prems" digit by (simp add: dec.simps [of m] dec.simps [of n])
    next
      case False
      then have "dec (m div 10) = dec (n div 10)" "hex_digit (m mod 10) = hex_digit (n mod 10)"
        using "1.prems" by (simp_all add: dec.simps [of m] dec.simps [of n])
      then have "m div 10 = n div 10" "m mod 10 = n mod 10"
        using 1(1) [of "n div 10"] False digit by simp_all
      then show ?thesis by (metis div_mult_mod_eq)
    qed
  qed
qed simp

lemma length_dec_u32: "length (dec (unat (i :: u32))) \<le> 10"
  using unsigned_less [of i, where ?'a = nat] by (intro length_dec) simp_all

lemma slot_key_text: "slot_key i 16 = ''sm_e'' @ dec (unat i)"
  using length_dec_u32 [of i] by (simp add: slot_key_def snprintf_content_def)

lemma slot_key_inj [simp]: "slot_key i 16 = slot_key j 16 \<longleftrightarrow> i = j"
  by (simp add: slot_key_text dec_inj word_unat_eq_iff)

lemma slot_key_not_meta [simp]: "slot_key i 16 \<noteq> SENTRY_NVS_META_KEY"
  by (simp add: slot_key_text SENTRY_NVS_META_KEY_def)

lemma meta_bytes_read:
  "length (meta_bytes h t d) = 16" "read_u32 (meta_bytes h t d) = SENTRY_NVS_META_MAGIC"
  "read_u32 (drop 4 (meta_bytes h t d)) = h" "read_u32 (drop 8 (meta_bytes h t d)) = t"
  "read_u32 (drop 12 (meta_bytes h t d)) = d"
  using read_u32_write [of d "[]"] by (simp_all add: meta_bytes_def read_u32_write)

section \<open>What the NVS documentation promises\<close>

text \<open>
  \<open>stored\<close> is what the namespace holds in flash, which is what a reset leaves; \<open>view\<close> is what an
  open handle reads, and \<open>opened\<close> that it is open. A handle opens on what is stored. A set and an
  erase concern one key: they change what the handle reads, and until the commit nothing says
  whether the flash has the change. A commit that succeeds has stored all of it; when it fails, or
  the handle is closed without it, each key is stored or dropped. A call that fails may have done its
  work, or left the key without a blob.
\<close>

locale nvs_flash =
  fixes api :: "'w nvs_api"
    and stored :: "'w \<Rightarrow> string \<Rightarrow> bytes option"
    and view :: "'w \<Rightarrow> u32 \<Rightarrow> string \<Rightarrow> bytes option"
    and opened :: "'w \<Rightarrow> u32 \<Rightarrow> bool"
    and sound :: "'w \<Rightarrow> bool"
    and n :: u32
  assumes n_pos: "0 < n"
    and open_law: "sound w \<Longrightarrow> nv_open api w SENTRY_NVS_NAMESPACE = (w', e, h) \<Longrightarrow>
      sound w' \<and> stored w' = stored w \<and> (e = ESP_OK \<longrightarrow> opened w' h \<and> view w' h = stored w')"
    and set_law: "sound w \<Longrightarrow> opened w h \<Longrightarrow> nv_set_blob api w h k d = (w', e) \<Longrightarrow>
      sound w' \<and> opened w' h \<and> (\<forall>k'. k' \<noteq> k \<longrightarrow> stored w' k' = stored w k' \<and> view w' h k' = view w h k') \<and>
      stored w' k \<in> {stored w k, None, Some d} \<and> view w' h k \<in> {view w h k, None, Some d} \<and>
      (e = ESP_OK \<longrightarrow> view w' h k = Some d)"
    and get_law: "sound w \<Longrightarrow> opened w h \<Longrightarrow> nv_get_blob api w h k cap = (w', e, d) \<Longrightarrow>
      sound w' \<and> opened w' h \<and> stored w' = stored w \<and> view w' h = view w h \<and>
      (e = ESP_OK \<longrightarrow> view w h k = Some d \<and> length d \<le> cap)"
    and erase_law: "sound w \<Longrightarrow> opened w h \<Longrightarrow> nv_erase_key api w h k = (w', e) \<Longrightarrow>
      sound w' \<and> opened w' h \<and> (\<forall>k'. k' \<noteq> k \<longrightarrow> stored w' k' = stored w k' \<and> view w' h k' = view w h k') \<and>
      stored w' k \<in> {stored w k, None} \<and> view w' h k \<in> {view w h k, None} \<and>
      (e = ESP_OK \<or> e = ESP_ERR_NVS_NOT_FOUND \<longrightarrow> view w' h k = None)"
    and commit_law: "sound w \<Longrightarrow> opened w h \<Longrightarrow> nv_commit api w h = (w', e) \<Longrightarrow>
      sound w' \<and> opened w' h \<and> view w' h = view w h \<and> (\<forall>k. stored w' k \<in> {stored w k, view w h k}) \<and>
      (e = ESP_OK \<longrightarrow> stored w' = view w h)"
    and close_law: "sound w \<Longrightarrow> opened w h \<Longrightarrow>
      sound (nv_close api w h) \<and> (\<forall>k. stored (nv_close api w h) k \<in> {stored w k, view w h k})"

definition nvs_slots :: "('w \<Rightarrow> string \<Rightarrow> bytes option) \<Rightarrow> 'w \<Rightarrow> u32 \<Rightarrow> bytes option" where
  "nvs_slots stored w i = stored w (slot_key i 16)"

definition nvs_meta :: "('w \<Rightarrow> string \<Rightarrow> bytes option) \<Rightarrow> 'w \<Rightarrow> (u32 \<times> u32 \<times> u32) option" where
  "nvs_meta stored w =
     (case stored w SENTRY_NVS_META_KEY of
        None \<Rightarrow> None
      | Some d \<Rightarrow>
          if length d = 16 \<and> read_u32 d = SENTRY_NVS_META_MAGIC
          then Some (read_u32 (drop 4 d), read_u32 (drop 8 d), read_u32 (drop 12 d)) else None)"

text \<open>An operation of the adapter that answers yes has its work in flash.\<close>

definition yes_is_durable :: "'w nvs_api \<Rightarrow> ('w \<Rightarrow> string \<Rightarrow> bytes option) \<Rightarrow> ('w \<Rightarrow> bool) \<Rightarrow> bool" where
  "yes_is_durable api stored sound \<longleftrightarrow>
     (\<forall>w i d w'. sound w \<longrightarrow> nvs_write api w i d = (w', True) \<longrightarrow> nvs_slots stored w' i = Some d) \<and>
     (\<forall>w i w'. sound w \<longrightarrow> nvs_erase api w i = (w', True) \<longrightarrow> nvs_slots stored w' i = None) \<and>
     (\<forall>w h t d w'. sound w \<longrightarrow> nvs_save_meta api w h t d = (w', True) \<longrightarrow> nvs_meta stored w' = Some (h, t, d))"

context nvs_flash
begin

lemma open_handle_law:
  "sound w \<Longrightarrow> open_handle api w = (w', r) \<Longrightarrow>
     sound w' \<and> stored w' = stored w \<and> (\<forall>h. r = Some h \<longrightarrow> opened w' h \<and> view w' h = stored w)"
  using open_law by (fastforce simp: open_handle_def split: prod.splits if_splits)

lemma close_unchanged:
  "sound w \<Longrightarrow> opened w h \<Longrightarrow> view w h = stored w \<Longrightarrow> sound (nv_close api w h) \<and> stored (nv_close api w h) = stored w"
  using close_law [of w h] by (auto simp: fun_eq_iff)

text \<open>What every write of the adapter ends with, after its call \<open>e\<close> for the key \<open>k\<close>.\<close>

lemma commit_and_close:
  assumes "sound w" and "opened w h" and "\<forall>k'. k' \<noteq> k \<longrightarrow> view w h k' = stored w k'"
    and "(if e = ESP_OK then nv_commit api w h else (w, e)) = (w', e')"
  shows "sound (nv_close api w' h)" and "k' \<noteq> k \<Longrightarrow> stored (nv_close api w' h) k' = stored w k'"
    and "stored (nv_close api w' h) k \<in> {stored w k, view w h k}"
    and "e' = ESP_OK \<Longrightarrow> e = ESP_OK \<and> stored (nv_close api w' h) k = view w h k"
proof -
  have c: "sound w'" "opened w' h" "view w' h = view w h" "\<And>k. stored w' k \<in> {stored w k, view w h k}"
    "e' = ESP_OK \<Longrightarrow> e = ESP_OK \<and> stored w' = view w h"
    using assms(1,2,4) commit_law [OF assms(1,2)] by (auto split: if_splits)
  have cl: "sound (nv_close api w' h)" "\<And>k. stored (nv_close api w' h) k \<in> {stored w' k, view w h k}"
    using close_law [OF c(1,2)] c(3) by simp_all
  show "sound (nv_close api w' h)" by (rule cl(1))
  show "stored (nv_close api w' h) k' = stored w k'" if "k' \<noteq> k"
    using assms(3) that cl(2) [of k'] c(4) [of k'] by auto
  show "stored (nv_close api w' h) k \<in> {stored w k, view w h k}" using cl(2) [of k] c(4) [of k] by auto
  show "e = ESP_OK \<and> stored (nv_close api w' h) k = view w h k" if "e' = ESP_OK" using c(5) [OF that] cl(2) [of k] by simp
qed

text \<open>A blob that is set, and a key that is erased, from the opening of the handle to its close.\<close>

lemma set_blob_law:
  assumes "sound w" and "open_handle api w = (w1, Some h)" and "nv_set_blob api w1 h k d = (w2, e)"
    and "(if e = ESP_OK then nv_commit api w2 h else (w2, e)) = (w3, e')"
  shows "sound (nv_close api w3 h) \<and> (\<forall>k'. k' \<noteq> k \<longrightarrow> stored (nv_close api w3 h) k' = stored w k') \<and>
    stored (nv_close api w3 h) k \<in> {stored w k, None, Some d} \<and>
    (e' = ESP_OK \<longrightarrow> stored (nv_close api w3 h) k = Some d)"
proof -
  have o: "sound w1" "stored w1 = stored w" "opened w1 h" "view w1 h = stored w"
    using open_handle_law [OF assms(1,2)] by simp_all
  note s = set_law [OF o(1,3) assms(3)]
  have "\<forall>k'. k' \<noteq> k \<longrightarrow> view w2 h k' = stored w2 k'" using s o by metis
  note c = commit_and_close [OF _ _ this assms(4)]
  show ?thesis using c(1) c(2) c(3) c(4) s o by auto
qed

lemma erase_key_law:
  assumes "sound w" and "open_handle api w = (w1, Some h)" and "nv_erase_key api w1 h k = (w2, e)"
    and "(if (if e = ESP_ERR_NVS_NOT_FOUND then ESP_OK else e) = ESP_OK then nv_commit api w2 h
      else (w2, if e = ESP_ERR_NVS_NOT_FOUND then ESP_OK else e)) = (w3, e')"
  shows "sound (nv_close api w3 h) \<and> (\<forall>k'. k' \<noteq> k \<longrightarrow> stored (nv_close api w3 h) k' = stored w k') \<and>
    stored (nv_close api w3 h) k \<in> {stored w k, None} \<and> (e' = ESP_OK \<longrightarrow> stored (nv_close api w3 h) k = None)"
proof -
  have o: "sound w1" "stored w1 = stored w" "opened w1 h" "view w1 h = stored w"
    using open_handle_law [OF assms(1,2)] by simp_all
  note s = erase_law [OF o(1,3) assms(3)]
  have "\<forall>k'. k' \<noteq> k \<longrightarrow> view w2 h k' = stored w2 k'" using s o by metis
  note c = commit_and_close [OF _ _ this assms(4)]
  show ?thesis using c(1) c(2) c(3) c(4) s o by (auto split: if_splits)
qed

lemma write_law:
  assumes "sound w" and "nvs_write api w i d = (w', ok)"
  shows "sound w' \<and> (\<forall>k. k \<noteq> slot_key i 16 \<longrightarrow> stored w' k = stored w k) \<and>
    stored w' (slot_key i 16) \<in> {stored w (slot_key i 16), None, Some d} \<and>
    (ok \<longrightarrow> stored w' (slot_key i 16) = Some d)"
proof (cases "open_handle api w")
  case (Pair w1 r)
  show ?thesis
  proof (cases r)
    case (Some h)
    obtain w2 e where set: "nv_set_blob api w1 h (slot_key i 16) d = (w2, e)"
      by (cases "nv_set_blob api w1 h (slot_key i 16) d")
    obtain w3 e' where com: "(if e = ESP_OK then nv_commit api w2 h else (w2, e)) = (w3, e')" by fastforce
    show ?thesis
      using set_blob_law [OF assms(1) Pair [unfolded Some] set com] assms(2) by (simp add: nvs_write_def Pair Some set com)
  qed (use assms Pair open_handle_law [OF assms(1) Pair] in \<open>auto simp: nvs_write_def\<close>)
qed

lemma save_law:
  assumes "sound w" and "nvs_save_meta api w h t d = (w', ok)"
  shows "sound w' \<and> (\<forall>k. k \<noteq> SENTRY_NVS_META_KEY \<longrightarrow> stored w' k = stored w k) \<and>
    stored w' SENTRY_NVS_META_KEY \<in> {stored w SENTRY_NVS_META_KEY, None, Some (meta_bytes h t d)} \<and>
    (ok \<longrightarrow> stored w' SENTRY_NVS_META_KEY = Some (meta_bytes h t d))"
proof (cases "open_handle api w")
  case (Pair w1 r)
  show ?thesis
  proof (cases r)
    case (Some hd)
    obtain w2 e where set: "nv_set_blob api w1 hd SENTRY_NVS_META_KEY (meta_bytes h t d) = (w2, e)"
      by (cases "nv_set_blob api w1 hd SENTRY_NVS_META_KEY (meta_bytes h t d)")
    obtain w3 e' where com: "(if e = ESP_OK then nv_commit api w2 hd else (w2, e)) = (w3, e')" by fastforce
    show ?thesis
      using set_blob_law [OF assms(1) Pair [unfolded Some] set com] assms(2) by (simp add: nvs_save_meta_def Pair Some set com)
  qed (use assms Pair open_handle_law [OF assms(1) Pair] in \<open>auto simp: nvs_save_meta_def\<close>)
qed

lemma erase_slot_law:
  assumes "sound w" and "nvs_erase api w i = (w', ok)"
  shows "sound w' \<and> (\<forall>k. k \<noteq> slot_key i 16 \<longrightarrow> stored w' k = stored w k) \<and>
    stored w' (slot_key i 16) \<in> {stored w (slot_key i 16), None} \<and> (ok \<longrightarrow> stored w' (slot_key i 16) = None)"
proof (cases "open_handle api w")
  case (Pair w1 r)
  show ?thesis
  proof (cases r)
    case (Some h)
    obtain w2 e where er: "nv_erase_key api w1 h (slot_key i 16) = (w2, e)"
      by (cases "nv_erase_key api w1 h (slot_key i 16)")
    obtain w3 e' where com: "(if (if e = ESP_ERR_NVS_NOT_FOUND then ESP_OK else e) = ESP_OK then nv_commit api w2 h
        else (w2, if e = ESP_ERR_NVS_NOT_FOUND then ESP_OK else e)) = (w3, e')" by fastforce
    show ?thesis
      using erase_key_law [OF assms(1) Pair [unfolded Some] er com] assms(2)
      by (simp add: nvs_erase_def Pair Some er com Let_def)
  qed (use assms Pair open_handle_law [OF assms(1) Pair] in \<open>auto simp: nvs_erase_def\<close>)
qed

lemma read_law:
  assumes "sound w" and "nvs_read api w i cap = (w', r)"
  shows "sound w' \<and> stored w' = stored w \<and> (\<forall>d. r = Some d \<longrightarrow> stored w (slot_key i 16) = Some d \<and> length d \<le> cap)"
proof (cases "open_handle api w")
  case (Pair w1 hr)
  note o = open_handle_law [OF assms(1) Pair]
  show ?thesis
  proof (cases hr)
    case (Some h)
    obtain w2 e d where get: "nv_get_blob api w1 h (slot_key i 16) cap = (w2, e, d)"
      by (cases "nv_get_blob api w1 h (slot_key i 16) cap")
    note g = get_law [OF _ _ get]
    show ?thesis
      using assms(2) Pair Some get o g close_unchanged [of w2 h] by (auto simp: nvs_read_def split: if_splits)
  qed (use assms(2) Pair o in \<open>auto simp: nvs_read_def\<close>)
qed

lemma load_law:
  assumes "sound w" and "nvs_load_meta api w = (w', r)"
  shows "sound w' \<and> stored w' = stored w \<and> (\<forall>m. r = Some m \<longrightarrow> nvs_meta stored w = Some m)"
proof (cases "open_handle api w")
  case (Pair w1 hr)
  note o = open_handle_law [OF assms(1) Pair]
  show ?thesis
  proof (cases hr)
    case (Some h)
    obtain w2 e d where get: "nv_get_blob api w1 h SENTRY_NVS_META_KEY 16 = (w2, e, d)"
      by (cases "nv_get_blob api w1 h SENTRY_NVS_META_KEY 16")
    note g = get_law [OF _ _ get]
    show ?thesis
      using assms(2) Pair Some get o g close_unchanged [of w2 h]
      by (auto simp: nvs_load_meta_def nvs_meta_def Let_def split: if_splits)
  qed (use assms(2) Pair o in \<open>auto simp: nvs_load_meta_def\<close>)
qed

lemma same_blobs_same_meta: "stored w' SENTRY_NVS_META_KEY = stored w SENTRY_NVS_META_KEY \<Longrightarrow> nvs_meta stored w' = nvs_meta stored w"
  by (simp add: nvs_meta_def)

lemma same_stored_same_meta: "stored w' = stored w \<Longrightarrow> nvs_meta stored w' = nvs_meta stored w"
  by (simp add: nvs_meta_def)

lemma write_keeps_meta:
  "sound w \<Longrightarrow> nvs_write api w i d = (w', ok) \<Longrightarrow> nvs_meta stored w' = nvs_meta stored w"
  using write_law [of w i d w' ok] slot_key_not_meta [of i, symmetric] by (intro same_blobs_same_meta) simp

lemma erase_keeps_meta:
  "sound w \<Longrightarrow> nvs_erase api w i = (w', ok) \<Longrightarrow> nvs_meta stored w' = nvs_meta stored w"
  using erase_slot_law [of w i w' ok] slot_key_not_meta [of i, symmetric] by (intro same_blobs_same_meta) simp

lemma save_sets_meta:
  "sound w \<Longrightarrow> nvs_save_meta api w h t d = (w', True) \<Longrightarrow> nvs_meta stored w' = Some (h, t, d)"
  using save_law [of w h t d w' True] by (simp add: nvs_meta_def meta_bytes_read)

lemma save_leaves_meta:
  "sound w \<Longrightarrow> nvs_save_meta api w h t d = (w', ok) \<Longrightarrow>
    nvs_meta stored w' = nvs_meta stored w \<or> nvs_meta stored w' = None \<or> nvs_meta stored w' = Some (h, t, d)"
  using save_law [of w h t d w' ok] by (auto simp: nvs_meta_def meta_bytes_read)

text \<open>The adapter is a storage, its slots and metadata being what the flash has stored.\<close>

lemma adapter_is_storage:
  "slot_storage (nvs_write api) (nvs_read api) (nvs_erase api) (nvs_load_meta api) (nvs_save_meta api) n
     (nvs_slots stored) (nvs_meta stored) sound"
proof
  show "0 < n" by (rule n_pos)
qed (auto simp: nvs_slots_def dest: write_law save_law erase_slot_law read_law load_law
    write_keeps_meta erase_keeps_meta save_sets_meta intro: same_stored_same_meta)

lemma adapter_bounds_damage:
  "bounded_damage (nvs_write api) (nvs_read api) (nvs_erase api) (nvs_load_meta api) (nvs_save_meta api) n
     (nvs_slots stored) (nvs_meta stored) sound True"
proof (rule bounded_damage.intro [OF slot_storage.axioms(1) [OF adapter_is_storage]], unfold_locales)
  fix w w' :: 'w and i :: u32 and d :: bytes and ok :: bool
  assume w: "sound w"
  show "nvs_slots stored w' i = nvs_slots stored w i \<or> nvs_slots stored w' i = None \<or>
      (\<exists>k. nvs_slots stored w' i = Some (take k d))" if "nvs_write api w i d = (w', ok)"
    using write_law [OF w that] by (auto simp: nvs_slots_def intro: exI [of _ "length d"])
  show "nvs_slots stored w' i = Some d" if "nvs_write api w i d = (w', True)"
    using write_law [OF w that] by (simp add: nvs_slots_def)
  show "nvs_slots stored w' i = nvs_slots stored w i \<or> nvs_slots stored w' i = None" if "nvs_erase api w i = (w', ok)"
    using erase_slot_law [OF w that] by (simp add: nvs_slots_def)
qed (rule save_leaves_meta)

lemma adapter_is_durable: "yes_is_durable api stored sound"
proof -
  have "nvs_slots stored w' i = Some d" if "sound w" "nvs_write api w i d = (w', True)" for w w' i d
    using write_law [OF that] by (simp add: nvs_slots_def)
  moreover have "nvs_slots stored w' i = None" if "sound w" "nvs_erase api w i = (w', True)" for w w' i
    using erase_slot_law [OF that] by (simp add: nvs_slots_def)
  ultimately show ?thesis using save_sets_meta by (simp add: yes_is_durable_def)
qed

end

sublocale nvs_flash \<subseteq> nvs: slot_storage "nvs_write api" "nvs_read api" "nvs_erase api" "nvs_load_meta api"
  "nvs_save_meta api" n "nvs_slots stored" "nvs_meta stored" sound
  by (rule adapter_is_storage)

sublocale nvs_flash \<subseteq> nvsd: bounded_damage "nvs_write api" "nvs_read api" "nvs_erase api" "nvs_load_meta api"
  "nvs_save_meta api" n "nvs_slots stored" "nvs_meta stored" sound True
  by (rule adapter_bounds_damage)

section \<open>Flash that works\<close>

text \<open>
  What is added where no call fails without a reason: the namespace opens, a blob that fits is
  stored and committed, and one that is there is read into a destination that is large enough.
  On such a flash the adapter is a reliable storage.
\<close>

locale working_flash = nvs_flash api stored view opened sound n
  for api :: "'w nvs_api" and stored view opened sound n +
  fixes fits :: "bytes \<Rightarrow> bool"
  assumes open_total: "sound w \<Longrightarrow> fst (snd (nv_open api w SENTRY_NVS_NAMESPACE)) = ESP_OK"
    and set_total: "sound w \<Longrightarrow> opened w h \<Longrightarrow> fits d \<Longrightarrow> snd (nv_set_blob api w h k d) = ESP_OK"
    and get_total: "sound w \<Longrightarrow> opened w h \<Longrightarrow> view w h k = Some d \<Longrightarrow> length d \<le> cap \<Longrightarrow>
      fst (snd (nv_get_blob api w h k cap)) = ESP_OK"
    and commit_total: "sound w \<Longrightarrow> opened w h \<Longrightarrow> snd (nv_commit api w h) = ESP_OK"
    and fits_meta: "length d = 16 \<Longrightarrow> fits d"
begin

lemma handle_had:
  assumes "sound w"
  obtains w' h where "open_handle api w = (w', Some h)" "sound w'" "stored w' = stored w" "opened w' h" "view w' h = stored w"
proof -
  obtain w' e h where o: "nv_open api w SENTRY_NVS_NAMESPACE = (w', e, h)" by (rule prod_cases3)
  then have "e = ESP_OK" using open_total [OF assms] by simp
  then show ?thesis using that open_law [OF assms o] o by (simp add: open_handle_def)
qed

lemma set_and_commit:
  assumes "sound w" and "opened w h" and "fits d" and "nv_set_blob api w h k d = (w', e)"
  shows "e = ESP_OK" "snd (nv_commit api w' h) = ESP_OK"
proof -
  show "e = ESP_OK" using set_total [OF assms(1-3), of k] assms(4) by simp
  show "snd (nv_commit api w' h) = ESP_OK" using set_law [OF assms(1,2,4)] commit_total by blast
qed

lemma write_total: "sound w \<Longrightarrow> fits d \<Longrightarrow> snd (nvs_write api w i d)"
  by (erule handle_had)
    (auto simp: nvs_write_def case_prod_beta Let_def set_and_commit [OF _ _ _ prod.collapse [symmetric]])

lemma save_total: "sound w \<Longrightarrow> snd (nvs_save_meta api w h t d)"
  by (erule handle_had)
    (auto simp: nvs_save_meta_def case_prod_beta Let_def fits_meta meta_bytes_read(1)
      set_and_commit [OF _ _ _ prod.collapse [symmetric]])

lemma read_total:
  assumes "sound w" and "stored w (slot_key i 16) = Some d" and "length d \<le> cap"
  shows "snd (nvs_read api w i cap) = Some d"
proof -
  obtain w' h where h: "open_handle api w = (w', Some h)" "sound w'" "stored w' = stored w" "opened w' h" "view w' h = stored w"
    by (rule handle_had [OF assms(1)])
  have "fst (snd (nv_get_blob api w' h (slot_key i 16) cap)) = ESP_OK"
    using get_total [OF h(2,4)] h(5) assms(2,3) by simp
  then have "snd (nvs_read api w i cap) \<noteq> None" by (simp add: nvs_read_def h(1) case_prod_beta Let_def)
  then show ?thesis using read_law [OF assms(1) prod.collapse [symmetric], of i cap] assms(2) by auto
qed

lemma load_total:
  assumes "sound w"
  shows "snd (nvs_load_meta api w) = nvs_meta stored w"
proof (cases "nvs_meta stored w")
  case None
  then show ?thesis
    using load_law [OF assms prod.collapse [symmetric]] by (cases "snd (nvs_load_meta api w)") auto
next
  case (Some m)
  obtain w' h where h: "open_handle api w = (w', Some h)" "sound w'" "stored w' = stored w" "opened w' h" "view w' h = stored w"
    by (rule handle_had [OF assms])
  obtain d where d: "stored w SENTRY_NVS_META_KEY = Some d" "length d = 16" "read_u32 d = SENTRY_NVS_META_MAGIC"
    using Some by (auto simp: nvs_meta_def split: option.splits if_splits)
  obtain w'' e d' where get: "nv_get_blob api w' h SENTRY_NVS_META_KEY 16 = (w'', e, d')" by (rule prod_cases3)
  have "e = ESP_OK" using get_total [OF h(2,4), of SENTRY_NVS_META_KEY d 16] h(5) d get by simp
  moreover have "d' = d" using get_law [OF h(2,4) get] \<open>e = ESP_OK\<close> h(5) d(1) by simp
  ultimately show ?thesis using d by (simp add: nvs_load_meta_def h(1) get Let_def nvs_meta_def)
qed

lemma adapter_is_reliable:
  "reliable_storage (nvs_write api) (nvs_read api) (nvs_erase api) (nvs_load_meta api) (nvs_save_meta api) n
     (nvs_slots stored) (nvs_meta stored) sound fits"
  by unfold_locales (auto simp: nvs_slots_def write_total save_total read_total load_total)

end

sublocale working_flash \<subseteq> nvsr: reliable_storage "nvs_write api" "nvs_read api" "nvs_erase api"
  "nvs_load_meta api" "nvs_save_meta api" n "nvs_slots stored" "nvs_meta stored" sound fits
  by (rule adapter_is_reliable)

section \<open>A flash that keeps the contract\<close>

text \<open>
  Blobs in a map, and the map that the one handle works on: opening it copies what is stored, a
  commit stores what it has, and a close without a commit forgets it. No errors but the missing key
  and the short destination.
\<close>

type_synonym map_flash = "(string \<Rightarrow> bytes option) \<times> (string \<Rightarrow> bytes option)"

definition map_nvs :: "map_flash nvs_api" where
  "map_nvs =
     \<lparr>nv_open = (\<lambda>w ns. ((fst w, fst w), ESP_OK, 1)),
      nv_set_blob = (\<lambda>w h k d. ((fst w, (snd w)(k \<mapsto> d)), ESP_OK)),
      nv_get_blob = (\<lambda>w h k cap.
        (case snd w k of None \<Rightarrow> (w, ESP_ERR_NVS_NOT_FOUND, [])
         | Some d \<Rightarrow> if length d \<le> cap then (w, ESP_OK, d) else (w, 0x110c, []))),
      nv_erase_key = (\<lambda>w h k. ((fst w, (snd w)(k := None)), if snd w k = None then ESP_ERR_NVS_NOT_FOUND else ESP_OK)),
      nv_commit = (\<lambda>w h. ((snd w, snd w), ESP_OK)),
      nv_close = (\<lambda>w h. (fst w, fst w))\<rparr>"

abbreviation map_stored :: "map_flash \<Rightarrow> string \<Rightarrow> bytes option" where
  "map_stored \<equiv> fst"

abbreviation map_view :: "map_flash \<Rightarrow> u32 \<Rightarrow> string \<Rightarrow> bytes option" where
  "map_view \<equiv> \<lambda>w h. snd w"

lemma map_nvs_is_flash: "0 < n \<Longrightarrow> nvs_flash map_nvs map_stored map_view (\<lambda>w h. True) (\<lambda>w. True) n"
  by unfold_locales
    (auto simp: map_nvs_def ESP_OK_def ESP_ERR_NVS_NOT_FOUND_def split: option.splits if_splits)

interpretation map_nvs: nvs_flash map_nvs map_stored map_view "\<lambda>w h. True" "\<lambda>w. True" 4
  by (rule map_nvs_is_flash) simp

text \<open>It works, so the buffer over it is the bounded queue across any reboots.\<close>

interpretation working_map: working_flash map_nvs map_stored map_view "\<lambda>w h. True" "\<lambda>w. True" 4 "\<lambda>d. True"
  by unfold_locales (auto simp: map_nvs_def split: option.splits)

section \<open>Properties\<close>

lemma nvs_storage_made:
  assumes "nvs_flash api stored view opened sound n" and "sound w" and "sentry_storage_nvs api n w = (w1, Some st)"
  shows "st = storage_of (nvs_write api) (nvs_read api) (nvs_erase api) (nvs_load_meta api) (nvs_save_meta api) n"
    and "sound w1" and "stored w1 = stored w"
proof -
  obtain w0 h where opened: "open_handle api w = (w0, Some h)" and w1: "w1 = nv_close api w0 h"
    and "st = storage_of (nvs_write api) (nvs_read api) (nvs_erase api) (nvs_load_meta api) (nvs_save_meta api) n"
    using assms(3) by (auto simp: sentry_storage_nvs_def split: if_splits prod.splits option.splits)
  then show "st = storage_of (nvs_write api) (nvs_read api) (nvs_erase api) (nvs_load_meta api) (nvs_save_meta api) n"
    by blast
  show "sound w1" "stored w1 = stored w"
    using nvs_flash.open_handle_law [OF assms(1,2) opened] nvs_flash.close_unchanged [OF assms(1), of w0 h] w1 by auto
qed

text \<open>On flash that works, what the buffer over the adapter answers is what a bounded queue answers.\<close>

lemma nvs_buffer_on_working_flash:
  assumes "working_flash api stored view opened sound n fits" and "sound w" and "stored w SENTRY_NVS_META_KEY = None"
    and "sentry_storage_nvs api n w = (w1, Some st)" and "list_all (\<lambda>op. \<forall>d. op = Push d \<longrightarrow> fits d) ops"
  shows "outputs (buffer_step st) (Reboot # ops) (w1, b) = Returned True # outputs (queue_step (unat n)) ops ([], 0)"
proof -
  have flash: "nvs_flash api stored view opened sound n" using assms(1) by (simp add: working_flash_def)
  note made = nvs_storage_made [OF flash assms(2,4)]
  have "nvs_meta stored w1 = None" using made(3) assms(3) by (simp add: nvs_meta_def)
  moreover obtain s' b' ok where init: "sentry_buffer_init (Some st) w1 = (s', b', ok)" by (rule prod_cases3)
  ultimately have boot: "reliable_storage.refines (nvs_write api) (nvs_read api) (nvs_erase api) (nvs_load_meta api)
      (nvs_save_meta api) n (nvs_slots stored) (nvs_meta stored) sound (s', b') ([], 0)" "ok"
    using reliable_storage.refines_boot [OF working_flash.adapter_is_reliable [OF assms(1)] made(2)] made(1) by blast+
  show ?thesis
    using reliable_storage.runs_refine [OF working_flash.adapter_is_reliable [OF assms(1)] boot(1) assms(5)] boot(2) init
    unfolding made(1) by simp
qed

text \<open>
  C18: On flash that behaves as the NVS documentation says, where any call may fail and what is not
  committed may be lost, the buffer over the NVS adapter is a queue that resets do not damage. From
  whatever the flash holds, over any calls and boots, and resets that leave only what is stored, it
  shows only the oldest envelope it has, whole and as it was stored; no slot overwrites another or
  the metadata, and a boot goes from the indices that were saved last. An operation of the adapter
  that answers yes has its work in flash, not in a handle's memory: a write its envelope, an erase
  the empty slot, a save of the metadata its indices.
\<close>

theorem nvs_buffer_is_safe:
  assumes "nvs_flash api stored view opened sound n" and "sound w" and "sentry_storage_nvs api n w = (w1, Some st)"
    and "\<And>w. sound w \<Longrightarrow> sound (reset w) \<and> stored (reset w) = stored w"
  shows "let outs = outputs (reset_step reset st) (Reboot # ops) (w1, b)
    in queue_runs True (unat n) (Reboot # ops) ([], Some (boot_ring_of n (nvs_slots stored) (nvs_meta stored) w)) outs \<and>
      (\<forall>e. Envelope (Some e) \<in> set outs \<longrightarrow> e \<in> known {e. \<exists>j < n. nvs_slots stored w j = Some e} ops) \<and>
      yes_is_durable api stored sound"
proof -
  note made = nvs_storage_made [OF assms(1-3)] and damage = nvs_flash.adapter_bounds_damage [OF assms(1)]
  have same: "nvs_slots stored w1 = nvs_slots stored w" "nvs_meta stored w1 = nvs_meta stored w"
    using made(3) by (simp_all add: nvs_slots_def nvs_meta_def fun_eq_iff)
  have "bounded_damage.harmless n (nvs_slots stored) (nvs_meta stored) sound reset"
    using assms(4) by (simp add: bounded_damage.harmless_def [OF damage] nvs_slots_def nvs_meta_def)
  note r = bounded_damage.boots_may [OF damage this made(2)]
  have start: "boot_ring_of n (nvs_slots stored) (nvs_meta stored) w1 = boot_ring_of n (nvs_slots stored) (nvs_meta stored) w"
    by (simp add: boot_ring_of_def same)
  show ?thesis
    using r(1,2) nvs_flash.adapter_is_durable [OF assms(1)] unfolding Let_def made(1) start same by blast
qed

theorem nvs_buffer_is_safe_witness:
  "let w = (\<lambda>k. if k = slot_key 1 16 then Some [7] else if k = SENTRY_NVS_META_KEY then Some (meta_bytes 1 2 0) else None)
   in \<exists>st. sentry_storage_nvs map_nvs 4 (w, w) = ((w, w), Some st) \<and>
     queue_runs True 4 [Reboot, Push [1, 2], Pop, Reboot, Peek 8] ([], Some [Some [7]])
       (outputs (reset_step (\<lambda>w. (fst w, fst w)) st) [Reboot, Push [1, 2], Pop, Reboot, Peek 8] ((w, w), buffer_zero))"
proof -
  let ?w = "\<lambda>k. if k = slot_key 1 16 then Some [7] else if k = SENTRY_NVS_META_KEY then Some (meta_bytes 1 2 0) else None"
  let ?st = "storage_of (nvs_write map_nvs) (nvs_read map_nvs) (nvs_erase map_nvs) (nvs_load_meta map_nvs)
    (nvs_save_meta map_nvs) 4"
  have st: "sentry_storage_nvs map_nvs 4 (?w, ?w) = ((?w, ?w), Some ?st)"
    by (simp add: sentry_storage_nvs_def SENTRY_NVS_MAX_SLOTS_def open_handle_def map_nvs_def)
  have meta: "nvs_meta map_stored (?w, ?w) = Some (1, 2, 0)"
    using slot_key_not_meta [of 1, symmetric] by (simp add: nvs_meta_def meta_bytes_read)
  have start: "boot_ring_of 4 (nvs_slots map_stored) (nvs_meta map_stored) (?w, ?w) = [Some [7]]"
    by (simp add: boot_ring_of_def restored_def meta word_le_nat_alt nvs_slots_def ring_window_def)
  have "queue_runs True (unat (4 :: u32)) [Reboot, Push [1, 2], Pop, Reboot, Peek 8]
      ([], Some (boot_ring_of 4 (nvs_slots map_stored) (nvs_meta map_stored) (?w, ?w)))
      (outputs (reset_step (\<lambda>w. (fst w, fst w)) ?st) [Reboot, Push [1, 2], Pop, Reboot, Peek 8] ((?w, ?w), buffer_zero))"
    using nvs_buffer_is_safe [OF map_nvs_is_flash TrueI st, of "\<lambda>w. (fst w, fst w)" "[Push [1, 2], Pop, Reboot, Peek 8]" buffer_zero]
    unfolding Let_def by simp
  then have "queue_runs True 4 [Reboot, Push [1, 2], Pop, Reboot, Peek 8] ([], Some [Some [7]])
      (outputs (reset_step (\<lambda>w. (fst w, fst w)) ?st) [Reboot, Push [1, 2], Pop, Reboot, Peek 8] ((?w, ?w), buffer_zero))"
    unfolding start by simp
  then show ?thesis using st unfolding Let_def by blast
qed

end
