(* ===== verification/Sentry_Throttle.thy ===== *)
theory Sentry_Throttle
  imports Sentry_Envelope
begin

text \<open>
  The client-side throttle of captured messages, \<open>src/core/sentry_throttle.c\<close>: a rule against
  repeats of the last message and a budget per fixed window of 60 seconds. The clock is the
  argument \<open>now_ms\<close>. A NULL throttle, which allows everything, has no state to model; the SDK
  always passes the one in its own state.
\<close>

section \<open>Operations\<close>

definition SENTRY_MICRO_THROTTLE_WINDOW_MS :: u64 where "SENTRY_MICRO_THROTTLE_WINDOW_MS = 60000"

record sentry_throttle =
  th_max_per_minute :: u16
  th_repeat_window_ms :: u32
  th_window_start_ms :: u64
  th_sent_in_window :: u16
  th_last_digest :: u32
  th_last_digest_ms :: u64
  th_has_last_digest :: bool
  th_suppressed :: u32

text \<open>The loop of \<open>digest_of\<close> over the bytes of the message.\<close>

fun digest_loop :: "u32 \<Rightarrow> string \<Rightarrow> u32" where
  "digest_loop hash [] = hash"
| "digest_loop hash (c # cs) = digest_loop ((hash XOR of_nat (code_of c)) * 16777619) cs"

definition digest_of :: "sentry_level \<Rightarrow> string \<Rightarrow> u32" where
  "digest_of level message =
     digest_loop ((2166136261 XOR of_nat (level_number level)) * 16777619) message"

definition sentry_throttle_init :: "u16 \<Rightarrow> u32 \<Rightarrow> sentry_throttle" where
  "sentry_throttle_init max_per_minute repeat_window_ms =
     \<lparr>th_max_per_minute = max_per_minute, th_repeat_window_ms = repeat_window_ms,
      th_window_start_ms = 0, th_sent_in_window = 0, th_last_digest = 0, th_last_digest_ms = 0,
      th_has_last_digest = False, th_suppressed = 0\<rparr>"

definition sentry_throttle_allow ::
    "sentry_level \<Rightarrow> cptr \<Rightarrow> u64 \<Rightarrow> sentry_throttle \<Rightarrow> sentry_throttle \<times> bool" where
  "sentry_throttle_allow level message now_ms th =
     (let text = (case message of Some m \<Rightarrow> m | None \<Rightarrow> []);
          digest = digest_of level text
      in if th_repeat_window_ms th > 0 \<and> th_has_last_digest th \<and> digest = th_last_digest th \<and>
            now_ms - th_last_digest_ms th < ucast (th_repeat_window_ms th)
         then (th\<lparr>th_suppressed := th_suppressed th + 1\<rparr>, False)
         else
           (let th1 =
                  (if th_max_per_minute th > 0 \<and>
                      now_ms - th_window_start_ms th \<ge> SENTRY_MICRO_THROTTLE_WINDOW_MS
                   then th\<lparr>th_window_start_ms := now_ms, th_sent_in_window := 0\<rparr> else th)
            in if th_max_per_minute th1 > 0 \<and> th_sent_in_window th1 \<ge> th_max_per_minute th1
               then (th1\<lparr>th_suppressed := th_suppressed th1 + 1\<rparr>, False)
               else
                 (let th2 = (if th_max_per_minute th1 > 0
                             then th1\<lparr>th_sent_in_window := th_sent_in_window th1 + 1\<rparr> else th1)
                  in (th2\<lparr>th_last_digest := digest, th_last_digest_ms := now_ms,
                          th_has_last_digest := True\<rparr>, True))))"

definition sentry_throttle_settle :: "u64 \<Rightarrow> sentry_throttle \<Rightarrow> sentry_throttle" where
  "sentry_throttle_settle now_ms th =
     (if th_has_last_digest th then th\<lparr>th_last_digest_ms := now_ms\<rparr> else th)"

definition sentry_throttle_suppressed :: "sentry_throttle \<Rightarrow> u32" where
  "sentry_throttle_suppressed th = th_suppressed th"

section \<open>One call\<close>

abbreviation WINDOW :: nat where "WINDOW \<equiv> 60000"

definition throttle_ok :: "sentry_throttle \<Rightarrow> bool" where
  "throttle_ok th \<longleftrightarrow> th_sent_in_window th \<le> th_max_per_minute th"

definition repeats :: "sentry_level \<Rightarrow> cptr \<Rightarrow> u64 \<Rightarrow> sentry_throttle \<Rightarrow> bool" where
  "repeats level message now th \<longleftrightarrow>
     th_has_last_digest th \<and>
     digest_of level (case message of Some m \<Rightarrow> m | None \<Rightarrow> []) = th_last_digest th \<and>
     unat now < unat (th_last_digest_ms th) + unat (th_repeat_window_ms th)"

definition window_over :: "u64 \<Rightarrow> sentry_throttle \<Rightarrow> bool" where
  "window_over now th \<longleftrightarrow> unat (th_window_start_ms th) + WINDOW \<le> unat now"

definition spent :: "sentry_throttle \<Rightarrow> bool" where
  "spent th \<longleftrightarrow> 0 < th_max_per_minute th \<and> th_max_per_minute th \<le> th_sent_in_window th"

text \<open>The clock has not gone back behind the marks of the state.\<close>

definition clock_ok :: "u64 \<Rightarrow> sentry_throttle \<Rightarrow> bool" where
  "clock_ok now th \<longleftrightarrow> th_window_start_ms th \<le> now \<and> th_last_digest_ms th \<le> now"

lemma elapsed_less:
  fixes now mark :: u64 and r :: u32
  assumes "mark \<le> now"
  shows "now - mark < ucast r \<longleftrightarrow> unat now < unat mark + unat r"
proof -
  have "unat (now - mark) = unat now - unat mark" using assms by (simp add: unat_sub)
  moreover have "unat (ucast r :: u64) = unat r" by (simp add: unsigned_ucast_eq take_bit_nat_eq_self
      unsigned_less [of r, where ?'a = nat, simplified, THEN less_trans])
  ultimately show ?thesis using assms by (auto simp: word_less_nat_alt word_le_nat_alt)
qed

lemma elapsed_window:
  fixes now mark :: u64
  assumes "mark \<le> now"
  shows "now - mark \<ge> SENTRY_MICRO_THROTTLE_WINDOW_MS \<longleftrightarrow> unat mark + WINDOW \<le> unat now"
proof -
  have "unat (now - mark) = unat now - unat mark" using assms by (simp add: unat_sub)
  then show ?thesis using assms by (auto simp: word_le_nat_alt SENTRY_MICRO_THROTTLE_WINDOW_MS_def)
qed

definition accepted :: "sentry_level \<Rightarrow> cptr \<Rightarrow> u64 \<Rightarrow> sentry_throttle \<Rightarrow> sentry_throttle" where
  "accepted level message now th =
     th\<lparr>th_window_start_ms :=
          (if 0 < th_max_per_minute th \<and> window_over now th then now else th_window_start_ms th),
        th_sent_in_window :=
          (if th_max_per_minute th = 0 then th_sent_in_window th
           else if window_over now th then 1 else th_sent_in_window th + 1),
        th_last_digest := digest_of level (case message of Some m \<Rightarrow> m | None \<Rightarrow> []),
        th_last_digest_ms := now, th_has_last_digest := True\<rparr>"

lemma allow_cases:
  assumes "clock_ok now th"
  shows "sentry_throttle_allow level message now th =
    (if repeats level message now th \<or> (\<not> window_over now th \<and> spent th)
     then (th\<lparr>th_suppressed := th_suppressed th + 1\<rparr>, False)
     else (accepted level message now th, True))"
proof -
  let ?d = "digest_of level (case message of Some m \<Rightarrow> m | None \<Rightarrow> [])"
  have rep: "th_repeat_window_ms th > 0 \<and> th_has_last_digest th \<and> ?d = th_last_digest th \<and>
      now - th_last_digest_ms th < ucast (th_repeat_window_ms th) \<longleftrightarrow> repeats level message now th"
    using assms elapsed_less [of "th_last_digest_ms th" now "th_repeat_window_ms th"]
    by (auto simp: repeats_def clock_ok_def word_less_nat_alt word_le_nat_alt)
  have over: "now - th_window_start_ms th \<ge> SENTRY_MICRO_THROTTLE_WINDOW_MS \<longleftrightarrow> window_over now th"
    using assms elapsed_window [of "th_window_start_ms th" now] by (simp add: window_over_def clock_ok_def)
  show ?thesis
    unfolding sentry_throttle_allow_def Let_def rep over
    by (auto simp: accepted_def spent_def word_gt_0 not_le)
qed

section \<open>Runs of calls\<close>

datatype throttle_call = Ask sentry_level cptr u64 | Settle u64

fun call_time :: "throttle_call \<Rightarrow> u64" where
  "call_time (Ask level message now) = now"
| "call_time (Settle now) = now"

fun throttle_step :: "throttle_call \<Rightarrow> sentry_throttle \<Rightarrow> sentry_throttle \<times> bool" where
  "throttle_step (Ask level message now) th = sentry_throttle_allow level message now th"
| "throttle_step (Settle now) th = (sentry_throttle_settle now th, False)"

fun throttle_run :: "throttle_call list \<Rightarrow> sentry_throttle \<Rightarrow> sentry_throttle" where
  "throttle_run [] th = th"
| "throttle_run (c # cs) th = throttle_run cs (fst (throttle_step c th))"

text \<open>The messages a run lets through, and those it asks for.\<close>

fun allowed :: "throttle_call list \<Rightarrow> sentry_throttle \<Rightarrow> nat" where
  "allowed [] th = 0"
| "allowed (c # cs) th = (if snd (throttle_step c th) then 1 else 0) + allowed cs (fst (throttle_step c th))"

fun asked :: "throttle_call list \<Rightarrow> nat" where
  "asked [] = 0"
| "asked (Ask level message now # cs) = Suc (asked cs)"
| "asked (Settle now # cs) = asked cs"

definition clock_runs :: "throttle_call list \<Rightarrow> bool" where
  "clock_runs cs \<longleftrightarrow> sorted (map call_time cs)"

lemma clock_ok_step:
  assumes "clock_ok now th" and "call_time c = now" and "now \<le> later"
  shows "clock_ok later (fst (throttle_step c th))"
  using assms by (cases c)
    (auto simp: clock_ok_def allow_cases [OF assms(1)] accepted_def sentry_throttle_settle_def
      intro: order_trans)

lemma max_step [simp]: "th_max_per_minute (fst (throttle_step c th)) = th_max_per_minute th"
  by (cases c) (auto simp: sentry_throttle_allow_def sentry_throttle_settle_def Let_def)

lemma throttle_ok_step:
  assumes "throttle_ok th" and "clock_ok (call_time c) th"
  shows "throttle_ok (fst (throttle_step c th))"
proof (cases c)
  case (Ask level message now)
  have "1 \<le> th_max_per_minute th" if "th_max_per_minute th \<noteq> 0"
    using that by (simp add: word_le_nat_alt unat_gt_0 Suc_le_eq)
  then show ?thesis
    using assms Ask word_succ_less(2) [of "th_sent_in_window th" "th_max_per_minute th"]
    by (auto simp: allow_cases throttle_ok_def accepted_def spent_def word_gt_0 not_le)
next
  case (Settle now)
  then show ?thesis using assms(1) by (simp add: throttle_ok_def sentry_throttle_settle_def)
qed

lemma sent_step:
  assumes "clock_ok (call_time c) th" and "0 < th_max_per_minute th"
    and "\<not> (window_over (call_time c) th \<and> snd (throttle_step c th))"
  shows "unat (th_sent_in_window (fst (throttle_step c th))) =
    unat (th_sent_in_window th) + (if snd (throttle_step c th) then 1 else 0)"
proof (cases c)
  case (Ask level message now)
  then show ?thesis
    using assms word_succ_less(1) [of "th_sent_in_window th" "th_max_per_minute th"]
    by (auto simp: allow_cases accepted_def spent_def not_le)
qed (simp add: sentry_throttle_settle_def)

text \<open>While the window lasts, at most what is left of the budget gets through.\<close>

lemma allowed_in_window:
  assumes "throttle_ok th" and "clock_runs cs" and "0 < th_max_per_minute th"
    and "\<forall>c \<in> set cs. clock_ok (call_time c) th \<and> \<not> window_over (call_time c) th"
  shows "allowed cs th + unat (th_sent_in_window th) \<le> unat (th_max_per_minute th)"
  using assms
proof (induction cs arbitrary: th)
  case Nil
  then show ?case by (simp add: throttle_ok_def word_le_nat_alt)
next
  case (Cons c cs)
  have c: "clock_ok (call_time c) th" "\<not> window_over (call_time c) th" using Cons.prems(4) by simp_all
  let ?th = "fst (throttle_step c th)"
  have ws: "th_window_start_ms ?th = th_window_start_ms th"
    using c by (cases c) (auto simp: allow_cases accepted_def sentry_throttle_settle_def)
  have "\<forall>d \<in> set cs. clock_ok (call_time d) ?th \<and> \<not> window_over (call_time d) ?th"
    using Cons.prems(2,4) clock_ok_step [OF c(1) refl] ws
    by (auto simp: clock_runs_def window_over_def)
  moreover have "throttle_ok ?th" by (rule throttle_ok_step [OF Cons.prems(1) c(1)])
  ultimately have "allowed cs ?th + unat (th_sent_in_window ?th) \<le> unat (th_max_per_minute th)"
    using Cons.IH [of ?th] Cons.prems(2,3) by (simp add: clock_runs_def)
  moreover note sent_step [OF c(1) Cons.prems(3)]
  ultimately show ?case using c(2) by simp
qed

lemma allowed_in_minute:
  assumes "throttle_ok th" and "clock_runs cs" and "0 < th_max_per_minute th"
    and "\<forall>c \<in> set cs. clock_ok (call_time c) th \<and> a \<le> unat (call_time c) \<and> unat (call_time c) < a + WINDOW"
  shows "allowed cs th + unat (th_sent_in_window th) \<le> 2 * unat (th_max_per_minute th)"
  using assms
proof (induction cs arbitrary: th)
  case Nil
  then show ?case by (simp add: throttle_ok_def word_le_nat_alt)
next
  case (Cons c cs)
  have c: "clock_ok (call_time c) th" using Cons.prems(4) by simp
  let ?th = "fst (throttle_step c th)"
  have ok: "throttle_ok ?th" by (rule throttle_ok_step [OF Cons.prems(1) c])
  have later: "\<forall>d \<in> set cs. clock_ok (call_time d) ?th"
    using Cons.prems(2) clock_ok_step [OF c refl] by (auto simp: clock_runs_def)
  have runs: "clock_runs cs" using Cons.prems(2) by (simp add: clock_runs_def)
  show ?case
  proof (cases "window_over (call_time c) th \<and> snd (throttle_step c th)")
    case True
    then obtain level message now where Ask: "c = Ask level message now" by (cases c) auto
    have th: "?th = accepted level message now th"
      using True Ask c by (auto simp: allow_cases split: if_splits)
    then have ws: "th_window_start_ms ?th = now" "th_sent_in_window ?th = 1"
      using True Ask Cons.prems(3) by (auto simp: accepted_def)
    have "\<forall>d \<in> set cs. \<not> window_over (call_time d) ?th"
      using Cons.prems(4) Ask ws by (auto simp: window_over_def)
    then have "allowed cs ?th + 1 \<le> unat (th_max_per_minute th)"
      using allowed_in_window [OF ok runs] later ws Cons.prems(3) by simp
    moreover have "unat (th_sent_in_window th) \<le> unat (th_max_per_minute th)"
      using Cons.prems(1) by (simp add: throttle_ok_def word_le_nat_alt)
    ultimately show ?thesis using True by simp
  next
    case False
    have "allowed cs ?th + unat (th_sent_in_window ?th) \<le> 2 * unat (th_max_per_minute th)"
      using Cons.IH [OF ok runs] later Cons.prems(3,4) by simp
    moreover note sent_step [OF c Cons.prems(3) False]
    ultimately show ?thesis by simp
  qed
qed

lemma throttle_run_ok:
  assumes "throttle_ok th" and "clock_runs (cs @ ds)" and "\<forall>c \<in> set (cs @ ds). clock_ok (call_time c) th"
  shows "throttle_ok (throttle_run cs th) \<and> (\<forall>d \<in> set ds. clock_ok (call_time d) (throttle_run cs th)) \<and>
    th_max_per_minute (throttle_run cs th) = th_max_per_minute th"
  using assms
proof (induction cs arbitrary: th)
  case (Cons c cs)
  let ?th = "fst (throttle_step c th)"
  have c: "clock_ok (call_time c) th" using Cons.prems(3) by simp
  have "\<forall>d \<in> set (cs @ ds). clock_ok (call_time d) ?th"
    using Cons.prems(2) clock_ok_step [OF c refl] by (auto simp: clock_runs_def)
  with Cons.IH [of ?th] throttle_ok_step [OF Cons.prems(1) c] Cons.prems(2)
  show ?case by (simp add: clock_runs_def)
qed simp

lemma throttle_init_ok [simp]:
  "throttle_ok (sentry_throttle_init budget w)" "clock_ok now (sentry_throttle_init budget w)"
  by (simp_all add: throttle_ok_def clock_ok_def sentry_throttle_init_def)

lemma suppressed_step:
  "th_suppressed (fst (throttle_step c th)) =
     th_suppressed th + (if asked [c] = 1 \<and> \<not> snd (throttle_step c th) then 1 else 0)"
  by (cases c) (auto simp: sentry_throttle_allow_def sentry_throttle_settle_def Let_def)

lemma suppressed_run:
  "th_suppressed (throttle_run cs th) + of_nat (allowed cs th) = th_suppressed th + of_nat (asked cs)"
proof (induction cs arbitrary: th)
  case (Cons c cs)
  have "asked (c # cs) = asked [c] + asked cs" by (cases c) simp_all
  moreover have "asked [c] = 0 \<Longrightarrow> \<not> snd (throttle_step c th)" "asked [c] = 0 \<or> asked [c] = 1"
    by (cases c; simp)+
  ultimately show ?case
    using Cons.IH [of "fst (throttle_step c th)"] suppressed_step [of c th]
    by (auto simp: algebra_simps)
qed simp

section \<open>Properties\<close>

text \<open>
  C22: Whatever a device did before, the calls of any one minute let through at most twice the
  budget, and the calls that fall into one window at most the budget, however many messages are
  captured and whatever they say.
\<close>

theorem throttle_bounds_every_minute:
  fixes budget :: u16 and w :: u32 and past calls :: "throttle_call list" and a :: nat
  defines "th \<equiv> throttle_run past (sentry_throttle_init budget w)"
  assumes "0 < budget" and "clock_runs (past @ calls)"
    and "\<forall>c \<in> set calls. a \<le> unat (call_time c) \<and> unat (call_time c) < a + WINDOW"
  shows "allowed calls th \<le> 2 * unat budget \<and>
    ((\<forall>c \<in> set calls. \<not> window_over (call_time c) th) \<longrightarrow> allowed calls th \<le> unat budget)"
proof -
  have th: "throttle_ok th" "\<forall>c \<in> set calls. clock_ok (call_time c) th" "th_max_per_minute th = budget"
    using throttle_run_ok [of "sentry_throttle_init budget w" past calls] assms(3)
    by (simp_all add: th_def sentry_throttle_init_def [of budget w, THEN arg_cong [where f = th_max_per_minute]])
  have runs: "clock_runs calls" using assms(3) by (simp add: clock_runs_def sorted_append)
  show ?thesis
    using allowed_in_minute [OF th(1) runs, of a] allowed_in_window [OF th(1) runs] th(2,3) assms(2,4)
    by auto
qed

theorem throttle_bounds_every_minute_witness:
  "allowed [Ask SENTRY_LEVEL_ERROR (Some ''a'') 60100, Ask SENTRY_LEVEL_ERROR (Some ''b'') 60200]
     (throttle_run [Ask SENTRY_LEVEL_ERROR (Some ''c'') 50000] (sentry_throttle_init 1 5)) \<le> 2"
  using throttle_bounds_every_minute [of 1 "[Ask SENTRY_LEVEL_ERROR (Some ''c'') 50000]"
      "[Ask SENTRY_LEVEL_ERROR (Some ''a'') 60100, Ask SENTRY_LEVEL_ERROR (Some ''b'') 60200]" 60000 5]
  by (simp add: clock_runs_def word_le_nat_alt)

text \<open>
  A capture is refused exactly when it repeats the last message let through within its repeat
  window, or when the window in progress has spent its budget; a refused one costs nothing but a
  count, and one let through restarts the repeat window, takes one from the budget and, when the
  window is over, starts the next one.
\<close>

theorem throttle_decision:
  assumes "clock_ok now th"
  shows "sentry_throttle_allow level message now th =
    (if repeats level message now th \<or> (\<not> window_over now th \<and> spent th)
     then (th\<lparr>th_suppressed := th_suppressed th + 1\<rparr>, False)
     else (accepted level message now th, True))"
  by (rule allow_cases [OF assms])

theorem throttle_decision_witness:
  "\<not> snd (sentry_throttle_allow SENTRY_LEVEL_INFO (Some ''x'') 7
     (accepted SENTRY_LEVEL_INFO (Some ''x'') 3 (sentry_throttle_init 0 10)))"
  using throttle_decision [of 7 "accepted SENTRY_LEVEL_INFO (Some ''x'') 3 (sentry_throttle_init 0 10)"
      SENTRY_LEVEL_INFO "Some ''x''"]
  by (simp add: clock_ok_def repeats_def accepted_def sentry_throttle_init_def)

text \<open>
  The count of suppressed captures is exact: over any calls from the start, it is the number
  of captures asked for less those let through.
\<close>

theorem throttle_suppressed_is_exact:
  assumes "asked cs < 2 ^ 32"
  shows "unat (sentry_throttle_suppressed (throttle_run cs (sentry_throttle_init budget w))) =
    asked cs - allowed cs (sentry_throttle_init budget w)"
proof -
  let ?th = "sentry_throttle_init budget w"
  have le: "allowed cs th \<le> asked cs" for th
  proof (induction cs arbitrary: th)
    case (Cons c cs)
    then show ?case by (cases c) (auto intro: le_SucI add_mono)
  qed simp
  have "th_suppressed (throttle_run cs ?th) = of_nat (asked cs) - of_nat (allowed cs ?th)"
    using suppressed_run [of cs ?th] by (simp add: sentry_throttle_init_def algebra_simps)
  also have "\<dots> = of_nat (asked cs - allowed cs ?th)" using le by simp
  finally show ?thesis
    using assms by (simp add: sentry_throttle_suppressed_def unat_of_nat take_bit_nat_eq_self)
qed

lemma asked_replicate: "asked (replicate n (Ask level message now)) = n"
  by (induction n) simp_all

theorem throttle_suppressed_is_exact_witness:
  "unat (sentry_throttle_suppressed (throttle_run (replicate 3 (Ask SENTRY_LEVEL_INFO None 5))
     (sentry_throttle_init 1 0))) = 3 - allowed (replicate 3 (Ask SENTRY_LEVEL_INFO None 5)) (sentry_throttle_init 1 0)"
  using throttle_suppressed_is_exact [of "replicate 3 (Ask SENTRY_LEVEL_INFO None 5)" 1 0]
  unfolding asked_replicate by simp

section \<open>What the rules do not promise\<close>

text \<open>
  The header says that at most \<open>max_per_minute\<close> messages get through in any 60-second window;
  across a window boundary it is twice that, in one millisecond.
\<close>

lemma throttle_burst_at_boundary:
  "allowed [Ask SENTRY_LEVEL_ERROR (Some ''a'') 59999, Ask SENTRY_LEVEL_ERROR (Some ''b'') 60000]
     (sentry_throttle_init 1 0) = 2"
  by (simp add: sentry_throttle_allow_def sentry_throttle_init_def SENTRY_MICRO_THROTTLE_WINDOW_MS_def)

end
