(* ===== verification/Sentry_Dsn.thy ===== *)
theory Sentry_Dsn
  imports Sentry_Prelude
begin

text \<open>
  DSN parsing and what is built from a DSN, \<open>src/core/sentry_dsn.c\<close>. \<open>sentry_dsn_parse\<close> is cut
  at its section comments; a stage that fails returns the struct as far as it was filled in,
  with \<open>valid\<close> still false. The URL and header builders give the C string they leave in the
  caller's buffer, \<open>None\<close> when they return before touching it, and the length returned.
\<close>

section \<open>Parsing\<close>

definition SENTRY_MICRO_MAX_DSN_LEN :: nat where "SENTRY_MICRO_MAX_DSN_LEN = 256"
definition SENTRY_MICRO_MAX_HOST_LEN :: nat where "SENTRY_MICRO_MAX_HOST_LEN = 128"
definition SENTRY_MICRO_MAX_KEY_LEN :: nat where "SENTRY_MICRO_MAX_KEY_LEN = 64"
definition SENTRY_MICRO_MAX_PATH_LEN :: nat where "SENTRY_MICRO_MAX_PATH_LEN = 64"
definition SENTRY_MICRO_MAX_PROJECT_ID_LEN :: nat where "SENTRY_MICRO_MAX_PROJECT_ID_LEN = 24"
definition DSN_ORG_ID_LEN :: nat where "DSN_ORG_ID_LEN = 21"

lemmas dsn_limits = SENTRY_MICRO_MAX_DSN_LEN_def SENTRY_MICRO_MAX_HOST_LEN_def
  SENTRY_MICRO_MAX_KEY_LEN_def SENTRY_MICRO_MAX_PATH_LEN_def SENTRY_MICRO_MAX_PROJECT_ID_LEN_def
  DSN_ORG_ID_LEN_def

record sentry_dsn =
  ds_valid :: bool
  ds_is_secure :: bool
  ds_public_key :: string
  ds_host :: string
  ds_path :: string
  ds_project_id :: string
  ds_org_id :: string
  ds_port :: u16

definition dsn_zero :: sentry_dsn where
  "dsn_zero = \<lparr>ds_valid = False, ds_is_secure = False, ds_public_key = [], ds_host = [],
     ds_path = [], ds_project_id = [], ds_org_id = [], ds_port = 0\<rparr>"

definition copy_bounded :: "nat \<Rightarrow> string \<Rightarrow> string option" where
  "copy_bounded cap src = (if length src + 1 > cap then None else Some src)"

definition parse_port :: "string \<Rightarrow> u16 option" where
  "parse_port src =
     (if length src = 0 \<or> length src > 5 then None
      else if \<not> list_all is_digit src then None
      else
        (let port = fold (\<lambda>c p. p * 10 + of_nat (code_of c - 48)) src (0 :: u32)
         in if port = 0 \<or> port > 65535 then None else Some (ucast port)))"

definition parse_org_id :: "string \<Rightarrow> string" where
  "parse_org_id host =
     (if cstr_at host 0 \<noteq> CHR ''o'' then []
      else if CHR ''.'' \<notin> set host then []
      else
        (let digits = takeWhile (\<lambda>c. c \<noteq> CHR ''.'') (tl host)
         in if length digits = 0 \<or> length digits \<ge> DSN_ORG_ID_LEN then []
            else if \<not> list_all is_digit digits then []
            else digits))"

text \<open>The project id and the path prefix, from the text \<open>rest\<close> that starts at the slash.\<close>

definition parse_path :: "sentry_dsn \<Rightarrow> string \<Rightarrow> sentry_dsn \<times> bool" where
  "parse_path d rest =
     (let region = rev (dropWhile (\<lambda>c. c = CHR ''/'') (rev rest));
          project = rev (takeWhile (\<lambda>c. c \<noteq> CHR ''/'') (rev region));
          prefix_len = length region - length project
      in if project = [] then (d, False)
         else
           (case copy_bounded SENTRY_MICRO_MAX_PROJECT_ID_LEN project of
              None \<Rightarrow> (d, False)
            | Some pid \<Rightarrow>
                (let d = d\<lparr>ds_project_id := pid\<rparr>
                 in if \<not> list_all is_digit pid then (d, False)
                    else if prefix_len > 0 then
                      (case copy_bounded SENTRY_MICRO_MAX_PATH_LEN (take (prefix_len - 1) region) of
                         None \<Rightarrow> (d, False)
                       | Some path \<Rightarrow>
                           (d\<lparr>ds_path := path, ds_org_id := parse_org_id (ds_host d), ds_valid := True\<rparr>, True))
                    else (d\<lparr>ds_org_id := parse_org_id (ds_host d), ds_valid := True\<rparr>, True))))"

definition parse_authority :: "sentry_dsn \<Rightarrow> string \<Rightarrow> sentry_dsn \<times> bool" where
  "parse_authority d cursor =
     (if CHR ''/'' \<notin> set cursor then (d, False)
      else
        (let authority = takeWhile (\<lambda>c. c \<noteq> CHR ''/'') cursor;
             host = takeWhile (\<lambda>c. c \<noteq> CHR '':'') authority;
             port = (if CHR '':'' \<in> set authority then parse_port (drop (length host + 1) authority)
                     else Some 0)
         in case port of
              None \<Rightarrow> (d, False)
            | Some p \<Rightarrow>
                (let d = d\<lparr>ds_port := p\<rparr>
                 in if host = [] then (d, False)
                    else
                      (case copy_bounded SENTRY_MICRO_MAX_HOST_LEN host of
                         None \<Rightarrow> (d, False)
                       | Some h \<Rightarrow> parse_path (d\<lparr>ds_host := h\<rparr>) (dropWhile (\<lambda>c. c \<noteq> CHR ''/'') cursor)))))"

definition parse_key :: "sentry_dsn \<Rightarrow> string \<Rightarrow> sentry_dsn \<times> bool" where
  "parse_key d cursor =
     (if CHR ''@'' \<notin> set cursor \<or> takeWhile (\<lambda>c. c \<noteq> CHR ''@'') cursor = [] then (d, False)
      else
        (let key = takeWhile (\<lambda>c. c \<noteq> CHR '':'') (takeWhile (\<lambda>c. c \<noteq> CHR ''@'') cursor)
         in if key = [] then (d, False)
            else
              (case copy_bounded SENTRY_MICRO_MAX_KEY_LEN key of
                 None \<Rightarrow> (d, False)
               | Some k \<Rightarrow>
                   parse_authority (d\<lparr>ds_public_key := k\<rparr>) (tl (dropWhile (\<lambda>c. c \<noteq> CHR ''@'') cursor)))))"

definition sentry_dsn_parse :: "cptr \<Rightarrow> sentry_dsn \<times> bool" where
  "sentry_dsn_parse dsn =
     (case dsn of
        None \<Rightarrow> (dsn_zero, False)
      | Some s \<Rightarrow>
          if length s = 0 \<or> length s \<ge> SENTRY_MICRO_MAX_DSN_LEN then (dsn_zero, False)
          else if take 8 s = ''https://'' then parse_key (dsn_zero\<lparr>ds_is_secure := True\<rparr>) (drop 8 s)
          else if take 7 s = ''http://'' then parse_key (dsn_zero\<lparr>ds_is_secure := False\<rparr>) (drop 7 s)
          else (dsn_zero, False))"

section \<open>Using a DSN\<close>

definition lower :: "char \<Rightarrow> char" where
  "lower c = (if CHR ''A'' \<le> c \<and> c \<le> CHR ''Z'' then char_of (code_of c - code_of CHR ''A'' + code_of CHR ''a'') else c)"

text \<open>\<open>strstr (url, "://")\<close>: the text from the first occurrence on.\<close>

fun find_scheme_end :: "string \<Rightarrow> string option" where
  "find_scheme_end [] = None"
| "find_scheme_end (c # cs) =
     (if take 3 (c # cs) = ''://'' then Some (c # cs) else find_scheme_end cs)"

definition sentry_url_host_matches :: "cptr \<Rightarrow> cptr \<Rightarrow> bool" where
  "sentry_url_host_matches url host =
     (case (url, host) of
        (Some u, Some h) \<Rightarrow>
          if h = [] then False
          else
            (case find_scheme_end u of
               None \<Rightarrow> False
             | Some at \<Rightarrow>
                 (let cursor = drop 3 at
                  in if CHR ''@'' \<in> set (takeWhile (\<lambda>c. c \<noteq> CHR ''/'') cursor) then False
                     else
                       (let name = takeWhile (\<lambda>c. c \<noteq> CHR ''/'' \<and> c \<noteq> CHR '':'') cursor
                        in if name = [] \<or> length h \<noteq> length name then False
                           else map lower name = map lower h)))
      | _ \<Rightarrow> False)"

definition sentry_dsn_resolve_org_id :: "sentry_dsn option \<Rightarrow> cptr \<Rightarrow> string" where
  "sentry_dsn_resolve_org_id dsn override =
     (if override \<noteq> None \<and> override \<noteq> Some [] then the override
      else (case dsn of Some d \<Rightarrow> if ds_valid d then ds_org_id d else [] | None \<Rightarrow> []))"

text \<open>\<open>snprintf\<close> of a text into \<open>buf_len\<close> bytes, with the check of both builders.\<close>

definition print_checked :: "string \<Rightarrow> nat \<Rightarrow> string option \<times> nat" where
  "print_checked text buf_len = (if length text \<ge> buf_len then (Some [], 0) else (Some text, length text))"

definition port_part :: "sentry_dsn \<Rightarrow> string" where
  "port_part d = (if ds_port d \<noteq> 0 then snprintf_content 8 ('':'' @ dec (unat (ds_port d))) else [])"

definition sentry_dsn_envelope_url :: "sentry_dsn \<Rightarrow> nat \<Rightarrow> string option \<times> nat" where
  "sentry_dsn_envelope_url d buf_len =
     (if \<not> ds_valid d \<or> buf_len = 0 then (None, 0)
      else print_checked
        ((if ds_is_secure d then ''https'' else ''http'') @ ''://'' @ ds_host d @ port_part d @
         ds_path d @ ''/api/'' @ ds_project_id d @ ''/envelope/'') buf_len)"

definition SENTRY_MICRO_SDK_USER_AGENT :: string where
  "SENTRY_MICRO_SDK_USER_AGENT = ''sentry.micro.esp32/0.1.0''"

definition sentry_dsn_auth_header :: "sentry_dsn \<Rightarrow> nat \<Rightarrow> string option \<times> nat" where
  "sentry_dsn_auth_header d buf_len =
     (if \<not> ds_valid d \<or> buf_len = 0 then (None, 0)
      else print_checked
        (''Sentry sentry_version=7, sentry_client='' @ SENTRY_MICRO_SDK_USER_AGENT @
         '', sentry_key='' @ ds_public_key d) buf_len)"

section \<open>What a parsed DSN is\<close>

definition dsn_ok :: "sentry_dsn \<Rightarrow> bool" where
  "dsn_ok d \<longleftrightarrow> ds_valid d \<and>
     ds_public_key d \<noteq> [] \<and> length (ds_public_key d) < SENTRY_MICRO_MAX_KEY_LEN \<and>
     set (ds_public_key d) \<inter> {CHR ''@'', CHR '':''} = {} \<and>
     ds_host d \<noteq> [] \<and> length (ds_host d) < SENTRY_MICRO_MAX_HOST_LEN \<and>
     set (ds_host d) \<inter> {CHR ''/'', CHR '':''} = {} \<and>
     length (ds_path d) < SENTRY_MICRO_MAX_PATH_LEN \<and> (ds_path d = [] \<or> hd (ds_path d) = CHR ''/'') \<and>
     ds_project_id d \<noteq> [] \<and> length (ds_project_id d) < SENTRY_MICRO_MAX_PROJECT_ID_LEN \<and>
     list_all is_digit (ds_project_id d) \<and> ds_org_id d = parse_org_id (ds_host d)"

lemma copy_bounded_Some: "copy_bounded cap s = Some t \<longleftrightarrow> t = s \<and> length s < cap"
  by (auto simp: copy_bounded_def)

lemma takeWhile_free: "c \<notin> set (takeWhile (\<lambda>x. x \<noteq> c) s)"
  by (auto dest: set_takeWhileD)

text \<open>The text a DSN is written as, with the parts a record does not keep: a secret after the
  key, the digits of the port, trailing slashes.\<close>

definition port_number :: "string \<Rightarrow> nat" where
  "port_number digits = fold (\<lambda>c n. 10 * n + (code_of c - 48)) digits 0"

definition port_written :: "u16 \<Rightarrow> string \<Rightarrow> bool" where
  "port_written p s \<longleftrightarrow> (s = [] \<and> p = 0) \<or>
     (\<exists>digits. s = CHR '':'' # digits \<and> digits \<noteq> [] \<and> length digits \<le> 5 \<and>
        list_all is_digit digits \<and> port_number digits = unat p \<and> p \<noteq> 0)"

definition dsn_written :: "sentry_dsn \<Rightarrow> string \<Rightarrow> bool" where
  "dsn_written d s \<longleftrightarrow> (\<exists>secret port trail.
     s = (if ds_is_secure d then ''https://'' else ''http://'') @ ds_public_key d @ secret @ ''@'' @
         ds_host d @ port @ ds_path d @ ''/'' @ ds_project_id d @ trail \<and>
     (secret = [] \<or> hd secret = CHR '':'') \<and> CHR ''@'' \<notin> set secret \<and>
     port_written (ds_port d) port \<and> set trail \<subseteq> {CHR ''/''})"

lemma port_number_less: "list_all is_digit ds \<Longrightarrow>
  fold (\<lambda>c n. 10 * n + (code_of c - 48)) ds a < (a + 1) * 10 ^ length ds"
proof (induction ds arbitrary: a)
  case (Cons c ds)
  then have "code_of c - 48 \<le> 9" by (auto simp: is_digit_code)
  then have "10 * a + (code_of c - 48) + 1 \<le> (a + 1) * 10" by simp
  then have "(10 * a + (code_of c - 48) + 1) * 10 ^ length ds \<le> (a + 1) * 10 * 10 ^ length ds"
    by (rule mult_right_mono) simp
  moreover have "fold (\<lambda>c n. 10 * n + (code_of c - 48)) ds (10 * a + (code_of c - 48)) <
      (10 * a + (code_of c - 48) + 1) * 10 ^ length ds"
    using Cons.prems by (intro Cons.IH) simp
  ultimately have "fold (\<lambda>c n. 10 * n + (code_of c - 48)) ds (10 * a + (code_of c - 48)) <
      (a + 1) * 10 * 10 ^ length ds"
    by simp
  then show ?case by (simp add: algebra_simps)
qed simp

lemma port_fold_word:
  "fold (\<lambda>c p. p * 10 + of_nat (code_of c - 48)) ds (of_nat a :: u32) =
     of_nat (fold (\<lambda>c n. 10 * n + (code_of c - 48)) ds a)"
proof (induction ds arbitrary: a)
  case (Cons c ds)
  then show ?case using Cons [of "10 * a + (code_of c - 48)"] by (simp add: mult.commute)
qed simp

lemma parse_port_iff: "parse_port ds = Some p \<longleftrightarrow> ds \<noteq> [] \<and> length ds \<le> 5 \<and>
  list_all is_digit ds \<and> port_number ds = unat p \<and> p \<noteq> 0"
proof (cases "ds \<noteq> [] \<and> length ds \<le> 5 \<and> list_all is_digit ds")
  case True
  then have "(10::nat) ^ length ds \<le> 10 ^ 5" by (intro power_increasing) auto
  then have small: "port_number ds < 100000"
    using True port_number_less [of ds 0] by (simp add: port_number_def)
  have "fold (\<lambda>c p. p * 10 + of_nat (code_of c - 48)) ds (0 :: u32) = of_nat (port_number ds)"
    using port_fold_word [of ds 0] by (simp add: port_number_def)
  then have e: "parse_port ds = (if (of_nat (port_number ds) :: u32) = 0 \<or> (of_nat (port_number ds) :: u32) > 65535
      then None else Some (ucast (of_nat (port_number ds) :: u32)))"
    using True by (simp add: parse_port_def)
  have u: "unat (of_nat (port_number ds) :: u32) = port_number ds"
    using small by (simp add: unat_of_nat)
  have z: "(of_nat (port_number ds) :: u32) = 0 \<longleftrightarrow> port_number ds = 0"
    and g: "(of_nat (port_number ds) :: u32) > 65535 \<longleftrightarrow> port_number ds > 65535"
    using u by (simp_all add: unat_eq_0 [symmetric] word_less_nat_alt)
  have c: "ucast (of_nat (port_number ds) :: u32) = p \<longleftrightarrow> port_number ds = unat p" if "port_number ds < 65536"
    using that u by (auto simp: word_unat_eq_iff unsigned_ucast_eq unsigned_take_bit_eq take_bit_eq_mod)
  have "unat p < 65536" using unsigned_less [of p] by simp
  then show ?thesis using True unfolding e z g by (auto simp: c unat_eq_0)
next
  case False
  then show ?thesis by (auto simp: parse_port_def)
qed

lemma port_of_dec: "p \<noteq> 0 \<Longrightarrow> port_written p (CHR '':'' # dec (unat p))"
proof -
  assume "p \<noteq> 0"
  moreover have "unat p < 65536" using unsigned_less [of p] by simp
  ultimately show ?thesis using length_dec [of "unat p" 5]
    by (auto simp: port_written_def port_number_def fold_dec list_all_iff dec_digits)
qed

text \<open>Cutting trailing slashes off, and the last segment off what is left.\<close>

lemma trim_slashes:
  assumes "region = rev (dropWhile (\<lambda>c. c = CHR ''/'') (rev rest))"
  shows "\<exists>slashes. rest = region @ slashes \<and> set slashes \<subseteq> {CHR ''/''}"
proof (intro exI conjI)
  show "rest = region @ rev (takeWhile (\<lambda>c. c = CHR ''/'') (rev rest))"
    using assms by (metis rev_append rev_rev_ident takeWhile_dropWhile_id)
qed (auto dest: set_takeWhileD)

lemma last_segment:
  assumes "project = rev (takeWhile (\<lambda>c. c \<noteq> CHR ''/'') (rev region))"
  shows "\<exists>front. region = front @ project \<and> (front = [] \<or> last front = CHR ''/'')"
    and "CHR ''/'' \<notin> set project"
proof -
  let ?front = "rev (dropWhile (\<lambda>c. c \<noteq> CHR ''/'') (rev region))"
  have "region = ?front @ project"
    using assms by (metis rev_append rev_rev_ident takeWhile_dropWhile_id)
  moreover have "?front = [] \<or> last ?front = CHR ''/''"
    using hd_dropWhile [of "\<lambda>c. c \<noteq> CHR ''/''" "rev region"] by (auto simp: last_rev)
  ultimately show "\<exists>front. region = front @ project \<and> (front = [] \<or> last front = CHR ''/'')" by blast
  show "CHR ''/'' \<notin> set project" using assms takeWhile_free by (metis set_rev)
qed

lemma parse_path_ok:
  assumes "parse_path d rest = (d', True)" and "rest \<noteq> []" and "hd rest = CHR ''/''"
  shows "\<exists>path pid trail. rest = path @ ''/'' @ pid @ trail \<and> set trail \<subseteq> {CHR ''/''} \<and> d' = d\<lparr>ds_project_id := pid, ds_path := path, ds_org_id := parse_org_id (ds_host d), ds_valid := True\<rparr> \<and>
    length path < SENTRY_MICRO_MAX_PATH_LEN \<and> (path = [] \<or> hd path = CHR ''/'') \<and>
    pid \<noteq> [] \<and> length pid < SENTRY_MICRO_MAX_PROJECT_ID_LEN \<and> list_all is_digit pid"
proof -
  obtain region where region: "region = rev (dropWhile (\<lambda>c. c = CHR ''/'') (rev rest))" by simp
  obtain project where project: "project = rev (takeWhile (\<lambda>c. c \<noteq> CHR ''/'') (rev region))" by simp
  note p = assms(1) [unfolded parse_path_def, folded region, unfolded Let_def, folded project]
  have ne: "project \<noteq> []" using p by auto
  obtain slashes front where split: "rest = region @ slashes" "region = front @ project"
    and trail: "set slashes \<subseteq> {CHR ''/''}" and front: "front = [] \<or> last front = CHR ''/''"
    using trim_slashes [OF region] last_segment(1) [OF project] by blast
  then have hd: "hd region = CHR ''/''" "region \<noteq> []" using ne assms(3) by (cases front; cases project; simp)+
  have nf: "front \<noteq> []"
  proof
    assume "front = []"
    then have "CHR ''/'' \<in> set project" using split hd by (metis append_Nil hd_in_set)
    then show False using last_segment(2) [OF project] by simp
  qed
  then have pre: "length region - length project > 0" using split by simp
  obtain path where path: "path = take (length region - length project - 1) region" by simp
  have slash: "path = [] \<or> hd path = CHR ''/''"
    using hd by (cases "length region - length project - 1"; cases region) (auto simp: path)
  have fits: "length project < SENTRY_MICRO_MAX_PROJECT_ID_LEN" "list_all is_digit project"
    "length path < SENTRY_MICRO_MAX_PATH_LEN"
    and d': "d' = d\<lparr>ds_project_id := project, ds_path := path, ds_org_id := parse_org_id (ds_host d), ds_valid := True\<rparr>"
    using p ne pre unfolding path [symmetric]
    by (auto simp: copy_bounded_Some split: if_splits option.splits)
  have "path = butlast front" using split nf by (simp add: path butlast_conv_take)
  then have "front = path @ ''/''" using front nf by (metis append_butlast_last_id)
  then have whole: "rest = path @ ''/'' @ project @ slashes" using split by simp
  show ?thesis by (intro exI conjI) (rule whole trail d' fits slash ne)+
qed

text \<open>The other direction: written text parses back, stage by stage.\<close>

lemma trailing_cut:
  assumes "set trail \<subseteq> {CHR ''/''}" and "s = [] \<or> last s \<noteq> CHR ''/''"
  shows "rev (dropWhile (\<lambda>c. c = CHR ''/'') (rev (s @ trail))) = s"
proof -
  have "dropWhile (\<lambda>c. c = CHR ''/'') (rev trail @ rev s) = dropWhile (\<lambda>c. c = CHR ''/'') (rev s)"
    using assms(1) by (intro dropWhile_append2) auto
  also have "\<dots> = rev s" using assms(2) by (cases s rule: rev_cases) auto
  finally show ?thesis by simp
qed

lemma takeWhile_stop: "\<forall>x \<in> set a. P x \<Longrightarrow> \<not> P b \<Longrightarrow> takeWhile P (a @ b # c) = a"
  by simp

lemma dropWhile_stop: "\<forall>x \<in> set a. P x \<Longrightarrow> \<not> P b \<Longrightarrow> dropWhile P (a @ b # c) = b # c"
  by simp

lemma parse_path_written:
  assumes "set trail \<subseteq> {CHR ''/''}" and "pid \<noteq> []" and "list_all is_digit pid"
    and "length pid < SENTRY_MICRO_MAX_PROJECT_ID_LEN" and "length path < SENTRY_MICRO_MAX_PATH_LEN"
  shows "parse_path d (path @ ''/'' @ pid @ trail) =
    (d\<lparr>ds_project_id := pid, ds_path := path, ds_org_id := parse_org_id (ds_host d), ds_valid := True\<rparr>, True)"
proof -
  have digits: "\<forall>c \<in> set pid. c \<noteq> CHR ''/''" using assms(3) by (auto simp: list_all_iff is_digit_code)
  then have region: "rev (dropWhile (\<lambda>c. c = CHR ''/'') (rev (path @ ''/'' @ pid @ trail))) = path @ ''/'' @ pid"
    using trailing_cut [OF assms(1), of "path @ ''/'' @ pid"] assms(2) by (auto simp: last_append)
  have "rev (path @ ''/'' @ pid) = rev pid @ CHR ''/'' # rev path" by simp
  then have "takeWhile (\<lambda>c. c \<noteq> CHR ''/'') (rev (path @ ''/'' @ pid)) = rev pid"
    using digits by (simp only: takeWhile_stop set_rev)
  then have project: "rev (takeWhile (\<lambda>c. c \<noteq> CHR ''/'') (rev (path @ ''/'' @ pid))) = pid" by simp
  show ?thesis
    unfolding parse_path_def Let_def region project
    using assms by (auto simp: copy_bounded_def)
qed

lemma scan_before: "c \<notin> set a \<Longrightarrow> takeWhile (\<lambda>x. x \<noteq> c) (a @ c # b) = a"
  by (induction a) auto

lemma port_cut:
  assumes "(if CHR '':'' \<in> set a then parse_port (drop (length (takeWhile (\<lambda>c. c \<noteq> CHR '':'') a) + 1) a)
    else Some 0) = Some p"
  shows "port_written p (dropWhile (\<lambda>c. c \<noteq> CHR '':'') a)"
proof (cases "CHR '':'' \<in> set a")
  case True
  then obtain b c where a: "a = b @ CHR '':'' # c" "CHR '':'' \<notin> set b" by (meson split_list_first)
  have d: "dropWhile (\<lambda>x. x \<noteq> CHR '':'') a = CHR '':'' # c"
    unfolding a(1) using a(2) by (intro dropWhile_stop) auto
  have "parse_port c = Some p" using assms True by (simp add: scan_before a)
  then show ?thesis unfolding d by (simp add: port_written_def parse_port_iff)
next
  case False
  then have "dropWhile (\<lambda>x. x \<noteq> CHR '':'') a = []" by (auto simp: dropWhile_eq_Nil_conv)
  then show ?thesis using assms False by (simp add: port_written_def)
qed

lemma digit_not_slash: "\<not> is_digit CHR ''/''"
  by (simp add: is_digit_code)

lemma parse_authority_written:
  assumes "host \<noteq> []" "length host < SENTRY_MICRO_MAX_HOST_LEN" "set host \<inter> {CHR ''/'', CHR '':''} = {}"
    and "port_written p port" and "rest \<noteq> []" "hd rest = CHR ''/''"
  shows "parse_authority d (host @ port @ rest) = parse_path (d\<lparr>ds_port := p, ds_host := host\<rparr>) rest"
proof -
  obtain r where rest: "rest = CHR ''/'' # r" using assms by (cases rest) auto
  have free: "\<forall>c \<in> set (host @ port). c \<noteq> CHR ''/''"
    using assms(3,4) digit_not_slash by (auto simp: port_written_def list_all_iff)
  have tw: "takeWhile (\<lambda>c. c \<noteq> CHR ''/'') (host @ port @ rest) = host @ port"
    and dw: "dropWhile (\<lambda>c. c \<noteq> CHR ''/'') (host @ port @ rest) = rest"
    using takeWhile_stop [OF free, of "CHR ''/''" r] dropWhile_stop [OF free, of "CHR ''/''" r] by (simp_all add: rest)
  have h: "takeWhile (\<lambda>c. c \<noteq> CHR '':'') (host @ port) = host"
    using assms(3,4) by (auto simp: port_written_def takeWhile_append2 scan_before)
  have pp: "(if CHR '':'' \<in> set (host @ port) then parse_port (drop (length host + 1) (host @ port)) else Some 0) = Some p"
    using assms(3,4) by (auto simp: port_written_def parse_port_iff)
  have "CHR ''/'' \<in> set (host @ port @ rest)" by (simp add: rest)
  then show ?thesis
    using assms(1,2) unfolding parse_authority_def Let_def tw dw h pp by (simp add: copy_bounded_def)
qed

lemma parse_key_written:
  assumes "key \<noteq> []" "length key < SENTRY_MICRO_MAX_KEY_LEN" "set key \<inter> {CHR ''@'', CHR '':''} = {}"
    and "secret = [] \<or> hd secret = CHR '':''" and "CHR ''@'' \<notin> set secret"
  shows "parse_key d (key @ secret @ ''@'' @ rest) = parse_authority (d\<lparr>ds_public_key := key\<rparr>) rest"
proof -
  have free: "\<forall>c \<in> set (key @ secret). c \<noteq> CHR ''@''" using assms by auto
  have tw: "takeWhile (\<lambda>c. c \<noteq> CHR ''@'') (key @ secret @ ''@'' @ rest) = key @ secret"
    and dw: "dropWhile (\<lambda>c. c \<noteq> CHR ''@'') (key @ secret @ ''@'' @ rest) = ''@'' @ rest"
    using takeWhile_stop [OF free, of "CHR ''@''" rest] dropWhile_stop [OF free, of "CHR ''@''" rest] by simp_all
  have k: "takeWhile (\<lambda>c. c \<noteq> CHR '':'') (key @ secret) = key"
    using assms(3,4) by (cases secret) (auto simp: scan_before takeWhile_append2)
  show ?thesis
    using assms(1,2) unfolding parse_key_def Let_def tw dw k by (simp add: copy_bounded_def)
qed

text \<open>What a scan for a character leaves, put back together.\<close>

lemma scan_split: "c \<in> set s \<Longrightarrow>
  s = takeWhile (\<lambda>x. x \<noteq> c) s @ c # tl (dropWhile (\<lambda>x. x \<noteq> c) s)"
  by (induction s) auto

lemma scan_twice: "takeWhile P (takeWhile Q c) @ dropWhile P (takeWhile Q c) @ dropWhile Q c = c"
  by (simp only: append_assoc [symmetric] takeWhile_dropWhile_id)

lemma dropWhile_hd: "dropWhile (\<lambda>x. x \<noteq> c) s = [] \<or> hd (dropWhile (\<lambda>x. x \<noteq> c) s) = c"
  by (induction s) auto


lemma parse_ok:
  assumes "sentry_dsn_parse (Some dsn) = (d, True)"
  shows "dsn_ok d" and "dsn_written d dsn" and "length dsn < SENTRY_MICRO_MAX_DSN_LEN"
proof -
  obtain sec s where k: "parse_key (dsn_zero\<lparr>ds_is_secure := sec\<rparr>) s = (d, True)"
    and src: "dsn = (if sec then ''https://'' else ''http://'') @ s"
  proof (cases "take 8 dsn = ''https://''")
    case True
    then have "dsn = ''https://'' @ drop 8 dsn" by (metis append_take_drop_id)
    with True assms that [of True "drop 8 dsn"] show ?thesis
      unfolding sentry_dsn_parse_def by (simp split: if_splits)
  next
    case False
    then have "take 7 dsn = ''http://''" using assms by (auto simp: sentry_dsn_parse_def split: if_splits)
    moreover then have "dsn = ''http://'' @ drop 7 dsn" by (metis append_take_drop_id)
    ultimately show ?thesis using False assms that [of False "drop 7 dsn"]
      unfolding sentry_dsn_parse_def by (simp split: if_splits)
  qed
  let ?key = "takeWhile (\<lambda>c. c \<noteq> CHR '':'') (takeWhile (\<lambda>c. c \<noteq> CHR ''@'') s)"
  let ?c = "tl (dropWhile (\<lambda>c. c \<noteq> CHR ''@'') s)"
  let ?secret = "dropWhile (\<lambda>c. c \<noteq> CHR '':'') (takeWhile (\<lambda>c. c \<noteq> CHR ''@'') s)"
  have key: "?key \<noteq> []" "length ?key < SENTRY_MICRO_MAX_KEY_LEN" "set ?key \<inter> {CHR ''@'', CHR '':''} = {}"
    and at_sign: "CHR ''@'' \<in> set s"
    and a: "parse_authority (dsn_zero\<lparr>ds_is_secure := sec, ds_public_key := ?key\<rparr>) ?c = (d, True)"
    using k by (auto simp: parse_key_def Let_def copy_bounded_Some split: if_splits option.splits
        dest!: set_takeWhileD)
  let ?host = "takeWhile (\<lambda>c. c \<noteq> CHR '':'') (takeWhile (\<lambda>c. c \<noteq> CHR ''/'') ?c)"
  let ?rest = "dropWhile (\<lambda>c. c \<noteq> CHR ''/'') ?c"
  have slash: "CHR ''/'' \<in> set ?c" using a by (auto simp: parse_authority_def split: if_splits)
  then have rest: "?rest \<noteq> []" by auto
  from hd_dropWhile [OF this] have hd_rest: "hd ?rest = CHR ''/''" by simp
  let ?port = "dropWhile (\<lambda>c. c \<noteq> CHR '':'') (takeWhile (\<lambda>c. c \<noteq> CHR ''/'') ?c)"
  obtain p where host: "?host \<noteq> []" "length ?host < SENTRY_MICRO_MAX_HOST_LEN"
      "set ?host \<inter> {CHR ''/'', CHR '':''} = {}"
    and pp: "parse_path (dsn_zero\<lparr>ds_is_secure := sec, ds_public_key := ?key, ds_port := p, ds_host := ?host\<rparr>) ?rest = (d, True)"
    and "(if CHR '':'' \<in> set (takeWhile (\<lambda>c. c \<noteq> CHR ''/'') ?c)
      then parse_port (drop (length ?host + 1) (takeWhile (\<lambda>c. c \<noteq> CHR ''/'') ?c)) else Some 0) = Some p"
    using a by (auto simp: parse_authority_def Let_def copy_bounded_Some split: if_splits option.splits
        dest!: set_takeWhileD)
  then have pw: "port_written p ?port" by (intro port_cut)
  from parse_path_ok [OF pp rest hd_rest] show "dsn_ok d"
    using key host by (auto simp: dsn_ok_def)
  have "?key @ ?secret @ ''@'' @ ?host @ ?port @ ?rest = takeWhile (\<lambda>c. c \<noteq> CHR ''@'') s @ ''@'' @ ?c"
    by (simp only: scan_twice) (simp only: append_assoc [symmetric] takeWhile_dropWhile_id)
  then have "s = ?key @ ?secret @ ''@'' @ ?host @ ?port @ ?rest"
    using scan_split [OF at_sign] by simp
  moreover obtain path pid trail where t: "?rest = path @ ''/'' @ pid @ trail" "set trail \<subseteq> {CHR ''/''}"
    and d: "d = dsn_zero\<lparr>ds_is_secure := sec, ds_public_key := ?key, ds_port := p, ds_host := ?host,
      ds_project_id := pid, ds_path := path, ds_org_id := parse_org_id ?host, ds_valid := True\<rparr>"
    using parse_path_ok [OF pp rest hd_rest] by auto
  ultimately have e: "s = ?key @ ?secret @ ''@'' @ ?host @ ?port @ path @ ''/'' @ pid @ trail" by simp
  have f: "ds_is_secure d = sec" "ds_public_key d = ?key" "ds_port d = p" "ds_host d = ?host"
      "ds_project_id d = pid" "ds_path d = path"
    unfolding d by simp_all
  show "dsn_written d dsn"
    unfolding dsn_written_def f src
  proof (intro exI conjI)
    show "(if sec then ''https://'' else ''http://'') @ s = (if sec then ''https://'' else ''http://'') @
      ?key @ ?secret @ ''@'' @ ?host @ ?port @ path @ ''/'' @ pid @ trail"
      by (rule arg_cong [OF e])
    show "?secret = [] \<or> hd ?secret = CHR '':''" by (rule dropWhile_hd)
    show "CHR ''@'' \<notin> set ?secret" by (auto dest: set_dropWhileD set_takeWhileD)
  qed (rule pw t(2))+
  show "length dsn < SENTRY_MICRO_MAX_DSN_LEN"
    using assms by (auto simp: sentry_dsn_parse_def split: if_splits)
qed

lemma parse_stage_invalid:
  "parse_path d s = (d', False) \<Longrightarrow> ds_valid d' = ds_valid d"
  "parse_authority d s = (d', False) \<Longrightarrow> ds_valid d' = ds_valid d"
  "parse_key d s = (d', False) \<Longrightarrow> ds_valid d' = ds_valid d"
proof -
  show path: "ds_valid d' = ds_valid d" if "parse_path d s = (d', False)" for d s d'
    using that by (auto simp: parse_path_def Let_def split: option.splits if_splits)
  show auth: "ds_valid d' = ds_valid d" if "parse_authority d s = (d', False)" for d s d'
    using that by (auto simp: parse_authority_def Let_def dest: path split: option.splits if_splits)
  show "ds_valid d' = ds_valid d" if "parse_key d s = (d', False)"
    using that by (auto simp: parse_key_def Let_def dest: auth split: option.splits if_splits)
qed

lemma parse_invalid: "sentry_dsn_parse dsn = (d, False) \<Longrightarrow> \<not> ds_valid d"
  by (auto simp: sentry_dsn_parse_def dsn_zero_def dest: parse_stage_invalid(3)
      split: option.splits if_splits)

lemma parse_written:
  assumes ok: "dsn_ok d" and wr: "dsn_written d s" and len: "length s < SENTRY_MICRO_MAX_DSN_LEN"
  shows "sentry_dsn_parse (Some s) = (d, True)"
proof -
  obtain secret port trail where s: "s = (if ds_is_secure d then ''https://'' else ''http://'') @
      ds_public_key d @ secret @ ''@'' @ ds_host d @ port @ ds_path d @ ''/'' @ ds_project_id d @ trail"
    and secret: "secret = [] \<or> hd secret = CHR '':''" "CHR ''@'' \<notin> set secret"
    and port: "port_written (ds_port d) port" and trail: "set trail \<subseteq> {CHR ''/''}"
    using wr unfolding dsn_written_def by blast
  let ?d = "dsn_zero\<lparr>ds_is_secure := ds_is_secure d, ds_public_key := ds_public_key d\<rparr>"
  let ?rest = "ds_path d @ ''/'' @ ds_project_id d @ trail"
  have rest: "?rest \<noteq> []" "hd ?rest = CHR ''/''" using ok by (auto simp: dsn_ok_def hd_append)
  have "sentry_dsn_parse (Some s) = parse_key (dsn_zero\<lparr>ds_is_secure := ds_is_secure d\<rparr>)
      (ds_public_key d @ secret @ ''@'' @ ds_host d @ port @ ?rest)"
    using len by (simp add: sentry_dsn_parse_def s)
  also have "\<dots> = parse_authority ?d (ds_host d @ port @ ?rest)"
    using ok secret by (subst parse_key_written) (auto simp: dsn_ok_def)
  also have "\<dots> = parse_path (?d\<lparr>ds_port := ds_port d, ds_host := ds_host d\<rparr>) ?rest"
    using ok port rest by (subst parse_authority_written) (auto simp: dsn_ok_def)
  also have "\<dots> = (d, True)"
    using ok trail by (subst parse_path_written) (auto simp: dsn_ok_def dsn_zero_def)
  finally show ?thesis .
qed

text \<open>
  C20: What \<open>sentry_dsn_parse\<close> accepts, exactly: at most 255 bytes of
  \<open>http[s]://key[:secret]@host[:port][/prefix]/project\<close> with any number of trailing slashes, the
  key, host, prefix and project id within their arrays, the project id all digits and the port a
  number from 1 to 65535 of at most five digits; and then the record it fills holds those parts,
  the org id read off the host and \<open>valid\<close>. A text it refuses leaves \<open>valid\<close> false.
\<close>

theorem dsn_grammar:
  "(sentry_dsn_parse (Some s) = (d, True) \<longleftrightarrow>
      dsn_ok d \<and> dsn_written d s \<and> length s < SENTRY_MICRO_MAX_DSN_LEN) \<and>
   (snd (sentry_dsn_parse (Some s)) \<longleftrightarrow> ds_valid (fst (sentry_dsn_parse (Some s))))"
proof (intro conjI)
  show "sentry_dsn_parse (Some s) = (d, True) \<longleftrightarrow>
      dsn_ok d \<and> dsn_written d s \<and> length s < SENTRY_MICRO_MAX_DSN_LEN"
    using parse_ok parse_written by blast
  obtain d' b where p: "sentry_dsn_parse (Some s) = (d', b)" by fastforce
  show "snd (sentry_dsn_parse (Some s)) \<longleftrightarrow> ds_valid (fst (sentry_dsn_parse (Some s)))"
  proof (cases b)
    case True
    then show ?thesis using p parse_ok(1) [of s d'] by (simp add: dsn_ok_def)
  next
    case False
    then show ?thesis using p parse_invalid [of "Some s" d'] by simp
  qed
qed

section \<open>The requests a DSN gives\<close>

lemma find_scheme_end_scheme:
  assumes "CHR '':'' \<notin> set scheme"
  shows "find_scheme_end (scheme @ ''://'' @ rest) = Some (''://'' @ rest)"
  using assms
proof (induction scheme)
  case (Cons c cs)
  then have "take 3 ((c # cs) @ ''://'' @ rest) \<noteq> ''://''" by auto
  with Cons show ?case by (simp del: take_append)
qed simp

lemma url_name:
  "takeWhile (\<lambda>c. c \<noteq> CHR ''/'' \<and> c \<noteq> CHR '':'') cursor = name \<longleftrightarrow>
     (\<exists>tail. cursor = name @ tail \<and> (tail = [] \<or> hd tail \<in> {CHR ''/'', CHR '':''}) \<and>
        set name \<inter> {CHR ''/'', CHR '':''} = {})"
  (is "takeWhile ?P cursor = name \<longleftrightarrow> ?r")
proof
  assume n: "takeWhile ?P cursor = name"
  have "hd (dropWhile ?P cursor) \<in> {CHR ''/'', CHR '':''}" if "dropWhile ?P cursor \<noteq> []"
    using hd_dropWhile [OF that] by auto
  then have "dropWhile ?P cursor = [] \<or> hd (dropWhile ?P cursor) \<in> {CHR ''/'', CHR '':''}" by blast
  moreover have "set name \<inter> {CHR ''/'', CHR '':''} = {}" using n by (auto dest: set_takeWhileD)
  ultimately show ?r using takeWhile_dropWhile_id [of ?P cursor, unfolded n] by - (intro exI conjI, rule sym)
next
  assume ?r
  then obtain tail where t: "cursor = name @ tail" "tail = [] \<or> hd tail \<in> {CHR ''/'', CHR '':''}"
    "\<forall>c \<in> set name. ?P c" by blast
  then have "takeWhile ?P cursor = name @ takeWhile ?P tail" by (simp add: takeWhile_append2)
  also have "takeWhile ?P tail = []" using t(2) by (cases tail) auto
  finally show "takeWhile ?P cursor = name" by simp
qed

text \<open>
  C24: The whitelist check of the relay. For a URL \<open>scheme://rest\<close>, \<open>sentry_url_host_matches\<close>
  says yes exactly when the authority has no userinfo (no \<open>@\<close> before the first slash) and the host
  name, which ends at the first colon, slash or the end of the text, is the given host up to the
  case of its letters; in particular neither a longer name with the host as prefix or suffix nor
  an empty one passes.
\<close>

theorem url_whitelist:
  assumes "CHR '':'' \<notin> set scheme"
  shows "sentry_url_host_matches (Some (scheme @ ''://'' @ rest)) (Some host) \<longleftrightarrow>
    CHR ''@'' \<notin> set (takeWhile (\<lambda>c. c \<noteq> CHR ''/'') rest) \<and> host \<noteq> [] \<and>
    (\<exists>name tail. rest = name @ tail \<and> (tail = [] \<or> hd tail \<in> {CHR ''/'', CHR '':''}) \<and>
       set name \<inter> {CHR ''/'', CHR '':''} = {} \<and> map lower name = map lower host)"
proof -
  have same: "(if name = [] \<or> length host \<noteq> length name then False else map lower name = map lower host) \<longleftrightarrow>
      map lower name = map lower host" if "host \<noteq> []" for name
    using that by (metis length_map list.map_disc_iff)
  have "sentry_url_host_matches (Some (scheme @ ''://'' @ rest)) (Some host) \<longleftrightarrow>
      CHR ''@'' \<notin> set (takeWhile (\<lambda>c. c \<noteq> CHR ''/'') rest) \<and> host \<noteq> [] \<and>
      map lower (takeWhile (\<lambda>c. c \<noteq> CHR ''/'' \<and> c \<noteq> CHR '':'') rest) = map lower host"
    unfolding sentry_url_host_matches_def prod.case option.case find_scheme_end_scheme [OF assms]
  proof (cases "host = []")
    case False
    have "drop 3 (''://'' @ rest) = rest" by simp
    then show "(if host = [] then False else (let cursor = drop 3 (''://'' @ rest)
        in if CHR ''@'' \<in> set (takeWhile (\<lambda>c. c \<noteq> CHR ''/'') cursor) then False
           else let name = takeWhile (\<lambda>c. c \<noteq> CHR ''/'' \<and> c \<noteq> CHR '':'') cursor
             in if name = [] \<or> length host \<noteq> length name then False else map lower name = map lower host)) \<longleftrightarrow>
      CHR ''@'' \<notin> set (takeWhile (\<lambda>c. c \<noteq> CHR ''/'') rest) \<and> host \<noteq> [] \<and>
      map lower (takeWhile (\<lambda>c. c \<noteq> CHR ''/'' \<and> c \<noteq> CHR '':'') rest) = map lower host"
      using False by (cases "CHR ''@'' \<in> set (takeWhile (\<lambda>c. c \<noteq> CHR ''/'') rest)")
        (simp_all only: Let_def same [OF False] if_False if_True simp_thms not_True_eq_False not_False_eq_True)
  qed simp
  also have "map lower (takeWhile (\<lambda>c. c \<noteq> CHR ''/'' \<and> c \<noteq> CHR '':'') rest) = map lower host \<longleftrightarrow>
      (\<exists>name. takeWhile (\<lambda>c. c \<noteq> CHR ''/'' \<and> c \<noteq> CHR '':'') rest = name \<and> map lower name = map lower host)"
    by simp
  also have "\<dots> \<longleftrightarrow> (\<exists>name tail. rest = name @ tail \<and> (tail = [] \<or> hd tail \<in> {CHR ''/'', CHR '':''}) \<and>
      set name \<inter> {CHR ''/'', CHR '':''} = {} \<and> map lower name = map lower host)"
    unfolding url_name by (intro iffI; elim exE conjE; intro exI conjI; assumption)
  finally show ?thesis .
qed

theorem url_whitelist_witness:
  "\<not> sentry_url_host_matches (Some (''https'' @ ''://'' @ ''o1.ingest.io.evil.com/x'')) (Some ''o1.ingest.io'') \<and>
   sentry_url_host_matches (Some (''https'' @ ''://'' @ ''O1.ingest.io:443/x'')) (Some ''o1.ingest.io'')"
proof (intro conjI)
  show "\<not> sentry_url_host_matches (Some (''https'' @ ''://'' @ ''o1.ingest.io.evil.com/x'')) (Some ''o1.ingest.io'')"
    by code_simp
  have "map lower ''O1.ingest.io'' = map lower ''o1.ingest.io''" by code_simp
  then have "''O1.ingest.io:443/x'' = ''O1.ingest.io'' @ '':443/x'' \<and>
      ('':443/x'' = [] \<or> hd '':443/x'' \<in> {CHR ''/'', CHR '':''}) \<and>
      set ''O1.ingest.io'' \<inter> {CHR ''/'', CHR '':''} = {} \<and> map lower ''O1.ingest.io'' = map lower ''o1.ingest.io''"
    by (simp del: list.map)
  then show "sentry_url_host_matches (Some (''https'' @ ''://'' @ ''O1.ingest.io:443/x'')) (Some ''o1.ingest.io'')"
    by - (rule iffD2 [OF url_whitelist], simp, intro conjI, simp, simp, intro exI)
qed

definition SENTRY_MICRO_MAX_URL_LEN :: nat where "SENTRY_MICRO_MAX_URL_LEN = 320"
definition SENTRY_MICRO_MAX_AUTH_LEN :: nat where "SENTRY_MICRO_MAX_AUTH_LEN = 256"

lemma port_part_ok: "ds_port d \<noteq> 0 \<Longrightarrow> port_part d = CHR '':'' # dec (unat (ds_port d)) \<and> length (port_part d) \<le> 6"
proof -
  assume nz: "ds_port d \<noteq> 0"
  have "unat (ds_port d) < 65536" using unsigned_less [of "ds_port d"] by simp
  then have "length (dec (unat (ds_port d))) \<le> 5" using length_dec [of "unat (ds_port d)" 5] by simp
  then show ?thesis using nz by (simp add: port_part_def snprintf_content_def)
qed

lemma port_part_written: "port_written (ds_port d) (port_part d)"
proof (cases "ds_port d = 0")
  case False
  then show ?thesis using port_part_ok [OF False] port_of_dec by simp
qed (simp add: port_part_def port_written_def)

lemma dsn_requests_built:
  assumes "sentry_dsn_parse (Some s) = (d, True)"
  shows "\<exists>url auth. sentry_dsn_envelope_url d SENTRY_MICRO_MAX_URL_LEN = (Some url, length url) \<and>
    sentry_dsn_auth_header d SENTRY_MICRO_MAX_AUTH_LEN = (Some auth, length auth) \<and>
    0 < length url \<and> length url < SENTRY_MICRO_MAX_URL_LEN \<and>
    0 < length auth \<and> length auth < SENTRY_MICRO_MAX_AUTH_LEN \<and>
    (\<exists>port. port_written (ds_port d) port \<and>
      url = (if ds_is_secure d then ''https://'' else ''http://'') @ ds_host d @ port @ ds_path d @
        ''/api/'' @ ds_project_id d @ ''/envelope/'') \<and>
    (\<exists>pre. auth = pre @ '', sentry_key='' @ ds_public_key d) \<and>
    (sentry_url_host_matches (Some url) (Some (ds_host d)) \<longleftrightarrow> CHR ''@'' \<notin> set (ds_host d))"
proof -
  let ?scheme = "if ds_is_secure d then ''https'' else ''http''"
  let ?rest = "ds_host d @ port_part d @ ds_path d @ ''/api/'' @ ds_project_id d @ ''/envelope/''"
  let ?url = "?scheme @ ''://'' @ ?rest"
  let ?pre = "''Sentry sentry_version=7, sentry_client='' @ SENTRY_MICRO_SDK_USER_AGENT"
  let ?auth = "?pre @ '', sentry_key='' @ ds_public_key d"
  have ok: "dsn_ok d" using assms by (rule parse_ok)
  have "length (port_part d) \<le> 6"
    using port_part_ok [of d] by (cases "ds_port d = 0") (auto simp: port_part_def)
  then have len: "length ?url < SENTRY_MICRO_MAX_URL_LEN" "length ?auth < SENTRY_MICRO_MAX_AUTH_LEN"
    using ok by (auto simp: dsn_ok_def dsn_limits SENTRY_MICRO_MAX_URL_LEN_def
        SENTRY_MICRO_MAX_AUTH_LEN_def SENTRY_MICRO_SDK_USER_AGENT_def)
  have u: "sentry_dsn_envelope_url d SENTRY_MICRO_MAX_URL_LEN = (Some ?url, length ?url)"
    using len ok by (simp add: sentry_dsn_envelope_url_def print_checked_def dsn_ok_def SENTRY_MICRO_MAX_URL_LEN_def)
  have a: "sentry_dsn_auth_header d SENTRY_MICRO_MAX_AUTH_LEN = (Some ?auth, length ?auth)"
    using len ok by (simp add: sentry_dsn_auth_header_def print_checked_def dsn_ok_def SENTRY_MICRO_MAX_AUTH_LEN_def)
  have free: "CHR ''@'' \<notin> set (port_part d)" "CHR ''/'' \<notin> set (port_part d)"
    using port_part_written [of d] by (auto simp: port_written_def list_all_iff is_digit_code dest!: bspec)
  obtain tail where tail: "ds_path d @ ''/api/'' @ ds_project_id d @ ''/envelope/'' = CHR ''/'' # tail"
    using ok by (cases "ds_path d") (auto simp: dsn_ok_def)
  have "takeWhile (\<lambda>c. c \<noteq> CHR ''/'') ((ds_host d @ port_part d) @ CHR ''/'' # tail) = ds_host d @ port_part d"
    using ok free by (intro scan_before) (auto simp: dsn_ok_def)
  moreover have whole: "?rest = (ds_host d @ port_part d) @ CHR ''/'' # tail" using tail by simp
  ultimately have authority: "CHR ''@'' \<in> set (takeWhile (\<lambda>c. c \<noteq> CHR ''/'') ?rest) \<longleftrightarrow> CHR ''@'' \<in> set (ds_host d)"
    using free by (simp only: whole set_append) blast
  have split: "port_part d @ CHR ''/'' # tail = [] \<or> hd (port_part d @ CHR ''/'' # tail) \<in> {CHR ''/'', CHR '':''}"
    using port_part_written [of d] by (auto simp: port_written_def)
  have "sentry_url_host_matches (Some ?url) (Some (ds_host d)) \<longleftrightarrow> CHR ''@'' \<notin> set (ds_host d)"
  proof (subst url_whitelist)
    have "?rest = ds_host d @ (port_part d @ CHR ''/'' # tail)" using whole by simp
    moreover have "ds_host d \<noteq> []" "set (ds_host d) \<inter> {CHR ''/'', CHR '':''} = {}"
      using ok by (simp_all add: dsn_ok_def)
    ultimately have ex: "\<exists>name tail. ?rest = name @ tail \<and> (tail = [] \<or> hd tail \<in> {CHR ''/'', CHR '':''}) \<and>
       set name \<inter> {CHR ''/'', CHR '':''} = {} \<and> map lower name = map lower (ds_host d)"
      using split by - (rule exI [of _ "ds_host d"], rule exI [of _ "port_part d @ CHR ''/'' # tail"], intro conjI, simp_all only:)
    have ne: "ds_host d \<noteq> []" using ok by (simp add: dsn_ok_def)
    show "(CHR ''@'' \<notin> set (takeWhile (\<lambda>c. c \<noteq> CHR ''/'') ?rest) \<and> ds_host d \<noteq> [] \<and>
      (\<exists>name tail. ?rest = name @ tail \<and> (tail = [] \<or> hd tail \<in> {CHR ''/'', CHR '':''}) \<and>
       set name \<inter> {CHR ''/'', CHR '':''} = {} \<and> map lower name = map lower (ds_host d))) \<longleftrightarrow>
      CHR ''@'' \<notin> set (ds_host d)"
      using ex ne by (simp only: authority not_False_eq_True simp_thms)
  qed simp
  moreover have "?url = (if ds_is_secure d then ''https://'' else ''http://'') @ ?rest" by simp
  ultimately show ?thesis
    using u a len port_part_written [of d]
    by (intro exI [of _ ?url] exI [of _ ?auth]) auto
qed

text \<open>
  C23: Whatever DSN \<open>sentry_dsn_parse\<close> accepts, its ingest URL and its auth header fit the arrays
  \<open>sentry_init\<close> prints them into, so the two failures it checks for cannot happen: the URL is
  \<open>scheme://host[:port]prefix/api/project/envelope/\<close>, the header ends in the public key. And the
  relay's own whitelist accepts that URL for the DSN's host unless the host holds an \<open>@\<close>.
\<close>

theorem dsn_requests_fit:
  assumes "sentry_dsn_parse (Some s) = (d, True)"
  shows "\<exists>url auth. sentry_dsn_envelope_url d SENTRY_MICRO_MAX_URL_LEN = (Some url, length url) \<and>
    sentry_dsn_auth_header d SENTRY_MICRO_MAX_AUTH_LEN = (Some auth, length auth) \<and>
    0 < length url \<and> length url < SENTRY_MICRO_MAX_URL_LEN \<and>
    0 < length auth \<and> length auth < SENTRY_MICRO_MAX_AUTH_LEN \<and>
    (\<exists>port. port_written (ds_port d) port \<and>
      url = (if ds_is_secure d then ''https://'' else ''http://'') @ ds_host d @ port @ ds_path d @
        ''/api/'' @ ds_project_id d @ ''/envelope/'') \<and>
    (\<exists>pre. auth = pre @ '', sentry_key='' @ ds_public_key d) \<and>
    (sentry_url_host_matches (Some url) (Some (ds_host d)) \<longleftrightarrow> CHR ''@'' \<notin> set (ds_host d))"
  by (rule dsn_requests_built [OF assms])

theorem dsn_requests_fit_witness:
  "\<exists>url auth. sentry_dsn_envelope_url (fst (sentry_dsn_parse (Some ''https://abc@o1.ingest.io:8443/s/42/'')))
       SENTRY_MICRO_MAX_URL_LEN = (Some url, length url) \<and>
     sentry_dsn_auth_header (fst (sentry_dsn_parse (Some ''https://abc@o1.ingest.io:8443/s/42/'')))
       SENTRY_MICRO_MAX_AUTH_LEN = (Some auth, length auth)"
proof -
  have "snd (sentry_dsn_parse (Some ''https://abc@o1.ingest.io:8443/s/42/''))" by code_simp
  then have "sentry_dsn_parse (Some ''https://abc@o1.ingest.io:8443/s/42/'') =
      (fst (sentry_dsn_parse (Some ''https://abc@o1.ingest.io:8443/s/42/'')), True)"
    by (simp add: prod_eq_iff)
  from dsn_requests_fit [OF this] show ?thesis by blast
qed

end
