(* ===== verification/Sentry_Log.thy ===== *)
theory Sentry_Log
  imports Sentry_Envelope_Correct
begin

text \<open>
  The console log ring, \<open>src/core/sentry_log.c\<close>: six lines, the oldest evicted first, kept in
  memory that may outlive a reset, each dated against the clock of the boot that recorded it
  and sent as one log envelope.

  \<open>sentry_log_ring\<close> is \<open>sentry_log_ring_t\<close> with its array of entries as a list. A ring pointer
  the functions dereference is the record itself; the two functions that answer for a NULL
  ring take an option. \<open>sizeof\<close> of the two structs is a parameter of the layout id.
\<close>

section \<open>Data\<close>

definition SENTRY_MICRO_MAX_LOGS :: nat where "SENTRY_MICRO_MAX_LOGS = 6"
definition SENTRY_MICRO_LOG_BODY_LEN :: nat where "SENTRY_MICRO_LOG_BODY_LEN = 81"

lemmas log_limits = SENTRY_MICRO_MAX_LOGS_def SENTRY_MICRO_LOG_BODY_LEN_def

record sentry_log_entry =
  le_body :: string
  le_trace_id :: string
  le_uptime_us :: u64
  le_level :: sentry_level
  le_truncated :: bool
  le_used :: bool
  le_boot_seq :: u8

record sentry_log_ring =
  lr_entries :: "sentry_log_entry list"
  lr_head :: u8
  lr_count :: u8
  lr_dropped :: u16
  lr_boot_seq :: u8
  lr_anchor_unix_us :: u64
  lr_anchor_uptime_us :: u64
  lr_prev_anchor_unix_us :: u64
  lr_prev_anchor_uptime_us :: u64

definition log_entry_zero :: sentry_log_entry where
  "log_entry_zero = \<lparr>le_body = [], le_trace_id = [], le_uptime_us = 0,
     le_level = SENTRY_LEVEL_DEBUG, le_truncated = False, le_used = False, le_boot_seq = 0\<rparr>"

section \<open>Operations\<close>

definition sentry_log_ring_reset :: "sentry_log_ring \<Rightarrow> sentry_log_ring" where
  "sentry_log_ring_reset ring =
     \<lparr>lr_entries = replicate SENTRY_MICRO_MAX_LOGS log_entry_zero, lr_head = 0, lr_count = 0,
      lr_dropped = 0, lr_boot_seq = 0, lr_anchor_unix_us = 0, lr_anchor_uptime_us = 0,
      lr_prev_anchor_unix_us = 0, lr_prev_anchor_uptime_us = 0\<rparr>"

definition sentry_log_ring_clear :: "sentry_log_ring \<Rightarrow> sentry_log_ring" where
  "sentry_log_ring_clear ring =
     ring\<lparr>lr_entries := replicate SENTRY_MICRO_MAX_LOGS log_entry_zero, lr_head := 0,
       lr_count := 0, lr_dropped := 0\<rparr>"

definition sentry_log_ring_begin_boot :: "sentry_log_ring \<Rightarrow> sentry_log_ring \<times> u8" where
  "sentry_log_ring_begin_boot ring =
     (ring\<lparr>lr_prev_anchor_unix_us := lr_anchor_unix_us ring,
        lr_prev_anchor_uptime_us := lr_anchor_uptime_us ring,
        lr_anchor_unix_us := 0, lr_anchor_uptime_us := 0,
        lr_boot_seq := lr_boot_seq ring + 1\<rparr>, lr_count ring)"

definition sentry_log_ring_set_anchor :: "u64 \<Rightarrow> u64 \<Rightarrow> sentry_log_ring \<Rightarrow> sentry_log_ring" where
  "sentry_log_ring_set_anchor unix_us uptime_us ring =
     (if unix_us = 0 then ring
      else ring\<lparr>lr_anchor_unix_us := unix_us, lr_anchor_uptime_us := uptime_us\<rparr>)"

definition sentry_log_entry_is_recovered :: "sentry_log_ring \<Rightarrow> sentry_log_entry \<Rightarrow> bool" where
  "sentry_log_entry_is_recovered ring entry \<longleftrightarrow> le_boot_seq entry \<noteq> lr_boot_seq ring"

text \<open>The FNV-1a loop over the four bytes of every part.\<close>

definition layout_byte :: "u32 \<Rightarrow> nat \<Rightarrow> u32 \<Rightarrow> u32" where
  "layout_byte part b h = (h XOR (drop_bit (b * 8) part AND 0xff)) * 16777619"

definition layout_part :: "u32 \<Rightarrow> u32 \<Rightarrow> u32" where
  "layout_part part h = fold (layout_byte part) [0..<4] h"

definition sentry_log_ring_layout_id :: "nat \<Rightarrow> nat \<Rightarrow> u32" where
  "sentry_log_ring_layout_id sizeof_entry sizeof_ring =
     fold layout_part
       [of_nat SENTRY_MICRO_MAX_LOGS, of_nat SENTRY_MICRO_LOG_BODY_LEN,
        of_nat SENTRY_MICRO_TRACE_ID_LEN, of_nat sizeof_entry, of_nat sizeof_ring] 2166136261"

definition sentry_log_ring_push ::
    "sentry_level \<Rightarrow> cptr \<Rightarrow> u64 \<Rightarrow> cptr \<Rightarrow> bool \<Rightarrow> sentry_log_ring \<Rightarrow> sentry_log_ring \<times> bool" where
  "sentry_log_ring_push level trace_id uptime_us body truncated ring =
     (case body of
        None \<Rightarrow> (ring, False)
      | Some text \<Rightarrow>
          (let (index, ring, evicted) =
             (if unat (lr_count ring) = SENTRY_MICRO_MAX_LOGS then
                (unat (lr_head ring),
                 ring\<lparr>lr_head := of_nat ((unat (lr_head ring) + 1) mod SENTRY_MICRO_MAX_LOGS),
                   lr_dropped := (if lr_dropped ring < 0xFFFF then lr_dropped ring + 1
                                  else lr_dropped ring)\<rparr>, True)
              else
                ((unat (lr_head ring) + unat (lr_count ring)) mod SENTRY_MICRO_MAX_LOGS,
                 ring\<lparr>lr_count := lr_count ring + 1\<rparr>, False));
             entry =
               \<lparr>le_body = snprintf_content SENTRY_MICRO_LOG_BODY_LEN text,
                le_trace_id = snprintf_content SENTRY_MICRO_TRACE_ID_LEN
                  (case trace_id of Some t \<Rightarrow> t | None \<Rightarrow> []),
                le_uptime_us = uptime_us, le_level = level,
                le_truncated = (truncated \<or> length text \<ge> SENTRY_MICRO_LOG_BODY_LEN),
                le_used = True, le_boot_seq = lr_boot_seq ring\<rparr>
           in (ring\<lparr>lr_entries := (lr_entries ring)[index := entry]\<rparr>, evicted)))"

definition sentry_log_ring_empty :: "sentry_log_ring option \<Rightarrow> bool" where
  "sentry_log_ring_empty ring = (case ring of None \<Rightarrow> True | Some r \<Rightarrow> lr_count r = 0)"

section \<open>The envelope\<close>

fun log_level_name :: "sentry_level \<Rightarrow> string" where
  "log_level_name SENTRY_LEVEL_DEBUG = ''debug''"
| "log_level_name SENTRY_LEVEL_INFO = ''info''"
| "log_level_name SENTRY_LEVEL_WARNING = ''warn''"
| "log_level_name SENTRY_LEVEL_ERROR = ''error''"
| "log_level_name SENTRY_LEVEL_FATAL = ''fatal''"

fun log_severity_number :: "sentry_level \<Rightarrow> nat" where
  "log_severity_number SENTRY_LEVEL_DEBUG = 5"
| "log_severity_number SENTRY_LEVEL_INFO = 9"
| "log_severity_number SENTRY_LEVEL_WARNING = 13"
| "log_severity_number SENTRY_LEVEL_ERROR = 17"
| "log_severity_number SENTRY_LEVEL_FATAL = 21"

definition entry_unix_us :: "sentry_log_ring \<Rightarrow> sentry_log_entry \<Rightarrow> u64 \<Rightarrow> u64 \<Rightarrow> u64" where
  "entry_unix_us ring entry now_uptime_us now_unix_us =
     (if \<not> sentry_log_entry_is_recovered ring entry then
        (let elapsed = (if now_uptime_us > le_uptime_us entry
                        then now_uptime_us - le_uptime_us entry else 0)
         in if elapsed > now_unix_us then now_unix_us else now_unix_us - elapsed)
      else
        (let boot_instant = (if now_uptime_us > now_unix_us then 0 else now_unix_us - now_uptime_us)
         in if lr_prev_anchor_unix_us ring = 0 then boot_instant
            else
              (let w =
                 (if le_uptime_us entry \<ge> lr_prev_anchor_uptime_us ring then
                    lr_prev_anchor_unix_us ring + (le_uptime_us entry - lr_prev_anchor_uptime_us ring)
                  else
                    (let before = lr_prev_anchor_uptime_us ring - le_uptime_us entry
                     in if before > lr_prev_anchor_unix_us ring then 0
                        else lr_prev_anchor_unix_us ring - before))
               in if w > boot_instant then boot_instant else w)))"

text \<open>\<open>&ring->entries[(ring->head + i) % SENTRY_MICRO_MAX_LOGS]\<close> for \<open>i < count\<close>.\<close>

definition log_slots :: "sentry_log_ring \<Rightarrow> sentry_log_entry list" where
  "log_slots ring =
     map (\<lambda>i. lr_entries ring ! ((unat (lr_head ring) + i) mod SENTRY_MICRO_MAX_LOGS))
       [0..<unat (lr_count ring)]"

definition has_device_id :: "cptr \<Rightarrow> bool" where
  "has_device_id device_id \<longleftrightarrow> device_id \<noteq> None \<and> device_id \<noteq> Some []"

definition log_attributes :: "cptr \<Rightarrow> sentry_log_entry \<Rightarrow> json_stmts" where
  "log_attributes device_id entry =
     if_true (le_truncated entry \<or> has_device_id device_id)
       [sentry_json_key ''attributes'',
        in_object
          (if_true (le_truncated entry)
             [sentry_json_key ''t7d'',
              in_object [sentry_json_kv_bool ''value'' (le_truncated entry),
                         sentry_json_kv_string ''type'' (Some ''boolean'')]] @
           if_true (has_device_id device_id)
             [sentry_json_key ''d_id'',
              in_object [sentry_json_kv_string ''value'' device_id,
                         sentry_json_kv_string ''type'' (Some ''string'')]])]"

definition log_item ::
    "sentry_log_ring \<Rightarrow> cptr \<Rightarrow> cptr \<Rightarrow> u64 \<Rightarrow> u64 \<Rightarrow> sentry_log_entry \<Rightarrow> sentry_json \<Rightarrow> sentry_json" where
  "log_item ring fallback_trace_id device_id now_uptime_us now_unix_us entry =
     in_object
       ([sentry_json_kv_micros ''timestamp'' (entry_unix_us ring entry now_uptime_us now_unix_us),
         sentry_json_kv_string ''trace_id''
           (if le_trace_id entry \<noteq> [] then Some (le_trace_id entry) else fallback_trace_id),
         sentry_json_kv_string ''level'' (Some (log_level_name (le_level entry))),
         sentry_json_kv_string ''body'' (Some (le_body entry)),
         sentry_json_key ''severity_number'',
         sentry_json_int (of_nat (log_severity_number (le_level entry)))] @
        log_attributes device_id entry)"

definition write_log_items :: "sentry_log_ring \<Rightarrow> cptr \<Rightarrow> cptr \<Rightarrow> u64 \<Rightarrow> u64 \<Rightarrow> json_stmts" where
  "write_log_items ring fallback_trace_id device_id now_uptime_us now_unix_us =
     [sentry_json_key ''items'',
      in_array (concat (map (\<lambda>entry. if_true (le_used entry)
          [log_item ring fallback_trace_id device_id now_uptime_us now_unix_us entry])
        (log_slots ring)))]"

definition log_item_count :: "sentry_log_ring \<Rightarrow> u8" where
  "log_item_count ring = of_nat (length (filter le_used (log_slots ring)))"

definition log_header :: "u8 \<Rightarrow> nat \<Rightarrow> string" where
  "log_header item_count payload_len =
     ''{}'' @ [NEWLINE] @ ''{'' @ [QUOTE] @ ''type'' @ [QUOTE] @ '':'' @ [QUOTE] @ ''log'' @ [QUOTE] @
     '','' @ [QUOTE] @ ''item_count'' @ [QUOTE] @ '':'' @ dec (unat item_count) @
     '','' @ [QUOTE] @ ''content_type'' @ [QUOTE] @ '':'' @
     [QUOTE] @ ''application/vnd.sentry.items.log+json'' @ [QUOTE] @
     '','' @ [QUOTE] @ ''length'' @ [QUOTE] @ '':'' @ dec (payload_len mod 2 ^ 32) @ ''}'' @ [NEWLINE]"

definition sentry_log_envelope_write ::
    "string option \<Rightarrow> nat \<Rightarrow> sentry_log_ring option \<Rightarrow> cptr \<Rightarrow> cptr \<Rightarrow> u64 \<Rightarrow> u64 \<Rightarrow>
     string option \<times> nat" where
  "sentry_log_envelope_write buf cap ring fallback_trace_id device_id now_uptime_us now_unix_us =
     (let buf = clear_if_room buf cap
      in if fallback_trace_id = None \<or> fallback_trace_id = Some [] \<or> now_unix_us = 0 \<or>
            sentry_log_ring_empty ring then (buf, 0)
         else
           (let r = the ring
            in envelope_frame 128 (log_header (log_item_count r))
                 (run_json (in_object
                    (write_log_items r fallback_trace_id device_id now_uptime_us now_unix_us)))
                 buf cap))"

section \<open>The ring is a queue of the newest lines\<close>

definition log_wf :: "sentry_log_ring \<Rightarrow> bool" where
  "log_wf ring \<longleftrightarrow> length (lr_entries ring) = SENTRY_MICRO_MAX_LOGS \<and>
     unat (lr_head ring) < SENTRY_MICRO_MAX_LOGS \<and> unat (lr_count ring) \<le> SENTRY_MICRO_MAX_LOGS \<and>
     (\<forall>e \<in> set (log_slots ring). le_used e \<and> length (le_body e) < SENTRY_MICRO_LOG_BODY_LEN \<and>
        length (le_trace_id e) < SENTRY_MICRO_TRACE_ID_LEN)"

text \<open>The line a push records.\<close>

definition recorded :: "sentry_level \<Rightarrow> cptr \<Rightarrow> u64 \<Rightarrow> string \<Rightarrow> bool \<Rightarrow> u8 \<Rightarrow> sentry_log_entry" where
  "recorded level trace_id uptime_us text truncated boot =
     \<lparr>le_body = take (SENTRY_MICRO_LOG_BODY_LEN - 1) text,
      le_trace_id = take (SENTRY_MICRO_TRACE_ID_LEN - 1) (case trace_id of Some t \<Rightarrow> t | None \<Rightarrow> []),
      le_uptime_us = uptime_us, le_level = level,
      le_truncated = (truncated \<or> SENTRY_MICRO_LOG_BODY_LEN \<le> length text),
      le_used = True, le_boot_seq = boot\<rparr>"

lemma log_slots_window:
  "log_slots ring = map ((!) (lr_entries ring))
     (ring_window SENTRY_MICRO_MAX_LOGS (unat (lr_head ring)) (unat (lr_count ring)))"
  by (simp add: log_slots_def ring_window_def)

lemma length_log_slots [simp]: "length (log_slots ring) = unat (lr_count ring)"
  by (simp add: log_slots_def)

lemma map_nth_update_other:
  "i \<notin> set is \<Longrightarrow> map ((!) (xs[i := x])) is = map ((!) xs) is"
  by (intro map_cong refl nth_list_update_neq) auto

lemma u8_small: "n < 256 \<Longrightarrow> unat (of_nat n :: u8) = n"
  by (simp add: unat_of_nat)

lemma log_slots_push:
  fixes level trace_id uptime_us body truncated ring
  assumes "log_wf ring"
  defines "r \<equiv> sentry_log_ring_push level trace_id uptime_us (Some body) truncated ring"
  shows "log_slots (fst r) = bounded_push SENTRY_MICRO_MAX_LOGS
      (recorded level trace_id uptime_us body truncated (lr_boot_seq ring)) (log_slots ring)"
    and "snd r \<longleftrightarrow> length (log_slots ring) = SENTRY_MICRO_MAX_LOGS"
    and "lr_boot_seq (fst r) = lr_boot_seq ring"
    and "lr_dropped (fst r) = (if snd r \<and> lr_dropped ring < 0xFFFF then lr_dropped ring + 1 else lr_dropped ring)"
    and "length (lr_entries (fst r)) = SENTRY_MICRO_MAX_LOGS" "unat (lr_head (fst r)) < SENTRY_MICRO_MAX_LOGS"
      "unat (lr_count (fst r)) \<le> SENTRY_MICRO_MAX_LOGS"
proof -
  let ?n = SENTRY_MICRO_MAX_LOGS and ?h = "unat (lr_head ring)" and ?c = "unat (lr_count ring)"
  let ?e = "recorded level trace_id uptime_us body truncated (lr_boot_seq ring)"
  have wf: "length (lr_entries ring) = ?n" "?h < ?n" "?c \<le> ?n" and n: "?n = 6"
    using assms(1) by (simp_all add: log_wf_def SENTRY_MICRO_MAX_LOGS_def)
  have entry: "\<lparr>le_body = snprintf_content SENTRY_MICRO_LOG_BODY_LEN body,
      le_trace_id = snprintf_content SENTRY_MICRO_TRACE_ID_LEN (case trace_id of Some t \<Rightarrow> t | None \<Rightarrow> []),
      le_uptime_us = uptime_us, le_level = level,
      le_truncated = (truncated \<or> length body \<ge> SENTRY_MICRO_LOG_BODY_LEN),
      le_used = True, le_boot_seq = lr_boot_seq ring\<rparr> = ?e"
    by (simp add: recorded_def snprintf_content_def)
  show "snd r \<longleftrightarrow> length (log_slots ring) = ?n"
    and "lr_boot_seq (fst r) = lr_boot_seq ring"
    and "lr_dropped (fst r) = (if snd r \<and> lr_dropped ring < 0xFFFF then lr_dropped ring + 1 else lr_dropped ring)"
    and "length (lr_entries (fst r)) = ?n"
    by (simp_all add: r_def sentry_log_ring_push_def Let_def wf)
  show "log_slots (fst r) = bounded_push ?n ?e (log_slots ring)" and "unat (lr_head (fst r)) < ?n"
      "unat (lr_count (fst r)) \<le> ?n"
  proof -
    consider "?c = ?n" | "?c < ?n" using wf by linarith
    then have "log_slots (fst r) = bounded_push ?n ?e (log_slots ring) \<and> unat (lr_head (fst r)) < ?n \<and>
        unat (lr_count (fst r)) \<le> ?n"
    proof cases
      case 1
      then obtain m where m: "?c = Suc m" "?n = Suc m" using n by (cases ?n) auto
      let ?h' = "Suc ?h mod ?n"
      have h': "unat (of_nat ((?h + 1) mod ?n) :: u8) = ?h'"       proof (subst u8_small)
        have "(?h + 1) mod ?n < 6" using n by simp
        then show "(?h + 1) mod ?n < 256" by linarith
      qed simp
      have "r = (ring\<lparr>lr_head := of_nat ((?h + 1) mod ?n),
          lr_dropped := (if lr_dropped ring < 0xFFFF then lr_dropped ring + 1 else lr_dropped ring),
          lr_entries := (lr_entries ring)[?h := ?e]\<rparr>, True)"
        using 1 by (simp add: r_def sentry_log_ring_push_def Let_def entry)
      then have s: "log_slots (fst r) = map ((!) ((lr_entries ring)[?h := ?e])) (ring_window ?n ?h' (Suc m))"
        and rest: "unat (lr_head (fst r)) = ?h'" "unat (lr_count (fst r)) = ?c"
        using h' m by (simp_all add: log_slots_window)
      have "Suc ?h + m = ?h + ?n" using m(2) by simp
      then have "(?h' + m) mod ?n = ?h" using wf(2) by (simp only: mod_add_left_eq mod_add_self2 mod_less)
      then have "log_slots (fst r) = map ((!) ((lr_entries ring)[?h := ?e])) (ring_window ?n ?h' m) @ [?e]"
        using s wf by (simp add: ring_window_snoc)
      also have "map ((!) ((lr_entries ring)[?h := ?e])) (ring_window ?n ?h' m) =
          map ((!) (lr_entries ring)) (ring_window ?n ?h' m)"
        using wf m by (intro map_nth_update_other head_not_in_rest) auto
      also have "\<dots> = tl (log_slots ring)"
      proof -
        have "log_slots ring = map ((!) (lr_entries ring)) (ring_window ?n ?h (Suc m))"
          unfolding log_slots_window m(1) ..
        then show ?thesis by (simp only: ring_window_Cons [OF wf(2)] list.map list.sel)
      qed
      finally show ?thesis using 1 rest wf n by (simp add: bounded_push_def)
    next
      case 2
      have "lr_count ring < 6" using 2 by (simp add: word_less_nat_alt SENTRY_MICRO_MAX_LOGS_def)
      then have c': "unat (lr_count ring + 1) = Suc ?c" by (rule word_succ_less(1))
      have "r = (ring\<lparr>lr_count := lr_count ring + 1, lr_entries := (lr_entries ring)[(?h + ?c) mod ?n := ?e]\<rparr>, False)"
        using 2 by (simp add: r_def sentry_log_ring_push_def Let_def entry)
      then have "log_slots (fst r) = map ((!) ((lr_entries ring)[(?h + ?c) mod ?n := ?e])) (ring_window ?n ?h (Suc ?c))"
        and rest: "unat (lr_head (fst r)) = ?h" "unat (lr_count (fst r)) = Suc ?c"
        using c' by (simp_all add: log_slots_window)
      then have "log_slots (fst r) = log_slots ring @ [?e]"
        using 2 wf map_nth_update_other [OF ring_next_fresh [OF 2]] by (simp add: ring_window_snoc log_slots_window)
      then show ?thesis using 2 rest wf by (simp add: bounded_push_def)
    qed
    then show "log_slots (fst r) = bounded_push ?n ?e (log_slots ring)" and "unat (lr_head (fst r)) < ?n"
      "unat (lr_count (fst r)) \<le> ?n" by blast+
  qed
qed

text \<open>The calls on a ring, and the queue of lines with the number of lines lost since it was cleared.\<close>

datatype log_call =
    LogPush sentry_level cptr u64 string bool
  | LogClear
  | LogBeginBoot
  | LogSetAnchor u64 u64

fun do_log_call :: "log_call \<Rightarrow> sentry_log_ring \<Rightarrow> sentry_log_ring" where
  "do_log_call (LogPush level trace_id uptime_us body truncated) ring =
     fst (sentry_log_ring_push level trace_id uptime_us (Some body) truncated ring)"
| "do_log_call LogClear ring = sentry_log_ring_clear ring"
| "do_log_call LogBeginBoot ring = fst (sentry_log_ring_begin_boot ring)"
| "do_log_call (LogSetAnchor unix_us uptime_us) ring = sentry_log_ring_set_anchor unix_us uptime_us ring"

fun log_spec ::
    "log_call \<Rightarrow> sentry_log_entry list \<times> nat \<times> nat \<Rightarrow> sentry_log_entry list \<times> nat \<times> nat" where
  "log_spec (LogPush level trace_id uptime_us body truncated) (q, lost, boot) =
     (bounded_push SENTRY_MICRO_MAX_LOGS
        (recorded level trace_id uptime_us body truncated (of_nat boot)) q,
      if length q = SENTRY_MICRO_MAX_LOGS then lost + 1 else lost, boot)"
| "log_spec LogClear (q, lost, boot) = ([], 0, boot)"
| "log_spec LogBeginBoot (q, lost, boot) = (q, lost, boot + 1)"
| "log_spec (LogSetAnchor unix_us uptime_us) (q, lost, boot) = (q, lost, boot)"

definition log_refines :: "sentry_log_ring \<Rightarrow> sentry_log_entry list \<times> nat \<times> nat \<Rightarrow> bool" where
  "log_refines ring a \<longleftrightarrow> log_wf ring \<and>
     (case a of (q, lost, boot) \<Rightarrow> log_slots ring = q \<and> unat (lr_dropped ring) = min lost 65535 \<and>
        lr_boot_seq ring = of_nat boot)"

lemma recorded_ok: "le_used (recorded l t u b tr s) \<and>
    length (le_body (recorded l t u b tr s)) < SENTRY_MICRO_LOG_BODY_LEN \<and>
    length (le_trace_id (recorded l t u b tr s)) < SENTRY_MICRO_TRACE_ID_LEN"
  by (auto simp: recorded_def SENTRY_MICRO_LOG_BODY_LEN_def SENTRY_MICRO_TRACE_ID_LEN_def min_def split: option.split)

lemma bounded_push_set: "x \<in> set (bounded_push n y q) \<Longrightarrow> x = y \<or> x \<in> set q"
  by (cases q) (auto simp: bounded_push_def split: if_splits)

lemma log_wf_push:
  assumes "log_wf ring"
  shows "log_wf (fst (sentry_log_ring_push l t u (Some b) tr ring))"
  using assms log_slots_push [OF assms, of l t u b tr] recorded_ok [of l t u b tr "lr_boot_seq ring"]
  by (auto simp: log_wf_def dest!: bounded_push_set)

lemma dropped_step: "unat d = min n 65535 \<Longrightarrow>
    unat (if d < (0xFFFF :: u16) then d + 1 else d) = min (Suc n) 65535"
proof (cases "d < (0xFFFF :: u16)")
  case True
  assume "unat d = min n 65535"
  moreover from True have "unat d < 65535" by (simp add: word_less_nat_alt)
  ultimately show ?thesis using True word_succ_less(1) [OF True] by simp
next
  case False
  assume "unat d = min n 65535"
  moreover from False have "65535 \<le> unat d" by (simp add: word_less_nat_alt)
  ultimately show ?thesis using False by simp
qed

text \<open>The clock fields do not matter to the lines.\<close>

lemma log_slots_clock [simp]:
  "log_slots (ring\<lparr>lr_anchor_unix_us := a, lr_anchor_uptime_us := b\<rparr>) = log_slots ring"
  "log_slots (fst (sentry_log_ring_begin_boot ring)) = log_slots ring"
  by (simp_all add: log_slots_def sentry_log_ring_begin_boot_def)

lemma log_refines_reset: "log_refines (sentry_log_ring_reset ring) ([], 0, 0)"
  by (simp add: log_refines_def sentry_log_ring_reset_def log_wf_def log_slots_def SENTRY_MICRO_MAX_LOGS_def)

lemma log_refines_step:
  assumes "log_refines ring a"
  shows "log_refines (do_log_call c ring) (log_spec c a)"
proof -
  obtain q lost boot where a: "a = (q, lost, boot)" by (cases a)
  have wf: "log_wf ring" and q: "log_slots ring = q" and d: "unat (lr_dropped ring) = min lost 65535"
    and b: "lr_boot_seq ring = of_nat boot"
    using assms by (simp_all add: log_refines_def a)
  show ?thesis
  proof (cases c)
    case (LogPush l t u body tr)
    note p = log_slots_push [OF wf, of l t u body tr, unfolded q b]
    have "unat (lr_dropped (do_log_call c ring)) = min (if length q = SENTRY_MICRO_MAX_LOGS then lost + 1 else lost) 65535"
      using p(2,4) d dropped_step [OF d] by (auto simp: LogPush)
    then show ?thesis using p log_wf_push [OF wf] by (simp add: log_refines_def LogPush a)
  next
    case LogClear
    then show ?thesis
      using b by (simp add: log_refines_def a sentry_log_ring_clear_def log_wf_def log_slots_def SENTRY_MICRO_MAX_LOGS_def)
  next
    case LogBeginBoot
    then show ?thesis
      using wf q d b log_slots_clock(2) [of ring]
      by (simp add: log_refines_def a log_wf_def) (simp add: sentry_log_ring_begin_boot_def)
  next
    case (LogSetAnchor u v)
    then show ?thesis
      using wf q d b by (simp add: log_refines_def a sentry_log_ring_set_anchor_def log_wf_def)
  qed
qed

lemma log_refines_run:
  "log_refines (fold do_log_call cs (sentry_log_ring_reset ring)) (fold log_spec cs ([], 0, 0))"
proof -
  have "log_refines (fold do_log_call cs x) (fold log_spec cs y)" if "log_refines x y" for x y
    using that by (induction cs arbitrary: x y) (simp_all add: log_refines_step)
  then show ?thesis using log_refines_reset by blast
qed

text \<open>
  C26: The log ring refines a queue: after any calls on a reset ring, the lines a flush walks are
  the newest six recorded since it was cleared, oldest first, each cut to its array and stamped
  with the boot that recorded it; the drop counter is the number of lines evicted, saturating;
  and clearing, the change of boot and the clock leave the other's part alone.
\<close>

theorem log_ring_keeps_newest_lines:
  fixes cs :: "log_call list" and ring :: sentry_log_ring
  defines "r \<equiv> fold do_log_call cs (sentry_log_ring_reset ring)"
    and "a \<equiv> fold log_spec cs ([], 0, 0)"
  shows "log_slots r = fst a \<and> unat (lr_dropped r) = min (fst (snd a)) 65535 \<and>
    lr_boot_seq r = of_nat (snd (snd a)) \<and>
    (snd (sentry_log_ring_push l t u (Some b) tr r) \<longleftrightarrow> length (fst a) = SENTRY_MICRO_MAX_LOGS)"
proof -
  have "log_refines r a" unfolding r_def a_def by (rule log_refines_run)
  then show ?thesis using log_slots_push(2) [of r l t u b tr] by (cases a) (simp add: log_refines_def)
qed

section \<open>What an envelope of lines reads back as\<close>

record log_batch =
  lb_ring :: sentry_log_ring
  lb_fallback_trace_id :: cptr
  lb_device_id :: cptr
  lb_now_uptime_us :: u64
  lb_now_unix_us :: u64

definition log_time :: "log_batch \<Rightarrow> sentry_log_entry \<Rightarrow> u64" where
  "log_time b entry = entry_unix_us (lb_ring b) entry (lb_now_uptime_us b) (lb_now_unix_us b)"

definition attribute_members :: "cptr \<Rightarrow> sentry_log_entry \<Rightarrow> (string \<times> json) list" where
  "attribute_members device_id entry =
     if_true (le_truncated entry)
       [(''t7d'', JObject [(''value'', JBool True), (''type'', JString ''boolean'')])] @
     if_true (has_device_id device_id)
       [(''d_id'', JObject [(''value'', json_of_cptr device_id), (''type'', JString ''string'')])]"

definition log_line_document :: "log_batch \<Rightarrow> sentry_log_entry \<Rightarrow> json" where
  "log_line_document b entry = JObject
     ([(''timestamp'', JNumber (micros_text (log_time b entry))),
       (''trace_id'', if le_trace_id entry \<noteq> [] then JString (le_trace_id entry)
          else json_of_cptr (lb_fallback_trace_id b)),
       (''level'', JString (log_level_name (le_level entry))),
       (''body'', JString (le_body entry)),
       (''severity_number'', json_of_int (of_nat (log_severity_number (le_level entry))))] @
      if_true (le_truncated entry \<or> has_device_id (lb_device_id b))
        [(''attributes'', JObject (attribute_members (lb_device_id b) entry))])"

definition log_document :: "log_batch \<Rightarrow> json" where
  "log_document b =
     JObject [(''items'', JArray (map (log_line_document b) (filter le_used (log_slots (lb_ring b)))))]"

definition log_payload :: "log_batch \<Rightarrow> payload_fn" where
  "log_payload b = run_json (in_object (write_log_items (lb_ring b) (lb_fallback_trace_id b)
     (lb_device_id b) (lb_now_uptime_us b) (lb_now_unix_us b)))"

definition log_type_header :: "u8 \<Rightarrow> nat \<Rightarrow> json" where
  "log_type_header count n = JObject
     [(''type'', JString ''log''), (''item_count'', JNumber (dec (unat count))),
      (''content_type'', JString ''application/vnd.sentry.items.log+json''), (''length'', JNumber (dec n))]"

lemma emits_log_attributes:
  "emits_members (json_do (log_attributes device_id entry))
     (if_true (le_truncated entry \<or> has_device_id device_id)
        [(''attributes'', JObject (attribute_members device_id entry))])"
  unfolding log_attributes_def
  by (rule emits_members_eq, (rule emits_if_true stmt_rules)+)
    (simp add: attribute_members_def if_true_def)

lemma emits_log_item:
  "emits_value (log_item (lb_ring b) (lb_fallback_trace_id b) (lb_device_id b) (lb_now_uptime_us b)
       (lb_now_unix_us b) entry) (log_line_document b entry)"
  unfolding log_item_def
  by (rule emits_value_eq, (rule emits_log_attributes stmt_rules)+)
    (simp add: log_line_document_def log_time_def)

lemma emits_log_document:
  "emits_value (in_object (write_log_items (lb_ring b) (lb_fallback_trace_id b) (lb_device_id b)
     (lb_now_uptime_us b) (lb_now_unix_us b))) (log_document b)"
  unfolding write_log_items_def concat_if_true
  by (rule emits_value_eq, (rule emits_values_map emits_log_item stmt_rules)+) (simp add: log_document_def)

lemma wf_log_line [simp]: "wf_json (log_line_document b entry)"
  by (simp add: log_line_document_def attribute_members_def)

lemma wf_log_document: "wf_json (log_document b)"
  by (simp add: log_document_def)

interpretation log_payload: envelope_payload log_payload log_document "\<lambda>b. True"
  by standard
    (simp_all add: log_payload_def run_json_counts(1) [OF emits_log_document]
      run_json_writes(1) [OF emits_log_document] wf_log_document)

lemma log_header_text:
  "n < 2 ^ 32 \<Longrightarrow> log_header c n = json_text (JObject []) @ [NEWLINE] @ json_text (log_type_header c n) @ [NEWLINE]"
  by (simp add: log_header_def log_type_header_def comma_if_def) (simp add: json_text_string_def escape_byte_def)

lemma log_type_header_ok [simp]: "wf_json (log_type_header c n)" "length_member (log_type_header c n) = Some n"
  by (simp_all add: log_type_header_def wf_number_dec length_member_def json_member_def read_nat_dec)

lemma length_log_header: "length (log_header c n) < 128"
proof -
  have "length (dec (n mod 2 ^ 32)) \<le> 10" by (intro length_dec) simp_all
  moreover have "unat c < 10 ^ 3" by (rule less_trans [OF unat_u8_less]) simp
  then have "length (dec (unat c)) \<le> 3" by (intro length_dec) simp_all
  ultimately show ?thesis by (simp add: log_header_def)
qed

text \<open>
  C27: A log envelope is exact or absent, like an event's: when there is a line to send, a clock
  and a fallback trace id, either the buffer holds an envelope that reads back as one log item
  whose lines are those of the ring, oldest first, a line recorded with no trace under the
  fallback, or it is left an empty string; otherwise nothing is written and 0 returned.
\<close>

theorem log_envelope_reads_back:
  fixes b mem cap
  defines "wr \<equiv> \<lambda>buf c. sentry_log_envelope_write buf c (Some (lb_ring b)) (lb_fallback_trace_id b)
      (lb_device_id b) (lb_now_uptime_us b) (lb_now_unix_us b)"
  defines "n \<equiv> snd (wr None 0)"
  assumes "length mem = cap" and "0 < cap" and "cap \<le> 2 ^ 32" and "log_wf (lb_ring b)"
  shows "if lb_now_unix_us b = 0 \<or> lb_fallback_trace_id b \<in> {None, Some []} \<or> log_slots (lb_ring b) = []
    then wr (Some mem) cap = (Some (mem_write mem 0 [NUL]), 0)
    else if n < cap
    then \<exists>mem' k. wr (Some mem) cap = (Some mem', n) \<and> length mem' = cap \<and>
      length (cstring_of mem') = n \<and>
      read_envelope (cstring_of mem') = Some (JObject [], log_type_header (lr_count (lb_ring b)) k,
        JObject [(''items'', JArray (map (log_line_document b) (log_slots (lb_ring b))))])
    else wr (Some mem) cap = (Some (mem_write mem 0 [NUL]), n)"
proof -
  let ?r = "lb_ring b"
  have empty: "lr_count ?r = 0 \<longleftrightarrow> log_slots ?r = []"
    by (metis length_0_conv length_log_slots unat_eq_0)
  have used: "filter le_used (log_slots ?r) = log_slots ?r"
    using assms(6) by (simp add: log_wf_def)
  have count: "log_item_count ?r = lr_count ?r" by (simp add: log_item_count_def used)
  show ?thesis
  proof (cases "lb_now_unix_us b = 0 \<or> lb_fallback_trace_id b \<in> {None, Some []} \<or> log_slots ?r = []")
    case True
    then show ?thesis
      using assms(4) empty by (auto simp: wr_def sentry_log_envelope_write_def sentry_log_ring_empty_def
          clear_if_room_def clear_first_def Let_def)
  next
    case False
    let ?wr = "envelope_frame 128 (log_header (lr_count ?r)) (log_payload b)"
    have eqs: "wr (Some mem) cap = ?wr (Some (mem_write mem 0 [NUL])) cap" "n = snd (?wr None 0)"
      using False assms(4) empty count by (auto simp: wr_def n_def sentry_log_envelope_write_def
          sentry_log_ring_empty_def log_payload_def clear_if_room_def clear_first_def Let_def)
    have doc: "log_document b = JObject [(''items'', JArray (map (log_line_document b) (log_slots ?r)))]"
      by (simp add: log_document_def used)
    have len: "length (mem_write mem 0 [NUL]) = cap" using assms(3,4) by simp
    have again: "mem_write (mem_write mem 0 [NUL]) 0 [NUL] = mem_write mem 0 [NUL]"
      using assms(3,4) by (cases mem) (simp_all add: mem_write_def)
    from log_payload.exact_or_absent [OF TrueI len assms(5), where x = b and header_cap = 128
        and header_of = "log_header (lr_count ?r)" and top = "JObject []" and item = "log_type_header (lr_count ?r)",
        OF log_header_text, simplified again]
    show ?thesis
      unfolding if_not_P [OF False] eqs doc [symmetric]
      by (simp add: length_log_header)
  qed
qed

section \<open>The timeline\<close>

lemma sorted_map_mono:
  assumes "sorted (map g xs)" and "\<And>x y. x \<in> set xs \<Longrightarrow> y \<in> set xs \<Longrightarrow> g x \<le> g y \<Longrightarrow> f x \<le> f y"
  shows "sorted (map f xs)"
  using assms by (induction xs) auto

lemma unat_time_current:
  assumes "\<not> sentry_log_entry_is_recovered ring e" and "up \<le> unix"
  shows "unat (entry_unix_us ring e up unix) = unat unix - (unat up - unat (le_uptime_us e))"
proof (cases "le_uptime_us e < up")
  case True
  then have "unat (up - le_uptime_us e) = unat up - unat (le_uptime_us e)" by (simp add: unat_sub)
  moreover then have "up - le_uptime_us e \<le> unix" using assms(2) by (simp add: word_le_nat_alt)
  ultimately show ?thesis
    using assms(1) True by (simp add: entry_unix_us_def Let_def unat_sub)
next
  case False
  then show ?thesis using assms(1) by (simp add: entry_unix_us_def Let_def word_less_nat_alt)
qed

lemma unat_time_recovered:
  assumes "sentry_log_entry_is_recovered ring e" and "up \<le> unix"
    and "unat (lr_prev_anchor_unix_us ring) + unat (le_uptime_us e) < 2 ^ 64"
  shows "unat (entry_unix_us ring e up unix) =
    (if lr_prev_anchor_unix_us ring = 0 then unat unix - unat up
     else min ((unat (lr_prev_anchor_unix_us ring) + unat (le_uptime_us e)) - unat (lr_prev_anchor_uptime_us ring))
       (unat unix - unat up))"
proof -
  let ?pU = "lr_prev_anchor_unix_us ring" and ?pu = "lr_prev_anchor_uptime_us ring" and ?u = "le_uptime_us e"
  let ?w = "if ?u \<ge> ?pu then ?pU + (?u - ?pu) else if ?pu - ?u > ?pU then 0 else ?pU - (?pu - ?u)"
  have boot: "unat (unix - up) = unat unix - unat up" using assms(2) by (simp add: unat_sub)
  have w: "unat ?w = unat ?pU + unat ?u - unat ?pu"
  proof (cases "?pu \<le> ?u")
    case True
    then have s: "unat (?u - ?pu) = unat ?u - unat ?pu" "unat ?pu \<le> unat ?u"
      by (simp_all add: unat_sub word_le_nat_alt)
    then have "unat (?pU + (?u - ?pu)) = unat ?pU + unat (?u - ?pu)"
      using assms(3) by (intro unat_add_lem [THEN iffD1]) simp
    then show ?thesis using True s by simp
  next
    case False
    then have "unat (?pu - ?u) = unat ?pu - unat ?u" "unat ?u < unat ?pu"
      by (simp_all add: unat_sub word_le_nat_alt word_less_nat_alt not_le)
    then show ?thesis using False by (auto simp: word_less_nat_alt unat_sub word_le_nat_alt not_less)
  qed
  have "entry_unix_us ring e up unix = (if ?pU = 0 then unix - up else if ?w > unix - up then unix - up else ?w)"
    using assms(1,2) by (simp add: entry_unix_us_def Let_def not_less [symmetric])
  then show ?thesis using w boot by (auto simp: word_less_nat_alt min_def)
qed

text \<open>
  C25: The timeline a flush writes keeps the order of the lines: with the lines of earlier boots
  before those of the running one and uptimes that do not decrease within each, and a wall clock
  later than the device has been up, the instants written never decrease and none is later than
  now; a line of the running boot is placed exactly as long before now as it is, and a line of
  an earlier boot never after this boot began.
\<close>

theorem log_timeline_in_order:
  assumes "log_slots (lb_ring b) = old @ new"
    and "\<forall>e \<in> set old. sentry_log_entry_is_recovered (lb_ring b) e"
    and "\<forall>e \<in> set new. \<not> sentry_log_entry_is_recovered (lb_ring b) e"
    and "sorted (map le_uptime_us old)" and "sorted (map le_uptime_us new)"
    and "lb_now_uptime_us b \<le> lb_now_unix_us b"
    and "\<forall>e \<in> set old. unat (lr_prev_anchor_unix_us (lb_ring b)) + unat (le_uptime_us e) < 2 ^ 64"
  shows "sorted (map (log_time b) (log_slots (lb_ring b))) \<and>
    (\<forall>e \<in> set (old @ new). log_time b e \<le> lb_now_unix_us b) \<and>
    (\<forall>e \<in> set new. unat (log_time b e) =
       unat (lb_now_unix_us b) - (unat (lb_now_uptime_us b) - unat (le_uptime_us e))) \<and>
    (\<forall>e \<in> set old. log_time b e \<le> lb_now_unix_us b - lb_now_uptime_us b)"
proof -
  let ?up = "lb_now_uptime_us b" and ?unix = "lb_now_unix_us b"
  have le: "unat ?up \<le> unat ?unix" using assms(6) by (simp add: word_le_nat_alt)
  have new: "unat (log_time b e) = unat ?unix - (unat ?up - unat (le_uptime_us e))" if "e \<in> set new" for e
    using unat_time_current [OF _ assms(6)] assms(3) that by (auto simp: log_time_def)
  have old: "unat (log_time b e) =
      (if lr_prev_anchor_unix_us (lb_ring b) = 0 then unat ?unix - unat ?up
       else min (unat (lr_prev_anchor_unix_us (lb_ring b)) + unat (le_uptime_us e)
           - unat (lr_prev_anchor_uptime_us (lb_ring b))) (unat ?unix - unat ?up))" if "e \<in> set old" for e
    using unat_time_recovered [OF _ assms(6)] assms(2,7) that by (auto simp: log_time_def)
  have boot: "unat (log_time b e) \<le> unat ?unix - unat ?up" if "e \<in> set old" for e
    using old [OF that] by simp
  have "sorted (map (log_time b) old)"
    by (rule sorted_map_mono [OF assms(4)]) (auto simp: word_le_nat_alt old intro: min.coboundedI1 min.coboundedI2)
  moreover have "sorted (map (log_time b) new)"
    by (rule sorted_map_mono [OF assms(5)]) (auto simp: word_le_nat_alt new)
  moreover have "log_time b e \<le> log_time b e'" if "e \<in> set old" "e' \<in> set new" for e e'
    unfolding word_le_nat_alt using boot [OF that(1)] new [OF that(2)] by linarith
  ultimately have "sorted (map (log_time b) (old @ new))" by (auto simp: sorted_append)
  moreover have "log_time b e \<le> ?unix" if "e \<in> set (old @ new)" for e
    unfolding word_le_nat_alt using that boot new le by fastforce
  moreover have "log_time b e \<le> ?unix - ?up" if "e \<in> set old" for e
    unfolding word_le_nat_alt using boot [OF that] assms(6) by (simp add: unat_sub)
  ultimately show ?thesis using assms(1) new by auto
qed

section \<open>How much a full ring takes\<close>

definition plain :: "char \<Rightarrow> bool" where
  "plain c \<longleftrightarrow> c \<noteq> QUOTE \<and> c \<noteq> BSLASH \<and> 32 \<le> code_of c"

lemma escape_plain: "plain c \<Longrightarrow> escape_byte c = [c]"
  by (auto simp: plain_def escape_byte_def)

lemma length_plain_string: "list_all plain s \<Longrightarrow> length (json_text_string s) = length s + 2"
proof -
  assume "list_all plain s"
  then have "concat (map escape_byte s) = s" by (induction s) (simp_all add: escape_plain)
  then show ?thesis by (simp add: json_text_string_def)
qed

lemma length_micros_text: "length (micros_text n) \<le> 21"
proof -
  have "unat n < 2 ^ 64" using unsigned_less [of n] by simp
  then have "unat (n div 1000000) < 10 ^ 14" by (simp add: unat_div div_less_iff_less_mult)
  then have "length (dec (unat (n div 1000000))) \<le> 14" by (intro length_dec) simp_all
  moreover have "unat (n mod 1000000) < 10 ^ 6" by (simp add: unat_mod)
  then have "length (dec (unat (n mod 1000000))) \<le> 6" by (intro length_dec) simp_all
  ultimately show ?thesis by (simp add: micros_text_def zero_pad_def)
qed

lemma length_values_le:
  "(\<And>x. x \<in> set xs \<Longrightarrow> length (json_text (f x)) \<le> m) \<Longrightarrow>
     length (json_text_values nc (map f xs)) \<le> length xs * (m + 1)"
proof (induction xs arbitrary: nc)
  case (Cons x xs)
  have "length (json_text_values True (map f xs)) \<le> length xs * (m + 1)" by (intro Cons.IH Cons.prems) simp
  moreover have "length (json_text (f x)) \<le> m" by (intro Cons.prems) simp
  ultimately show ?case by (simp add: comma_if_def)
qed simp

lemma length_log_level: "length (json_text_string (log_level_name l)) \<le> 7"
  by (cases l) (simp_all add: json_text_string_def escape_byte_def)

lemma length_log_severity: "length (json_text (json_of_int (of_nat (log_severity_number l)))) \<le> 2"
  by (cases l) (simp_all add: json_of_int_def dec_signed_def dec.simps)

definition line_fits :: "sentry_log_entry \<Rightarrow> bool" where
  "line_fits e \<longleftrightarrow> list_all plain (le_body e) \<and> length (le_body e) < SENTRY_MICRO_LOG_BODY_LEN \<and>
     list_all plain (le_trace_id e) \<and> length (le_trace_id e) < SENTRY_MICRO_TRACE_ID_LEN"

lemma length_log_line:
  assumes "line_fits e" and "lb_fallback_trace_id b = Some tid" and "list_all plain tid" "length tid \<le> 32"
    and "lb_device_id b = Some dev" and "list_all plain dev" "length dev \<le> 12"
  shows "length (json_text (log_line_document b e)) \<le> 309"
proof -
  have keys: "list_all (list_all plain) [''timestamp'', ''trace_id'', ''level'', ''body'', ''severity_number'',
      ''attributes'', ''t7d'', ''d_id'', ''value'', ''type'', ''boolean'', ''string'']"
    by (simp add: plain_def)
  have body: "length (json_text_string (le_body e)) \<le> 82"
    using assms(1) by (simp add: line_fits_def length_plain_string SENTRY_MICRO_LOG_BODY_LEN_def)
  have trace: "length (json_text (if le_trace_id e \<noteq> [] then JString (le_trace_id e) else json_of_cptr (Some tid))) \<le> 34"
    using assms(1,3,4) by (simp add: line_fits_def length_plain_string SENTRY_MICRO_TRACE_ID_LEN_def)
  have device: "length (json_text_string dev) \<le> 14" using assms(6,7) by (simp add: length_plain_string)
  have attrs: "length (json_text_members True (if_true (le_truncated e \<or> has_device_id (Some dev))
      [(''attributes'', JObject (attribute_members (Some dev) e))])) \<le> 101"
    using device keys
    by (simp add: if_true_def attribute_members_def comma_if_def length_plain_string)
  obtain A where A: "if_true (le_truncated e \<or> has_device_id (Some dev))
      [(''attributes'', JObject (attribute_members (Some dev) e))] = A" by blast
  obtain T where T: "(if le_trace_id e \<noteq> [] then JString (le_trace_id e) else json_of_cptr (Some tid)) = T" by blast
  show ?thesis
    unfolding log_line_document_def assms(2,5) A T
    using body trace [unfolded T] attrs [unfolded A] keys length_log_level [of "le_level e"]
      length_log_severity [of "le_level e"] length_micros_text [of "log_time b e"]
    by (simp add: comma_if_def length_plain_string)
qed

definition SENTRY_MICRO_ENVELOPE_BUFFER_BYTES :: nat where "SENTRY_MICRO_ENVELOPE_BUFFER_BYTES = 2048"

lemma length_log_header_sharp: "length (log_header c n) \<le> 111"
proof -
  have "length (dec (n mod 2 ^ 32)) \<le> 10" by (intro length_dec) simp_all
  moreover have "unat c < 10 ^ 3" by (rule less_trans [OF unat_u8_less]) simp
  then have "length (dec (unat c)) \<le> 3" by (intro length_dec) simp_all
  ultimately show ?thesis by (simp add: log_header_def)
qed

text \<open>
  A full ring always fits the envelope buffer of the flush, whatever it recorded, as long as
  nothing in it has to be escaped: six lines of the longest body and trace id, each cut short
  and tagged with a device id of twelve characters, take less than 2048 bytes with their header.
\<close>

theorem log_envelope_fits_buffer:
  fixes b :: log_batch
  assumes "log_wf (lb_ring b)" and "\<forall>e \<in> set (log_slots (lb_ring b)). line_fits e"
    and "lb_fallback_trace_id b = Some tid" and "list_all plain tid" "length tid \<le> 32"
    and "lb_device_id b = Some dev" and "list_all plain dev" "length dev \<le> 12"
  shows "snd (sentry_log_envelope_write None 0 (Some (lb_ring b)) (lb_fallback_trace_id b)
    (lb_device_id b) (lb_now_uptime_us b) (lb_now_unix_us b)) < SENTRY_MICRO_ENVELOPE_BUFFER_BYTES"
proof -
  let ?ls = "filter le_used (log_slots (lb_ring b))" and ?h = "log_header (log_item_count (lb_ring b))"
  have "length (json_text (log_line_document b e)) \<le> 309" if "e \<in> set ?ls" for e
    using length_log_line [OF _ assms(3-8)] assms(2) that by simp
  then have "length (json_text_values False (map (log_line_document b) ?ls)) \<le> length ?ls * 310"
    using length_values_le [of ?ls "log_line_document b" 309 False] by simp
  also have "length ?ls \<le> 6"
    using length_filter_le [of le_used "log_slots (lb_ring b)"] assms(1)
    by (simp add: log_wf_def SENTRY_MICRO_MAX_LOGS_def)
  finally have items: "length (json_text_values False (map (log_line_document b) ?ls)) \<le> 1860" by simp
  have "length (json_text_string ''items'') = 7" by (simp add: length_plain_string plain_def)
  then have doc: "length (json_text (log_document b)) \<le> 1872"
    using items by (simp add: log_document_def comma_if_def)
  have "snd (envelope_frame 128 ?h (log_payload b) None 0) =
      length (?h (length (json_text (log_document b)))) + length (json_text (log_document b)) + 1"
    by (subst log_payload.frame_counts) (simp_all add: length_log_header)
  then have "snd (envelope_frame 128 ?h (log_payload b) None 0) \<le> 1984"
    using doc length_log_header_sharp [of "log_item_count (lb_ring b)" "length (json_text (log_document b))"] by simp
  then show ?thesis
    by (simp add: sentry_log_envelope_write_def clear_if_room_def Let_def log_payload_def
        SENTRY_MICRO_ENVELOPE_BUFFER_BYTES_def)
qed

text \<open>
  A line that survives two reboots is dated against the clock of the boot in between: recorded
  at uptime 100 s of a boot that never knew the time, it comes out fifty seconds after an
  instant the next boot read when it had been up for fifty seconds, so after that boot began.
\<close>

lemma log_line_of_older_boot_misdated:
  "let r0 = sentry_log_ring_reset undefined;
       r1 = fst (sentry_log_ring_push SENTRY_LEVEL_ERROR None 100 (Some ''crash'') False r0);
       r2 = sentry_log_ring_set_anchor 1000 50 (fst (sentry_log_ring_begin_boot r1));
       r3 = fst (sentry_log_ring_begin_boot r2)
   in entry_unix_us r3 (hd (log_slots r3)) 10 5000 = 1050 \<and> (1000 - 50 :: u64) < 1050"
  by (simp add: Let_def sentry_log_ring_reset_def sentry_log_ring_push_def sentry_log_ring_begin_boot_def
      sentry_log_ring_set_anchor_def entry_unix_us_def sentry_log_entry_is_recovered_def log_slots_def
      SENTRY_MICRO_MAX_LOGS_def log_entry_zero_def)

section \<open>Witnesses\<close>

text \<open>Seven lines in a ring of six, over a reboot.\<close>

definition sample_log_calls :: "log_call list" where
  "sample_log_calls =
     map (\<lambda>i. LogPush SENTRY_LEVEL_INFO (Some (replicate 32 CHR ''a'')) (of_nat i) ''boot'' False) [1..<4] @
     [LogSetAnchor 2000 1, LogBeginBoot] @
     map (\<lambda>i. LogPush SENTRY_LEVEL_WARNING None (of_nat i) ''up'' True) [2..<6]"

definition sample_batch :: log_batch where
  "sample_batch = \<lparr>lb_ring = fold do_log_call sample_log_calls (sentry_log_ring_reset undefined),
     lb_fallback_trace_id = Some (replicate 32 CHR ''b''), lb_device_id = Some ''0011aabbccdd'',
     lb_now_uptime_us = 9, lb_now_unix_us = 5000\<rparr>"

lemma sample_slots:
  "log_slots (lb_ring sample_batch) =
     map (\<lambda>i. recorded SENTRY_LEVEL_INFO (Some (replicate 32 CHR ''a'')) (of_nat i) ''boot'' False 0) [2, 3] @
     map (\<lambda>i. recorded SENTRY_LEVEL_WARNING None (of_nat i) ''up'' True 1) [2, 3, 4, 5]"
  "log_wf (lb_ring sample_batch)" "lr_boot_seq (lb_ring sample_batch) = 1"
  using log_refines_run [of sample_log_calls undefined]
  by (simp_all add: log_refines_def sample_batch_def sample_log_calls_def upt_rec bounded_push_def
      SENTRY_MICRO_MAX_LOGS_def)

lemma sample_lines:
  "recorded l t u s tr boot = \<lparr>le_body = take 80 s, le_trace_id = take 32 (case t of Some x \<Rightarrow> x | None \<Rightarrow> []),
     le_uptime_us = u, le_level = l, le_truncated = (tr \<or> 81 \<le> length s), le_used = True, le_boot_seq = boot\<rparr>"
  by (simp add: recorded_def SENTRY_MICRO_LOG_BODY_LEN_def SENTRY_MICRO_TRACE_ID_LEN_def)

theorem log_envelope_reads_back_witness:
  "fst (sentry_log_envelope_write (Some (replicate 10 CHR ''x'')) 10 (Some (lb_ring sample_batch))
     (lb_fallback_trace_id sample_batch) (lb_device_id sample_batch) (lb_now_uptime_us sample_batch)
     0) = Some (NUL # replicate 9 CHR ''x'')"
proof -
  have "log_wf (lb_ring (sample_batch\<lparr>lb_now_unix_us := 0\<rparr>))" using sample_slots(2) by simp
  from log_envelope_reads_back [of "replicate 10 CHR ''x''" 10, OF _ _ _ this]
  show ?thesis by (simp add: mem_write_def)
qed

definition dated_batch :: log_batch where
  "dated_batch = sample_batch\<lparr>lb_ring := (lb_ring sample_batch)\<lparr>lr_prev_anchor_unix_us := 2000\<rparr>\<rparr>"

theorem log_timeline_in_order_witness:
  "sorted (map (log_time dated_batch) (log_slots (lb_ring dated_batch)))"
proof -
  let ?old = "map (\<lambda>i. recorded SENTRY_LEVEL_INFO (Some (replicate 32 CHR ''a'')) (of_nat i) ''boot'' False 0) [2, 3]"
  let ?new = "map (\<lambda>i. recorded SENTRY_LEVEL_WARNING None (of_nat i) ''up'' True 1) [2, 3, 4, 5]"
  have slots: "log_slots (lb_ring dated_batch) = ?old @ ?new"
    using sample_slots(1) by (simp add: dated_batch_def log_slots_def)
  have boot: "lr_boot_seq (lb_ring dated_batch) = 1" "lr_prev_anchor_unix_us (lb_ring dated_batch) = 2000"
    using sample_slots(3) by (simp_all add: dated_batch_def)
  have clock: "lb_now_uptime_us dated_batch \<le> lb_now_unix_us dated_batch"
    by (simp add: dated_batch_def sample_batch_def)
  have old: "\<forall>e \<in> set ?old. sentry_log_entry_is_recovered (lb_ring dated_batch) e"
    and new: "\<forall>e \<in> set ?new. \<not> sentry_log_entry_is_recovered (lb_ring dated_batch) e"
    by (simp_all add: sentry_log_entry_is_recovered_def boot recorded_def)
  have "\<forall>e \<in> set ?old. unat (lr_prev_anchor_unix_us (lb_ring dated_batch)) + unat (le_uptime_us e) < 2 ^ 64"
    by (simp add: boot recorded_def)
  moreover have "sorted (map le_uptime_us ?old)" "sorted (map le_uptime_us ?new)" by (simp_all add: recorded_def)
  ultimately show ?thesis using log_timeline_in_order [OF slots old new _ _ clock] by blast
qed

lemma line_fits_recorded:
  assumes "list_all plain s" and "case t of None \<Rightarrow> True | Some x \<Rightarrow> list_all plain x"
  shows "line_fits (recorded l t u s tr boot)"
proof -
  have "list_all plain (take n x)" if "list_all plain x" for n x
    using that by (metis append_take_drop_id list_all_append)
  then show ?thesis
    using assms recorded_ok [of l t u s tr boot]
    by (simp add: line_fits_def) (simp add: recorded_def split: option.splits)
qed

theorem log_envelope_fits_buffer_witness:
  "snd (sentry_log_envelope_write None 0 (Some (lb_ring sample_batch)) (lb_fallback_trace_id sample_batch)
    (lb_device_id sample_batch) (lb_now_uptime_us sample_batch) (lb_now_unix_us sample_batch)) <
   SENTRY_MICRO_ENVELOPE_BUFFER_BYTES"
proof (rule log_envelope_fits_buffer [OF sample_slots(2)])
  have a: "list_all plain (replicate 32 c)" if "plain c" for c using that by (simp add: list_all_iff)
  show "\<forall>e \<in> set (log_slots (lb_ring sample_batch)). line_fits e"
    unfolding sample_slots(1) using a [of "CHR ''a''"]
    by (auto intro!: line_fits_recorded simp: plain_def)
  show "lb_fallback_trace_id sample_batch = Some (replicate 32 CHR ''b'')"
    "lb_device_id sample_batch = Some ''0011aabbccdd''" by (simp_all only: sample_batch_def log_batch.simps)
  show "list_all plain (replicate 32 CHR ''b'')" by (rule a) (simp add: plain_def)
qed (simp_all add: plain_def)

end
