(* ===== verification/Sentry_Metrics.thy ===== *)
theory Sentry_Metrics
  imports Sentry_Envelope_Correct
begin

text \<open>
  The metrics table, \<open>src/core/sentry_metrics.c\<close>: ten slots keyed by type and name, counters
  that add up and gauges that keep their latest reading, sent as one \<open>trace_metric\<close> envelope.

  \<open>sentry_metrics\<close> is \<open>sentry_metrics_t\<close>. A slot stores the caller's name pointer; the model
  stores the name, so the pointer test in front of \<open>strcmp\<close> is subsumed by the comparison.
  The table is proved to be a map from keys to values, bounded in its number of keys.
\<close>

section \<open>Data\<close>

definition SENTRY_MICRO_MAX_METRICS :: nat where "SENTRY_MICRO_MAX_METRICS = 10"

datatype sentry_metric_type = SENTRY_METRIC_COUNTER | SENTRY_METRIC_GAUGE

record sentry_metric =
  me_name :: string
  me_unit :: cptr
  me_type :: sentry_metric_type
  me_value :: i64
  me_used :: bool

record sentry_metrics =
  ms_items :: "sentry_metric list"
  ms_dropped :: u16

definition metric_zero :: sentry_metric where
  "metric_zero = \<lparr>me_name = [], me_unit = None, me_type = SENTRY_METRIC_COUNTER, me_value = 0,
     me_used = False\<rparr>"

section \<open>Operations\<close>

definition sentry_metrics_reset :: "sentry_metrics \<Rightarrow> sentry_metrics" where
  "sentry_metrics_reset metrics =
     \<lparr>ms_items = replicate SENTRY_MICRO_MAX_METRICS metric_zero, ms_dropped = 0\<rparr>"

text \<open>
  The loop of \<open>slot_for\<close> over the slots from \<open>i\<close> on: \<open>Inl\<close> the slot of that name, or \<open>Inr\<close>
  the first free slot seen.
\<close>

fun slot_scan ::
    "string \<Rightarrow> sentry_metric_type \<Rightarrow> nat \<Rightarrow> nat option \<Rightarrow> sentry_metric list \<Rightarrow> nat + nat option" where
  "slot_scan name ty i free_slot [] = Inr free_slot"
| "slot_scan name ty i free_slot (item # items) =
     (if \<not> me_used item then
        slot_scan name ty (i + 1) (if free_slot = None then Some i else free_slot) items
      else if me_type item = ty \<and> me_name item = name then Inl i
      else slot_scan name ty (i + 1) free_slot items)"

definition slot_for ::
    "string \<Rightarrow> sentry_metric_type \<Rightarrow> cptr \<Rightarrow> sentry_metrics \<Rightarrow> sentry_metrics \<times> nat option" where
  "slot_for name ty unit metrics =
     (case slot_scan name ty 0 None (ms_items metrics) of
        Inl i \<Rightarrow> (metrics, Some i)
      | Inr None \<Rightarrow> (metrics\<lparr>ms_dropped := ms_dropped metrics + 1\<rparr>, None)
      | Inr (Some i) \<Rightarrow>
          (metrics\<lparr>ms_items := (ms_items metrics)[i :=
             \<lparr>me_name = name, me_unit = unit, me_type = ty, me_value = 0, me_used = True\<rparr>]\<rparr>, Some i))"

definition sentry_metrics_count ::
    "cptr \<Rightarrow> i64 \<Rightarrow> cptr \<Rightarrow> sentry_metrics \<Rightarrow> sentry_metrics \<times> bool" where
  "sentry_metrics_count name delta unit metrics =
     (case name of
        None \<Rightarrow> (metrics, False)
      | Some n \<Rightarrow>
          (case slot_for n SENTRY_METRIC_COUNTER unit metrics of
             (m, None) \<Rightarrow> (m, False)
           | (m, Some i) \<Rightarrow>
               (let item = ms_items m ! i
                in (m\<lparr>ms_items := (ms_items m)[i := item\<lparr>me_value := me_value item + delta\<rparr>]\<rparr>, True))))"

definition sentry_metrics_gauge ::
    "cptr \<Rightarrow> i64 \<Rightarrow> cptr \<Rightarrow> sentry_metrics \<Rightarrow> sentry_metrics \<times> bool" where
  "sentry_metrics_gauge name value unit metrics =
     (case name of
        None \<Rightarrow> (metrics, False)
      | Some n \<Rightarrow>
          (case slot_for n SENTRY_METRIC_GAUGE unit metrics of
             (m, None) \<Rightarrow> (m, False)
           | (m, Some i) \<Rightarrow>
               (m\<lparr>ms_items := (ms_items m)[i := (ms_items m ! i)\<lparr>me_value := value\<rparr>]\<rparr>, True)))"

definition sentry_metrics_empty :: "sentry_metrics option \<Rightarrow> bool" where
  "sentry_metrics_empty metrics =
     (case metrics of None \<Rightarrow> True | Some m \<Rightarrow> \<not> list_ex me_used (ms_items m))"

section \<open>The envelope\<close>

definition metric_type_name :: "sentry_metric_type \<Rightarrow> string" where
  "metric_type_name ty = (if ty = SENTRY_METRIC_COUNTER then ''counter'' else ''gauge'')"

definition metric_item :: "cptr \<Rightarrow> u64 \<Rightarrow> sentry_metric \<Rightarrow> sentry_json \<Rightarrow> sentry_json" where
  "metric_item trace_id now_unix_us item =
     in_object
       [sentry_json_kv_string ''name'' (Some (me_name item)),
        sentry_json_kv_string ''type'' (Some (metric_type_name (me_type item))),
        sentry_json_key ''value'',
        sentry_json_int (me_value item),
        sentry_json_kv_string_opt ''unit'' (me_unit item),
        sentry_json_kv_string ''trace_id'' trace_id,
        sentry_json_kv_micros ''timestamp'' now_unix_us]"

definition write_metric_items :: "sentry_metrics \<Rightarrow> cptr \<Rightarrow> u64 \<Rightarrow> json_stmts" where
  "write_metric_items metrics trace_id now_unix_us =
     [sentry_json_key ''items'',
      in_array (concat (map (\<lambda>item. if_true (me_used item) [metric_item trace_id now_unix_us item])
        (ms_items metrics)))]"

definition metric_item_count :: "sentry_metrics \<Rightarrow> u8" where
  "metric_item_count metrics = of_nat (length (filter me_used (ms_items metrics)))"

definition metric_header :: "u8 \<Rightarrow> nat \<Rightarrow> string" where
  "metric_header item_count payload_len =
     ''{}'' @ [NEWLINE] @ ''{'' @ [QUOTE] @ ''type'' @ [QUOTE] @ '':'' @
     [QUOTE] @ ''trace_metric'' @ [QUOTE] @
     '','' @ [QUOTE] @ ''item_count'' @ [QUOTE] @ '':'' @ dec (unat item_count) @
     '','' @ [QUOTE] @ ''content_type'' @ [QUOTE] @ '':'' @
     [QUOTE] @ ''application/vnd.sentry.items.trace-metric+json'' @ [QUOTE] @
     '','' @ [QUOTE] @ ''length'' @ [QUOTE] @ '':'' @ dec (payload_len mod 2 ^ 32) @ ''}'' @ [NEWLINE]"

definition sentry_metrics_envelope_write ::
    "string option \<Rightarrow> nat \<Rightarrow> sentry_metrics option \<Rightarrow> cptr \<Rightarrow> u64 \<Rightarrow> string option \<times> nat" where
  "sentry_metrics_envelope_write buf cap metrics trace_id now_unix_us =
     (let buf = clear_if_room buf cap
      in if trace_id = None \<or> trace_id = Some [] \<or> now_unix_us = 0 \<or> sentry_metrics_empty metrics
         then (buf, 0)
         else
           (let m = the metrics
            in envelope_frame 160 (metric_header (metric_item_count m))
                 (run_json (in_object (write_metric_items m trace_id now_unix_us))) buf cap))"

section \<open>The table is a bounded map\<close>

type_synonym metric_key = "sentry_metric_type \<times> string"

abbreviation key_of :: "sentry_metric \<Rightarrow> metric_key" where
  "key_of item \<equiv> (me_type item, me_name item)"

definition live_items :: "sentry_metrics \<Rightarrow> sentry_metric list" where
  "live_items m = filter me_used (ms_items m)"

definition metric_map :: "sentry_metrics \<Rightarrow> metric_key \<rightharpoonup> i64" where
  "metric_map m = map_of (map (\<lambda>item. (key_of item, me_value item)) (live_items m))"

definition metrics_wf :: "sentry_metrics \<Rightarrow> bool" where
  "metrics_wf m \<longleftrightarrow> length (ms_items m) = SENTRY_MICRO_MAX_METRICS \<and>
     distinct (map key_of (live_items m))"

text \<open>What the scan finds.\<close>

lemma slot_scan_Inl:
  "slot_scan name ty i free items = Inl j \<Longrightarrow>
     \<exists>k < length items. j = i + k \<and> me_used (items ! k) \<and> key_of (items ! k) = (ty, name)"
proof (induction items arbitrary: i free)
  case (Cons item items)
  show ?case
  proof (cases "me_used item \<and> me_type item = ty \<and> me_name item = name")
    case True
    then show ?thesis using Cons.prems by (intro exI [of _ 0]) auto
  next
    case False
    then obtain free' where "slot_scan name ty (i + 1) free' items = Inl j"
      using Cons.prems by (auto split: if_splits)
    from Cons.IH [OF this] obtain k where
      "k < length items" "j = i + 1 + k" "me_used (items ! k)" "key_of (items ! k) = (ty, name)" by blast
    then show ?thesis by (intro exI [of _ "Suc k"]) auto
  qed
qed simp

lemma slot_scan_Inr:
  "slot_scan name ty i free items = Inr r \<Longrightarrow>
     (ty, name) \<notin> set (map key_of (filter me_used items)) \<and>
     (r = None \<longrightarrow> free = None \<and> list_all me_used items) \<and>
     (\<forall>j. r = Some j \<longrightarrow> free = Some j \<or>
        free = None \<and> (\<exists>k < length items. j = i + k \<and> \<not> me_used (items ! k)))"
proof (induction items arbitrary: i free)
  case (Cons item items)
  have later: "\<exists>k < length (item # items). j = i + k \<and> \<not> me_used ((item # items) ! k)"
    if "\<exists>k < length items. j = i + 1 + k \<and> \<not> me_used (items ! k)" for j
    using that by (metis Suc_less_eq add.assoc length_Cons nth_Cons_Suc plus_1_eq_Suc)
  show ?case
  proof (cases "me_used item")
    case True
    then have s: "slot_scan name ty (i + 1) free items = Inr r" and k: "key_of item \<noteq> (ty, name)"
      using Cons.prems by (auto split: if_splits)
    from Cons.IH [OF s] show ?thesis using True k later by auto
  next
    case False
    then have s: "slot_scan name ty (i + 1) (if free = None then Some i else free) items = Inr r"
      using Cons.prems by simp
    have here: "\<exists>k < length (item # items). i = i + k \<and> \<not> me_used ((item # items) ! k)"
      using False by (intro exI [of _ 0]) simp
    from Cons.IH [OF s] show ?thesis using False here by (auto split: if_splits)
  qed
qed auto

lemma live_split:
  assumes "k < length xs"
  shows "filter P xs = filter P (take k xs) @ filter P [xs ! k] @ filter P (drop (Suc k) xs)"
    and "filter P (xs[k := y]) = filter P (take k xs) @ filter P [y] @ filter P (drop (Suc k) xs)"
  using assms id_take_nth_drop [OF assms] upd_conv_take_nth_drop [OF assms, of y]
  by (metis append_Cons append_Nil filter_append)+

lemma dom_metric_map: "dom (metric_map m) = set (map key_of (live_items m))"
  by (simp add: metric_map_def dom_map_of_conv_image_fst image_image)

text \<open>Storing in a slot that is free, or that holds the key already.\<close>

lemma put_slot:
  fixes m k y
  defines "m' \<equiv> m\<lparr>ms_items := (ms_items m)[k := y]\<rparr>"
  assumes wf: "metrics_wf m" and k: "k < length (ms_items m)" and y: "me_used y"
    and old: "if me_used (ms_items m ! k) then key_of (ms_items m ! k) = key_of y
      else key_of y \<notin> dom (metric_map m)"
  shows "metrics_wf m'" and "metric_map m' = (metric_map m)(key_of y \<mapsto> me_value y)"
proof -
  let ?A = "filter me_used (take k (ms_items m))" and ?B = "filter me_used (drop (Suc k) (ms_items m))"
  let ?kv = "\<lambda>item. (key_of item, me_value item)"
  have live: "live_items m = ?A @ filter me_used [ms_items m ! k] @ ?B"
    and live': "live_items m' = ?A @ [y] @ ?B"
    using live_split [OF k, of me_used] y by (simp_all add: live_items_def m'_def)
  note dom = dom_metric_map [of m]
  have dist: "distinct (map key_of (live_items m))" using wf by (simp add: metrics_wf_def)
  have fresh: "key_of y \<notin> key_of ` set ?A" "key_of y \<notin> key_of ` set ?B"
    using old dist dom by (auto simp: live split: if_splits)
  then have "distinct (map key_of (live_items m'))"
    using dist unfolding live live' by (auto split: if_splits)
  then show "metrics_wf m'" using wf by (simp add: metrics_wf_def) (simp add: m'_def)
  have "key_of y \<notin> dom (map_of (map ?kv ?A))" using fresh(1)
    by (simp add: dom_map_of_conv_image_fst image_image del: set_filter)
  then have put: "map_of (map ?kv (?A @ [x] @ ?B)) = (map_of (map ?kv (?A @ ?B)))(key_of y \<mapsto> me_value x)"
    if "key_of x = key_of y" for x
    using that by (simp add: map_add_upd_left)
  show "metric_map m' = (metric_map m)(key_of y \<mapsto> me_value y)"
    using put [of y] put [of "ms_items m ! k"] old
    by (simp only: metric_map_def live live') (auto split: if_splits)
qed

text \<open>Both recording calls are the same update of a slot.\<close>

definition metric_put ::
    "string \<Rightarrow> sentry_metric_type \<Rightarrow> cptr \<Rightarrow> (i64 \<Rightarrow> i64) \<Rightarrow> sentry_metrics \<Rightarrow> sentry_metrics \<times> bool" where
  "metric_put name ty unit f m =
     (case slot_for name ty unit m of
        (m', None) \<Rightarrow> (m', False)
      | (m', Some i) \<Rightarrow>
          (m'\<lparr>ms_items := (ms_items m')[i := (ms_items m' ! i)\<lparr>me_value := f (me_value (ms_items m' ! i))\<rparr>]\<rparr>, True))"

lemma metric_put_calls:
  "sentry_metrics_count (Some n) delta unit m = metric_put n SENTRY_METRIC_COUNTER unit (\<lambda>v. v + delta) m"
  "sentry_metrics_gauge (Some n) value unit m = metric_put n SENTRY_METRIC_GAUGE unit (\<lambda>v. value) m"
  by (simp_all add: sentry_metrics_count_def sentry_metrics_gauge_def metric_put_def Let_def)

lemma card_live:
  assumes "metrics_wf m"
  shows "card (dom (metric_map m)) = length (live_items m)"
  unfolding dom_metric_map using assms distinct_card [of "map key_of (live_items m)"]
  by (simp add: metrics_wf_def)

lemma metric_put_map:
  fixes name ty unit f m
  assumes wf: "metrics_wf m"
  defines "key \<equiv> (ty, name)" and "r \<equiv> metric_put name ty unit f m"
  shows "metrics_wf (fst r) \<and>
    (snd r \<longleftrightarrow> key \<in> dom (metric_map m) \<or> card (dom (metric_map m)) < SENTRY_MICRO_MAX_METRICS) \<and>
    metric_map (fst r) = (if snd r
      then (metric_map m)(key \<mapsto> f (case metric_map m key of Some v \<Rightarrow> v | None \<Rightarrow> 0)) else metric_map m)"
proof (cases "slot_scan name ty 0 None (ms_items m)")
  case (Inl i)
  then have i: "i < length (ms_items m)" "me_used (ms_items m ! i)" "key_of (ms_items m ! i) = key"
    using slot_scan_Inl [OF Inl] by (auto simp: key_def)
  let ?y = "(ms_items m ! i)\<lparr>me_value := f (me_value (ms_items m ! i))\<rparr>"
  have r: "r = (m\<lparr>ms_items := (ms_items m)[i := ?y]\<rparr>, True)"
    by (simp add: r_def metric_put_def slot_for_def Inl)
  have "ms_items m ! i \<in> set (live_items m)" using i by (simp add: live_items_def)
  then have "(key, me_value (ms_items m ! i)) \<in> set (map (\<lambda>item. (key_of item, me_value item)) (live_items m))"
    using i(3) by force
  then have v: "metric_map m key = Some (me_value (ms_items m ! i))"
    unfolding metric_map_def using wf by (intro map_of_is_SomeI) (simp_all add: metrics_wf_def o_def)
  have "metrics_wf (fst r)" "metric_map (fst r) = (metric_map m)(key \<mapsto> f (me_value (ms_items m ! i)))"
    using put_slot [OF wf i(1), of ?y] i(2,3) by (simp_all add: r)
  moreover have "snd r" "key \<in> dom (metric_map m)" using v by (simp_all add: r domI)
  ultimately show ?thesis using v by simp
next
  case (Inr free)
  note s = slot_scan_Inr [OF Inr, folded key_def]
  have new: "key \<notin> dom (metric_map m)"
    unfolding dom_metric_map live_items_def using s by blast
  show ?thesis
  proof (cases free)
    case None
    then have r: "r = (m\<lparr>ms_dropped := ms_dropped m + 1\<rparr>, False)"
      using Inr by (simp add: r_def metric_put_def slot_for_def)
    have "live_items m = ms_items m" using s None by (simp add: live_items_def list_all_iff filter_id_conv)
    then have "card (dom (metric_map m)) = SENTRY_MICRO_MAX_METRICS"
      using card_live [OF wf] wf by (simp add: metrics_wf_def)
    then show ?thesis using wf new by (simp add: r metrics_wf_def metric_map_def live_items_def)
  next
    case (Some i)
    then have i: "i < length (ms_items m)" "\<not> me_used (ms_items m ! i)" using s by auto
    let ?y = "\<lparr>me_name = name, me_unit = unit, me_type = ty, me_value = f 0, me_used = True\<rparr>"
    have r: "r = (m\<lparr>ms_items := (ms_items m)[i := ?y]\<rparr>, True)"
      using i Inr Some by (simp add: r_def metric_put_def slot_for_def)
    have "length (live_items m) < length (ms_items m)"
      using i by (metis length_filter_less live_items_def nth_mem)
    then have "card (dom (metric_map m)) < SENTRY_MICRO_MAX_METRICS"
      using card_live [OF wf] wf by (simp add: metrics_wf_def)
    moreover have "metric_map m key = None" using new by auto
    ultimately show ?thesis
      using put_slot [OF wf i(1), of ?y] i(2) new by (simp add: r key_def)
  qed
qed

datatype metric_call =
    MetricCount string i64 cptr
  | MetricGauge string i64 cptr
  | MetricReset

fun do_metric_call :: "metric_call \<Rightarrow> sentry_metrics \<Rightarrow> sentry_metrics" where
  "do_metric_call (MetricCount name delta unit) m = fst (sentry_metrics_count (Some name) delta unit m)"
| "do_metric_call (MetricGauge name value unit) m = fst (sentry_metrics_gauge (Some name) value unit m)"
| "do_metric_call MetricReset m = sentry_metrics_reset m"

text \<open>A map that takes a new key only while it has fewer than ten.\<close>

definition bounded_update ::
    "metric_key \<Rightarrow> (i64 \<Rightarrow> i64) \<Rightarrow> (metric_key \<rightharpoonup> i64) \<Rightarrow> (metric_key \<rightharpoonup> i64)" where
  "bounded_update key f t =
     (if key \<in> dom t \<or> card (dom t) < SENTRY_MICRO_MAX_METRICS
      then t(key \<mapsto> f (case t key of Some v \<Rightarrow> v | None \<Rightarrow> 0)) else t)"

fun metric_spec :: "metric_call \<Rightarrow> (metric_key \<rightharpoonup> i64) \<Rightarrow> (metric_key \<rightharpoonup> i64)" where
  "metric_spec (MetricCount name delta unit) t = bounded_update (SENTRY_METRIC_COUNTER, name) (\<lambda>v. v + delta) t"
| "metric_spec (MetricGauge name value unit) t = bounded_update (SENTRY_METRIC_GAUGE, name) (\<lambda>v. value) t"
| "metric_spec MetricReset t = Map.empty"

lemma metrics_reset_empty: "metrics_wf (sentry_metrics_reset m) \<and> metric_map (sentry_metrics_reset m) = Map.empty"
  by (simp add: metrics_wf_def metric_map_def live_items_def sentry_metrics_reset_def metric_zero_def)

lemma metric_call_refines:
  "metrics_wf m \<Longrightarrow> metrics_wf (do_metric_call c m) \<and> metric_map (do_metric_call c m) = metric_spec c (metric_map m)"
  using metric_put_map [of m] metrics_reset_empty [of m]
  by (cases c) (simp_all add: metric_put_calls bounded_update_def)

lemma metric_calls_refine:
  "metrics_wf (fold do_metric_call cs (sentry_metrics_reset m)) \<and>
   metric_map (fold do_metric_call cs (sentry_metrics_reset m)) = fold metric_spec cs Map.empty"
proof -
  have "metrics_wf m \<Longrightarrow> metrics_wf (fold do_metric_call cs m) \<and>
      metric_map (fold do_metric_call cs m) = fold metric_spec cs (metric_map m)" for m
    by (induction cs arbitrary: m) (simp_all add: metric_call_refines)
  then show ?thesis using metrics_reset_empty [of m] by simp
qed

text \<open>
  C28: The metrics table is a map of at most ten keys: over any calls since a reset, a counter
  holds the sum of what was added under its name and a gauge its last reading, the two kinds of
  one name apart; a new name is refused, and only then a call returns false, when ten others
  hold the table, and no value already there changes for it.
\<close>

theorem metrics_table_is_bounded_map:
  fixes cs :: "metric_call list" and m0 :: sentry_metrics
  defines "m \<equiv> fold do_metric_call cs (sentry_metrics_reset m0)"
    and "t \<equiv> fold metric_spec cs Map.empty"
  shows "metric_map m = t \<and> card (dom t) \<le> SENTRY_MICRO_MAX_METRICS \<and>
    (snd (sentry_metrics_count (Some name) delta unit m) \<longleftrightarrow>
       (SENTRY_METRIC_COUNTER, name) \<in> dom t \<or> card (dom t) < SENTRY_MICRO_MAX_METRICS) \<and>
    (snd (sentry_metrics_gauge (Some name) value unit m) \<longleftrightarrow>
       (SENTRY_METRIC_GAUGE, name) \<in> dom t \<or> card (dom t) < SENTRY_MICRO_MAX_METRICS)"
proof -
  have m: "metrics_wf m" "metric_map m = t" using metric_calls_refine by (simp_all add: m_def t_def)
  have "length (live_items m) \<le> length (ms_items m)" by (simp add: live_items_def)
  then have "card (dom t) \<le> SENTRY_MICRO_MAX_METRICS"
    using card_live [OF m(1)] m by (simp add: metrics_wf_def)
  then show ?thesis
    using m metric_put_map [OF m(1), where ty = SENTRY_METRIC_COUNTER and f = "\<lambda>v. v + delta"]
      metric_put_map [OF m(1), where ty = SENTRY_METRIC_GAUGE and f = "\<lambda>v. value"]
    by (simp add: metric_put_calls)
qed

section \<open>What an envelope of metrics reads back as\<close>

definition metric_document :: "cptr \<Rightarrow> u64 \<Rightarrow> sentry_metric \<Rightarrow> json" where
  "metric_document trace_id now_unix_us item = JObject
     ([(''name'', JString (me_name item)), (''type'', JString (metric_type_name (me_type item))),
       (''value'', json_of_int (me_value item))] @
      opt_member ''unit'' (me_unit item) @
      [(''trace_id'', json_of_cptr trace_id), (''timestamp'', JNumber (micros_text now_unix_us))])"

text \<open>A batch is the table, the trace id and the instant it is sent with.\<close>

type_synonym metric_batch = "sentry_metrics \<times> cptr \<times> u64"

definition metrics_document :: "metric_batch \<Rightarrow> json" where
  "metrics_document b = (case b of (m, trace_id, now) \<Rightarrow>
     JObject [(''items'', JArray (map (metric_document trace_id now) (live_items m)))])"

definition metrics_payload :: "metric_batch \<Rightarrow> payload_fn" where
  "metrics_payload b = (case b of (m, trace_id, now) \<Rightarrow>
     run_json (in_object (write_metric_items m trace_id now)))"

definition metric_type_header :: "u8 \<Rightarrow> nat \<Rightarrow> json" where
  "metric_type_header count n = JObject
     [(''type'', JString ''trace_metric''), (''item_count'', JNumber (dec (unat count))),
      (''content_type'', JString ''application/vnd.sentry.items.trace-metric+json''),
      (''length'', JNumber (dec n))]"

lemma emits_metric_item: "emits_value (metric_item trace_id now item) (metric_document trace_id now item)"
  unfolding metric_item_def
  by (rule emits_value_eq, (rule stmt_rules)+) (simp add: metric_document_def)

lemma emits_metrics_document:
  "emits_value (in_object (write_metric_items m trace_id now)) (metrics_document (m, trace_id, now))"
  unfolding write_metric_items_def concat_if_true
  by (rule emits_value_eq, (rule emits_values_map emits_metric_item stmt_rules)+)
    (simp add: metrics_document_def live_items_def)

interpretation metrics_payload: envelope_payload metrics_payload metrics_document "\<lambda>b. True"
proof
  fix b :: metric_batch and mem :: string and cap :: nat
  obtain m t now where b: "b = (m, t, now)" by (cases b)
  show "metrics_payload b None 0 = (None, length (json_text (metrics_document b)))"
    by (simp add: b metrics_payload_def run_json_counts(1) [OF emits_metrics_document])
  show "\<exists>mem'. metrics_payload b (Some mem) cap = (Some mem', length (json_text (metrics_document b))) \<and>
      length mem' = cap \<and> take (length (json_text (metrics_document b))) mem' = json_text (metrics_document b)"
    if "length mem = cap" "length (json_text (metrics_document b)) < cap"
    using that unfolding b metrics_payload_def prod.case
    by (intro run_json_writes(1) [OF emits_metrics_document])
  show "wf_json (metrics_document b)"
    by (simp add: b metrics_document_def metric_document_def)
qed

lemma metric_header_text:
  "n < 2 ^ 32 \<Longrightarrow>
     metric_header c n = json_text (JObject []) @ [NEWLINE] @ json_text (metric_type_header c n) @ [NEWLINE]"
  by (simp add: metric_header_def metric_type_header_def comma_if_def) (simp add: json_text_string_def escape_byte_def)

lemma metric_type_header_ok [simp]:
  "wf_json (metric_type_header c n)" "length_member (metric_type_header c n) = Some n"
  by (simp_all add: metric_type_header_def wf_number_dec length_member_def json_member_def read_nat_dec)

lemma length_metric_header: "length (metric_header c n) < 160"
proof -
  have "length (dec (n mod 2 ^ 32)) \<le> 10" by (intro length_dec) simp_all
  moreover have "unat c < 10 ^ 3" by (rule less_trans [OF unat_u8_less]) simp
  then have "length (dec (unat c)) \<le> 3" by (intro length_dec) simp_all
  ultimately show ?thesis by (simp add: metric_header_def)
qed

text \<open>
  C29: A metrics envelope is exact or absent: when the table holds a metric and there is a trace
  id and a clock, either the buffer holds an envelope that reads back as one item with every
  metric of the table under that trace and instant, with the number of them in its header, or it
  is left an empty string; otherwise nothing is written and 0 returned.
\<close>

theorem metrics_envelope_reads_back:
  fixes m trace_id now mem cap
  defines "wr \<equiv> \<lambda>buf c. sentry_metrics_envelope_write buf c (Some m) trace_id now"
  defines "n \<equiv> snd (wr None 0)"
  assumes "length mem = cap" and "0 < cap" and "cap \<le> 2 ^ 32"
  shows "if now = 0 \<or> trace_id \<in> {None, Some []} \<or> live_items m = []
    then wr (Some mem) cap = (Some (mem_write mem 0 [NUL]), 0)
    else if n < cap
    then \<exists>mem' k. wr (Some mem) cap = (Some mem', n) \<and> length mem' = cap \<and>
      length (cstring_of mem') = n \<and>
      read_envelope (cstring_of mem') = Some (JObject [], metric_type_header (metric_item_count m) k,
        JObject [(''items'', JArray (map (metric_document trace_id now) (live_items m)))])
    else wr (Some mem) cap = (Some (mem_write mem 0 [NUL]), n)"
proof -
  have empty: "\<not> list_ex me_used (ms_items m) \<longleftrightarrow> live_items m = []"
    by (simp add: live_items_def list_ex_iff filter_empty_conv)
  show ?thesis
  proof (cases "now = 0 \<or> trace_id \<in> {None, Some []} \<or> live_items m = []")
    case True
    then show ?thesis
      using assms(4) empty by (auto simp: wr_def sentry_metrics_envelope_write_def sentry_metrics_empty_def
          clear_if_room_def clear_first_def Let_def)
  next
    case False
    let ?b = "(m, trace_id, now)"
    let ?wr = "envelope_frame 160 (metric_header (metric_item_count m)) (metrics_payload ?b)"
    have eqs: "wr (Some mem) cap = ?wr (Some (mem_write mem 0 [NUL])) cap" "n = snd (?wr None 0)"
      using False assms(4) empty by (auto simp: wr_def n_def sentry_metrics_envelope_write_def
          sentry_metrics_empty_def metrics_payload_def clear_if_room_def clear_first_def Let_def)
    have len: "length (mem_write mem 0 [NUL]) = cap" using assms(3,4) by simp
    have again: "mem_write (mem_write mem 0 [NUL]) 0 [NUL] = mem_write mem 0 [NUL]"
      using assms(3,4) by (cases mem) (simp_all add: mem_write_def)
    from metrics_payload.exact_or_absent [OF TrueI len assms(5), where x = ?b and header_cap = 160
        and header_of = "metric_header (metric_item_count m)" and top = "JObject []"
        and item = "metric_type_header (metric_item_count m)", OF metric_header_text, simplified again]
    moreover have doc: "metrics_document ?b =
        JObject [(''items'', JArray (map (metric_document trace_id now) (live_items m)))]"
      by (simp add: metrics_document_def)
    ultimately show ?thesis
      unfolding if_not_P [OF False] eqs doc [symmetric]
      by (simp add: length_metric_header)
  qed
qed

definition sample_metrics :: sentry_metrics where
  "sample_metrics = fold do_metric_call
     [MetricCount ''ble.disconnect'' 1 None, MetricGauge ''free_heap'' 4096 (Some ''byte'')]
     (sentry_metrics_reset undefined)"

theorem metrics_envelope_reads_back_witness:
  "fst (sentry_metrics_envelope_write (Some ''xyz'') 3 (Some sample_metrics) (Some ''t'') 0) =
     Some (NUL # ''yz'')"
  using metrics_envelope_reads_back [of "''xyz''" 3 0 "Some ''t''" sample_metrics]
  by (simp add: mem_write_def)

end
