(* ===== verification/Sentry_Base64.thy ===== *)
theory Sentry_Base64
  imports Sentry_Prelude
begin

text \<open>
  Base64 (\<open>src/core/sentry_base64.c\<close>): the encoder the line-framed serial link uses to carry
  fields that contain spaces and newlines. The two loops of the encoder are one recursion over
  the bytes. The reference decoder of the last section is written from RFC 4648, not from the
  code; it accepts padding in the last group only.
\<close>

definition k_alphabet :: string where
  "k_alphabet = ''ABCDEFGHIJKLMNOPQRSTUVWXYZabcdefghijklmnopqrstuvwxyz0123456789+/''"

definition SENTRY_BASE64_ENCODED_LEN :: "nat \<Rightarrow> nat" where
  "SENTRY_BASE64_ENCODED_LEN n = 4 * ((n + 2) div 3)"

text \<open>\<open>k_alphabet[(triple >> k) & 0x3f]\<close>.\<close>

definition symbol :: "u32 \<Rightarrow> nat \<Rightarrow> char" where
  "symbol triple k = k_alphabet ! unat (drop_bit k triple AND 0x3f)"

definition whole_group :: "u8 \<Rightarrow> u8 \<Rightarrow> u8 \<Rightarrow> string" where
  "whole_group a b c =
     (let triple = push_bit 16 (ucast a :: u32) OR push_bit 8 (ucast b) OR ucast c
      in [symbol triple 18, symbol triple 12, symbol triple 6, symbol triple 0])"

text \<open>The tail of one byte, and of two.\<close>

definition tail_group :: "u8 \<Rightarrow> u8 option \<Rightarrow> string" where
  "tail_group a b =
     (let triple = push_bit 16 (ucast a :: u32);
          triple = (case b of Some x \<Rightarrow> triple OR push_bit 8 (ucast x) | None \<Rightarrow> triple)
      in [symbol triple 18, symbol triple 12,
          case b of Some _ \<Rightarrow> symbol triple 6 | None \<Rightarrow> CHR ''='', CHR ''=''])"

fun base64_text :: "bytes \<Rightarrow> string" where
  "base64_text (a # b # c # rest) = whole_group a b c @ base64_text rest"
| "base64_text [a, b] = tail_group a (Some b)"
| "base64_text [a] = tail_group a None"
| "base64_text [] = []"

text \<open>
  \<open>sentry_base64_encode(out, out_cap, data, len)\<close>: the memory after the call and the length
  returned. The caller's block may be longer than \<open>len\<close>.
\<close>

definition sentry_base64_encode ::
    "string option \<Rightarrow> nat \<Rightarrow> bytes option \<Rightarrow> nat \<Rightarrow> string option \<times> nat" where
  "sentry_base64_encode buf out_cap data len =
     (let needed = SENTRY_BASE64_ENCODED_LEN len in
      case buf of
        None \<Rightarrow> (None, needed)
      | Some mem \<Rightarrow>
          if out_cap = 0 then (Some mem, needed)
          else if out_cap < needed + 1 \<or> (data = None \<and> 0 < len) then (Some (mem_write mem 0 [NUL]), needed)
          else (Some (mem_write mem 0 (base64_text (take len (case data of Some d \<Rightarrow> d | None \<Rightarrow> [])) @ [NUL])),
                needed))"

section \<open>The length and the letters of the text\<close>

lemma SENTRY_BASE64_ENCODED_LEN_steps [simp]:
  "SENTRY_BASE64_ENCODED_LEN 0 = 0" "SENTRY_BASE64_ENCODED_LEN (Suc 0) = 4"
  "SENTRY_BASE64_ENCODED_LEN (Suc (Suc 0)) = 4"
  "SENTRY_BASE64_ENCODED_LEN (Suc (Suc (Suc n))) = 4 + SENTRY_BASE64_ENCODED_LEN n"
  using div_add_self1 [of 3 "n + 2"] by (simp_all add: SENTRY_BASE64_ENCODED_LEN_def)

lemma length_groups [simp]: "length (whole_group a b c) = 4" "length (tail_group a t) = 4"
  by (simp_all add: whole_group_def tail_group_def Let_def)

lemma length_base64_text: "length (base64_text d) = SENTRY_BASE64_ENCODED_LEN (length d)"
  by (induction d rule: base64_text.induct) simp_all

lemma length_k_alphabet [simp]: "length k_alphabet = 64"
  by (simp add: k_alphabet_def)

lemma sextet_less: "unat (drop_bit k (w :: u32) AND 0x3f) < 64"
proof -
  have "drop_bit k w AND 0x3f \<le> 0x3f" by (rule word_and_le1)
  then show ?thesis by (simp add: word_le_nat_alt)
qed

lemma symbol_in_alphabet [simp]: "symbol w k \<in> set k_alphabet"
  unfolding symbol_def by (rule nth_mem) (simp add: sextet_less)

lemma base64_letters: "set (base64_text d) \<subseteq> insert CHR ''='' (set k_alphabet)"
  by (induction d rule: base64_text.induct)
    (auto simp: whole_group_def tail_group_def Let_def split: option.splits)

text \<open>A text cut at multiples of three bytes is the concatenation of the parts' texts.\<close>

lemma base64_text_append: "3 dvd length a \<Longrightarrow> base64_text (a @ b) = base64_text a @ base64_text b"
proof (induction a rule: base64_text.induct)
  case (1 x y z rest)
  then have "3 dvd length rest" by (simp, presburger)
  with 1 show ?case by simp
qed (auto dest: dvd_imp_le)

section \<open>The reference decoder\<close>

fun sextet_of :: "char \<Rightarrow> string \<Rightarrow> nat option" where
  "sextet_of c [] = None"
| "sextet_of c (x # xs) = (if c = x then Some 0 else map_option Suc (sextet_of c xs))"

abbreviation sextet :: "char \<Rightarrow> nat option" where "sextet c \<equiv> sextet_of c k_alphabet"

definition joined :: "nat \<Rightarrow> nat \<Rightarrow> nat \<Rightarrow> nat \<Rightarrow> nat" where
  "joined w x y z = ((w * 64 + x) * 64 + y) * 64 + z"

definition byte_at :: "nat \<Rightarrow> nat \<Rightarrow> u8" where
  "byte_at k n = of_nat (n div 2 ^ k)"

fun decode_last :: "char \<Rightarrow> char \<Rightarrow> char \<Rightarrow> char \<Rightarrow> bytes option" where
  "decode_last p q r s =
     (case (sextet p, sextet q) of
        (Some w, Some x) \<Rightarrow>
          (if r = CHR ''='' \<and> s = CHR ''='' then Some [byte_at 16 (joined w x 0 0)]
           else (case sextet r of
             None \<Rightarrow> None
           | Some y \<Rightarrow>
               if s = CHR ''='' then Some [byte_at 16 (joined w x y 0), byte_at 8 (joined w x y 0)]
               else (case sextet s of
                 None \<Rightarrow> None
               | Some z \<Rightarrow> Some [byte_at 16 (joined w x y z), byte_at 8 (joined w x y z), byte_at 0 (joined w x y z)])))
      | _ \<Rightarrow> None)"

fun base64_decode :: "string \<Rightarrow> bytes option" where
  "base64_decode [] = Some []"
| "base64_decode (p # q # r # s # rest) =
     (if rest \<noteq> [] \<and> s = CHR ''='' then None
      else case (decode_last p q r s, base64_decode rest) of
        (Some g, Some d) \<Rightarrow> Some (g @ d)
      | _ \<Rightarrow> None)"
| "base64_decode _ = None"

lemma sextet_of_nth: "distinct xs \<Longrightarrow> i < length xs \<Longrightarrow> sextet_of (xs ! i) xs = Some i"
  by (induction xs arbitrary: i) (auto simp: nth_Cons nth_eq_iff_index_eq split: nat.splits)

lemma distinct_k_alphabet: "distinct k_alphabet"
  by code_simp

lemma pad_not_symbol [simp]: "symbol w k \<noteq> CHR ''=''"
proof
  assume "symbol w k = CHR ''=''"
  then have "CHR ''='' \<in> set k_alphabet" by (metis symbol_in_alphabet)
  then show False by (simp add: k_alphabet_def)
qed

lemma unat_drop_bit: "unat (drop_bit k (w :: u32)) = unat w div 2 ^ k"
proof -
  have "unat w < 2 ^ 32" using unsigned_less [of w] by simp
  then show ?thesis unfolding unsigned_drop_bit_eq by (simp add: take_bit_nat_eq_self drop_bit_eq_div)
qed

lemma sextet_mask: "x AND 0x3f = take_bit 6 (x :: u32)"
  by (simp add: take_bit_eq_mask mask_eq_exp_minus_1)

lemma unat_sextet: "unat (drop_bit k (w :: u32) AND 0x3f) = unat w div 2 ^ k mod 64"
  unfolding sextet_mask unsigned_take_bit_eq unat_drop_bit by (simp add: take_bit_eq_mod)

lemma sextet_symbol [simp]: "sextet (symbol w k) = Some (unat w div 2 ^ k mod 64)"
  unfolding symbol_def unat_sextet [symmetric]
  by (rule sextet_of_nth [OF distinct_k_alphabet]) (simp add: sextet_less)

lemma joined_sextets:
  assumes "unat w < 2 ^ 24"
  shows "joined (unat w div 2 ^ 18 mod 64) (unat w div 2 ^ 12 mod 64) (unat w div 2 ^ 6 mod 64) (unat w mod 64) = unat w"
proof -
  define u where "u = unat w"
  have split: "u div 2 ^ 6 = u div 64" "u div 2 ^ 12 = u div 64 div 64" "u div 2 ^ 18 = u div 64 div 64 div 64"
    by (simp_all add: div_mult2_eq [symmetric])
  have "u div 64 div 64 div 64 div 64 = 0"
    using assms by (simp add: u_def div_mult2_eq [symmetric])
  then have top: "u div 64 div 64 div 64 mod 64 = u div 64 div 64 div 64" by simp
  show ?thesis
    unfolding joined_def u_def [symmetric] split top by (simp only: div_mult_mod_eq)
qed

text \<open>The three words an encoder group is cut from.\<close>

definition triple_of :: "u8 \<Rightarrow> u8 \<Rightarrow> u8 \<Rightarrow> u32" where
  "triple_of a b c = push_bit 16 (ucast a) OR push_bit 8 (ucast b) OR ucast c"

lemma byte_at_word: "byte_at k (unat w) = ucast (drop_bit k (w :: u32))"
proof -
  have "ucast (drop_bit k w) = (of_nat (unat (drop_bit k w)) :: u8)" by simp
  then show ?thesis by (simp only: unat_drop_bit byte_at_def)
qed

lemma bytes_of_triple:
  "byte_at 16 (unat (triple_of a b c)) = a" "byte_at 8 (unat (triple_of a b c)) = b"
  "byte_at 0 (unat (triple_of a b c)) = c"
  unfolding byte_at_word triple_of_def
  by (rule bit_word_eqI; auto simp: bit_simps dest: bit_imp_le_length)+

lemma triple_less: "unat (triple_of a b c) < 2 ^ 24"
proof -
  have "drop_bit 24 (triple_of a b c) = 0"
    unfolding triple_of_def by (rule bit_word_eqI) (auto simp: bit_simps dest: bit_imp_le_length)
  then have "unat (triple_of a b c) div 2 ^ 24 = 0" by (simp only: unat_drop_bit [symmetric] unsigned_0)
  then show ?thesis by (simp add: div_eq_0_iff)
qed

lemma low_sextets:
  "unat (triple_of a b 0) mod 64 = 0" "unat (triple_of a 0 0) div 2 ^ 6 mod 64 = 0"
proof -
  have "drop_bit 0 (triple_of a b 0) AND 0x3f = 0" "drop_bit 6 (triple_of a 0 0) AND 0x3f = 0"
    unfolding triple_of_def sextet_mask by (rule bit_word_eqI; auto simp: bit_simps)+
  then show "unat (triple_of a b 0) mod 64 = 0" "unat (triple_of a 0 0) div 2 ^ 6 mod 64 = 0"
    using unat_sextet [of 0 "triple_of a b 0"] unat_sextet [of 6 "triple_of a 0 0"]
    by (simp_all del: drop_bit_0)
qed

lemma whole_group_symbols:
  "whole_group a b c = map (symbol (triple_of a b c)) [18, 12, 6, 0]"
  by (simp add: whole_group_def triple_of_def Let_def)

lemma tail_group_symbols:
  "tail_group a None = map (symbol (triple_of a 0 0)) [18, 12] @ ''==''"
  "tail_group a (Some b) = map (symbol (triple_of a b 0)) [18, 12, 6] @ ''=''"
  by (simp_all add: tail_group_def triple_of_def Let_def)

lemmas decode_facts = joined_sextets [OF triple_less] bytes_of_triple low_sextets

lemma decode_whole_group:
  "whole_group a b c = [p, q, r, s] \<Longrightarrow> s \<noteq> CHR ''='' \<and> decode_last p q r s = Some [a, b, c]"
  using decode_facts(1) [of a b c] by (auto simp: whole_group_symbols bytes_of_triple)

lemma decode_tail_group:
  "tail_group a None = [p, q, r, s] \<Longrightarrow> decode_last p q r s = Some [a]"
  "tail_group a (Some b) = [p, q, r, s] \<Longrightarrow> decode_last p q r s = Some [a, b]"
  using decode_facts(1) [of a 0 0] decode_facts(1) [of a b 0] low_sextets
  by (auto simp: tail_group_symbols bytes_of_triple)

lemma base64_roundtrip: "base64_decode (base64_text d) = Some d"
proof (induction d rule: base64_text.induct)
  case (1 a b c rest)
  obtain p q r s where g: "whole_group a b c = [p, q, r, s]" by (simp add: whole_group_def Let_def)
  show ?case using decode_whole_group [OF g] 1 by (simp add: g del: decode_last.simps)
next
  case (2 a b)
  obtain p q r s where g: "tail_group a (Some b) = [p, q, r, s]" by (simp add: tail_group_def Let_def)
  show ?case using decode_tail_group(2) [OF g] by (simp add: g del: decode_last.simps)
next
  case (3 a)
  obtain p q r s where g: "tail_group a None = [p, q, r, s]" by (simp add: tail_group_def Let_def)
  show ?case using decode_tail_group(1) [OF g] by (simp add: g del: decode_last.simps)
qed simp

section \<open>The encoder\<close>

text \<open>
  C31: The base64 encoder is exact or absent and loses nothing: into a buffer with room for the
  length it reports and a NUL it writes a text of that length in the base64 letters (so without
  blank or newline), which an RFC 4648 decoder turns back into the bytes, and nothing past the
  NUL; into a shorter buffer it writes an empty string.
\<close>

theorem base64_encode_roundtrip:
  fixes mem data len cap
  defines "r \<equiv> sentry_base64_encode (Some mem) cap (Some data) len"
    and "n \<equiv> SENTRY_BASE64_ENCODED_LEN len"
  assumes "length mem = cap" and "0 < cap" and "len \<le> length data"
  shows "snd r = n \<and>
    (if n < cap
     then \<exists>t. fst r = Some (t @ [NUL] @ drop (n + 1) mem) \<and> length t = n \<and>
       set t \<subseteq> insert CHR ''='' (set k_alphabet) \<and> base64_decode t = Some (take len data)
     else fst r = Some (NUL # tl mem))"
proof -
  have "length (base64_text (take len data)) = n"
    using assms(5) by (simp add: length_base64_text n_def)
  then show ?thesis
    using assms(3,4) base64_letters [of "take len data"] base64_roundtrip [of "take len data"]
    by (auto simp: r_def sentry_base64_encode_def Let_def n_def [symmetric] mem_write_def
        intro!: exI [of _ "base64_text (take len data)"]) (cases mem; simp)
qed

theorem base64_encode_roundtrip_witness:
  "\<exists>t. fst (sentry_base64_encode (Some ''xxxxxx'') 6 (Some [77, 97, 0]) 2) = Some (t @ [NUL] @ ''x'') \<and>
     length t = 4 \<and> base64_decode t = Some [77, 97]"
proof -
  have n: "SENTRY_BASE64_ENCODED_LEN 2 = 4" by (simp add: SENTRY_BASE64_ENCODED_LEN_def)
  show ?thesis using base64_encode_roundtrip [of "''xxxxxx''" 6 2 "[77, 97, 0]"] unfolding n by auto
qed

end
