(* ===== verification/Sentry_Storage_Fs.thy ===== *)
theory Sentry_Storage_Fs
  imports Sentry_Storage_Nvs
begin

text \<open>
  Buffer storage in a mounted filesystem, \<open>src/device/sentry_storage_fs.cpp\<close>: one file per slot
  and one for the ring's indices, all in one directory.

  The Arduino \<open>fs::FS\<close> and \<open>File\<close> classes are not part of the repository: \<open>fs_api\<close> is the
  record of the calls the code makes, over a device state \<open>'w\<close> and file objects \<open>'f\<close>, a parameter
  of every definition, and the locale \<open>file_system\<close> states what their documentation says. From it
  the adapter is shown to be a storage that bounds its damage, and to be a \<open>slot_storage\<close> where a
  close commits what was written, which the adapter has no way to see.
\<close>

section \<open>The filesystem calls\<close>

datatype open_mode = FILE_READ | FILE_WRITE

text \<open>
  \<open>open\<close> gives no file where the C++ object tests false; \<open>read\<close> gives the bytes it copied, whose
  number is what the call returns, and \<open>write\<close> the number of bytes it took.
\<close>

record ('w, 'f) fs_api =
  fs_open :: "'w \<Rightarrow> string \<Rightarrow> open_mode \<Rightarrow> 'w \<times> 'f option"
  file_write :: "'w \<Rightarrow> 'f \<Rightarrow> bytes \<Rightarrow> 'w \<times> nat"
  file_size :: "'w \<Rightarrow> 'f \<Rightarrow> nat"
  file_read :: "'w \<Rightarrow> 'f \<Rightarrow> nat \<Rightarrow> 'w \<times> bytes"
  file_close :: "'w \<Rightarrow> 'f \<Rightarrow> 'w"
  fs_exists :: "'w \<Rightarrow> string \<Rightarrow> 'w \<times> bool"
  fs_remove :: "'w \<Rightarrow> string \<Rightarrow> 'w \<times> bool"
  fs_mkdir :: "'w \<Rightarrow> string \<Rightarrow> 'w \<times> bool"

section \<open>The adapter\<close>

definition META_MAGIC :: u32 where "META_MAGIC = 0x534D4231"

text \<open>The bytes of a \<open>MetaFile\<close>: four little-endian words without padding.\<close>

definition MetaFile :: "u32 \<Rightarrow> u32 \<Rightarrow> u32 \<Rightarrow> bytes" where
  "MetaFile head tail dropped =
     write_u32 META_MAGIC @ write_u32 head @ write_u32 tail @ write_u32 dropped"

text \<open>\<open>g_context\<close>, what \<open>storage_fs\<close> was last given; \<open>fc_dir\<close> is the content of its array.\<close>

record ('w, 'f) FsContext =
  fc_filesystem :: "('w, 'f) fs_api"
  fc_dir :: string

definition slot_path :: "('w, 'f) FsContext \<Rightarrow> u32 \<Rightarrow> nat \<Rightarrow> string" where
  "slot_path g index cap = snprintf_content cap (fc_dir g @ ''/e'' @ dec (unat index))"

definition meta_path :: "('w, 'f) FsContext \<Rightarrow> nat \<Rightarrow> string" where
  "meta_path g cap = snprintf_content cap (fc_dir g @ ''/meta'')"

definition fs_write :: "('w, 'f) FsContext \<Rightarrow> 'w \<Rightarrow> u32 \<Rightarrow> bytes \<Rightarrow> 'w \<times> bool" where
  "fs_write g w index data =
     (let api = fc_filesystem g;
          path = slot_path g index 64
      in case fs_open api w path FILE_WRITE of
           (w, None) \<Rightarrow> (w, False)
         | (w, Some file) \<Rightarrow>
             (let (w, written) = file_write api w file data;
                  w = file_close api w file
              in if written \<noteq> length data then (fst (fs_remove api w path), False) else (w, True)))"

definition fs_read :: "('w, 'f) FsContext \<Rightarrow> 'w \<Rightarrow> u32 \<Rightarrow> nat \<Rightarrow> 'w \<times> bytes option" where
  "fs_read g w index cap =
     (let api = fc_filesystem g
      in case fs_open api w (slot_path g index 64) FILE_READ of
           (w, None) \<Rightarrow> (w, None)
         | (w, Some file) \<Rightarrow>
             (let size = file_size api w file
              in if size = 0 \<or> size > cap then (file_close api w file, None)
                 else
                   (let (w, data) = file_read api w file size;
                        w = file_close api w file
                    in (w, if length data \<noteq> size then None else Some data))))"

definition fs_erase :: "('w, 'f) FsContext \<Rightarrow> 'w \<Rightarrow> u32 \<Rightarrow> 'w \<times> bool" where
  "fs_erase g w index =
     (let api = fc_filesystem g;
          path = slot_path g index 64;
          (w, there) = fs_exists api w path
      in if \<not> there then (w, True) else fs_remove api w path)"

definition fs_load_meta :: "('w, 'f) FsContext \<Rightarrow> 'w \<Rightarrow> 'w \<times> (u32 \<times> u32 \<times> u32) option" where
  "fs_load_meta g w =
     (let api = fc_filesystem g
      in case fs_open api w (meta_path g 64) FILE_READ of
           (w, None) \<Rightarrow> (w, None)
         | (w, Some file) \<Rightarrow>
             (let (w, data) = file_read api w file 16;
                  w = file_close api w file
              in if length data \<noteq> 16 \<or> read_u32 data \<noteq> META_MAGIC then (w, None)
                 else (w, Some (read_u32 (drop 4 data), read_u32 (drop 8 data), read_u32 (drop 12 data)))))"

definition fs_save_meta :: "('w, 'f) FsContext \<Rightarrow> 'w \<Rightarrow> u32 \<Rightarrow> u32 \<Rightarrow> u32 \<Rightarrow> 'w \<times> bool" where
  "fs_save_meta g w head tail dropped =
     (let api = fc_filesystem g
      in case fs_open api w (meta_path g 64) FILE_WRITE of
           (w, None) \<Rightarrow> (w, False)
         | (w, Some file) \<Rightarrow>
             (let (w, written) = file_write api w file (MetaFile head tail dropped)
              in (file_close api w file, written = 16)))"

text \<open>
  The storage handed out and the context it works in, which is the static one of the file: a
  second successful call redirects the storage of the first.
\<close>

definition storage_fs :: "('w, 'f) fs_api \<Rightarrow> u32 \<Rightarrow> cptr \<Rightarrow> 'w \<Rightarrow>
    'w \<times> (('w, 'f) FsContext \<times> 'w sentry_storage) option" where
  "storage_fs filesystem slot_count dir w =
     (case dir of
        None \<Rightarrow> (w, None)
      | Some d \<Rightarrow>
          if slot_count = 0 \<or> d = [] \<or> hd d \<noteq> CHR ''/'' then (w, None)
          else
            (let g = \<lparr>fc_filesystem = filesystem, fc_dir = snprintf_content 32 d\<rparr>;
                 (w, there) = fs_exists filesystem w (fc_dir g);
                 (w, usable) = (if there then (w, True) else fs_mkdir filesystem w (fc_dir g))
             in (w, if usable
                    then Some (g, storage_of (fs_write g) (fs_read g) (fs_erase g) (fs_load_meta g)
                      (fs_save_meta g) slot_count)
                    else None)))"

section \<open>Paths\<close>

text \<open>What \<open>storage_fs\<close> leaves in \<open>dir\<close>: its array holds at most 31 characters.\<close>

definition context_ok :: "('w, 'f) FsContext \<Rightarrow> bool" where
  "context_ok g \<longleftrightarrow> length (fc_dir g) < 32"

lemma paths_in_full:
  assumes "context_ok g"
  shows "slot_path g i 64 = fc_dir g @ ''/e'' @ dec (unat i)" "meta_path g 64 = fc_dir g @ ''/meta''"
  using assms length_dec_u32 [of i]
  by (simp_all add: slot_path_def meta_path_def context_ok_def snprintf_content_def)

lemma paths_apart:
  assumes "context_ok g"
  shows "slot_path g i 64 = slot_path g j 64 \<longleftrightarrow> i = j" "slot_path g i 64 \<noteq> meta_path g 64"
    "meta_path g 64 \<noteq> slot_path g i 64"
  by (simp_all add: paths_in_full [OF assms] dec_inj word_unat_eq_iff)

lemma MetaFile_read:
  "length (MetaFile h t d) = 16" "read_u32 (MetaFile h t d) = META_MAGIC"
  "read_u32 (drop 4 (MetaFile h t d)) = h" "read_u32 (drop 8 (MetaFile h t d)) = t"
  "read_u32 (drop 12 (MetaFile h t d)) = d"
  using read_u32_write [of d "[]"] by (simp_all add: MetaFile_def read_u32_write)

section \<open>What the filesystem promises\<close>

text \<open>
  \<open>content\<close> is what a path holds for good, \<open>writing w f p b\<close> that file \<open>f\<close> is open to write \<open>p\<close> and
  has taken the bytes \<open>b\<close>, \<open>reading w f b\<close> that \<open>b\<close> is what file \<open>f\<close> has left to read. Opening for
  writing starts an empty file, and nothing touches a path it was not given. What a path that is
  written holds before the close, and after it, may lag behind the file: it holds what it did, a
  beginning of what the file has taken, or nothing at all. \<open>file.close()\<close> returns nothing, so the
  number of bytes that \<open>write\<close> took says nothing of what the close has committed.
\<close>

locale file_system =
  fixes api :: "('w, 'f) fs_api"
    and content :: "'w \<Rightarrow> string \<Rightarrow> bytes option"
    and writing :: "'w \<Rightarrow> 'f \<Rightarrow> string \<Rightarrow> bytes \<Rightarrow> bool"
    and reading :: "'w \<Rightarrow> 'f \<Rightarrow> bytes \<Rightarrow> bool"
    and sound :: "'w \<Rightarrow> bool"
  assumes open_write_law: "sound w \<Longrightarrow> fs_open api w p FILE_WRITE = (w', r) \<Longrightarrow>
      sound w' \<and> (\<forall>q. q \<noteq> p \<longrightarrow> content w' q = content w q) \<and>
      content w' p \<in> {content w p, None, Some []} \<and> (\<forall>f. r = Some f \<longrightarrow> writing w' f p [])"
    and write_law: "sound w \<Longrightarrow> writing w f p b \<Longrightarrow> file_write api w f d = (w', n) \<Longrightarrow>
      sound w' \<and> (\<forall>q. q \<noteq> p \<longrightarrow> content w' q = content w q) \<and> n \<le> length d \<and>
      (content w' p = content w p \<or> (\<exists>k. content w' p = Some (take k (b @ take n d)))) \<and>
      writing w' f p (b @ take n d)"
    and close_write_law: "sound w \<Longrightarrow> writing w f p b \<Longrightarrow>
      sound (file_close api w f) \<and> (\<forall>q. q \<noteq> p \<longrightarrow> content (file_close api w f) q = content w q) \<and>
      (content (file_close api w f) p \<in> {content w p, None} \<or> (\<exists>k. content (file_close api w f) p = Some (take k b)))"
    and open_read_law: "sound w \<Longrightarrow> fs_open api w p FILE_READ = (w', r) \<Longrightarrow>
      sound w' \<and> content w' = content w \<and>
      (\<forall>f. r = Some f \<longrightarrow> (\<exists>b. content w p = Some b \<and> reading w' f b))"
    and size_law: "sound w \<Longrightarrow> reading w f b \<Longrightarrow> file_size api w f = length b"
    and read_law: "sound w \<Longrightarrow> reading w f b \<Longrightarrow> file_read api w f n = (w', d) \<Longrightarrow>
      sound w' \<and> content w' = content w \<and> length d \<le> n \<and> d = take (length d) b \<and>
      reading w' f (drop (length d) b)"
    and close_read_law: "sound w \<Longrightarrow> reading w f b \<Longrightarrow>
      sound (file_close api w f) \<and> content (file_close api w f) = content w"
    and exists_law: "sound w \<Longrightarrow> fs_exists api w p = (w', t) \<Longrightarrow> sound w' \<and> content w' = content w"
    and remove_law: "sound w \<Longrightarrow> fs_remove api w p = (w', t) \<Longrightarrow>
      sound w' \<and> (\<forall>q. q \<noteq> p \<longrightarrow> content w' q = content w q) \<and> content w' p \<in> {content w p, None}"
    and mkdir_law: "sound w \<Longrightarrow> fs_mkdir api w p = (w', t) \<Longrightarrow> sound w' \<and> content w' = content w"

text \<open>A filesystem where every close commits all that was written.\<close>

definition close_commits :: "('w, 'f) fs_api \<Rightarrow> ('w \<Rightarrow> string \<Rightarrow> bytes option) \<Rightarrow>
    ('w \<Rightarrow> 'f \<Rightarrow> string \<Rightarrow> bytes \<Rightarrow> bool) \<Rightarrow> ('w \<Rightarrow> bool) \<Rightarrow> bool" where
  "close_commits api content writing sound \<longleftrightarrow>
     (\<forall>w f p b. sound w \<longrightarrow> writing w f p b \<longrightarrow> content (file_close api w f) p = Some b)"

text \<open>Paths that do not lie in the directory of the context, and a state that keeps them.\<close>

definition outside :: "('w, 'f) FsContext \<Rightarrow> string \<Rightarrow> bool" where
  "outside g p \<longleftrightarrow> take (Suc (length (fc_dir g))) p \<noteq> fc_dir g @ ''/''"

definition confined :: "('w, 'f) FsContext \<Rightarrow> ('w \<Rightarrow> string \<Rightarrow> bytes option) \<Rightarrow> ('w \<Rightarrow> bool) \<Rightarrow>
    (string \<Rightarrow> bytes option) \<Rightarrow> 'w \<Rightarrow> bool" where
  "confined g content sound c w \<longleftrightarrow> sound w \<and> (\<forall>p. outside g p \<longrightarrow> content w p = c p)"

lemma own_paths_inside:
  assumes "context_ok g"
  shows "outside g p \<Longrightarrow> p \<noteq> slot_path g i 64" "outside g p \<Longrightarrow> p \<noteq> meta_path g 64"
  by (auto simp: outside_def paths_in_full [OF assms])

definition fs_slots :: "('w, 'f) FsContext \<Rightarrow> ('w \<Rightarrow> string \<Rightarrow> bytes option) \<Rightarrow> 'w \<Rightarrow> u32 \<Rightarrow> bytes option" where
  "fs_slots g content w i = content w (slot_path g i 64)"

text \<open>
  The metadata is read with one call, which may give fewer bytes than the file holds; so a longer
  file is still a record.
\<close>

definition fs_meta :: "('w, 'f) FsContext \<Rightarrow> ('w \<Rightarrow> string \<Rightarrow> bytes option) \<Rightarrow> 'w \<Rightarrow>
    (u32 \<times> u32 \<times> u32) option" where
  "fs_meta g content w =
     (case content w (meta_path g 64) of
        None \<Rightarrow> None
      | Some d \<Rightarrow>
          if 16 \<le> length d \<and> read_u32 (take 16 d) = META_MAGIC
          then Some (read_u32 (drop 4 (take 16 d)), read_u32 (drop 8 (take 16 d)), read_u32 (drop 12 (take 16 d)))
          else None)"

context file_system
begin

text \<open>A file written in one go and closed: both writers of the adapter do this.\<close>

abbreviation commits :: bool where
  "commits \<equiv> close_commits api content writing sound"

lemma written_file:
  assumes "sound w" and "fs_open api w p FILE_WRITE = (w1, Some f)" and "file_write api w1 f d = (w2, n)"
  shows "sound (file_close api w2 f)"
    and "\<forall>q. q \<noteq> p \<longrightarrow> content (file_close api w2 f) q = content w q"
    and "content (file_close api w2 f) p \<in> {content w p, None} \<or> (\<exists>k. content (file_close api w2 f) p = Some (take k d))"
    and "commits \<Longrightarrow> n = length d \<Longrightarrow> content (file_close api w2 f) p = Some d"
proof -
  note o = open_write_law [OF assms(1,2)]
  then have wr: "sound w1" "writing w1 f p []" by simp_all
  note l = write_law [OF wr assms(3)]
  then have wr2: "sound w2" "writing w2 f p (take n d)" by simp_all
  note c = close_write_law [OF this]
  show "sound (file_close api w2 f)" "\<forall>q. q \<noteq> p \<longrightarrow> content (file_close api w2 f) q = content w q"
    using o l c by simp_all
  have "content w1 p \<in> {content w p, None} \<or> (\<exists>k. content w1 p = Some (take k d))"
    using o by (auto intro: exI [of _ 0])
  then have "content w2 p \<in> {content w p, None} \<or> (\<exists>k. content w2 p = Some (take k d))"
    using l by auto
  then show "content (file_close api w2 f) p \<in> {content w p, None} \<or> (\<exists>k. content (file_close api w2 f) p = Some (take k d))"
    using c by auto
  show "content (file_close api w2 f) p = Some d" if commits "n = length d"
    using that wr2 by (simp add: close_commits_def)
qed

text \<open>A file opened, read in part and closed.\<close>

lemma read_file:
  assumes "sound w" and "fs_open api w p FILE_READ = (w1, Some f)" and "file_read api w1 f n = (w2, d)"
  shows "sound (file_close api w2 f) \<and> content (file_close api w2 f) = content w \<and> length d \<le> n \<and>
    (\<exists>b. content w p = Some b \<and> d = take (length d) b \<and> file_size api w1 f = length b)"
proof -
  obtain b where o: "sound w1" "content w1 = content w" "content w p = Some b" "reading w1 f b"
    using open_read_law [OF assms(1,2)] by auto
  note l = read_law [OF o(1,4) assms(3)]
  then show ?thesis using o size_law [OF o(1,4)] close_read_law [of w2 f "drop (length d) b"] by auto
qed

lemma fs_write_law:
  assumes "fc_filesystem g = api" and "sound w" and "fs_write g w i d = (w', ok)"
  shows "sound w' \<and> (\<forall>q. q \<noteq> slot_path g i 64 \<longrightarrow> content w' q = content w q) \<and>
    (content w' (slot_path g i 64) \<in> {content w (slot_path g i 64), None} \<or>
      (\<exists>k. content w' (slot_path g i 64) = Some (take k d))) \<and>
    (commits \<and> ok \<longrightarrow> content w' (slot_path g i 64) = Some d)"
proof (cases "fs_open api w (slot_path g i 64) FILE_WRITE")
  case (Pair w1 r)
  show ?thesis
  proof (cases r)
    case None
    then show ?thesis
      using assms Pair open_write_law [OF assms(2) Pair] by (auto simp: fs_write_def intro: exI [of _ 0])
  next
    case (Some f)
    obtain w2 n where wr: "file_write api w1 f d = (w2, n)" by fastforce
    note filed = written_file [OF assms(2) Pair [unfolded Some] wr]
    obtain w3 t where rm: "fs_remove api (file_close api w2 f) (slot_path g i 64) = (w3, t)" by fastforce
    show ?thesis
      using assms(1,3) Pair Some wr filed rm remove_law [OF _ rm]
      by (auto simp: fs_write_def Let_def split: if_splits)
  qed
qed

lemma fs_save_meta_law:
  assumes "fc_filesystem g = api" and "sound w" and "fs_save_meta g w h t d = (w', ok)"
  shows "sound w' \<and> (\<forall>q. q \<noteq> meta_path g 64 \<longrightarrow> content w' q = content w q) \<and>
    (content w' (meta_path g 64) \<in> {content w (meta_path g 64), None} \<or>
      (\<exists>k. content w' (meta_path g 64) = Some (take k (MetaFile h t d)))) \<and>
    (commits \<and> ok \<longrightarrow> content w' (meta_path g 64) = Some (MetaFile h t d))"
proof (cases "fs_open api w (meta_path g 64) FILE_WRITE")
  case (Pair w1 r)
  show ?thesis
  proof (cases r)
    case None
    then show ?thesis
      using assms Pair open_write_law [OF assms(2) Pair] by (auto simp: fs_save_meta_def intro: exI [of _ 0])
  next
    case (Some f)
    obtain w2 n where wr: "file_write api w1 f (MetaFile h t d) = (w2, n)" by fastforce
    show ?thesis
      using assms(1,3) Pair Some wr written_file [OF assms(2) Pair [unfolded Some] wr]
      by (auto simp: fs_save_meta_def Let_def MetaFile_read)
  qed
qed

lemma fs_read_law:
  assumes "fc_filesystem g = api" and "sound w" and "fs_read g w i cap = (w', r)"
  shows "sound w' \<and> content w' = content w \<and>
    (\<forall>d. r = Some d \<longrightarrow> content w (slot_path g i 64) = Some d \<and> length d \<le> cap)"
proof (cases "fs_open api w (slot_path g i 64) FILE_READ")
  case (Pair w1 fr)
  show ?thesis
  proof (cases fr)
    case None
    then show ?thesis using assms Pair open_read_law [OF assms(2) Pair] by (auto simp: fs_read_def)
  next
    case (Some f)
    obtain w2 d where rd: "file_read api w1 f (file_size api w1 f) = (w2, d)" by fastforce
    obtain b where o: "sound w1" "content w1 = content w" "reading w1 f b"
      using open_read_law [OF assms(2) Pair] Some by auto
    show ?thesis
      using assms(1,3) Pair Some rd read_file [OF assms(2) Pair [unfolded Some] rd] o
        close_read_law [OF o(1,3)]
      by (auto simp: fs_read_def Let_def split: if_splits)
  qed
qed

lemma fs_load_meta_law:
  assumes "fc_filesystem g = api" and "sound w" and "fs_load_meta g w = (w', r)"
  shows "sound w' \<and> content w' = content w \<and> (\<forall>m. r = Some m \<longrightarrow> fs_meta g content w = Some m)"
proof (cases "fs_open api w (meta_path g 64) FILE_READ")
  case (Pair w1 fr)
  show ?thesis
  proof (cases fr)
    case None
    then show ?thesis using assms Pair open_read_law [OF assms(2) Pair] by (auto simp: fs_load_meta_def)
  next
    case (Some f)
    obtain w2 d where rd: "file_read api w1 f 16 = (w2, d)" by fastforce
    obtain b where b: "sound (file_close api w2 f)" "content (file_close api w2 f) = content w"
        "content w (meta_path g 64) = Some b" "d = take (length d) b"
      using read_file [OF assms(2) Pair [unfolded Some] rd] by auto
    have "16 \<le> length b \<and> d = take 16 b" if "length d = 16"
      using that b(4) by (metis length_take min.absorb_iff2)
    then show ?thesis
      using assms(1,3) Pair Some rd b by (auto simp: fs_load_meta_def fs_meta_def Let_def split: if_splits)
  qed
qed

lemma fs_erase_law:
  assumes "fc_filesystem g = api" and "sound w" and "fs_erase g w i = (w', ok)"
  shows "sound w' \<and> (\<forall>q. q \<noteq> slot_path g i 64 \<longrightarrow> content w' q = content w q) \<and>
    content w' (slot_path g i 64) \<in> {content w (slot_path g i 64), None}"
proof -
  obtain w1 t where e: "fs_exists api w (slot_path g i 64) = (w1, t)" by fastforce
  obtain w2 ok' where rm: "fs_remove api w1 (slot_path g i 64) = (w2, ok')" by fastforce
  show ?thesis
    using assms(1,3) e rm exists_law [OF assms(2) e] remove_law [OF _ rm]
    by (auto simp: fs_erase_def Let_def split: if_splits)
qed

lemma same_content_same_meta: "content w' = content w \<Longrightarrow> fs_meta g content w' = fs_meta g content w"
  by (simp add: fs_meta_def)

lemma slot_writers_keep_meta:
  assumes "context_ok g" and "fc_filesystem g = api" and "sound w"
  shows "fs_write g w i d = (w', ok) \<Longrightarrow> fs_meta g content w' = fs_meta g content w"
    and "fs_erase g w i = (w', ok) \<Longrightarrow> fs_meta g content w' = fs_meta g content w"
  using fs_write_law [OF assms(2,3)] fs_erase_law [OF assms(2,3)] paths_apart(3) [OF assms(1)]
  by (simp_all add: fs_meta_def)

lemma saved_meta_is_meta:
  "content w (meta_path g 64) = Some (MetaFile h t d) \<Longrightarrow> fs_meta g content w = Some (h, t, d)"
  by (simp add: fs_meta_def MetaFile_read)

lemma left_meta:
  assumes "content w' (meta_path g 64) \<in> {content w (meta_path g 64), None} \<or>
    (\<exists>k. content w' (meta_path g 64) = Some (take k (MetaFile h t d)))"
  shows "fs_meta g content w' = fs_meta g content w \<or> fs_meta g content w' = None \<or> fs_meta g content w' = Some (h, t, d)"
proof -
  have "16 \<le> length (take k (MetaFile h t d)) \<Longrightarrow> take k (MetaFile h t d) = MetaFile h t d" for k
    by (simp add: MetaFile_read)
  then show ?thesis using assms by (auto simp: fs_meta_def MetaFile_read)
qed

text \<open>
  The adapter is a storage, and one that leaves every path outside its directory as it found it:
  what those paths hold is part of the storage's invariant.
\<close>

lemma filesystem_is_ring_storage:
  assumes "context_ok g" and "fc_filesystem g = api" and "0 < n"
  shows "ring_storage (fs_write g) (fs_read g) (fs_erase g) (fs_load_meta g) (fs_save_meta g) n
     (fs_slots g content) (fs_meta g content) (confined g content sound c)"
proof -
  note own = own_paths_inside [OF assms(1)]
  note apart = paths_apart [OF assms(1)]
  note keep = slot_writers_keep_meta [OF assms(1,2)]
  show ?thesis
  proof
    show "0 < n" by (rule assms(3))
  qed (auto simp: fs_slots_def confined_def apart own dest: fs_write_law [OF assms(2)] fs_read_law [OF assms(2)]
      fs_erase_law [OF assms(2)] fs_load_meta_law [OF assms(2)] fs_save_meta_law [OF assms(2)] keep
      intro: same_content_same_meta)
qed

lemma filesystem_bounds_damage:
  assumes "context_ok g" and "fc_filesystem g = api" and "0 < n"
  shows "bounded_damage (fs_write g) (fs_read g) (fs_erase g) (fs_load_meta g) (fs_save_meta g) n
     (fs_slots g content) (fs_meta g content) (confined g content sound c) commits"
proof (rule bounded_damage.intro [OF filesystem_is_ring_storage [OF assms]], unfold_locales)
  fix w w' :: 'w and i :: u32 and d :: bytes and ok :: bool
  assume "confined g content sound c w"
  then have w: "sound w" by (simp add: confined_def)
  show "fs_slots g content w' i = fs_slots g content w i \<or> fs_slots g content w' i = None \<or>
      (\<exists>k. fs_slots g content w' i = Some (take k d))" if "fs_write g w i d = (w', ok)"
    using fs_write_law [OF assms(2) w that] by (auto simp: fs_slots_def)
  show "fs_slots g content w' i = Some d" if commits "fs_write g w i d = (w', True)"
    using fs_write_law [OF assms(2) w that(2)] that(1) by (simp add: fs_slots_def)
  show "fs_slots g content w' i = fs_slots g content w i \<or> fs_slots g content w' i = None" if "fs_erase g w i = (w', ok)"
    using fs_erase_law [OF assms(2) w that] by (simp add: fs_slots_def)
next
  fix w w' h t d ok assume "confined g content sound c w" and s: "fs_save_meta g w h t d = (w', ok)"
  then have "sound w" by (simp add: confined_def)
  then show "fs_meta g content w' = fs_meta g content w \<or> fs_meta g content w' = None \<or> fs_meta g content w' = Some (h, t, d)"
    using fs_save_meta_law [OF assms(2) _ s] by (intro left_meta) blast
qed

text \<open>Where a close commits, what the adapter says it wrote is there.\<close>

lemma filesystem_is_storage:
  assumes "context_ok g" and "fc_filesystem g = api" and "0 < n" and commits
  shows "slot_storage (fs_write g) (fs_read g) (fs_erase g) (fs_load_meta g) (fs_save_meta g) n
     (fs_slots g content) (fs_meta g content) (confined g content sound c)"
proof -
  have "ring_storage (fs_write g) (fs_read g) (fs_erase g) (fs_load_meta g) (fs_save_meta g) n
     (fs_slots g content) (fs_meta g content) (confined g content sound c)"
    by (rule filesystem_is_ring_storage [OF assms(1-3)])
  note r = this and frame = ring_storage.put_frame [OF this]
  show ?thesis
  proof (intro slot_storage.intro [OF r] slot_storage_axioms.intro)
    fix w w' i d assume w: "confined g content sound c w" "i < n" and p: "fs_write g w i d = (w', True)"
    then have "fs_slots g content w' i = Some d"
      using fs_write_law [OF assms(2) _ p] assms(4) by (simp add: confined_def fs_slots_def)
    then show "confined g content sound c w' \<and> fs_slots g content w' i = Some d" using frame [OF w p] by simp
  next
    fix w w' h t d assume "confined g content sound c w" and p: "fs_save_meta g w h t d = (w', True)"
    then have "content w' (meta_path g 64) = Some (MetaFile h t d)"
      using fs_save_meta_law [OF assms(2) _ p] assms(4) by (simp add: confined_def)
    then show "fs_meta g content w' = Some (h, t, d)" by (rule saved_meta_is_meta)
  qed
qed

end

text \<open>A storage that has been set up, in the context \<open>g\<close>, beside files that hold \<open>kept\<close>.\<close>

locale fs_storage = file_system api content writing reading sound
  for api :: "('w, 'f) fs_api" and content writing reading sound +
  fixes g :: "('w, 'f) FsContext" and n :: u32 and kept :: "string \<Rightarrow> bytes option"
  assumes context_law: "context_ok g" and filesystem_law: "fc_filesystem g = api" and n_pos: "0 < n"

sublocale fs_storage \<subseteq> fs: bounded_damage "fs_write g" "fs_read g" "fs_erase g" "fs_load_meta g" "fs_save_meta g" n
  "fs_slots g content" "fs_meta g content" "confined g content sound kept" commits
  by (rule filesystem_bounds_damage [OF context_law filesystem_law n_pos])

context fs_storage
begin

lemma adapter_bounds_damage:
  "bounded_damage (fs_write g) (fs_read g) (fs_erase g) (fs_load_meta g) (fs_save_meta g) n
     (fs_slots g content) (fs_meta g content) (confined g content sound kept') commits"
  by (rule filesystem_bounds_damage [OF context_law filesystem_law n_pos])

end

text \<open>The same on a filesystem where a close commits.\<close>

locale committing_storage = fs_storage api content writing reading sound g n kept
  for api :: "('w, 'f) fs_api" and content writing reading sound g n kept +
  assumes closes_commit: "close_commits api content writing sound"

sublocale committing_storage \<subseteq> fsc: slot_storage "fs_write g" "fs_read g" "fs_erase g" "fs_load_meta g"
  "fs_save_meta g" n "fs_slots g content" "fs_meta g content" "confined g content sound kept"
  by (rule filesystem_is_storage [OF context_law filesystem_law n_pos closes_commit])

section \<open>The buffer over it\<close>

text \<open>A successful set-up: the context it leaves, and that it changes no path.\<close>

lemma storage_fs_sets_up:
  assumes "storage_fs api n dir w = (w', Some (g, st))"
  shows "context_ok g \<and> fc_filesystem g = api \<and> 0 < n \<and>
    st = storage_of (fs_write g) (fs_read g) (fs_erase g) (fs_load_meta g) (fs_save_meta g) n"
proof -
  have "length (snprintf_content 32 d) < 32" for d :: string by (simp add: snprintf_content_def)
  then show ?thesis
    using assms
    by (auto simp: storage_fs_def context_ok_def Let_def word_neq_0_conv split: option.splits prod.splits if_splits)
qed

context file_system
begin

lemma storage_fs_keeps_content:
  assumes "sound w" and "storage_fs api n dir w = (w', r)"
  shows "sound w' \<and> content w' = content w"
proof (cases dir)
  case (Some d)
  obtain w1 t where e: "fs_exists api w (snprintf_content 32 d) = (w1, t)" by fastforce
  obtain w2 u where m: "fs_mkdir api w1 (snprintf_content 32 d) = (w2, u)" by fastforce
  show ?thesis
    using assms Some e m exists_law [OF assms(1) e] mkdir_law [OF _ m]
    by (auto simp: storage_fs_def Let_def split: if_splits)
qed (use assms in \<open>simp add: storage_fs_def\<close>)

end

section \<open>A filesystem that keeps the contract\<close>

text \<open>
  Files in a map, read positions beside them, a file object that is its path and mode, and a write
  that takes at most \<open>room\<close> bytes: a filesystem that runs full. A \<open>lossy\<close> one forgets a file when it
  is closed after writing, as one does that cannot write its directory any more.
\<close>

type_synonym map_files = "(string \<Rightarrow> bytes option) \<times> (string \<Rightarrow> nat)"

definition map_fs :: "bool \<Rightarrow> nat \<Rightarrow> (map_files, string \<times> open_mode) fs_api" where
  "map_fs lossy room =
     \<lparr>fs_open = (\<lambda>(c, pos) p mode.
        (case mode of
           FILE_WRITE \<Rightarrow> ((c(p \<mapsto> []), pos), Some (p, mode))
         | FILE_READ \<Rightarrow> (if c p = None then ((c, pos), None) else ((c, pos(p := 0)), Some (p, mode))))),
      file_write = (\<lambda>(c, pos) (f, _) d.
        ((c(f \<mapsto> (case c f of Some b \<Rightarrow> b | None \<Rightarrow> []) @ take room d), pos), min room (length d))),
      file_size = (\<lambda>(c, pos) (f, _). length (drop (pos f) (case c f of Some b \<Rightarrow> b | None \<Rightarrow> []))),
      file_read = (\<lambda>(c, pos) (f, _) n.
        (let d = take n (drop (pos f) (case c f of Some b \<Rightarrow> b | None \<Rightarrow> []))
         in ((c, pos(f := pos f + length d)), d))),
      file_close = (\<lambda>(c, pos) (f, mode). (if lossy \<and> mode = FILE_WRITE then c(f := None) else c, pos)),
      fs_exists = (\<lambda>(c, pos) p. ((c, pos), c p \<noteq> None)),
      fs_remove = (\<lambda>(c, pos) p. ((c(p := None), pos), c p \<noteq> None)),
      fs_mkdir = (\<lambda>w p. (w, True))\<rparr>"

definition map_writing :: "map_files \<Rightarrow> string \<times> open_mode \<Rightarrow> string \<Rightarrow> bytes \<Rightarrow> bool" where
  "map_writing w f p b \<longleftrightarrow> f = (p, FILE_WRITE) \<and> fst w p = Some b"

definition map_reading :: "map_files \<Rightarrow> string \<times> open_mode \<Rightarrow> bytes \<Rightarrow> bool" where
  "map_reading w f b \<longleftrightarrow> (\<exists>p c. f = (p, FILE_READ) \<and> fst w p = Some c \<and> b = drop (snd w p) c)"

lemma take_what_is_left: "take (min n (length c - k)) (drop k c) = take n (drop k c)"
  by (simp add: min_def)

lemma map_fs_is_file_system: "file_system (map_fs lossy room) fst map_writing map_reading (\<lambda>w. True)"
proof
  fix w w' :: map_files and f p b d n
  assume h: "map_writing w f p b" "file_write (map_fs lossy room) w f d = (w', n)"
  obtain c pos where w: "w = (c, pos)" by (cases w)
  have "n = min room (length d)" "w' = (c(p \<mapsto> b @ take n d), pos)" "f = (p, FILE_WRITE)"
    using h by (auto simp: w map_fs_def map_writing_def min_def)
  moreover have "take (length (b @ take n d)) (b @ take n d) = b @ take n d" by (rule take_all) simp
  ultimately show "True \<and> (\<forall>q. q \<noteq> p \<longrightarrow> fst w' q = fst w q) \<and> n \<le> length d \<and>
      (fst w' p = fst w p \<or> (\<exists>k. fst w' p = Some (take k (b @ take n d)))) \<and> map_writing w' f p (b @ take n d)"
    by (auto simp: w map_writing_def intro!: exI [of _ "length (b @ take n d)"])
qed (auto simp: map_fs_def map_writing_def map_reading_def Let_def take_what_is_left ac_simps split: if_splits open_mode.splits)

lemma map_fs_calls:
  "fs_open (map_fs lossy room) (c, pos) p FILE_READ =
     (if c p = None then ((c, pos), None) else ((c, pos(p := 0)), Some (p, FILE_READ)))"
  "fs_exists (map_fs lossy room) (c, pos) p = ((c, pos), c p \<noteq> None)" "fs_mkdir (map_fs lossy room) w p = (w, True)"
  by (simp_all add: map_fs_def)

lemma map_fs_commits: "close_commits (map_fs False room) fst map_writing (\<lambda>w. True)"
  by (auto simp: close_commits_def map_fs_def map_writing_def)

interpretation map_fs: file_system "map_fs lossy 4096" fst map_writing map_reading "\<lambda>w. True" for lossy
  by (rule map_fs_is_file_system)

lemma map_fs_storage:
  "length dir < 32 \<Longrightarrow> 0 < n \<Longrightarrow> fs_storage (map_fs lossy room) fst map_writing map_reading (\<lambda>w. True)
     \<lparr>fc_filesystem = map_fs lossy room, fc_dir = dir\<rparr> n"
  by (intro fs_storage.intro map_fs_is_file_system fs_storage_axioms.intro) (simp_all add: context_ok_def)

interpretation map_storage: fs_storage "map_fs lossy 4096" fst map_writing map_reading "\<lambda>w. True"
  "\<lparr>fc_filesystem = map_fs lossy 4096, fc_dir = ''/sentry''\<rparr>" 8 kept
  for lossy kept
  by (rule map_fs_storage) simp_all

interpretation map_committing: committing_storage "map_fs False 4096" fst map_writing map_reading "\<lambda>w. True"
  "\<lparr>fc_filesystem = map_fs False 4096, fc_dir = ''/sentry''\<rparr>" 8 kept
  for kept
  by (intro committing_storage.intro committing_storage_axioms.intro map_fs_commits map_fs_storage) simp_all

text \<open>
  What the comment of \<open>fs_write\<close> has in mind does not reach the adapter: the close has forgotten the
  file, and the answer, taken from \<open>write\<close> before it, is still yes.
\<close>

lemma close_outcome_unseen:
  assumes "length data \<le> room" and "fc_filesystem g = map_fs True room"
  shows "snd (fs_write g w index data)" and "fst (fst (fs_write g w index data)) (slot_path g index 64) = None"
  using assms by (cases w; simp add: fs_write_def map_fs_def)+

section \<open>Properties\<close>

text \<open>
  C35: On a filesystem where any call may fail, a write may be taken in part and a close may not
  commit what was written, the buffer in a directory is a queue from whatever the directory holds,
  over any calls and boots, and resets that keep the files. It shows only the oldest envelope it has,
  and nothing but what was stored at the start or a beginning of what was pushed since; where every
  close commits, the envelope is whole and in its place. And it touches nothing outside the
  directory: every path that does not lie in it holds after any calls what it held before the
  storage was set up.
\<close>

theorem fs_buffer_is_safe:
  assumes "file_system api content writing reading sound" and "sound w"
    and "storage_fs api n dir w = (w1, Some (g, st))"
    and "\<And>w. sound w \<Longrightarrow> sound (reset w) \<and> content (reset w) = content w"
  shows "let outs = outputs (reset_step reset st) (Reboot # ops) (w1, b);
      w' = fst (state_after (reset_step reset st) (Reboot # ops) (w1, b))
    in queue_runs (close_commits api content writing sound) (unat n) (Reboot # ops)
        ([], Some (boot_ring_of n (fs_slots g content) (fs_meta g content) w)) outs \<and>
      (\<forall>e. Envelope (Some e) \<in> set outs \<longrightarrow> e \<in> known {e. \<exists>j < n. fs_slots g content w j = Some e} ops) \<and>
      (\<forall>p. outside g p \<longrightarrow> content w' p = content w p)"
proof -
  note up = storage_fs_sets_up [OF assms(3)]
  have w1: "sound w1" "content w1 = content w"
    using file_system.storage_fs_keeps_content [OF assms(1-3)] by simp_all
  then have inv: "confined g content sound (content w) w1" by (simp add: confined_def)
  have same: "fs_slots g content w1 = fs_slots g content w" "fs_meta g content w1 = fs_meta g content w"
    using w1(2) by (simp_all add: fs_slots_def fs_meta_def fun_eq_iff)
  have "fs_storage api content writing reading sound g n"
    using up by (intro fs_storage.intro assms(1) fs_storage_axioms.intro) simp_all
  note damage = fs_storage.adapter_bounds_damage [OF this, of "content w"]
  have "bounded_damage.harmless n (fs_slots g content) (fs_meta g content) (confined g content sound (content w)) reset"
    using assms(4) by (simp add: bounded_damage.harmless_def [OF damage] confined_def fs_slots_def fs_meta_def)
  note r = bounded_damage.boots_may [OF damage this inv]
  have start: "boot_ring_of n (fs_slots g content) (fs_meta g content) w1 = boot_ring_of n (fs_slots g content) (fs_meta g content) w"
    by (simp add: boot_ring_of_def same)
  have st: "st = storage_of (fs_write g) (fs_read g) (fs_erase g) (fs_load_meta g) (fs_save_meta g) n"
    using up by blast
  show ?thesis
    using r(1,2) r(3) [unfolded confined_def] unfolding Let_def st start same by blast
qed

text \<open>
  On a filesystem that takes two bytes per write, so that neither the metadata nor a longer
  envelope can be stored, beside an application's file and an envelope of an earlier boot.
\<close>

theorem fs_buffer_is_safe_witness:
  "let files = [''/notes'' \<mapsto> [7], ''/sentry/e0'' \<mapsto> [9], ''/sentry/meta'' \<mapsto> MetaFile 0 1 0];
       ops = [Reboot, Push [1, 2, 3], Peek 8, Reboot, Pop]
   in \<exists>g st. fc_dir g = ''/sentry'' \<and>
     storage_fs (map_fs False 2) 4 (Some ''/sentry'') (files, \<lambda>p. 0) = ((files, \<lambda>p. 0), Some (g, st)) \<and>
     queue_runs True 4 ops ([], Some [Some [9]])
       (outputs (reset_step (\<lambda>w. (fst w, \<lambda>p. 0)) st) ops ((files, \<lambda>p. 0), buffer_zero)) \<and>
     fst (fst (state_after (reset_step (\<lambda>w. (fst w, \<lambda>p. 0)) st) ops ((files, \<lambda>p. 0), buffer_zero))) ''/notes'' = Some [7]"
proof -
  let ?files = "[''/notes'' \<mapsto> [7], ''/sentry/e0'' \<mapsto> [9], ''/sentry/meta'' \<mapsto> MetaFile 0 1 0]"
  let ?w = "(?files, \<lambda>p :: string. 0 :: nat)" and ?ops = "[Push [1, 2, 3], Peek 8, Reboot, Pop]"
  let ?reset = "\<lambda>w :: map_files. (fst w, \<lambda>p. 0)"
  let ?g = "\<lparr>fc_filesystem = map_fs False 2, fc_dir = ''/sentry''\<rparr>"
  let ?st = "storage_of (fs_write ?g) (fs_read ?g) (fs_erase ?g) (fs_load_meta ?g) (fs_save_meta ?g) 4"
  have st: "storage_fs (map_fs False 2) 4 (Some ''/sentry'') ?w = (?w, Some (?g, ?st))"
    by (simp add: storage_fs_def map_fs_calls snprintf_content_def Let_def)
  have paths: "meta_path ?g 64 = ''/sentry/meta''" "slot_path ?g 0 64 = ''/sentry/e0''"
    by (simp_all add: meta_path_def slot_path_def snprintf_content_def dec.simps hex_digit_def)
  have start: "boot_ring_of 4 (fs_slots ?g fst) (fs_meta ?g fst) ?w = [Some [9]]"
    by (simp add: boot_ring_of_def restored_def fs_meta_def fs_slots_def paths MetaFile_read word_le_nat_alt ring_window_def)
  have "outside ?g ''/notes''" by (simp add: outside_def)
  then have "queue_runs True (unat (4 :: u32)) (Reboot # ?ops) ([], Some [Some [9]])
      (outputs (reset_step ?reset ?st) (Reboot # ?ops) (?w, buffer_zero)) \<and>
    fst (fst (state_after (reset_step ?reset ?st) (Reboot # ?ops) (?w, buffer_zero))) ''/notes'' = Some [7]"
    using fs_buffer_is_safe [OF map_fs_is_file_system TrueI st, of ?reset ?ops buffer_zero] map_fs_commits [of 2]
    unfolding Let_def start by simp
  then show ?thesis using st unfolding Let_def by (intro exI [of _ ?g] exI [of _ ?st]) simp
qed

end
