(* ===== verification/Sentry_Transport.thy ===== *)
theory Sentry_Transport
  imports Sentry_Prelude
begin

text \<open>
  The transport interface (\<open>src/core/sentry_transport.h\<close> and \<open>.c\<close>), the C++ base class over it
  (\<open>src/transport/sentry_transport.hpp\<close>) and the chain that picks a route per attempt
  (\<open>src/transport/sentry_transport_auto.hpp\<close>). A transport is a record of the functions its
  vtable points to, each taking and returning the state \<open>'w\<close> of whatever it talks to; the opaque
  \<open>ctx\<close> argument is part of that state. A body is NULL or its bytes, so its length is no
  separate argument.
\<close>

section \<open>Results and headers\<close>

datatype sentry_send_result =
    SENTRY_SEND_OK
  | SENTRY_SEND_UNAVAILABLE
  | SENTRY_SEND_REJECTED
  | SENTRY_SEND_RATE_LIMITED
  | SENTRY_SEND_ERROR

record sentry_headers =
  sh_auth :: cptr
  sh_content_type :: cptr

record sentry_response =
  rs_result :: sentry_send_result
  rs_http_status :: u16
  rs_retry_after_ms :: u32

definition sentry_response_make :: "sentry_send_result \<Rightarrow> sentry_response" where
  "sentry_response_make result = \<lparr>rs_result = result, rs_http_status = 0, rs_retry_after_ms = 0\<rparr>"

section \<open>The C interface\<close>

type_synonym 'w send_fn = "cptr \<Rightarrow> sentry_headers option \<Rightarrow> bytes option \<Rightarrow> 'w \<Rightarrow> sentry_response \<times> 'w"

record 'w sentry_transport =
  tp_send :: "'w send_fn option"
  tp_is_available :: "('w \<Rightarrow> bool \<times> 'w) option"
  tp_name :: "('w \<Rightarrow> cptr) option"

definition sentry_transport_send :: "'w sentry_transport option \<Rightarrow> 'w send_fn" where
  "sentry_transport_send transport url headers body w =
     (case transport of
        None \<Rightarrow> (sentry_response_make SENTRY_SEND_UNAVAILABLE, w)
      | Some t \<Rightarrow>
          (case tp_send t of
             None \<Rightarrow> (sentry_response_make SENTRY_SEND_UNAVAILABLE, w)
           | Some send \<Rightarrow> send url headers body w))"

definition sentry_transport_is_available :: "'w sentry_transport option \<Rightarrow> 'w \<Rightarrow> bool \<times> 'w" where
  "sentry_transport_is_available transport w =
     (case transport of
        None \<Rightarrow> (False, w)
      | Some t \<Rightarrow>
          if tp_send t = None then (False, w)
          else (case tp_is_available t of None \<Rightarrow> (True, w) | Some available \<Rightarrow> available w))"

definition sentry_transport_name :: "'w sentry_transport option \<Rightarrow> 'w \<Rightarrow> string" where
  "sentry_transport_name transport w =
     (case transport of
        None \<Rightarrow> ''unknown''
      | Some t \<Rightarrow>
          (case tp_name t of
             None \<Rightarrow> ''unknown''
           | Some name \<Rightarrow> (case name w of Some s \<Rightarrow> s | None \<Rightarrow> ''unknown'')))"

section \<open>The C++ base class\<close>

text \<open>\<open>sentry::Transport\<close>: the virtual functions of an object.\<close>

record 'w transport_class =
  vt_send :: "cptr \<Rightarrow> sentry_headers \<Rightarrow> bytes option \<Rightarrow> 'w \<Rightarrow> sentry_response \<times> 'w"
  vt_is_available :: "'w \<Rightarrow> bool \<times> 'w"
  vt_name :: "'w \<Rightarrow> cptr"

definition trampoline_send :: "'w transport_class \<Rightarrow> 'w send_fn" where
  "trampoline_send object url headers body =
     vt_send object url
       (case headers of Some h \<Rightarrow> h | None \<Rightarrow> \<lparr>sh_auth = Some '''', sh_content_type = Some ''''\<rparr>) body"

text \<open>The constructor: the C view handed to the SDK.\<close>

definition c_transport :: "'w transport_class \<Rightarrow> 'w sentry_transport" where
  "c_transport object =
     \<lparr>tp_send = Some (trampoline_send object), tp_is_available = Some (vt_is_available object),
      tp_name = Some (vt_name object)\<rparr>"

section \<open>The auto-select chain\<close>

definition MAX_TRANSPORTS :: nat where "MAX_TRANSPORTS = 4"

text \<open>
  \<open>AutoTransport\<close>: \<open>transports_[0..<count_]\<close> and \<open>last_selected_\<close>, the position of the one
  last chosen. Its state \<open>last_selected_\<close> is paired with the state of the routes.
\<close>

record 'w auto_transport =
  at_transports :: "'w transport_class list"

type_synonym 'w auto_state = "nat option \<times> 'w"

definition AutoTransport :: "'w transport_class list \<Rightarrow> 'w auto_transport" where
  "AutoTransport transports = \<lparr>at_transports = take MAX_TRANSPORTS transports\<rparr>"

fun select_from :: "'w transport_class list \<Rightarrow> nat \<Rightarrow> 'w \<Rightarrow> nat option \<times> 'w" where
  "select_from [] i w = (None, w)"
| "select_from (t # ts) i w =
     (case vt_is_available t w of
        (True, w') \<Rightarrow> (Some i, w')
      | (False, w') \<Rightarrow> select_from ts (Suc i) w')"

definition auto_select :: "'w auto_transport \<Rightarrow> 'w auto_state \<Rightarrow> nat option \<times> 'w auto_state" where
  "auto_select auto s =
     (case select_from (at_transports auto) 0 (snd s) of (chosen, w) \<Rightarrow> (chosen, (chosen, w)))"

definition auto_send ::
    "'w auto_transport \<Rightarrow> cptr \<Rightarrow> sentry_headers \<Rightarrow> bytes option \<Rightarrow> 'w auto_state \<Rightarrow>
       sentry_response \<times> 'w auto_state" where
  "auto_send auto url headers body s =
     (case auto_select auto s of
        (Some i, (selected, w)) \<Rightarrow>
          (case vt_send (at_transports auto ! i) url headers body w of (r, w') \<Rightarrow> (r, (selected, w')))
      | (None, s') \<Rightarrow> (sentry_response_make SENTRY_SEND_UNAVAILABLE, s'))"

definition auto_is_available :: "'w auto_transport \<Rightarrow> 'w auto_state \<Rightarrow> bool \<times> 'w auto_state" where
  "auto_is_available auto s = (case auto_select auto s of (chosen, s') \<Rightarrow> (chosen \<noteq> None, s'))"

definition auto_name :: "'w auto_transport \<Rightarrow> 'w auto_state \<Rightarrow> cptr" where
  "auto_name auto s =
     (case fst s of Some i \<Rightarrow> vt_name (at_transports auto ! i) (snd s) | None \<Rightarrow> Some ''auto'')"

definition auto_class :: "'w auto_transport \<Rightarrow> 'w auto_state transport_class" where
  "auto_class auto =
     \<lparr>vt_send = auto_send auto, vt_is_available = auto_is_available auto, vt_name = auto_name auto\<rparr>"

section \<open>Which route is taken\<close>

text \<open>The state after the first \<open>n\<close> routes have been asked whether they are available.\<close>

definition polled :: "'w transport_class list \<Rightarrow> 'w \<Rightarrow> 'w" where
  "polled ts w = fold (\<lambda>t w. snd (vt_is_available t w)) ts w"

lemma polled_simps [simp]:
  "polled [] w = w" "polled (t # ts) w = polled ts (snd (vt_is_available t w))"
  "polled (ts @ us) w = polled us (polled ts w)"
  by (simp_all add: polled_def)

lemma select_from_spec:
  "select_from ts i w = (c, w') \<Longrightarrow>
    (case c of
       None \<Rightarrow> w' = polled ts w \<and> (\<forall>j < length ts. \<not> fst (vt_is_available (ts ! j) (polled (take j ts) w)))
     | Some k \<Rightarrow> i \<le> k \<and> k - i < length ts \<and> w' = polled (take (Suc (k - i)) ts) w \<and>
         fst (vt_is_available (ts ! (k - i)) (polled (take (k - i) ts) w)) \<and>
         (\<forall>j < k - i. \<not> fst (vt_is_available (ts ! j) (polled (take j ts) w))))"
proof (induction ts arbitrary: i w)
  case (Cons t ts)
  obtain a w1 where t: "vt_is_available t w = (a, w1)" by fastforce
  show ?case
  proof (cases a)
    case True
    then show ?thesis using Cons.prems t by auto
  next
    case False
    then have "select_from ts (Suc i) w1 = (c, w')" using Cons.prems t by simp
    from Cons.IH [OF this] show ?thesis
      using t False
      by (cases c) (auto simp: less_Suc_eq_0_disj Suc_diff_le Suc_le_eq nth_Cons take_Cons split: nat.splits
          dest: Suc_diff_Suc)
  qed
qed simp

text \<open>The first route that says it is available, each route before it having said it is not.\<close>

definition first_available :: "'w transport_class list \<Rightarrow> 'w \<Rightarrow> nat \<Rightarrow> bool" where
  "first_available ts w k \<longleftrightarrow>
     k < length ts \<and> fst (vt_is_available (ts ! k) (polled (take k ts) w)) \<and>
     list_all (\<lambda>j. \<not> fst (vt_is_available (ts ! j) (polled (take j ts) w))) [0..<k]"

definition none_available :: "'w transport_class list \<Rightarrow> 'w \<Rightarrow> bool" where
  "none_available ts w \<longleftrightarrow>
     list_all (\<lambda>j. \<not> fst (vt_is_available (ts ! j) (polled (take j ts) w))) [0..<length ts]"

lemma auto_select_spec:
  "(\<exists>k. first_available (at_transports auto) (snd s) k \<and>
      auto_select auto s = (Some k, Some k, polled (take (Suc k) (at_transports auto)) (snd s))) \<or>
   none_available (at_transports auto) (snd s) \<and>
     auto_select auto s = (None, None, polled (at_transports auto) (snd s))"
proof -
  obtain c w' where sel: "select_from (at_transports auto) 0 (snd s) = (c, w')" by fastforce
  show ?thesis
    using select_from_spec [OF sel]
    by (cases c) (auto simp: auto_select_def sel first_available_def none_available_def list_all_iff)
qed

text \<open>
  The chain delivers through the first route that is available at the moment of the attempt
  and through no other: routes are asked in order, the first to answer yes gets the request, its
  response is the answer and its name the one logged; when all answer no, nothing is sent, the
  answer is \<open>SENTRY_SEND_UNAVAILABLE\<close> and no route is named, whatever was chosen before.
\<close>

theorem auto_takes_first_available:
  fixes auto :: "'w auto_transport" and s :: "'w auto_state"
  defines "ts \<equiv> at_transports auto"
    and "c_send \<equiv> sentry_transport_send (Some (c_transport (auto_class auto)))"
    and "c_name \<equiv> sentry_transport_name (Some (c_transport (auto_class auto)))"
  shows "(\<exists>k r w'. first_available ts (snd s) k \<and>
      vt_send (ts ! k) url h body (polled (take (Suc k) ts) (snd s)) = (r, w') \<and>
      c_send url (Some h) body s = (r, (Some k, w')) \<and>
      c_name (Some k, w') = (case vt_name (ts ! k) w' of Some n \<Rightarrow> n | None \<Rightarrow> ''unknown'')) \<or>
    none_available ts (snd s) \<and>
      c_send url (Some h) body s =
        (sentry_response_make SENTRY_SEND_UNAVAILABLE, (None, polled ts (snd s))) \<and>
      c_name (None, polled ts (snd s)) = ''auto''"
proof -
  have eqs: "c_send url (Some h) body s = auto_send auto url h body s"
    "c_name s' = (case auto_name auto s' of Some n \<Rightarrow> n | None \<Rightarrow> ''unknown'')" for s'
    by (simp_all add: c_send_def c_name_def sentry_transport_send_def sentry_transport_name_def
        c_transport_def auto_class_def trampoline_send_def)
  have name: "auto_name auto (Some k, w) = vt_name (ts ! k) w" "auto_name auto (None, w) = Some ''auto''" for k w
    by (simp_all add: auto_name_def ts_def)
  consider k where "first_available ts (snd s) k"
      "auto_select auto s = (Some k, Some k, polled (take (Suc k) ts) (snd s))"
    | "none_available ts (snd s)" "auto_select auto s = (None, None, polled ts (snd s))"
    using auto_select_spec [of auto s] unfolding ts_def by blast
  then show ?thesis
  proof cases
    case 1
    obtain r w' where "vt_send (ts ! k) url h body (polled (take (Suc k) ts) (snd s)) = (r, w')" by fastforce
    with 1 have "auto_send auto url h body s = (r, (Some k, w'))" by (simp add: auto_send_def ts_def)
    with 1(1) \<open>vt_send (ts ! k) url h body _ = _\<close> show ?thesis unfolding eqs name by blast
  next
    case 2
    then show ?thesis unfolding eqs name by (simp add: auto_send_def)
  qed
qed

end
