(* ===== verification/Sentry_Http.thy ===== *)
theory Sentry_Http
  imports Sentry_Transport
begin

text \<open>
  What the transports that carry HTTP share: the C library's \<open>strtol\<close>, as they use it, and the
  reading of a status, which \<open>src/transport/sentry_transport_serial.cpp\<close> and
  \<open>src/transport/sentry_transport_wifi.cpp\<close> spell out in the same way. A \<open>long\<close> has 32 bits, as
  on the ESP32.
\<close>

section \<open>strtol\<close>

definition is_space :: "char \<Rightarrow> bool" where
  "is_space c \<longleftrightarrow> code_of c = 32 \<or> 9 \<le> code_of c \<and> code_of c \<le> 13"

definition LONG_MAX :: int where "LONG_MAX = 2147483647"
definition LONG_MIN :: int where "LONG_MIN = - 2147483648"

definition digits_value :: "string \<Rightarrow> nat" where
  "digits_value ds = fold (\<lambda>c n. 10 * n + (code_of c - 48)) ds 0"

text \<open>
  \<open>strtol(s, &end, 10)\<close>: the value, which saturates, and \<open>end - s\<close>; blanks and a sign count as
  read only when a digit follows.
\<close>

definition strtol10 :: "string \<Rightarrow> int \<times> nat" where
  "strtol10 s =
     (let blanks = length (takeWhile is_space s);
          rest = drop blanks s;
          sign = (if rest \<noteq> [] \<and> hd rest \<in> {CHR ''-'', CHR ''+''} then 1 else 0);
          digits = takeWhile is_digit (drop sign rest);
          value = (if sign = 1 \<and> hd rest = CHR ''-'' then - int (digits_value digits)
                   else int (digits_value digits))
      in if digits = [] then (0, 0)
         else (max LONG_MIN (min LONG_MAX value), blanks + sign + length digits))"

section \<open>The meaning of a status\<close>

definition http_verdict :: "int \<Rightarrow> u32 \<Rightarrow> sentry_response" where
  "http_verdict status retry_after_ms =
     (let code = word_of_int status
      in if status = 429
         then \<lparr>rs_result = SENTRY_SEND_RATE_LIMITED, rs_http_status = code, rs_retry_after_ms = retry_after_ms\<rparr>
         else if 200 \<le> status \<and> status < 300
         then \<lparr>rs_result = SENTRY_SEND_OK, rs_http_status = code, rs_retry_after_ms = 0\<rparr>
         else if 400 \<le> status \<and> status < 500
         then \<lparr>rs_result = SENTRY_SEND_REJECTED, rs_http_status = code, rs_retry_after_ms = retry_after_ms\<rparr>
         else \<lparr>rs_result = SENTRY_SEND_ERROR, rs_http_status = code, rs_retry_after_ms = retry_after_ms\<rparr>)"

section \<open>Reading printed numbers back\<close>

lemma digits_value_dec [simp]: "digits_value (dec n) = n"
  by (simp add: digits_value_def fold_dec)

lemma digit_no_space: "is_digit c \<Longrightarrow> \<not> is_space c \<and> c \<noteq> CHR ''-'' \<and> c \<noteq> CHR ''+''"
  by (auto simp: is_digit_code is_space_def)

lemma takeWhile_run:
  "list_all P a \<Longrightarrow> b = [] \<or> \<not> P (hd b) \<Longrightarrow> takeWhile P (a @ b) = a"
  by (induction a) (auto intro: takeWhile_eq_Nil_iff [THEN iffD2])

lemma strtol10_dec:
  assumes "b = [] \<or> \<not> is_digit (hd b)" and "n \<le> 2147483647" and "list_all is_space a"
  shows "strtol10 (a @ dec n @ b) = (int n, length a + length (dec n))"
proof -
  obtain c ds where c: "dec n = c # ds" by (cases "dec n") (use dec_not_Nil in auto)
  then have "is_digit c" using dec_digits [of c n] by simp
  then have "takeWhile is_space (a @ dec n @ b) = a"
    using digit_no_space assms(3) by (intro takeWhile_run) (auto simp: c)
  moreover have "takeWhile is_digit (dec n @ b) = dec n"
    using assms(1) dec_digits by (intro takeWhile_run) (auto simp: list_all_iff)
  moreover have "hd (dec n @ b) \<notin> {CHR ''-'', CHR ''+''}"
    using \<open>is_digit c\<close> digit_no_space by (auto simp: c)
  ultimately show ?thesis
    using assms(2) by (auto simp: strtol10_def Let_def LONG_MAX_def LONG_MIN_def)
qed

lemma strtol10_minus_dec:
  assumes "b = [] \<or> \<not> is_digit (hd b)" and "n \<le> 2147483647"
  shows "strtol10 (CHR ''-'' # dec n @ b) = (- int n, Suc (length (dec n)))"
proof -
  have "takeWhile is_digit (dec n @ b) = dec n"
    using assms(1) dec_digits by (intro takeWhile_run) (auto simp: list_all_iff)
  then show ?thesis
    using assms(2) by (auto simp: strtol10_def Let_def LONG_MAX_def LONG_MIN_def is_space_def)
qed

lemma strtol10_range: "fst (strtol10 s) \<le> LONG_MAX" "LONG_MIN \<le> fst (strtol10 s)"
  by (auto simp: strtol10_def Let_def LONG_MAX_def LONG_MIN_def)

end
