(* ===== verification/Sentry_Serial_Transport.thy ===== *)
theory Sentry_Serial_Transport
  imports Sentry_Http Sentry_Base64 Sentry_Dsn
begin

text \<open>
  The serial transport (\<open>src/transport/sentry_transport_serial.hpp\<close> and \<open>.cpp\<close>): a request is one
  line of base64 fields on a stream that also carries log output, and the answer is a line from
  the host with a prefix of its own, waited for until a deadline.

  The Arduino \<open>Stream\<close> and the clock are a parameter: a record of the calls made on them, over
  the state \<open>'w\<close> of the platform. The lemmas show that a host that follows the protocol reads
  from the line exactly what was to be sent, and that the wait ends.
\<close>

section \<open>The stream\<close>

text \<open>\<open>io_read\<close> gives a negative number when there is nothing to read.\<close>

record 'w stream_io =
  io_print :: "string \<Rightarrow> 'w \<Rightarrow> 'w"
  io_flush :: "'w \<Rightarrow> 'w"
  io_available :: "'w \<Rightarrow> bool \<times> 'w"
  io_read :: "'w \<Rightarrow> int \<times> 'w"
  io_millis :: "'w \<Rightarrow> u32 \<times> 'w"
  io_delay :: "u32 \<Rightarrow> 'w \<Rightarrow> 'w"

definition SENTRY_RELAY_REQUEST_PREFIX :: string where
  "SENTRY_RELAY_REQUEST_PREFIX = ''@SENTRY-RELAY/1 ''"

definition SENTRY_RELAY_RESULT_PREFIX :: string where
  "SENTRY_RELAY_RESULT_PREFIX = ''@SENTRY-RELAY-RESULT/1 ''"

definition MAX_ENVELOPE_BYTES :: nat where "MAX_ENVELOPE_BYTES = 4096"

record 'w serial_transport =
  sr_stream :: "'w stream_io option"
  sr_timeout_ms :: u32

definition SerialTransport :: "'w stream_io \<Rightarrow> u32 \<Rightarrow> 'w serial_transport" where
  "SerialTransport stream timeout_ms = \<lparr>sr_stream = Some stream, sr_timeout_ms = timeout_ms\<rparr>"

definition serial_is_available :: "'w \<Rightarrow> bool \<times> 'w" where
  "serial_is_available w = (True, w)"

section \<open>Writing a request\<close>

text \<open>What a C string that starts a block of memory reads as.\<close>

definition c_str :: "string \<Rightarrow> string" where
  "c_str mem = takeWhile (\<lambda>c. c \<noteq> NUL) mem"

text \<open>
  The loop of \<open>write_field\<close>, on the bytes from \<open>offset\<close> on. The array \<open>encoded\<close> has 65 cells;
  each that is printed has been written before.
\<close>

function (sequential) write_chunks :: "'w stream_io \<Rightarrow> bytes \<Rightarrow> 'w \<Rightarrow> 'w" where
  "write_chunks io [] w = w"
| "write_chunks io data w =
     (let cap = SENTRY_BASE64_ENCODED_LEN 48 + 1;
          encoded = fst (sentry_base64_encode (Some (replicate cap NUL)) cap (Some (take 48 data)) (min 48 (length data)))
      in write_chunks io (drop 48 data) (io_print io (c_str (the encoded)) w))"
  by pat_completeness auto
termination
  by (relation "measure (\<lambda>(_, data, _). length data)") auto

definition write_field :: "'w stream_io \<Rightarrow> bytes \<Rightarrow> 'w \<Rightarrow> 'w" where
  "write_field io data w = io_print io '' '' (write_chunks io data w)"

definition write_text_field :: "'w stream_io \<Rightarrow> string \<Rightarrow> 'w \<Rightarrow> 'w" where
  "write_text_field io text w = write_field io (bytes_of text) w"

section \<open>Reading the answer\<close>

text \<open>
  \<open>read_line\<close> from the loop on, with \<open>buf\<close> what has been stored: the line, or nothing when the
  deadline passed. That the loop may run for ever is the value \<open>None\<close>.
\<close>

partial_function (option) read_line ::
    "'w stream_io \<Rightarrow> nat \<Rightarrow> u32 \<Rightarrow> string \<Rightarrow> 'w \<Rightarrow> (cptr \<times> 'w) option" where
  "read_line io cap deadline buf w =
     (case io_millis io w of
        (now, w) \<Rightarrow>
          if \<not> 0 < sint (deadline - now) then Some (None, w)
          else (case io_available io w of
            (ready, w) \<Rightarrow>
              if \<not> ready then read_line io cap deadline buf (io_delay io 2 w)
              else (case io_read io w of
                (c, w) \<Rightarrow>
                  if c < 0 then read_line io cap deadline buf w
                  else if c = 10 then Some (Some buf, w)
                  else if c = 13 then read_line io cap deadline buf w
                  else read_line io cap deadline
                    (if length buf + 1 < cap then buf @ [char_of (nat c)] else buf) w)))"

text \<open>What a line says, or nothing when it is not a result.\<close>

definition serial_verdict :: "string \<Rightarrow> sentry_response option" where
  "serial_verdict line =
     (let prefix_len = length SENTRY_RELAY_RESULT_PREFIX
      in if take prefix_len line \<noteq> SENTRY_RELAY_RESULT_PREFIX then None
         else
           (let (status, read) = strtol10 (drop prefix_len line);
                (retry_after_ms, _) = strtol10 (drop read (drop prefix_len line));
                retry_after_ms = (if retry_after_ms < 0 then 0 else retry_after_ms)
            in Some (if status \<le> 0 then sentry_response_make SENTRY_SEND_UNAVAILABLE
                     else http_verdict status (word_of_int retry_after_ms))))"

partial_function (option) await_result ::
    "'w stream_io \<Rightarrow> u32 \<Rightarrow> 'w \<Rightarrow> (sentry_response \<times> 'w) option" where
  "await_result io deadline w =
     (case read_line io 96 deadline [] w of
        None \<Rightarrow> None
      | Some (None, w) \<Rightarrow> Some (sentry_response_make SENTRY_SEND_UNAVAILABLE, w)
      | Some (Some line, w) \<Rightarrow>
          (case serial_verdict (c_str line) of
             None \<Rightarrow> await_result io deadline w
           | Some response \<Rightarrow> Some (response, w)))"

declare read_line.simps [code] await_result.simps [code]

section \<open>Sending\<close>

text \<open>The request line and its answer.\<close>

definition serial_request ::
    "'w stream_io \<Rightarrow> u32 \<Rightarrow> string \<Rightarrow> sentry_headers \<Rightarrow> bytes \<Rightarrow> 'w \<Rightarrow> (sentry_response \<times> 'w) option" where
  "serial_request io timeout_ms url headers body w =
     (let w = io_print io SENTRY_RELAY_REQUEST_PREFIX w;
          w = write_text_field io url w;
          w = write_text_field io (case sh_auth headers of Some auth \<Rightarrow> auth | None \<Rightarrow> '''') w;
          w = write_text_field io
            (case sh_content_type headers of Some ct \<Rightarrow> ct | None \<Rightarrow> ''application/x-sentry-envelope'') w;
          w = write_field io body w;
          w = io_print io [NEWLINE] w;
          w = io_flush io w;
          (now, w) = io_millis io w
      in await_result io (now + timeout_ms) w)"

text \<open>\<open>SerialTransport::send\<close>. \<open>dsn\<close> is what \<open>sentry_get_dsn\<close> returns.\<close>

definition serial_send ::
    "'w serial_transport \<Rightarrow> sentry_dsn option \<Rightarrow> cptr \<Rightarrow> sentry_headers \<Rightarrow> bytes option \<Rightarrow> 'w \<Rightarrow>
       (sentry_response \<times> 'w) option" where
  "serial_send t dsn url headers body w =
     (case (sr_stream t, url, body) of
        (Some io, Some u, Some data) \<Rightarrow>
          if length data = 0 \<or> length data > MAX_ENVELOPE_BYTES then
            Some (sentry_response_make SENTRY_SEND_REJECTED, w)
          else if \<not> (case dsn of Some d \<Rightarrow> ds_valid d \<and> sentry_url_host_matches url (Some (ds_host d))
              | None \<Rightarrow> False)
          then Some (sentry_response_make SENTRY_SEND_REJECTED, w)
          else serial_request io (sr_timeout_ms t) u headers data w
      | _ \<Rightarrow> Some (sentry_response_make SENTRY_SEND_REJECTED, w))"

text \<open>The virtual functions of the class: a listener cannot be detected, so it is always available.\<close>

definition serial_class :: "'w serial_transport \<Rightarrow> sentry_dsn option \<Rightarrow> 'w transport_class" where
  "serial_class t dsn =
     \<lparr>vt_send = (\<lambda>url headers body w. the (serial_send t dsn url headers body w)),
      vt_is_available = (\<lambda>w. (True, w)),
      vt_name = (\<lambda>_. Some ''serial'')\<rparr>"

section \<open>What is written\<close>

text \<open>The same stream, with the text printed recorded.\<close>

definition logged_io :: "'w stream_io \<Rightarrow> ('w \<times> string) stream_io" where
  "logged_io io =
     \<lparr>io_print = (\<lambda>t v. (io_print io t (fst v), snd v @ t)),
      io_flush = (\<lambda>v. (io_flush io (fst v), snd v)),
      io_available = (\<lambda>v. (fst (io_available io (fst v)), (snd (io_available io (fst v)), snd v))),
      io_read = (\<lambda>v. (fst (io_read io (fst v)), (snd (io_read io (fst v)), snd v))),
      io_millis = (\<lambda>v. (fst (io_millis io (fst v)), (snd (io_millis io (fst v)), snd v))),
      io_delay = (\<lambda>ms v. (io_delay io ms (fst v), snd v))\<rparr>"

lemma logged_io_simps [simp]:
  "io_print (logged_io io) t v = (io_print io t (fst v), snd v @ t)"
  "io_flush (logged_io io) v = (io_flush io (fst v), snd v)"
  "io_available (logged_io io) v = (fst (io_available io (fst v)), (snd (io_available io (fst v)), snd v))"
  "io_read (logged_io io) v = (fst (io_read io (fst v)), (snd (io_read io (fst v)), snd v))"
  "io_millis (logged_io io) v = (fst (io_millis io (fst v)), (snd (io_millis io (fst v)), snd v))"
  "io_delay (logged_io io) ms v = (io_delay io ms (fst v), snd v)"
  by (simp_all add: logged_io_def)

lemma base64_no_blank: "c \<in> set (base64_text d) \<Longrightarrow> \<not> is_space c \<and> c \<noteq> NUL"
proof -
  have "list_all (\<lambda>c. \<not> is_space c \<and> c \<noteq> NUL) (CHR ''='' # k_alphabet)"
    by (simp add: k_alphabet_def is_space_def)
  then show "c \<in> set (base64_text d) \<Longrightarrow> \<not> is_space c \<and> c \<noteq> NUL"
    using base64_letters [of d] by (auto simp: list_all_iff)
qed

lemma base64_text_Nil [simp]: "base64_text d = [] \<longleftrightarrow> d = []"
  by (cases d rule: base64_text.cases) (simp_all add: whole_group_def tail_group_def Let_def)

text \<open>One chunk: what is printed is its base64 text.\<close>

lemma encoded_chunk:
  assumes "length d \<le> 48"
  shows "c_str (the (fst (sentry_base64_encode (Some (replicate 65 NUL)) 65 (Some d) (length d)))) = base64_text d"
proof -
  have "SENTRY_BASE64_ENCODED_LEN (length d) < 65"
    using assms by (simp add: SENTRY_BASE64_ENCODED_LEN_def) arith
  moreover have "takeWhile (\<lambda>c. c \<noteq> NUL) (base64_text d @ NUL # rest) = base64_text d" for rest
    using base64_no_blank by (intro takeWhile_run) (auto simp: list_all_iff)
  ultimately show ?thesis by (simp add: sentry_base64_encode_def Let_def c_str_def mem_write_def)
qed

lemma write_chunks_logged:
  "snd (write_chunks (logged_io io) data v) = snd v @ base64_text data"
proof (induction "logged_io io" data v rule: write_chunks.induct)
  case (2 b data v)
  let ?d = "b # data"
  have cap: "SENTRY_BASE64_ENCODED_LEN 48 + 1 = 65" by (simp add: SENTRY_BASE64_ENCODED_LEN_def)
  have one: "c_str (the (fst (sentry_base64_encode (Some (replicate 65 NUL)) 65 (Some (take 48 ?d)) (min 48 (length ?d))))) =
      base64_text (take 48 ?d)"
    using encoded_chunk [of "take 48 ?d"] by (simp add: min.commute)
  have "base64_text ?d = base64_text (take 48 ?d) @ base64_text (drop 48 ?d)"
  proof (cases "48 \<le> length ?d")
    case True
    then have "3 dvd length (take 48 ?d)" by simp
    from base64_text_append [OF this, of "drop 48 ?d"] show ?thesis by (simp only: append_take_drop_id)
  qed simp
  then show ?case
    using "2" [OF refl refl, unfolded cap one]
    unfolding write_chunks.simps(2) Let_def cap one by simp
qed simp

lemma write_fields_logged:
  "snd (write_field (logged_io io) data v) = snd v @ base64_text data @ '' ''"
  "snd (write_text_field (logged_io io) text v) = snd v @ base64_text (bytes_of text) @ '' ''"
  by (simp_all add: write_text_field_def write_field_def write_chunks_logged)

text \<open>Nothing is written while the answer is waited for.\<close>

lemma read_line_keeps_log:
  fixes io :: "'w stream_io"
  assumes "read_line (logged_io io) cap deadline buf v = Some (r, v')"
  shows "snd v' = snd v"
proof -
  have "\<forall>io'. io = logged_io io' \<longrightarrow> snd (snd (r, v')) = snd v"
    if "read_line io cap deadline buf v = Some (r, v')" for io :: "('w \<times> string) stream_io"
  proof (rule read_line.raw_induct [where P = "\<lambda>io cap deadline buf v res.
      \<forall>io'. io = logged_io io' \<longrightarrow> snd (snd res) = snd v", OF _ that], intro allI impI, goal_cases)
    case (1 f io cap deadline buf v res io')
    note IH = 1(1) [rule_format, OF _ 1(3)]
    from 1(2) show ?case
      unfolding 1(3) by (auto simp: Let_def split: if_splits dest: IH [unfolded 1(3)])
  qed
  from this [OF assms] show ?thesis by auto
qed

lemma await_result_keeps_log:
  fixes io :: "'w stream_io"
  assumes "await_result (logged_io io) deadline v = Some (r, v')"
  shows "snd v' = snd v"
proof -
  have "\<forall>io'. io = logged_io io' \<longrightarrow> snd (snd (r, v')) = snd v"
    if "await_result io deadline v = Some (r, v')" for io :: "('w \<times> string) stream_io"
  proof (rule await_result.raw_induct [where P = "\<lambda>io deadline v res.
      \<forall>io'. io = logged_io io' \<longrightarrow> snd (snd res) = snd v", OF _ that], intro allI impI, goal_cases)
    case (1 f io deadline v res io')
    note IH = 1(1) [rule_format, OF _ 1(3)]
    from 1(2) show ?case
      unfolding 1(3) by (auto split: option.splits prod.splits dest!: read_line_keeps_log IH [unfolded 1(3)])
  qed
  from this [OF assms] show ?thesis by auto
qed

section \<open>What the host reads\<close>

text \<open>
  A host written from the protocol comment of \<open>scripts/serial_relay.py\<close>: after the prefix four
  fields parted by blanks, each base64.
\<close>

fun split_words :: "string \<Rightarrow> string \<Rightarrow> string list" where
  "split_words word [] = (if word = [] then [] else [word])"
| "split_words word (c # s) =
     (if is_space c then (if word = [] then split_words [] s else word # split_words [] s)
      else split_words (word @ [c]) s)"

definition serial_host :: "string \<Rightarrow> (bytes \<times> bytes \<times> bytes \<times> bytes) option" where
  "serial_host line =
     (let n = length SENTRY_RELAY_REQUEST_PREFIX
      in if take n line \<noteq> SENTRY_RELAY_REQUEST_PREFIX then None
         else (case map base64_decode (split_words [] (drop n line)) of
           [Some u, Some a, Some c, Some b] \<Rightarrow> Some (u, a, c, b)
         | _ \<Rightarrow> None))"

lemma split_words_run:
  "\<forall>c \<in> set a. \<not> is_space c \<Longrightarrow> word @ a \<noteq> [] \<Longrightarrow>
     split_words word (a @ CHR '' '' # s) = (word @ a) # split_words [] s"
  by (induction a arbitrary: word) (auto simp: is_space_def)

lemma split_words_field:
  "d \<noteq> [] \<Longrightarrow> split_words [] (base64_text d @ CHR '' '' # s) = base64_text d # split_words [] s"
  using split_words_run [of "base64_text d" "[]" s] base64_no_blank [of _ d] by simp

text \<open>The request line of four fields, and the host's reading of it.\<close>

definition request_line :: "bytes \<Rightarrow> bytes \<Rightarrow> bytes \<Rightarrow> bytes \<Rightarrow> string" where
  "request_line u a c b = SENTRY_RELAY_REQUEST_PREFIX @ base64_text u @ '' '' @ base64_text a @ '' '' @
     base64_text c @ '' '' @ base64_text b @ '' ''"

lemma host_reads_request:
  "u \<noteq> [] \<Longrightarrow> a \<noteq> [] \<Longrightarrow> c \<noteq> [] \<Longrightarrow> b \<noteq> [] \<Longrightarrow> serial_host (request_line u a c b) = Some (u, a, c, b)"
  using split_words_field [of b "[]"]
  by (simp add: serial_host_def request_line_def split_words_field base64_roundtrip)

lemma request_line_is_one_line: "NEWLINE \<notin> set (request_line u a c b)"
  using base64_no_blank [of NEWLINE] by (auto simp: request_line_def SENTRY_RELAY_REQUEST_PREFIX_def is_space_def)

text \<open>An empty field leaves three words, which the host does not take for a request.\<close>

lemma host_drops_empty_field:
  "u \<noteq> [] \<Longrightarrow> c \<noteq> [] \<Longrightarrow> b \<noteq> [] \<Longrightarrow> serial_host (request_line u [] c b) = None"
  using split_words_field [of b "[]"]
  by (simp add: serial_host_def request_line_def split_words_field base64_roundtrip is_space_def)

section \<open>What an answer says\<close>

text \<open>The line a host prints for a status and a delay, read by the device.\<close>

definition result_line :: "int \<Rightarrow> nat \<Rightarrow> string" where
  "result_line status ms = SENTRY_RELAY_RESULT_PREFIX @ dec_signed status @ '' '' @ dec ms"

lemma serial_verdict_reads_result:
  assumes "\<bar>status\<bar> \<le> 2147483647" and "ms \<le> 2147483647"
  shows "serial_verdict (result_line status ms) =
    Some (if status \<le> 0 then sentry_response_make SENTRY_SEND_UNAVAILABLE
          else http_verdict status (of_nat ms))"
proof -
  have digit: "\<not> is_digit CHR '' ''" by (simp add: is_digit_code)
  have first: "strtol10 (dec_signed status @ '' '' @ dec ms) = (status, length (dec_signed status))"
    using strtol10_dec [of "'' '' @ dec ms" "nat status" "[]"]
      strtol10_minus_dec [of "'' '' @ dec ms" "nat (- status)"] assms(1) digit
    by (auto simp: dec_signed_def)
  have second: "strtol10 ('' '' @ dec ms) = (int ms, Suc (length (dec ms)))"
    using strtol10_dec [of "[]" ms "'' ''"] assms(2) by (simp add: is_space_def)
  show ?thesis
    using first second by (simp add: serial_verdict_def result_line_def Let_def)
qed

text \<open>
  The script answers \<open>-1\<close> when it refuses a URL, for good; the device takes it for a host without
  a network, which is to be tried again.
\<close>

lemma refusal_read_as_no_route:
  "serial_verdict (result_line (-1) 0) = Some (sentry_response_make SENTRY_SEND_UNAVAILABLE)"
  using serial_verdict_reads_result [of "-1" 0] by simp

section \<open>The wait ends\<close>

text \<open>
  What is asked of the platform, with \<open>uptime\<close> the milliseconds since boot, which no width
  limits, and \<open>backlog\<close> the bytes that wait to be read. The clock is the uptime modulo \<open>2 ^ 32\<close>.
  No call takes six days. Bytes only arrive as time passes: a call during which the uptime does
  not advance does not add to the backlog, a read of an available byte then takes one away, and a
  delay of two milliseconds lasts at least as long.
\<close>

definition quick :: "('w \<Rightarrow> nat) \<Rightarrow> ('w \<Rightarrow> nat) \<Rightarrow> 'w \<Rightarrow> 'w \<Rightarrow> bool" where
  "quick uptime backlog w w' \<longleftrightarrow> uptime w' < uptime w + 2 ^ 29 \<and>
     (uptime w < uptime w' \<or> uptime w' = uptime w \<and> backlog w' \<le> backlog w)"

definition stream_ticks :: "'w stream_io \<Rightarrow> ('w \<Rightarrow> nat) \<Rightarrow> ('w \<Rightarrow> nat) \<Rightarrow> bool" where
  "stream_ticks io uptime backlog \<longleftrightarrow>
     (\<forall>w. fst (io_millis io w) = of_nat (uptime (snd (io_millis io w))) \<and>
       quick uptime backlog w (snd (io_millis io w))) \<and>
     (\<forall>w. quick uptime backlog w (snd (io_available io w))) \<and>
     (\<forall>w. uptime w + 2 \<le> uptime (io_delay io 2 w) \<and> uptime (io_delay io 2 w) < uptime w + 2 ^ 29) \<and>
     (\<forall>w. fst (io_available io w) \<longrightarrow>
       (let w1 = snd (io_available io w); w2 = snd (io_read io w1)
        in quick uptime backlog w1 w2 \<and> (uptime w2 = uptime w1 \<longrightarrow> backlog w2 < backlog w1)))"

text \<open>Later than \<open>w\<close>, and less to do until \<open>D\<close>.\<close>

definition advanced :: "('w \<Rightarrow> nat) \<Rightarrow> ('w \<Rightarrow> nat) \<Rightarrow> nat \<Rightarrow> ('w \<times> 'w) set" where
  "advanced uptime backlog D =
     inv_image (less_than <*lex*> less_than) (\<lambda>w. (D - uptime w, backlog w))"

lemma wf_advanced: "wf (advanced uptime backlog D)"
  unfolding advanced_def by (intro wf_inv_image wf_lex_prod wf_less_than)

lemma trans_advanced: "trans (advanced uptime backlog D)"
  by (auto simp: advanced_def intro!: trans_inv_image trans_lex_prod)

lemma advancedI:
  "uptime w < D \<Longrightarrow> uptime w < uptime w' \<or> uptime w' = uptime w \<and> backlog w' < backlog w \<Longrightarrow>
     (w', w) \<in> advanced uptime backlog D"
  by (auto simp: advanced_def)

text \<open>The deadline as the loop tests it, up to a day count of 24 past it.\<close>

lemma running_before_deadline:
  assumes "0 < sint (of_nat D - of_nat now :: u32)" and "now < D + 2 ^ 31"
  shows "now < D"
proof (rule ccontr)
  assume "\<not> now < D"
  then obtain k where k: "now = D + k" "k < 2 ^ 31" using assms(2) by (metis nat_add_left_cancel_less not_less le_iff_add)
  then have "(of_nat D - of_nat now :: u32) = word_of_int (- int k)" by simp
  moreover have "sint (word_of_int (- int k) :: u32) = signed_take_bit 31 (- int k)"
    by (simp only: signed_of_int) simp
  moreover have "signed_take_bit 31 (- int k) = - int k"
    using k(2) by (intro signed_take_bit_int_eq_self) simp_all
  ultimately show False using assms(1) by simp
qed

lemma read_line_returns:
  assumes ticks: "stream_ticks io uptime backlog" and "uptime w < D + 2 ^ 30"
  shows "\<exists>r w'. read_line io cap (of_nat D) buf w = Some (r, w') \<and>
    (r \<noteq> None \<longrightarrow> (w', w) \<in> advanced uptime backlog D \<and> uptime w' < D + 2 ^ 30)"
  using assms(2)
proof (induction w arbitrary: buf rule: wf_induct_rule [OF wf_advanced [of uptime backlog D]])
  case (1 w)
  note laws = ticks [unfolded stream_ticks_def]
  obtain now w1 where clock: "io_millis io w = (now, w1)" by fastforce
  then have w1: "now = of_nat (uptime w1)" "quick uptime backlog w w1"
    using laws by (metis fst_conv snd_conv)+
  show ?case
  proof (cases "0 < sint (of_nat D - now :: u32)")
    case False
    then show ?thesis by (subst read_line.simps) (simp add: clock)
  next
    case True
    have "uptime w1 < D + 2 ^ 31" using w1(2) 1(2) by (simp add: quick_def)
    then have early: "uptime w1 < D" using True running_before_deadline by (simp add: w1(1))
    then have head: "uptime w < D" using w1(2) by (auto simp: quick_def)
    obtain ready w2 where av: "io_available io w1 = (ready, w2)" by fastforce
    then have w2: "quick uptime backlog w1 w2" using laws by (metis snd_conv)
    have go: "\<exists>r w'. read_line io cap (of_nat D) buf' w3 = Some (r, w') \<and>
        (r \<noteq> None \<longrightarrow> (w', w) \<in> advanced uptime backlog D \<and> uptime w' < D + 2 ^ 30)"
      if adv: "(w3, w) \<in> advanced uptime backlog D" and soon: "uptime w3 < D + 2 ^ 30" for w3 buf'
    proof -
      obtain r w' where "read_line io cap (of_nat D) buf' w3 = Some (r, w')"
          "r \<noteq> None \<longrightarrow> (w', w3) \<in> advanced uptime backlog D \<and> uptime w' < D + 2 ^ 30"
        using 1(1) [OF adv soon] by blast
      then show ?thesis using transD [OF trans_advanced _ adv] by blast
    qed
    show ?thesis
    proof (cases ready)
      case False
      let ?w3 = "io_delay io 2 w2"
      have "uptime w2 + 2 \<le> uptime ?w3" "uptime ?w3 < uptime w2 + 2 ^ 29" using laws by blast+
      then have "(?w3, w) \<in> advanced uptime backlog D" "uptime ?w3 < D + 2 ^ 30"
        using head early w1(2) w2 by (auto simp: quick_def intro!: advancedI)
      from go [OF this] show ?thesis using True False by (subst read_line.simps) (simp add: clock av)
    next
      case ready: True
      obtain c w3 where rd: "io_read io w2 = (c, w3)" by fastforce
      have w3: "quick uptime backlog w2 w3" "uptime w3 = uptime w2 \<longrightarrow> backlog w3 < backlog w2"
        using laws av rd ready by (metis (no_types, lifting) fst_conv snd_conv)+
      then have "(w3, w) \<in> advanced uptime backlog D" "uptime w3 < D + 2 ^ 30"
        using head early w1(2) w2 by (auto simp: quick_def intro!: advancedI)
      from go [OF this] this show ?thesis
        using True ready by (subst read_line.simps) (simp add: clock av rd)
    qed
  qed
qed

lemma await_result_returns:
  assumes "stream_ticks io uptime backlog" and "uptime w < D + 2 ^ 30"
  shows "\<exists>r w'. await_result io (of_nat D) w = Some (r, w') \<and>
    (r = sentry_response_make SENTRY_SEND_UNAVAILABLE \<or> (\<exists>line. serial_verdict line = Some r))"
  using assms(2)
proof (induction w rule: wf_induct_rule [OF wf_advanced [of uptime backlog D]])
  case (1 w)
  obtain l w1 where line: "read_line io 96 (of_nat D) [] w = Some (l, w1)"
    and more: "l \<noteq> None \<longrightarrow> (w1, w) \<in> advanced uptime backlog D \<and> uptime w1 < D + 2 ^ 30"
    using read_line_returns [OF assms(1) 1(2)] by blast
  show ?case
  proof (cases "\<exists>s. l = Some s \<and> serial_verdict (c_str s) = None")
    case True
    then show ?thesis using 1(1) more by (subst await_result.simps) (auto simp: line)
  next
    case False
    then show ?thesis by (subst await_result.simps) (auto simp: line split: option.split)
  qed
qed

section \<open>Properties\<close>

lemma serial_request_exchange:
  fixes headers :: sentry_headers and io :: "'w stream_io"
  assumes "stream_ticks io uptime backlog"
  defines "a \<equiv> (case sh_auth headers of Some auth \<Rightarrow> auth | None \<Rightarrow> '''')"
    and "c \<equiv> (case sh_content_type headers of Some ct \<Rightarrow> ct | None \<Rightarrow> ''application/x-sentry-envelope'')"
  shows "\<exists>resp w'. serial_request (logged_io io) timeout_ms url headers data (w, []) =
      Some (resp, (w', request_line (bytes_of url) (bytes_of a) (bytes_of c) data @ [NEWLINE])) \<and>
    (resp = sentry_response_make SENTRY_SEND_UNAVAILABLE \<or> (\<exists>line. serial_verdict line = Some resp))"
proof -
  let ?io = "logged_io io"
  let ?v = "io_print ?io [NEWLINE] (write_field ?io data (write_text_field ?io c
    (write_text_field ?io a (write_text_field ?io url
      (io_print ?io SENTRY_RELAY_REQUEST_PREFIX (w, []))))))"
  obtain now v1 where clock: "io_millis ?io (io_flush ?io ?v) = (now, v1)" by fastforce
  have ticks: "stream_ticks ?io (\<lambda>v. uptime (fst v)) (\<lambda>v. backlog (fst v))"
    using assms(1) by (simp add: stream_ticks_def quick_def Let_def)
  have now: "now = of_nat (uptime (fst v1))"
    using ticks clock unfolding stream_ticks_def by (metis fst_conv snd_conv)
  have log: "snd v1 = request_line (bytes_of url) (bytes_of a) (bytes_of c) data @ [NEWLINE]"
    using clock by (auto simp: request_line_def write_fields_logged)
  let ?D = "uptime (fst v1) + unat timeout_ms"
  have "now + timeout_ms = of_nat ?D" by (simp add: now)
  moreover have "uptime (fst v1) < ?D + 2 ^ 30" by simp
  ultimately obtain resp v2 where wait: "await_result ?io (now + timeout_ms) v1 = Some (resp, v2)"
      "resp = sentry_response_make SENTRY_SEND_UNAVAILABLE \<or> (\<exists>line. serial_verdict line = Some resp)"
    using await_result_returns [OF ticks, of v1 ?D] by auto
  have "serial_request ?io timeout_ms url headers data (w, []) = Some (resp, v2)"
    unfolding serial_request_def Let_def a_def [symmetric] c_def [symmetric] by (simp only: clock prod.case wait(1))
  moreover have "snd v2 = snd v1" by (rule await_result_keeps_log [OF wait(1)])
  ultimately show ?thesis using wait(2) log by (metis prod.collapse)
qed

text \<open>
  C36: A send over the serial port always returns, and what crosses the wire is the request or
  nothing. With a clock that keeps time modulo \<open>2 ^ 32\<close> milliseconds and bytes that only arrive as
  time passes, the wait ends whatever the host prints; a request with a URL outside the host of
  the DSN, without a body or with one of more than 4096 bytes is rejected and nothing is printed;
  any other is one line, from which a host that follows the protocol reads the URL, the two header
  values and the body byte for byte, when the header values are not empty; and the answer is that
  there is no route, or what a result line says.
\<close>

theorem serial_exchange:
  fixes headers :: sentry_headers and url :: cptr and body :: "bytes option" and dsn :: "sentry_dsn option"
    and io :: "'w stream_io"
  assumes "stream_ticks io uptime backlog"
  defines "a \<equiv> (case sh_auth headers of Some auth \<Rightarrow> auth | None \<Rightarrow> '''')"
    and "c \<equiv> (case sh_content_type headers of Some ct \<Rightarrow> ct | None \<Rightarrow> ''application/x-sentry-envelope'')"
    and "allowed \<equiv> url \<noteq> None \<and> body \<noteq> None \<and> the body \<noteq> [] \<and> length (the body) \<le> 4096 \<and>
      (\<exists>d. dsn = Some d \<and> ds_valid d \<and> sentry_url_host_matches url (Some (ds_host d)))"
  shows "\<exists>resp w' log. serial_send (SerialTransport (logged_io io) timeout_ms) dsn url headers body (w, []) =
      Some (resp, (w', log)) \<and>
    (if allowed
     then (\<exists>line. log = line @ [NEWLINE] \<and> NEWLINE \<notin> set line \<and>
         (a = [] \<or> c = [] \<or> serial_host line = Some (bytes_of (the url), bytes_of a, bytes_of c, the body))) \<and>
       (resp = sentry_response_make SENTRY_SEND_UNAVAILABLE \<or> (\<exists>line. serial_verdict line = Some resp))
     else log = [] \<and> resp = sentry_response_make SENTRY_SEND_REJECTED)"
proof (cases allowed)
  case False
  then show ?thesis
    by (auto simp: serial_send_def SerialTransport_def allowed_def MAX_ENVELOPE_BYTES_def split: option.splits)
next
  case True
  have "\<not> sentry_url_host_matches (Some []) h" for h
    by (simp add: sentry_url_host_matches_def split: option.split)
  with True obtain u data where req: "url = Some u" "body = Some data" "u \<noteq> []" "data \<noteq> []"
    unfolding allowed_def by (metis option.collapse)
  then have "serial_send (SerialTransport (logged_io io) timeout_ms) dsn url headers body (w, []) =
      serial_request (logged_io io) timeout_ms u headers data (w, [])"
    using True by (auto simp: serial_send_def SerialTransport_def allowed_def MAX_ENVELOPE_BYTES_def)
  moreover have "a = [] \<or> c = [] \<or> serial_host (request_line (bytes_of u) (bytes_of a) (bytes_of c) data) =
      Some (bytes_of u, bytes_of a, bytes_of c, data)"
    using host_reads_request [of "bytes_of u" "bytes_of a" "bytes_of c" data] req by (auto simp: bytes_of_def)
  ultimately show ?thesis
    using serial_request_exchange [OF assms(1), of timeout_ms u headers data w] True req
    unfolding a_def [symmetric] c_def [symmetric]
    by (auto simp: request_line_is_one_line)
qed

text \<open>A host that has printed a line of log output and a result, and a clock about to come round.\<close>

definition scripted_io :: "(nat \<times> string) stream_io" where
  "scripted_io =
     \<lparr>io_print = (\<lambda>t (now, input). (now + length t, input)), io_flush = (\<lambda>w. w),
      io_available = (\<lambda>(now, input). (input \<noteq> [], (now, input))),
      io_read = (\<lambda>(now, input). (case input of [] \<Rightarrow> (-1, (now, [])) | c # cs \<Rightarrow> (int (code_of c), (now, cs)))),
      io_millis = (\<lambda>(now, input). (of_nat now, (now, input))),
      io_delay = (\<lambda>ms (now, input). (now + unat ms, input))\<rparr>"

lemma scripted_io_ticks: "stream_ticks scripted_io fst (\<lambda>w. length (snd w))"
  by (auto simp: scripted_io_def stream_ticks_def quick_def Let_def split: list.splits)

theorem serial_exchange_witness:
  "\<exists>resp w' line. serial_send (SerialTransport (logged_io scripted_io) 15000)
      (Some (dsn_zero\<lparr>ds_valid := True, ds_host := ''h''\<rparr>)) (Some ''https://h/'')
      \<lparr>sh_auth = Some ''Sentry'', sh_content_type = None\<rparr> (Some [1, 2, 3])
      ((4294967290, result_line 200 0 @ [NEWLINE]), []) = Some (resp, (w', line @ [NEWLINE])) \<and>
    serial_host line = Some (bytes_of ''https://h/'', bytes_of ''Sentry'',
      bytes_of ''application/x-sentry-envelope'', [1, 2, 3])"
proof -
  have "sentry_url_host_matches (Some ''https://h/'') (Some ''h'')" by code_simp
  then show ?thesis
    using serial_exchange [OF scripted_io_ticks, where url = "Some ''https://h/''" and body = "Some [1, 2, 3]"
      and dsn = "Some (dsn_zero\<lparr>ds_valid := True, ds_host := ''h''\<rparr>)" and timeout_ms = 15000
      and headers = "\<lparr>sh_auth = Some ''Sentry'', sh_content_type = None\<rparr>"
      and w = "(4294967290, result_line 200 0 @ [NEWLINE])"] by auto
qed

text \<open>
  Answers carry no request id, and what waits to be read is not discarded before a request: the
  late answer to an earlier request, which timed out, is taken for the answer to this one.
\<close>

lemma late_answer_taken:
  "map_option (\<lambda>r. rs_result (fst r))
     (serial_send (SerialTransport scripted_io 15000)
       (Some (dsn_zero\<lparr>ds_valid := True, ds_host := ''h''\<rparr>)) (Some ''https://h/'')
       \<lparr>sh_auth = Some ''Sentry'', sh_content_type = None\<rparr> (Some [1, 2, 3])
       (1000, ''boot'' @ [NEWLINE] @ result_line 200 0 @ [NEWLINE])) = Some SENTRY_SEND_OK"
  by code_simp

end
