(* ===== verification/Sentry_Wifi_Transport.thy ===== *)
theory Sentry_Wifi_Transport
  imports Sentry_Http Sentry_Dsn
begin

text \<open>
  The WiFi transport (\<open>src/transport/sentry_transport_wifi.hpp\<close> and \<open>.cpp\<close>): an HTTP POST of the
  envelope, and the reading of its status and retry headers.

  The Arduino WiFi stack and its \<open>HTTPClient\<close> are a parameter: a record of the calls made on
  them, over the state \<open>'w\<close> of the device. The lines the transport logs are not modelled, the flag
  that makes one of them appear once is. The lemmas show which connections are made, with which
  settings, and what becomes of an answer.
\<close>

section \<open>The network stack\<close>

text \<open>The client a request goes over, as it has been configured.\<close>

datatype wifi_client =
    WiFiClient u32
  | WiFiClientSecure cptr u32

datatype redirect_policy = HTTPC_DISABLE_FOLLOW_REDIRECTS | HTTPC_FOLLOW_REDIRECTS

datatype http_setting =
    ConnectTimeout "32 word"
  | Timeout u16
  | FollowRedirects redirect_policy
  | UserAgent string
  | AddHeader string string
  | CollectHeaders "string list"

text \<open>\<open>hc_POST\<close> gives a negative number for an error of the client itself.\<close>

record 'w http_client =
  wf_connected :: "'w \<Rightarrow> bool \<times> 'w"
  wf_has_address :: "'w \<Rightarrow> bool \<times> 'w"
  hc_begin :: "wifi_client \<Rightarrow> string \<Rightarrow> 'w \<Rightarrow> bool \<times> 'w"
  hc_set :: "http_setting \<Rightarrow> 'w \<Rightarrow> 'w"
  hc_POST :: "bytes \<Rightarrow> 'w \<Rightarrow> int \<times> 'w"
  hc_header :: "string \<Rightarrow> 'w \<Rightarrow> string \<times> 'w"
  hc_end :: "'w \<Rightarrow> 'w"

text \<open>
  The errors of \<open>HTTPClient\<close> the code tells apart; their numbers are of the library's header, a
  parameter here.
\<close>

record http_errors =
  HTTPC_ERROR_CONNECTION_REFUSED :: int
  HTTPC_ERROR_CONNECTION_LOST :: int
  HTTPC_ERROR_NO_HTTP_SERVER :: int

section \<open>Retry headers\<close>

definition parse_retry_after_ms :: "string \<Rightarrow> u32" where
  "parse_retry_after_ms value =
     (if length value = 0 then 0
      else
        (let (seconds, read) = strtol10 value
         in if read = 0 \<or> seconds \<le> 0 then 0
            else
              (let max_seconds = 24 * 60 * 60;
                   seconds = (if seconds > max_seconds then max_seconds else seconds)
               in word_of_int seconds * 1000)))"

definition parse_sentry_rate_limits_ms :: "string \<Rightarrow> u32" where
  "parse_sentry_rate_limits_ms value = (if length value = 0 then 0 else parse_retry_after_ms value)"

section \<open>The transport\<close>

record wifi_transport =
  wt_ca_cert :: cptr
  wt_warned_insecure :: bool
  wt_allowed_host :: cptr
  wt_timeout_ms :: u32

definition WiFiTransport :: wifi_transport where
  "WiFiTransport =
     \<lparr>wt_ca_cert = None, wt_warned_insecure = False, wt_allowed_host = None, wt_timeout_ms = 10000\<rparr>"

definition set_ca_cert :: "cptr \<Rightarrow> wifi_transport \<Rightarrow> wifi_transport" where
  "set_ca_cert pem_root_certificate t = t\<lparr>wt_ca_cert := pem_root_certificate\<rparr>"

definition set_timeout_ms :: "u32 \<Rightarrow> wifi_transport \<Rightarrow> wifi_transport" where
  "set_timeout_ms timeout_ms t = t\<lparr>wt_timeout_ms := timeout_ms\<rparr>"

definition set_allowed_host :: "cptr \<Rightarrow> wifi_transport \<Rightarrow> wifi_transport" where
  "set_allowed_host host t = t\<lparr>wt_allowed_host := host\<rparr>"

definition wifi_is_available :: "'w http_client \<Rightarrow> 'w \<Rightarrow> bool \<times> 'w" where
  "wifi_is_available net w =
     (case wf_connected net w of
        (False, w) \<Rightarrow> (False, w)
      | (True, w) \<Rightarrow> wf_has_address net w)"

text \<open>What a finished POST says.\<close>

definition post_response ::
    "'w http_client \<Rightarrow> http_errors \<Rightarrow> int \<Rightarrow> 'w \<Rightarrow> sentry_response \<times> 'w" where
  "post_response net err status w =
     (if status < 0 then
        (if status = HTTPC_ERROR_CONNECTION_REFUSED err \<or> status = HTTPC_ERROR_CONNECTION_LOST err \<or>
            status = HTTPC_ERROR_NO_HTTP_SERVER err
         then sentry_response_make SENTRY_SEND_UNAVAILABLE else sentry_response_make SENTRY_SEND_ERROR, w)
      else
        (let (header, w) = hc_header net ''Retry-After'' w;
             retry_after_ms = parse_retry_after_ms header;
             (retry_after_ms, w) =
               (if retry_after_ms = 0
                then (let (header, w) = hc_header net ''X-Sentry-Rate-Limits'' w
                      in (parse_sentry_rate_limits_ms header, w))
                else (retry_after_ms, w))
         in (http_verdict status retry_after_ms, w)))"

definition post_envelope ::
    "'w http_client \<Rightarrow> http_errors \<Rightarrow> wifi_client \<Rightarrow> string \<Rightarrow> sentry_headers \<Rightarrow> bytes \<Rightarrow> u32 \<Rightarrow> 'w \<Rightarrow>
       sentry_response \<times> 'w" where
  "post_envelope net err client url headers body timeout_ms w =
     (case hc_begin net client url w of
        (False, w) \<Rightarrow> (sentry_response_make SENTRY_SEND_ERROR, w)
      | (True, w) \<Rightarrow>
          (let w = hc_set net (ConnectTimeout timeout_ms) w;
               w = hc_set net (Timeout (ucast timeout_ms)) w;
               w = hc_set net (FollowRedirects HTTPC_DISABLE_FOLLOW_REDIRECTS) w;
               w = hc_set net (UserAgent SENTRY_MICRO_SDK_USER_AGENT) w;
               w = hc_set net (AddHeader ''Content-Type''
                 (case sh_content_type headers of Some ct \<Rightarrow> ct | None \<Rightarrow> ''application/x-sentry-envelope'')) w;
               w = hc_set net (AddHeader ''X-Sentry-Auth''
                 (case sh_auth headers of Some auth \<Rightarrow> auth | None \<Rightarrow> '''')) w;
               w = hc_set net (CollectHeaders [''Retry-After'', ''X-Sentry-Rate-Limits'']) w;
               (status, w) = hc_POST net body w;
               (response, w) = post_response net err status w
           in (response, hc_end net w)))"

text \<open>
  \<open>WiFiTransport::send\<close>. \<open>tls\<close> is the build flag \<open>SENTRY_MICRO_WIFI_TLS\<close>, \<open>dsn\<close> what
  \<open>sentry_get_dsn\<close> returns.
\<close>

definition wifi_send ::
    "'w http_client \<Rightarrow> http_errors \<Rightarrow> bool \<Rightarrow> sentry_dsn option \<Rightarrow> cptr \<Rightarrow> sentry_headers \<Rightarrow> bytes option \<Rightarrow>
       wifi_transport \<Rightarrow> 'w \<Rightarrow> sentry_response \<times> wifi_transport \<times> 'w" where
  "wifi_send net err tls dsn url headers body t w =
     (case (url, body) of
        (Some u, Some data) \<Rightarrow>
          if length data = 0 then (sentry_response_make SENTRY_SEND_REJECTED, t, w)
          else (case wifi_is_available net w of
            (False, w) \<Rightarrow> (sentry_response_make SENTRY_SEND_UNAVAILABLE, t, w)
          | (True, w) \<Rightarrow>
              (let allowed = wt_allowed_host t;
                   allowed = (if allowed = None
                     then (case dsn of Some d \<Rightarrow> if ds_valid d then Some (ds_host d) else None | None \<Rightarrow> None)
                     else allowed)
               in if allowed = None \<or> \<not> sentry_url_host_matches url allowed
                  then (sentry_response_make SENTRY_SEND_REJECTED, t, w)
                  else
                    (let is_https = (take 8 u = ''https://'')
                     in if is_https \<and> tls then
                          (let t = (if wt_ca_cert t = None then t\<lparr>wt_warned_insecure := True\<rparr> else t);
                               (r, w) = post_envelope net err
                                 (WiFiClientSecure (wt_ca_cert t) (wt_timeout_ms t div 1000)) u headers data (wt_timeout_ms t) w
                           in (r, t, w))
                        else if is_https then (sentry_response_make SENTRY_SEND_REJECTED, t, w)
                        else
                          (let (r, w) = post_envelope net err
                             (WiFiClient (wt_timeout_ms t div 1000)) u headers data (wt_timeout_ms t) w
                           in (r, t, w)))))
      | _ \<Rightarrow> (sentry_response_make SENTRY_SEND_REJECTED, t, w))"

text \<open>The virtual functions of the class, over its members and the network.\<close>

definition wifi_class ::
    "'w http_client \<Rightarrow> http_errors \<Rightarrow> bool \<Rightarrow> sentry_dsn option \<Rightarrow> (wifi_transport \<times> 'w) transport_class" where
  "wifi_class net err tls dsn =
     \<lparr>vt_send = (\<lambda>url headers body (t, w). case wifi_send net err tls dsn url headers body t w of (r, s) \<Rightarrow> (r, s)),
      vt_is_available = (\<lambda>(t, w). case wifi_is_available net w of (available, w) \<Rightarrow> (available, (t, w))),
      vt_name = (\<lambda>_. Some ''wifi'')\<rparr>"

section \<open>Delays\<close>

text \<open>A delay the server names is at most a day, so the multiplication never wraps.\<close>

lemma parse_retry_after_cases:
  "parse_retry_after_ms v = 0 \<or>
     (\<exists>s. 0 < s \<and> s \<le> fst (strtol10 v) \<and> s \<le> 86400 \<and> unat (parse_retry_after_ms v) = nat s * 1000)"
proof -
  obtain seconds read where s: "strtol10 v = (seconds, read)" by fastforce
  have "unat (word_of_int k * 1000 :: u32) = nat k * 1000" if "0 < k" "k \<le> 86400" for k :: int
  proof -
    have "(word_of_int k * 1000 :: u32) = of_nat (nat k * 1000)" using that(1) by simp
    then show ?thesis using that by (simp only: unat_of_nat) (simp add: nat_less_iff)
  qed
  then have "unat (word_of_int (min seconds 86400) * 1000 :: u32) = nat (min seconds 86400) * 1000" if "0 < seconds"
    using that by simp
  moreover have "parse_retry_after_ms v =
      (if v = [] \<or> read = 0 \<or> seconds \<le> 0 then 0 else word_of_int (min seconds 86400) * 1000)"
    by (simp add: parse_retry_after_ms_def s Let_def min_def)
  ultimately show ?thesis
    by (cases "v = [] \<or> read = 0 \<or> seconds \<le> 0") (auto simp: s intro!: exI [of _ "min seconds 86400"])
qed

lemma parse_retry_after_bound: "unat (parse_retry_after_ms v) \<le> 86400000"
proof -
  have "nat s * 1000 \<le> 86400000" if "s \<le> (86400 :: int)" for s using that by simp
  then show ?thesis using parse_retry_after_cases [of v] by force
qed

text \<open>What Sentry sends: seconds in \<open>Retry-After\<close>, or before the first colon of its own header.\<close>

lemma retry_after_seconds:
  assumes "0 < n" and "n \<le> 86400" and "rest = [] \<or> \<not> is_digit (hd rest)"
  shows "parse_retry_after_ms (dec n @ rest) = of_nat (n * 1000)"
    and "parse_sentry_rate_limits_ms (dec n @ rest) = of_nat (n * 1000)"
proof -
  have "strtol10 (dec n @ rest) = (int n, length (dec n))"
    using strtol10_dec [of rest n "[]"] assms by simp
  then show "parse_retry_after_ms (dec n @ rest) = of_nat (n * 1000)"
    using assms by (simp add: parse_retry_after_ms_def)
  then show "parse_sentry_rate_limits_ms (dec n @ rest) = of_nat (n * 1000)"
    by (simp add: parse_sentry_rate_limits_ms_def)
qed

section \<open>The calls of a send\<close>

datatype net_call =
    Began wifi_client string bool
  | Configured http_setting
  | Posted bytes int
  | Ended

text \<open>The same network, with the calls that reach it recorded.\<close>

definition logged_net :: "'w http_client \<Rightarrow> ('w \<times> net_call list) http_client" where
  "logged_net net =
     \<lparr>wf_connected = (\<lambda>v. case wf_connected net (fst v) of (b, w) \<Rightarrow> (b, (w, snd v))),
      wf_has_address = (\<lambda>v. case wf_has_address net (fst v) of (b, w) \<Rightarrow> (b, (w, snd v))),
      hc_begin = (\<lambda>c u v. case hc_begin net c u (fst v) of (ok, w) \<Rightarrow> (ok, (w, snd v @ [Began c u ok]))),
      hc_set = (\<lambda>x v. (hc_set net x (fst v), snd v @ [Configured x])),
      hc_POST = (\<lambda>b v. case hc_POST net b (fst v) of (status, w) \<Rightarrow> (status, (w, snd v @ [Posted b status]))),
      hc_header = (\<lambda>name v. case hc_header net name (fst v) of (h, w) \<Rightarrow> (h, (w, snd v))),
      hc_end = (\<lambda>v. (hc_end net (fst v), snd v @ [Ended]))\<rparr>"

lemma available_logged:
  "wifi_is_available (logged_net net) (w, log) =
     (fst (wifi_is_available net w), (snd (wifi_is_available net w), log))"
  by (simp add: wifi_is_available_def logged_net_def split: prod.split bool.split)

text \<open>What the answer to a POST may be.\<close>

definition answer_of :: "int \<Rightarrow> sentry_response \<Rightarrow> bool" where
  "answer_of status r \<longleftrightarrow>
     (if status < 0 then r = sentry_response_make SENTRY_SEND_UNAVAILABLE \<or> r = sentry_response_make SENTRY_SEND_ERROR
      else rs_http_status r = word_of_int status \<and> unat (rs_retry_after_ms r) \<le> 86400000 \<and>
        rs_result r =
          (if status = 429 then SENTRY_SEND_RATE_LIMITED
           else if 200 \<le> status \<and> status \<le> 299 then SENTRY_SEND_OK
           else if 400 \<le> status \<and> status \<le> 499 then SENTRY_SEND_REJECTED
           else SENTRY_SEND_ERROR))"

lemma answer_of_verdict:
  "0 \<le> status \<Longrightarrow> unat ms \<le> 86400000 \<Longrightarrow> answer_of status (http_verdict status ms)"
  by (simp add: answer_of_def http_verdict_def Let_def)

lemma header_logged: "hc_header (logged_net net) name v = (h, v') \<Longrightarrow> snd v' = snd v"
  by (auto simp: logged_net_def split: prod.splits)

lemma post_response_answers:
  assumes "post_response (logged_net net) err status v = (r, v')"
  shows "snd v' = snd v \<and> answer_of status r"
proof (cases "status < 0")
  case True
  then show ?thesis using assms by (auto simp: post_response_def answer_of_def split: if_splits)
next
  case False
  obtain h1 v1 where h1: "hc_header (logged_net net) ''Retry-After'' v = (h1, v1)" by (metis surj_pair)
  obtain h2 v2 where h2: "hc_header (logged_net net) ''X-Sentry-Rate-Limits'' v1 = (h2, v2)" by (metis surj_pair)
  have "unat (parse_sentry_rate_limits_ms h) \<le> 86400000" for h
    using parse_retry_after_bound by (simp add: parse_sentry_rate_limits_ms_def)
  then show ?thesis
    using assms False header_logged [OF h1] header_logged [OF h2] parse_retry_after_bound
    by (auto simp: post_response_def Let_def h1 h2 intro: answer_of_verdict split: if_splits)
qed

text \<open>
  One POST, from \<open>begin\<close> to \<open>end\<close>: redirects are off and the headers are those of the request before
  the body goes out.
\<close>

definition one_post :: "wifi_client \<Rightarrow> string \<Rightarrow> sentry_headers \<Rightarrow> bytes \<Rightarrow> sentry_response \<Rightarrow> net_call list \<Rightarrow> bool" where
  "one_post client url headers body r log \<longleftrightarrow>
     log = [Began client url False] \<and> r = sentry_response_make SENTRY_SEND_ERROR \<or>
     (\<exists>settings status. log = Began client url True # map Configured settings @ [Posted body status, Ended] \<and>
       FollowRedirects HTTPC_DISABLE_FOLLOW_REDIRECTS \<in> set settings \<and>
       FollowRedirects HTTPC_FOLLOW_REDIRECTS \<notin> set settings \<and>
       AddHeader ''X-Sentry-Auth'' (case sh_auth headers of Some auth \<Rightarrow> auth | None \<Rightarrow> '''') \<in> set settings \<and>
       AddHeader ''Content-Type''
         (case sh_content_type headers of Some ct \<Rightarrow> ct | None \<Rightarrow> ''application/x-sentry-envelope'') \<in> set settings \<and>
       answer_of status r)"

lemma post_envelope_posts_once:
  assumes "post_envelope (logged_net net) err client url headers body timeout v = (r, v')"
  shows "\<exists>log. snd v' = snd v @ log \<and> one_post client url headers body r log"
proof -
  obtain ok v1 where Pair: "hc_begin (logged_net net) client url v = (ok, v1)" by (metis surj_pair)
  then have v1: "snd v1 = snd v @ [Began client url ok]" by (auto simp: logged_net_def split: prod.splits)
  show ?thesis
  proof (cases ok)
    case False
    then show ?thesis using assms Pair v1 by (auto simp: post_envelope_def one_post_def)
  next
    case True
    define settings where "settings = [ConnectTimeout timeout, Timeout (ucast timeout),
      FollowRedirects HTTPC_DISABLE_FOLLOW_REDIRECTS, UserAgent SENTRY_MICRO_SDK_USER_AGENT,
      AddHeader ''Content-Type''
        (case sh_content_type headers of Some ct \<Rightarrow> ct | None \<Rightarrow> ''application/x-sentry-envelope''),
      AddHeader ''X-Sentry-Auth'' (case sh_auth headers of Some auth \<Rightarrow> auth | None \<Rightarrow> ''''),
      CollectHeaders [''Retry-After'', ''X-Sentry-Rate-Limits'']]"
    define v2 where "v2 = fold (hc_set (logged_net net)) settings v1"
    have v2: "snd v2 = snd v1 @ map Configured settings" by (simp add: v2_def settings_def logged_net_def)
    obtain status v3 where post: "hc_POST (logged_net net) body v2 = (status, v3)" by (metis surj_pair)
    then have v3: "snd v3 = snd v2 @ [Posted body status]" by (auto simp: logged_net_def split: prod.splits)
    obtain r' v4 where resp: "post_response (logged_net net) err status v3 = (r', v4)" by (metis surj_pair)
    have "post_envelope (logged_net net) err client url headers body timeout v = (r', hc_end (logged_net net) v4)"
      using True Pair post resp by (simp add: post_envelope_def Let_def v2_def settings_def)
    then have ended: "r = r'" "snd v' = snd v4 @ [Ended]" using assms by (auto simp: logged_net_def)
    have "snd v' = snd v @ Began client url True # map Configured settings @ [Posted body status, Ended]"
      using True v1 v2 v3 ended(2) post_response_answers [OF resp] by simp
    moreover have "answer_of status r" using ended(1) post_response_answers [OF resp] by simp
    then have "one_post client url headers body r
        (Began client url True # map Configured settings @ [Posted body status, Ended])"
      unfolding one_post_def by (intro disjI2 exI [of _ settings] exI [of _ status]) (simp add: settings_def)
    ultimately show ?thesis by blast
  qed
qed

section \<open>Properties\<close>

text \<open>The host requests may go to, and the client they go over.\<close>

definition ingest_host :: "wifi_transport \<Rightarrow> sentry_dsn option \<Rightarrow> cptr" where
  "ingest_host t dsn =
     (case wt_allowed_host t of
        Some h \<Rightarrow> Some h
      | None \<Rightarrow> (case dsn of Some d \<Rightarrow> if ds_valid d then Some (ds_host d) else None | None \<Rightarrow> None))"

definition client_for :: "wifi_transport \<Rightarrow> string \<Rightarrow> wifi_client" where
  "client_for t url =
     (if take 8 url = ''https://'' then WiFiClientSecure (wt_ca_cert t) (wt_timeout_ms t div 1000)
      else WiFiClient (wt_timeout_ms t div 1000))"

text \<open>
  C37: The WiFi transport only ever speaks to the ingest host, and never in clear when asked for
  TLS. A send makes no request at all, or one: over an available network, to a URL whose host is
  the one set or else the DSN's, over a TLS client with the configured certificate whenever the
  URL says https and not at all when the build has no TLS, with redirects off and the headers and
  body of the envelope. Its result is what the status says, a delay of at most a day; without a
  request it is that there is no route or, when the network is there, a rejection.
\<close>

theorem wifi_posts_only_to_ingest:
  fixes net :: "'w http_client" and dsn :: "sentry_dsn option" and url :: cptr and body :: "bytes option"
    and t :: wifi_transport and tls :: bool and w :: 'w
  defines "permitted \<equiv> url \<noteq> None \<and> body \<noteq> None \<and> the body \<noteq> [] \<and> fst (wifi_is_available net w) \<and>
      sentry_url_host_matches url (ingest_host t dsn) \<and> (take 8 (the url) \<noteq> ''https://'' \<or> tls)"
  shows "\<exists>r t' w' log. wifi_send (logged_net net) err tls dsn url headers body t (w, []) = (r, t', (w', log)) \<and>
    wt_ca_cert t' = wt_ca_cert t \<and> wt_allowed_host t' = wt_allowed_host t \<and>
    (if permitted then one_post (client_for t (the url)) (the url) headers (the body) r log
     else log = [] \<and>
       r = sentry_response_make
         (if url \<noteq> None \<and> body \<noteq> None \<and> the body \<noteq> [] \<and> \<not> fst (wifi_is_available net w)
          then SENTRY_SEND_UNAVAILABLE else SENTRY_SEND_REJECTED))"
proof (cases "url = None \<or> body = None \<or> body = Some []")
  case True
  then show ?thesis by (auto simp: wifi_send_def permitted_def split: option.splits)
next
  case False
  then obtain u data where req: "url = Some u" "body = Some data" "data \<noteq> []" by auto
  obtain on w1 where av: "wifi_is_available net w = (on, w1)" by fastforce
  let ?client = "client_for t u" and ?net = "logged_net net" and ?host = "ingest_host t dsn"
  obtain r v where post: "post_envelope ?net err ?client u headers data (wt_timeout_ms t) (w1, []) = (r, v)"
    by (metis surj_pair)
  have once: "one_post ?client u headers data r (snd v)" using post_envelope_posts_once [OF post] by simp
  let ?t = "if take 8 u = ''https://'' \<and> wt_ca_cert t = None then t\<lparr>wt_warned_insecure := True\<rparr> else t"
  have host: "(?host = None \<or> \<not> sentry_url_host_matches url ?host) = (\<not> sentry_url_host_matches url ?host)"
    by (auto simp: sentry_url_host_matches_def split: option.splits)
  have "wifi_send ?net err tls dsn url headers body t (w, []) =
    (if \<not> on then (sentry_response_make SENTRY_SEND_UNAVAILABLE, t, (w1, []))
     else if \<not> sentry_url_host_matches url ?host \<or> take 8 u = ''https://'' \<and> \<not> tls
     then (sentry_response_make SENTRY_SEND_REJECTED, t, (w1, []))
     else (r, ?t, v))"
  proof -
    have allowed: "(if wt_allowed_host t = None
         then (case dsn of Some d \<Rightarrow> if ds_valid d then Some (ds_host d) else None | None \<Rightarrow> None)
         else wt_allowed_host t) = ?host"
      by (auto simp: ingest_host_def)
    show ?thesis
      using post
      unfolding wifi_send_def Let_def allowed host available_logged av fst_conv snd_conv
      by (cases on; cases "take 8 u = ''https://''"; cases "wt_ca_cert t") (simp_all add: req client_for_def)
  qed
  then show ?thesis using once req av by (cases v) (auto simp: permitted_def)
qed

text \<open>A network whose server answers 429 with a delay of a minute.\<close>

definition limiting_net :: "unit http_client" where
  "limiting_net =
     \<lparr>wf_connected = (\<lambda>w. (True, w)), wf_has_address = (\<lambda>w. (True, w)), hc_begin = (\<lambda>c u w. (True, w)),
      hc_set = (\<lambda>x w. w), hc_POST = (\<lambda>b w. (429, w)),
      hc_header = (\<lambda>name w. (if name = ''Retry-After'' then ''60'' else '''', w)), hc_end = (\<lambda>w. w)\<rparr>"

text \<open>The response timeout is kept in 16 bits: one of 70 seconds is one of 4.5.\<close>

lemma response_timeout_wraps:
  "Configured (Timeout 4464) \<in> set (snd (snd (snd (wifi_send (logged_net limiting_net)
     \<lparr>HTTPC_ERROR_CONNECTION_REFUSED = -1, HTTPC_ERROR_CONNECTION_LOST = -5, HTTPC_ERROR_NO_HTTP_SERVER = -7\<rparr>
     True (Some (dsn_zero\<lparr>ds_valid := True, ds_host := ''h''\<rparr>)) (Some ''https://h/'')
     \<lparr>sh_auth = None, sh_content_type = None\<rparr> (Some [1]) (set_timeout_ms 70000 WiFiTransport) ((), [])))))"
  by code_simp

theorem wifi_posts_only_to_ingest_witness:
  "\<exists>r t' log. wifi_send (logged_net limiting_net)
      \<lparr>HTTPC_ERROR_CONNECTION_REFUSED = -1, HTTPC_ERROR_CONNECTION_LOST = -5, HTTPC_ERROR_NO_HTTP_SERVER = -7\<rparr>
      True (Some (dsn_zero\<lparr>ds_valid := True, ds_host := ''h''\<rparr>)) (Some ''https://h/'')
      \<lparr>sh_auth = Some ''Sentry'', sh_content_type = None\<rparr> (Some [1, 2]) (set_ca_cert (Some ''PEM'') WiFiTransport)
      ((), []) = (r, t', ((), log)) \<and>
    one_post (WiFiClientSecure (Some ''PEM'') 10) ''https://h/'' \<lparr>sh_auth = Some ''Sentry'', sh_content_type = None\<rparr>
      [1, 2] r log"
proof -
  let ?dsn = "Some (dsn_zero\<lparr>ds_valid := True, ds_host := ''h''\<rparr>)" and ?t = "set_ca_cert (Some ''PEM'') WiFiTransport"
  have "sentry_url_host_matches (Some ''https://h/'') (Some ''h'')" by code_simp
  moreover have "ingest_host ?t ?dsn = Some ''h''" "fst (wifi_is_available limiting_net ())"
    "client_for ?t ''https://h/'' = WiFiClientSecure (Some ''PEM'') 10"
    by (simp_all add: ingest_host_def set_ca_cert_def WiFiTransport_def client_for_def wifi_is_available_def limiting_net_def)
  ultimately show ?thesis
    using wifi_posts_only_to_ingest [where net = limiting_net and dsn = ?dsn and url = "Some ''https://h/''"
      and body = "Some [1, 2]" and t = ?t and tls = True and w = "()"
      and headers = "\<lparr>sh_auth = Some ''Sentry'', sh_content_type = None\<rparr>"
      and err = "\<lparr>HTTPC_ERROR_CONNECTION_REFUSED = -1, HTTPC_ERROR_CONNECTION_LOST = -5, HTTPC_ERROR_NO_HTTP_SERVER = -7\<rparr>"]
    by simp blast
qed

end
