(* ===== verification/Sentry_Relay.thy ===== *)
theory Sentry_Relay
  imports Sentry_Transport
begin

text \<open>
  The relay wire protocol (\<open>src/core/sentry_relay.c\<close>): an HTTP request cut into BEGIN, DATA and
  END frames for a host to perform, and the host's HELLO and STATUS frames parsed. The lemmas
  show that the reads of the logical stream, which walk the four fields of the request without
  ever joining them, are slices of their concatenation, and which host frames are accepted.
\<close>

section \<open>Constants and data\<close>

definition SENTRY_RELAY_PROTOCOL_VERSION :: u8 where "SENTRY_RELAY_PROTOCOL_VERSION = 1"
definition SENTRY_RELAY_FRAME_BEGIN :: u8 where "SENTRY_RELAY_FRAME_BEGIN = 0x01"
definition SENTRY_RELAY_FRAME_DATA :: u8 where "SENTRY_RELAY_FRAME_DATA = 0x02"
definition SENTRY_RELAY_FRAME_END :: u8 where "SENTRY_RELAY_FRAME_END = 0x03"
definition SENTRY_RELAY_FRAME_HELLO :: u8 where "SENTRY_RELAY_FRAME_HELLO = 0x80"
definition SENTRY_RELAY_FRAME_STATUS :: u8 where "SENTRY_RELAY_FRAME_STATUS = 0x81"
definition SENTRY_RELAY_BEGIN_LEN :: nat where "SENTRY_RELAY_BEGIN_LEN = 12"
definition SENTRY_RELAY_DATA_HEADER_LEN :: nat where "SENTRY_RELAY_DATA_HEADER_LEN = 4"
definition SENTRY_RELAY_END_LEN :: nat where "SENTRY_RELAY_END_LEN = 2"
definition SENTRY_RELAY_HELLO_LEN :: nat where "SENTRY_RELAY_HELLO_LEN = 4"
definition SENTRY_RELAY_STATUS_LEN :: nat where "SENTRY_RELAY_STATUS_LEN = 9"
definition SENTRY_RELAY_MIN_CHUNK_BYTES :: nat where "SENTRY_RELAY_MIN_CHUNK_BYTES = 24"

lemmas relay_lens =
  SENTRY_RELAY_BEGIN_LEN_def SENTRY_RELAY_DATA_HEADER_LEN_def SENTRY_RELAY_END_LEN_def
  SENTRY_RELAY_HELLO_LEN_def SENTRY_RELAY_STATUS_LEN_def SENTRY_RELAY_MIN_CHUNK_BYTES_def

lemmas relay_types =
  SENTRY_RELAY_FRAME_BEGIN_def SENTRY_RELAY_FRAME_DATA_def SENTRY_RELAY_FRAME_END_def
  SENTRY_RELAY_FRAME_HELLO_def SENTRY_RELAY_FRAME_STATUS_def

text \<open>A NULL body has no bytes whatever \<open>body_len\<close> says.\<close>

record sentry_relay_request =
  rq_url :: cptr
  rq_auth :: cptr
  rq_content_type :: cptr
  rq_body :: "bytes option"

text \<open>\<open>segment_t\<close>: a pointer, which may be NULL, and a length.\<close>

type_synonym segment = "bytes option \<times> nat"

definition str_len :: "cptr \<Rightarrow> nat" where
  "str_len s = (case s of Some t \<Rightarrow> length t | None \<Rightarrow> 0)"

definition body_len :: "sentry_relay_request \<Rightarrow> nat" where
  "body_len request = (case rq_body request of Some b \<Rightarrow> length b | None \<Rightarrow> 0)"

definition segments_of :: "sentry_relay_request \<Rightarrow> segment list" where
  "segments_of request =
     (let text = (\<lambda>s. (Some (bytes_of (case s of Some t \<Rightarrow> t | None \<Rightarrow> '''')), str_len s))
      in [text (rq_url request), text (rq_auth request), text (rq_content_type request),
          (rq_body request, body_len request)])"

definition sentry_relay_stream_len :: "sentry_relay_request option \<Rightarrow> nat" where
  "sentry_relay_stream_len request =
     (case request of None \<Rightarrow> 0 | Some r \<Rightarrow> sum_list (map snd (segments_of r)))"

section \<open>Reading the stream\<close>

text \<open>The loop of \<open>sentry_relay_stream_read\<close>, from segment to segment: the memory and \<open>written\<close>.\<close>

fun stream_loop :: "segment list \<Rightarrow> nat \<Rightarrow> nat \<Rightarrow> nat \<Rightarrow> bytes \<Rightarrow> nat \<Rightarrow> bytes \<times> nat" where
  "stream_loop [] offset cap base out written = (out, written)"
| "stream_loop ((data, len) # segments) offset cap base out written =
     (if \<not> written < cap then (out, written)
      else if base + len \<le> offset then stream_loop segments offset cap (base + len) out written
      else let start = (if base < offset then offset - base else 0);
               taken = (if cap - written < len - start then cap - written else len - start);
               out = (case data of
                   Some d \<Rightarrow> if 0 < taken then mem_write out written (take taken (drop start d)) else out
                 | None \<Rightarrow> out)
           in stream_loop segments offset cap (base + len) out (written + taken))"

definition sentry_relay_stream_read ::
    "sentry_relay_request option \<Rightarrow> nat \<Rightarrow> bytes option \<Rightarrow> nat \<Rightarrow> bytes option \<times> nat" where
  "sentry_relay_stream_read request offset out cap =
     (case (request, out) of
        (Some r, Some mem) \<Rightarrow>
          if cap = 0 then (out, 0)
          else (case stream_loop (segments_of r) offset cap 0 mem 0 of (mem', n) \<Rightarrow> (Some mem', n))
      | _ \<Rightarrow> (out, 0))"

section \<open>The frames of a request\<close>

definition sentry_relay_encode_begin ::
    "bytes option \<Rightarrow> nat \<Rightarrow> u8 \<Rightarrow> sentry_relay_request option \<Rightarrow> bytes option \<times> nat" where
  "sentry_relay_encode_begin out cap request_id request =
     (case (out, request) of
        (Some mem, Some r) \<Rightarrow>
          if cap < SENTRY_RELAY_BEGIN_LEN then (out, 0)
          else if 0xFFFF < sentry_relay_stream_len request then (out, 0)
          else if 0xFFFF < str_len (rq_url r) \<or> 0xFFFF < str_len (rq_auth r) \<or>
            0xFFFF < str_len (rq_content_type r) then (out, 0)
          else (Some (mem_write mem 0
                 ([SENTRY_RELAY_FRAME_BEGIN, request_id] @ write_u16 (of_nat (str_len (rq_url r))) @
                  write_u16 (of_nat (str_len (rq_auth r))) @ write_u16 (of_nat (str_len (rq_content_type r))) @
                  write_u32 (of_nat (body_len r)))), SENTRY_RELAY_BEGIN_LEN)
      | _ \<Rightarrow> (out, 0))"

definition sentry_relay_encode_data ::
    "bytes option \<Rightarrow> nat \<Rightarrow> u8 \<Rightarrow> sentry_relay_request option \<Rightarrow> nat \<Rightarrow> bytes option \<times> nat" where
  "sentry_relay_encode_data out cap request_id request offset =
     (case (out, request) of
        (Some mem, Some r) \<Rightarrow>
          if cap \<le> SENTRY_RELAY_DATA_HEADER_LEN \<or> 0xFFFF < offset then (out, 0)
          else (let head = take SENTRY_RELAY_DATA_HEADER_LEN mem;
                    rest = drop SENTRY_RELAY_DATA_HEADER_LEN mem
                in case sentry_relay_stream_read request offset (Some rest) (cap - SENTRY_RELAY_DATA_HEADER_LEN) of
                  (Some rest', payload) \<Rightarrow>
                    if payload = 0 then (Some (head @ rest'), 0)
                    else (Some (mem_write (head @ rest') 0
                           ([SENTRY_RELAY_FRAME_DATA, request_id] @ write_u16 (of_nat offset))),
                          SENTRY_RELAY_DATA_HEADER_LEN + payload)
                | (None, payload) \<Rightarrow> (out, 0))
      | _ \<Rightarrow> (out, 0))"

definition sentry_relay_encode_end :: "bytes option \<Rightarrow> nat \<Rightarrow> u8 \<Rightarrow> bytes option \<times> nat" where
  "sentry_relay_encode_end out cap request_id =
     (case out of
        None \<Rightarrow> (out, 0)
      | Some mem \<Rightarrow>
          if cap < SENTRY_RELAY_END_LEN then (out, 0)
          else (Some (mem_write mem 0 [SENTRY_RELAY_FRAME_END, request_id]), SENTRY_RELAY_END_LEN))"

section \<open>The frames of the host\<close>

datatype sentry_relay_host_kind =
    SENTRY_RELAY_HOST_NONE
  | SENTRY_RELAY_HOST_HELLO
  | SENTRY_RELAY_HOST_STATUS

record sentry_relay_host_frame =
  hf_kind :: sentry_relay_host_kind
  hf_protocol_version :: u8
  hf_max_chunk_bytes :: u16
  hf_request_id :: u8
  hf_response :: sentry_response

text \<open>\<open>sentry_relay_result_t\<close>, the codes on the wire.\<close>

definition SENTRY_RELAY_RESULT_OK :: u8 where "SENTRY_RELAY_RESULT_OK = 0"
definition SENTRY_RELAY_RESULT_UNAVAILABLE :: u8 where "SENTRY_RELAY_RESULT_UNAVAILABLE = 1"
definition SENTRY_RELAY_RESULT_REJECTED :: u8 where "SENTRY_RELAY_RESULT_REJECTED = 2"
definition SENTRY_RELAY_RESULT_RATE_LIMITED :: u8 where "SENTRY_RELAY_RESULT_RATE_LIMITED = 3"
definition SENTRY_RELAY_RESULT_ERROR :: u8 where "SENTRY_RELAY_RESULT_ERROR = 4"

lemmas relay_results =
  SENTRY_RELAY_RESULT_OK_def SENTRY_RELAY_RESULT_UNAVAILABLE_def SENTRY_RELAY_RESULT_REJECTED_def
  SENTRY_RELAY_RESULT_RATE_LIMITED_def SENTRY_RELAY_RESULT_ERROR_def

definition result_from_wire :: "u8 \<Rightarrow> sentry_send_result" where
  "result_from_wire code =
     (if code = SENTRY_RELAY_RESULT_OK then SENTRY_SEND_OK
      else if code = SENTRY_RELAY_RESULT_UNAVAILABLE then SENTRY_SEND_UNAVAILABLE
      else if code = SENTRY_RELAY_RESULT_REJECTED then SENTRY_SEND_REJECTED
      else if code = SENTRY_RELAY_RESULT_RATE_LIMITED then SENTRY_SEND_RATE_LIMITED
      else SENTRY_SEND_ERROR)"

definition host_frame_zero :: sentry_relay_host_frame where
  "host_frame_zero =
     \<lparr>hf_kind = SENTRY_RELAY_HOST_NONE, hf_protocol_version = 0, hf_max_chunk_bytes = 0, hf_request_id = 0,
      hf_response = sentry_response_make SENTRY_SEND_ERROR\<rparr>"

text \<open>\<open>out\<close> is what the pointer of that name points to, or NULL.\<close>

definition sentry_relay_parse_host_frame ::
    "sentry_relay_host_frame option \<Rightarrow> bytes option \<Rightarrow> sentry_relay_host_frame option \<times> bool" where
  "sentry_relay_parse_host_frame out data =
     (case out of
        None \<Rightarrow> (None, False)
      | Some _ \<Rightarrow>
          (let out = host_frame_zero in
          (case data of
            None \<Rightarrow> (Some out, False)
          | Some d \<Rightarrow>
              if length d < 1 then (Some out, False)
              else if d ! 0 = SENTRY_RELAY_FRAME_HELLO then
                if length d < SENTRY_RELAY_HELLO_LEN then (Some out, False)
                else (Some (out\<lparr>hf_kind := SENTRY_RELAY_HOST_HELLO, hf_protocol_version := d ! 1,
                        hf_max_chunk_bytes := read_u16 (drop 2 d)\<rparr>), True)
              else if d ! 0 = SENTRY_RELAY_FRAME_STATUS then
                if length d < SENTRY_RELAY_STATUS_LEN then (Some out, False)
                else (Some (out\<lparr>hf_kind := SENTRY_RELAY_HOST_STATUS, hf_request_id := d ! 1,
                        hf_response := \<lparr>rs_result = result_from_wire (d ! 2),
                          rs_http_status = read_u16 (drop 3 d), rs_retry_after_ms = read_u32 (drop 5 d)\<rparr>\<rparr>), True)
              else (Some out, False))))"

section \<open>A read is a slice of the stream\<close>

definition segment_bytes :: "segment \<Rightarrow> bytes" where
  "segment_bytes s = (case fst s of Some d \<Rightarrow> d | None \<Rightarrow> [])"

definition segment_ok :: "segment \<Rightarrow> bool" where
  "segment_ok s \<longleftrightarrow> snd s = length (segment_bytes s)"

text \<open>The logical stream: the four fields one after the other.\<close>

definition relay_stream :: "sentry_relay_request \<Rightarrow> bytes" where
  "relay_stream request = concat (map segment_bytes (segments_of request))"

lemma segments_ok: "list_all segment_ok (segments_of r)"
  by (simp add: segments_of_def segment_ok_def segment_bytes_def str_len_def body_len_def Let_def split: option.splits)

lemma stream_len_stream: "sentry_relay_stream_len (Some r) = length (relay_stream r)"
  using segments_ok [of r]
  by (simp add: sentry_relay_stream_len_def relay_stream_def length_concat segment_ok_def list_all_iff
      o_def cong: map_cong)

lemma stream_loop_slice:
  assumes "list_all segment_ok segs" and "written \<le> cap" and "cap \<le> length out"
    and "written = 0 \<or> offset \<le> base"
  shows "stream_loop segs offset cap base out written =
    (let new = take (cap - written) (drop (offset - base) (concat (map segment_bytes segs)))
     in (mem_write out written new, written + length new))"
  using assms
proof (induction segs arbitrary: base out written)
  case (Cons s segs)
  obtain data len where s: "s = (data, len)" by (cases s)
  define d where "d = segment_bytes s"
  have len: "len = length d" using Cons.prems(1) by (simp add: s segment_ok_def d_def)
  let ?rest = "concat (map segment_bytes segs)"
  consider "written = cap" | "written < cap" "base + len \<le> offset" | "written < cap" "offset < base + len"
    using Cons.prems(2) by linarith
  then show ?case
  proof cases
    case 1
    then show ?thesis by (simp add: s)
  next
    case 2
    have "drop (offset - base) (d @ ?rest) = drop (offset - (base + len)) ?rest" using 2(2) by (simp add: len)
    then show ?thesis
      using 2 Cons.prems Cons.IH [of written out "base + len"] by (auto simp: s d_def [unfolded s, symmetric])
  next
    case 3
    define start where "start = offset - base"
    define taken where "taken = min (cap - written) (len - start)"
    define x where "x = take taken (drop start d)"
    have start: "start \<le> len" using 3(2) by (simp add: start_def)
    have lx: "length x = taken" by (simp add: x_def taken_def len)
    have out: "(case data of Some d \<Rightarrow> if 0 < taken then mem_write out written (take taken (drop start d)) else out
        | None \<Rightarrow> out) = mem_write out written x"
      using lx by (cases data) (auto simp: x_def d_def s segment_bytes_def)
    have fits: "written + length x \<le> cap" using lx 3(1) by (simp add: taken_def)
    have ifs: "(if base < offset then offset - base else 0) = start"
      "(if cap - written < len - start then cap - written else len - start) = taken"
      by (simp_all add: start_def taken_def)
    have "stream_loop (s # segs) offset cap base out written =
        stream_loop segs offset cap (base + len) (mem_write out written x) (written + taken)"
      unfolding s stream_loop.simps Let_def ifs out using 3 by simp
    also have "\<dots> = (let new = take (cap - (written + taken)) ?rest
        in (mem_write (mem_write out written x) (written + taken) new, written + taken + length new))"
      using Cons.IH [of "written + taken" "mem_write out written x" "base + len"] Cons.prems fits 3(2)
      by (simp add: lx)
    also have "\<dots> = (let new = x @ take (cap - (written + taken)) ?rest
        in (mem_write out written new, written + length new))"
      using fits Cons.prems(3) mem_write_append [of written x out] by (simp add: Let_def lx)
    also have "x @ take (cap - (written + taken)) ?rest = take (cap - written) (drop start (d @ ?rest))"
      using start by (simp add: x_def taken_def len min_def)
    finally show ?thesis by (simp add: start_def d_def)
  qed
qed simp

lemma stream_read_slice:
  assumes "cap \<le> length mem"
  shows "sentry_relay_stream_read (Some r) offset (Some mem) cap =
    (let new = take cap (drop offset (relay_stream r)) in (Some (mem_write mem 0 new), length new))"
  using stream_loop_slice [OF segments_ok, of 0 cap mem offset 0 r] assms
  by (simp add: sentry_relay_stream_read_def Let_def relay_stream_def)

section \<open>The frames written\<close>

definition begin_frame :: "u8 \<Rightarrow> sentry_relay_request \<Rightarrow> bytes" where
  "begin_frame request_id r =
     [SENTRY_RELAY_FRAME_BEGIN, request_id] @ write_u16 (of_nat (str_len (rq_url r))) @
     write_u16 (of_nat (str_len (rq_auth r))) @ write_u16 (of_nat (str_len (rq_content_type r))) @
     write_u32 (of_nat (body_len r))"

definition data_frame :: "u8 \<Rightarrow> nat \<Rightarrow> bytes \<Rightarrow> bytes" where
  "data_frame request_id offset payload =
     [SENTRY_RELAY_FRAME_DATA, request_id] @ write_u16 (of_nat offset) @ payload"

definition end_frame :: "u8 \<Rightarrow> bytes" where
  "end_frame request_id = [SENTRY_RELAY_FRAME_END, request_id]"

lemma length_frames [simp]:
  "length (begin_frame i r) = 12" "length (data_frame i off p) = 4 + length p" "length (end_frame i) = 2"
  by (simp_all add: begin_frame_def data_frame_def end_frame_def)

lemma encode_begin_frame:
  assumes "12 \<le> cap"
  shows "sentry_relay_encode_begin (Some mem) cap i (Some r) =
     (if length (relay_stream r) \<le> 0xFFFF then (Some (mem_write mem 0 (begin_frame i r)), 12) else (Some mem, 0))"
proof -
  have "str_len (rq_url r) + str_len (rq_auth r) + str_len (rq_content_type r) \<le> length (relay_stream r)"
    unfolding stream_len_stream [symmetric]
    by (simp add: sentry_relay_stream_len_def segments_of_def Let_def)
  then show ?thesis using assms
    by (auto simp: sentry_relay_encode_begin_def begin_frame_def stream_len_stream relay_lens)
qed

lemma encode_data_frame:
  fixes r :: sentry_relay_request
  assumes "4 < cap" "cap \<le> length mem" "offset \<le> 0xFFFF"
  defines "payload \<equiv> take (cap - 4) (drop offset (relay_stream r))"
  shows "sentry_relay_encode_data (Some mem) cap i (Some r) offset =
    (if payload = [] then (Some mem, 0) else (Some (mem_write mem 0 (data_frame i offset payload)), 4 + length payload))"
proof -
  have "sentry_relay_stream_read (Some r) offset (Some (drop 4 mem)) (cap - 4) =
      (Some (mem_write (drop 4 mem) 0 payload), length payload)"
    using stream_read_slice [of "cap - 4" "drop 4 mem" r offset] assms(1,2) by (simp add: Let_def payload_def)
  moreover have four: "Suc (Suc (Suc (Suc n))) = n + 4" for n by simp
  ultimately show ?thesis
    using assms(1-3)
    by (auto simp: sentry_relay_encode_data_def relay_lens mem_write_def data_frame_def Let_def four)
qed

lemma encode_end_frame:
  "2 \<le> cap \<Longrightarrow> sentry_relay_encode_end (Some mem) cap i = (Some (mem_write mem 0 (end_frame i)), 2)"
  by (simp add: sentry_relay_encode_end_def end_frame_def relay_lens)

section \<open>The host frames accepted\<close>

text \<open>What a host may say, as the comment of the header lays the bytes out.\<close>

datatype host_message =
    Hello u8 u16
  | Status u8 u8 u16 u32

fun host_bytes :: "host_message \<Rightarrow> bytes" where
  "host_bytes (Hello version max_chunk) = [0x80, version] @ write_u16 max_chunk"
| "host_bytes (Status request_id result http_status retry_after_ms) =
     [0x81, request_id, result] @ write_u16 http_status @ write_u32 retry_after_ms"

fun host_meaning :: "host_message \<Rightarrow> sentry_relay_host_frame" where
  "host_meaning (Hello version max_chunk) =
     \<lparr>hf_kind = SENTRY_RELAY_HOST_HELLO, hf_protocol_version = version, hf_max_chunk_bytes = max_chunk,
      hf_request_id = 0, hf_response = sentry_response_make SENTRY_SEND_ERROR\<rparr>"
| "host_meaning (Status request_id result http_status retry_after_ms) =
     \<lparr>hf_kind = SENTRY_RELAY_HOST_STATUS, hf_protocol_version = 0, hf_max_chunk_bytes = 0,
      hf_request_id = request_id,
      hf_response = \<lparr>rs_result =
          (if result = 0 then SENTRY_SEND_OK else if result = 1 then SENTRY_SEND_UNAVAILABLE
           else if result = 2 then SENTRY_SEND_REJECTED else if result = 3 then SENTRY_SEND_RATE_LIMITED
           else SENTRY_SEND_ERROR),
        rs_http_status = http_status, rs_retry_after_ms = retry_after_ms\<rparr>\<rparr>"

lemma parse_host_bytes:
  "sentry_relay_parse_host_frame (Some f0) (Some (host_bytes msg @ rest)) = (Some (host_meaning msg), True)"
  by (cases msg)
    (simp_all add: sentry_relay_parse_host_frame_def relay_types relay_lens relay_results
      host_frame_zero_def result_from_wire_def read_u16_write read_u32_write)

text \<open>
  The host is untrusted: \<open>sentry_relay_parse_host_frame\<close> accepts exactly the bytes that begin
  with a whole HELLO or STATUS frame and reads the fields off them, an unknown result code as a
  retryable error; anything shorter, of another type or NULL is refused, and leaves a frame of
  no kind with an error for response, whatever the frame held before.
\<close>

theorem relay_parse_exact:
  fixes f0 :: sentry_relay_host_frame
  defines "parse \<equiv> sentry_relay_parse_host_frame (Some f0)"
  shows "parse (Some (host_bytes msg @ rest)) = (Some (host_meaning msg), True) \<and>
    (snd (parse d) \<longleftrightarrow> (\<exists>msg rest. d = Some (host_bytes msg @ rest))) \<and>
    (parse d = (Some host_frame_zero, False) \<or> snd (parse d))"
proof -
  have yes: "parse (Some (host_bytes msg @ rest)) = (Some (host_meaning msg), True)" for msg rest
    by (simp add: parse_def parse_host_bytes)
  have frame: "\<exists>msg rest. d = Some (host_bytes msg @ rest)" if ok: "snd (parse d)"
  proof -
    obtain t where t: "d = Some t" "t \<noteq> []" "t ! 0 = 0x80 \<and> 4 \<le> length t \<or> t ! 0 = 0x81 \<and> 9 \<le> length t"
      using ok unfolding parse_def sentry_relay_parse_host_frame_def relay_types relay_lens
      by (cases d) (auto simp: Let_def split: if_splits)
    then consider v a b rest where "t = [0x80, v, a, b] @ rest"
      | i c a b w x y z rest where "t = [0x81, i, c, a, b, w, x, y, z] @ rest"
      by (auto simp: numeral_eq_Suc Suc_le_length_iff)
    then show ?thesis
    proof cases
      case 1
      then have "t = host_bytes (Hello v (read_u16 [a, b])) @ rest" by (simp add: write_u16_read)
      with t show ?thesis by blast
    next
      case 2
      then have "t = host_bytes (Status i c (read_u16 [a, b]) (read_u32 [w, x, y, z])) @ rest"
        by (simp add: write_u16_read write_u32_read)
      with t show ?thesis by blast
    qed
  qed
  have "parse d = (Some host_frame_zero, False) \<or> snd (parse d)"
    by (cases d) (auto simp: parse_def sentry_relay_parse_host_frame_def Let_def)
  with yes frame show ?thesis by auto
qed

end
