(* ===== verification/Sentry_Relay_Transport.thy ===== *)
theory Sentry_Relay_Transport
  imports Sentry_Relay Sentry_Dsn
begin

text \<open>
  The relay transport (\<open>src/transport/sentry_transport_relay.hpp\<close> and \<open>.cpp\<close>): the state a link
  keeps about its host, the frames a host sends at any moment, and \<open>send\<close>, which writes the
  frames of a request and waits for the verdict. The link is a parameter: a record of the
  functions the application supplies. Each of them may let the task of the link run, so it
  returns, with its result, what that task delivered meanwhile; the model interleaves the two
  tasks at these calls. The lemmas show that a verdict is only reported for a request the host
  was given whole, and that the wait always ends.
\<close>

section \<open>The state of the transport\<close>

definition FRAME_BUFFER_BYTES :: nat where "FRAME_BUFFER_BYTES = 256"
definition POLL_INTERVAL_MS :: u32 where "POLL_INTERVAL_MS = 5"

record relay_transport =
  rt_chunk_bytes :: nat
  rt_configured_chunk_bytes :: nat
  rt_timeout_ms :: u32
  rt_next_request_id :: u8
  rt_attached :: bool
  rt_hello_seen :: bool
  rt_status_pending :: bool
  rt_status_request_id :: u8
  rt_status_response :: sentry_response

definition RelayTransport :: relay_transport where
  "RelayTransport =
     \<lparr>rt_chunk_bytes = 180, rt_configured_chunk_bytes = 180, rt_timeout_ms = 20000, rt_next_request_id = 1,
      rt_attached = False, rt_hello_seen = False, rt_status_pending = False, rt_status_request_id = 0,
      rt_status_response = sentry_response_make SENTRY_SEND_ERROR\<rparr>"

definition set_chunk_bytes :: "nat \<Rightarrow> relay_transport \<Rightarrow> relay_transport" where
  "set_chunk_bytes bytes s =
     (let bytes = (if bytes < SENTRY_RELAY_MIN_CHUNK_BYTES then SENTRY_RELAY_MIN_CHUNK_BYTES else bytes);
          bytes = (if FRAME_BUFFER_BYTES < bytes then FRAME_BUFFER_BYTES else bytes)
      in s\<lparr>rt_configured_chunk_bytes := bytes, rt_chunk_bytes := bytes\<rparr>)"

definition set_host_attached :: "bool \<Rightarrow> relay_transport \<Rightarrow> relay_transport" where
  "set_host_attached attached s =
     (let s = s\<lparr>rt_attached := attached\<rparr>
      in if \<not> attached
         then s\<lparr>rt_hello_seen := False, rt_status_pending := False, rt_chunk_bytes := rt_configured_chunk_bytes s\<rparr>
         else s)"

definition on_host_frame :: "bytes option \<Rightarrow> relay_transport \<Rightarrow> relay_transport" where
  "on_host_frame data s =
     (case sentry_relay_parse_host_frame (Some host_frame_zero) data of
        (Some frame, True) \<Rightarrow>
          if hf_kind frame = SENTRY_RELAY_HOST_HELLO then
            if hf_protocol_version frame \<noteq> SENTRY_RELAY_PROTOCOL_VERSION then s\<lparr>rt_hello_seen := False\<rparr>
            else (let host_chunk = unat (hf_max_chunk_bytes frame);
                      s = s\<lparr>rt_chunk_bytes := rt_configured_chunk_bytes s\<rparr>;
                      s = (if SENTRY_RELAY_MIN_CHUNK_BYTES \<le> host_chunk \<and> host_chunk < rt_chunk_bytes s
                           then s\<lparr>rt_chunk_bytes := host_chunk\<rparr> else s)
                  in s\<lparr>rt_hello_seen := True\<rparr>)
          else if hf_kind frame = SENTRY_RELAY_HOST_STATUS then
            s\<lparr>rt_status_response := hf_response frame, rt_status_request_id := hf_request_id frame,
              rt_status_pending := True\<rparr>
          else s
      | _ \<Rightarrow> s)"

definition host_ready :: "relay_transport \<Rightarrow> bool" where
  "host_ready s \<longleftrightarrow> rt_attached s \<and> rt_hello_seen s"

section \<open>The link\<close>

text \<open>What the task of the link does between two steps of \<open>send\<close>.\<close>

datatype link_event =
    HostFrame bytes
  | HostAttached bool

fun deliver_event :: "link_event \<Rightarrow> relay_transport \<Rightarrow> relay_transport" where
  "deliver_event (HostFrame data) s = on_host_frame (Some data) s"
| "deliver_event (HostAttached attached) s = set_host_attached attached s"

type_synonym 'w write_fn = "bytes \<Rightarrow> 'w \<Rightarrow> bool \<times> 'w \<times> link_event list"
type_synonym 'w wait_fn = "u32 \<Rightarrow> 'w \<Rightarrow> 'w \<times> link_event list"
type_synonym 'w clock_fn = "'w \<Rightarrow> u32 \<times> 'w"

record 'w relay_link =
  rl_write :: "'w write_fn option"
  rl_wait :: "'w wait_fn option"
  rl_clock :: "'w clock_fn option"

definition write_frame :: "'w write_fn \<Rightarrow> bytes \<Rightarrow> relay_transport \<Rightarrow> 'w \<Rightarrow> bool \<times> relay_transport \<times> 'w" where
  "write_frame put frame s w =
     (case put frame w of (ok, w', events) \<Rightarrow> (ok, fold deliver_event events s, w'))"

section \<open>Waiting for the verdict\<close>

text \<open>The loop of \<open>await_status\<close>; that it may run for ever is the value \<open>None\<close>.\<close>

partial_function (option) await_loop ::
    "'w wait_fn \<Rightarrow> 'w clock_fn \<Rightarrow> u8 \<Rightarrow> u32 \<Rightarrow> relay_transport \<Rightarrow> 'w \<Rightarrow>
       (sentry_response \<times> relay_transport \<times> 'w) option" where
  "await_loop wait clock request_id started s w =
     (if rt_status_pending s \<and> rt_status_request_id s = request_id
      then Some (rt_status_response s, s\<lparr>rt_status_pending := False\<rparr>, w)
      else let s = s\<lparr>rt_status_pending := False\<rparr> in
        if \<not> rt_attached s then Some (sentry_response_make SENTRY_SEND_UNAVAILABLE, s, w)
        else (case clock w of
          (now, w1) \<Rightarrow>
            if rt_timeout_ms s \<le> now - started
            then Some (sentry_response_make SENTRY_SEND_ERROR, s, w1)
            else (case wait POLL_INTERVAL_MS w1 of
              (w2, events) \<Rightarrow> await_loop wait clock request_id started (fold deliver_event events s) w2)))"

definition await_status ::
    "'w wait_fn \<Rightarrow> 'w clock_fn \<Rightarrow> u8 \<Rightarrow> relay_transport \<Rightarrow> 'w \<Rightarrow>
       (sentry_response \<times> relay_transport \<times> 'w) option" where
  "await_status wait clock request_id s w =
     (case clock w of (started, w') \<Rightarrow> await_loop wait clock request_id started s w')"

section \<open>Sending\<close>

text \<open>What \<open>write_frame\<close> is given of the frame buffer.\<close>

abbreviation frame_bytes :: "bytes option \<Rightarrow> nat \<Rightarrow> bytes" where
  "frame_bytes frame n \<equiv> take n (case frame of Some mem \<Rightarrow> mem | None \<Rightarrow> [])"

lemma encode_data_progress:
  "sentry_relay_encode_data out cap i r offset = (out', n) \<Longrightarrow> n = 0 \<or> SENTRY_RELAY_DATA_HEADER_LEN < n"
  by (auto simp: sentry_relay_encode_data_def Let_def split: option.splits prod.splits if_splits)

text \<open>The loop over the DATA frames: \<open>None\<close> when every one was written, else what \<open>send\<close> returns.\<close>

function (sequential) send_data ::
    "'w write_fn \<Rightarrow> u8 \<Rightarrow> sentry_relay_request \<Rightarrow> nat \<Rightarrow> nat \<Rightarrow> bytes option \<Rightarrow> relay_transport \<Rightarrow> 'w \<Rightarrow>
       sentry_response option \<times> bytes option \<times> relay_transport \<times> 'w" where
  "send_data put request_id request stream_len offset frame s w =
     (if \<not> offset < stream_len then (None, frame, s, w)
      else (case sentry_relay_encode_data frame (rt_chunk_bytes s) request_id (Some request) offset of
        (frame', n) \<Rightarrow>
          if n = 0 then (Some (sentry_response_make SENTRY_SEND_ERROR), frame', s, w)
          else (case write_frame put (frame_bytes frame' n) s w of
            (ok, s', w') \<Rightarrow>
              if \<not> ok then (Some (sentry_response_make SENTRY_SEND_UNAVAILABLE), frame', s', w')
              else send_data put request_id request stream_len
                     (offset + (n - SENTRY_RELAY_DATA_HEADER_LEN)) frame' s' w')))"
  by pat_completeness auto
termination
  by (relation "measure (\<lambda>(_, _, _, stream_len, offset, _). stream_len - offset)")
    (auto dest!: encode_data_progress [OF sym])

text \<open>The END frame and the wait.\<close>

definition finish_request ::
    "'w write_fn \<Rightarrow> 'w wait_fn \<Rightarrow> 'w clock_fn \<Rightarrow> u8 \<Rightarrow> bytes option \<Rightarrow> relay_transport \<Rightarrow> 'w \<Rightarrow>
       (sentry_response \<times> relay_transport \<times> 'w) option" where
  "finish_request put wait clock request_id frame s w =
     (case sentry_relay_encode_end frame FRAME_BUFFER_BYTES request_id of
        (frame, n) \<Rightarrow>
          if n = 0 then Some (sentry_response_make SENTRY_SEND_UNAVAILABLE, s, w)
          else (case write_frame put (frame_bytes frame n) s w of
            (ok, s, w) \<Rightarrow>
              if \<not> ok then Some (sentry_response_make SENTRY_SEND_UNAVAILABLE, s, w)
              else await_status wait clock request_id s w))"

text \<open>
  The frames of a request and the wait for its verdict. The frame buffer is an array of the
  stack; every byte of it that is sent has been written before.
\<close>

definition relay_request ::
    "'w write_fn \<Rightarrow> 'w wait_fn \<Rightarrow> 'w clock_fn \<Rightarrow> u8 \<Rightarrow> sentry_relay_request \<Rightarrow> relay_transport \<Rightarrow> 'w \<Rightarrow>
       (sentry_response \<times> relay_transport \<times> 'w) option" where
  "relay_request put wait clock request_id request s w =
     (case sentry_relay_encode_begin (Some (replicate FRAME_BUFFER_BYTES 0)) FRAME_BUFFER_BYTES
          request_id (Some request) of
        (frame, n) \<Rightarrow>
          if n = 0 then Some (sentry_response_make SENTRY_SEND_REJECTED, s, w)
          else (case write_frame put (frame_bytes frame n) s w of
            (ok, s, w) \<Rightarrow>
              if \<not> ok then Some (sentry_response_make SENTRY_SEND_UNAVAILABLE, s, w)
              else (case send_data put request_id request (sentry_relay_stream_len (Some request)) 0 frame s w of
                (Some response, frame, s, w) \<Rightarrow> Some (response, s, w)
              | (None, frame, s, w) \<Rightarrow> finish_request put wait clock request_id frame s w)))"

text \<open>\<open>RelayTransport::send\<close>. \<open>dsn\<close> is what \<open>sentry_get_dsn\<close> returns.\<close>

definition relay_send ::
    "'w relay_link \<Rightarrow> sentry_dsn option \<Rightarrow> cptr \<Rightarrow> sentry_headers \<Rightarrow> bytes option \<Rightarrow> relay_transport \<Rightarrow> 'w \<Rightarrow>
       (sentry_response \<times> relay_transport \<times> 'w) option" where
  "relay_send link dsn url headers body s w =
     (case (rl_write link, rl_clock link, rl_wait link) of
        (Some put, Some clock, Some wait) \<Rightarrow>
          if \<not> host_ready s then Some (sentry_response_make SENTRY_SEND_UNAVAILABLE, s, w)
          else if url = None \<or> \<not> (case dsn of Some d \<Rightarrow> ds_valid d \<and> sentry_url_host_matches url (Some (ds_host d))
              | None \<Rightarrow> False)
          then Some (sentry_response_make SENTRY_SEND_REJECTED, s, w)
          else
           (let request = \<lparr>rq_url = url, rq_auth = sh_auth headers, rq_content_type = sh_content_type headers,
                  rq_body = body\<rparr>;
                request_id = rt_next_request_id s;
                next_id = request_id + 1;
                s = s\<lparr>rt_next_request_id := (if next_id = 0 then 1 else next_id), rt_status_pending := False\<rparr>
            in relay_request put wait clock request_id request s w)
      | _ \<Rightarrow> Some (sentry_response_make SENTRY_SEND_UNAVAILABLE, s, w))"

text \<open>
  The virtual functions of the class, over its members and the link. A send that does not return
  has no result; the lemmas below say when it has one.
\<close>

definition relay_class :: "'w relay_link \<Rightarrow> sentry_dsn option \<Rightarrow> (relay_transport \<times> 'w) transport_class" where
  "relay_class link dsn =
     \<lparr>vt_send = (\<lambda>url headers body (s, w). case the (relay_send link dsn url headers body s w) of (r, s', w') \<Rightarrow> (r, (s', w'))),
      vt_is_available = (\<lambda>(s, w). (host_ready s, (s, w))),
      vt_name = (\<lambda>_. Some ''relay'')\<rparr>"

declare send_data.simps [simp del]

section \<open>The chunk size\<close>

definition relay_wf :: "relay_transport \<Rightarrow> bool" where
  "relay_wf s \<longleftrightarrow> SENTRY_RELAY_MIN_CHUNK_BYTES \<le> rt_chunk_bytes s \<and>
     rt_chunk_bytes s \<le> rt_configured_chunk_bytes s \<and> rt_configured_chunk_bytes s \<le> FRAME_BUFFER_BYTES"

lemma relay_wf_simps [simp]:
  "relay_wf (s\<lparr>rt_status_pending := b\<rparr>) = relay_wf s" "relay_wf (s\<lparr>rt_next_request_id := i\<rparr>) = relay_wf s"
  "relay_wf (s\<lparr>rt_timeout_ms := t\<rparr>) = relay_wf s" "relay_wf RelayTransport"
  "relay_wf (set_chunk_bytes n s)"
  by (simp_all add: relay_wf_def RelayTransport_def set_chunk_bytes_def relay_lens FRAME_BUFFER_BYTES_def)

lemma relay_wf_event: "relay_wf s \<Longrightarrow> relay_wf (deliver_event e s)"
  by (cases e)
    (auto simp: relay_wf_def on_host_frame_def set_host_attached_def Let_def split: option.splits prod.splits bool.splits)

lemma relay_wf_events: "relay_wf s \<Longrightarrow> relay_wf (fold deliver_event es s)"
  by (induction es arbitrary: s) (simp_all add: relay_wf_event)

lemma events_keep_timeout: "rt_timeout_ms (fold deliver_event es s) = rt_timeout_ms s"
proof (induction es arbitrary: s)
  case (Cons e es)
  have "rt_timeout_ms (deliver_event e s) = rt_timeout_ms s"
    by (cases e)
      (auto simp: on_host_frame_def set_host_attached_def Let_def split: option.splits prod.splits bool.splits)
  with Cons show ?case by simp
qed simp

section \<open>The wait ends\<close>

text \<open>
  What is asked of the platform's clock: with \<open>uptime\<close> the milliseconds since boot, which no
  width limits, the clock reads them modulo \<open>2 ^ 32\<close>, the wait between two polls lasts at least
  as long as it was asked to, and does not oversleep by the 49 days the counter takes to come
  round less the timeout.
\<close>

definition ticks :: "'w wait_fn \<Rightarrow> 'w clock_fn \<Rightarrow> ('w \<Rightarrow> nat) \<Rightarrow> u32 \<Rightarrow> bool" where
  "ticks wait clock uptime timeout \<longleftrightarrow>
     (\<forall>w. fst (clock w) = of_nat (uptime w) \<and> uptime (snd (clock w)) = uptime w) \<and>
     (\<forall>w. uptime w + unat POLL_INTERVAL_MS \<le> uptime (fst (wait POLL_INTERVAL_MS w)) \<and>
       uptime (fst (wait POLL_INTERVAL_MS w)) + unat timeout < uptime w + 2 ^ 32)"

declare await_loop.simps [code]

lemma await_loop_returns:
  assumes ticks: "ticks wait clock uptime (rt_timeout_ms s)"
    and "uptime w0 \<le> uptime w" "uptime w < uptime w0 + 2 ^ 32"
  shows "\<exists>r. await_loop wait clock i (of_nat (uptime w0)) s w = Some r"
  using assms
proof (induction "unat (rt_timeout_ms s) - (uptime w - uptime w0)" arbitrary: s w rule: less_induct)
  case less
  let ?s = "s\<lparr>rt_status_pending := False\<rparr>" and ?timeout = "rt_timeout_ms s"
  show ?case
  proof (cases "rt_status_pending s \<and> rt_status_request_id s = i \<or> \<not> rt_attached s")
    case True
    then show ?thesis by (subst await_loop.simps) (auto simp: Let_def)
  next
    case False
    obtain now w1 where clock: "clock w = (now, w1)" by fastforce
    obtain w2 events where wait: "wait POLL_INTERVAL_MS w1 = (w2, events)" by fastforce
    have now: "now = of_nat (uptime w)" "uptime w1 = uptime w"
      using less.prems(1) clock by (auto simp: ticks_def dest!: spec [of _ w])
    have "now - of_nat (uptime w0) = of_nat (uptime w - uptime w0)"
      using less.prems(2) by (simp add: now of_nat_diff)
    moreover have "uptime w - uptime w0 < 2 ^ 32" using less.prems(2,3) by linarith
    ultimately have "unat (now - of_nat (uptime w0)) = uptime w - uptime w0" by (simp add: unat_of_nat)
    then have late: "?timeout \<le> now - of_nat (uptime w0) \<longleftrightarrow> unat ?timeout \<le> uptime w - uptime w0"
      by (simp add: word_le_nat_alt)
    show ?thesis
    proof (cases "?timeout \<le> now - of_nat (uptime w0)")
      case True
      with False show ?thesis by (subst await_loop.simps) (auto simp: Let_def clock)
    next
      case early: False
      have w2: "uptime w + 5 \<le> uptime w2" "uptime w2 + unat ?timeout < uptime w + 2 ^ 32"
      proof -
        have "uptime w1 + unat POLL_INTERVAL_MS \<le> uptime (fst (wait POLL_INTERVAL_MS w1)) \<and>
            uptime (fst (wait POLL_INTERVAL_MS w1)) + unat ?timeout < uptime w1 + 2 ^ 32"
          using less.prems(1) unfolding ticks_def by blast
        then show "uptime w + 5 \<le> uptime w2" "uptime w2 + unat ?timeout < uptime w + 2 ^ 32"
          using wait now(2) by (simp_all add: POLL_INTERVAL_MS_def)
      qed
      let ?s2 = "fold deliver_event events ?s"
      have "\<exists>r. await_loop wait clock i (of_nat (uptime w0)) ?s2 w2 = Some r"
        by (rule less.hyps) (use less.prems w2 early late in \<open>simp_all add: events_keep_timeout\<close>)
      then show ?thesis
        using False early by (subst await_loop.simps) (auto simp: Let_def clock wait)
    qed
  qed
qed

lemma await_status_returns:
  assumes "ticks wait clock uptime (rt_timeout_ms s)"
  shows "await_status wait clock i s w \<noteq> None"
proof -
  obtain started w' where clock: "clock w = (started, w')" by fastforce
  then have "started = of_nat (uptime w')"
    using assms by (auto simp: ticks_def dest!: spec [of _ w])
  then show ?thesis
    using await_loop_returns [OF assms, of w' w' i] by (auto simp: await_status_def clock)
qed

lemma write_frame_timeout: "write_frame put f s w = (ok, s', w') \<Longrightarrow> rt_timeout_ms s' = rt_timeout_ms s"
  by (auto simp: write_frame_def events_keep_timeout split: prod.splits)

text \<open>The loop over the DATA frames ends in one of four ways.\<close>

lemma send_data_rule [consumes 1, case_names finished stuck cut more]:
  assumes "send_data put i r len off frame s w = (res, frame', s', w')"
    and "\<And>off frame s w. len \<le> off \<Longrightarrow> P off frame s w None frame s w"
    and "\<And>off frame s w frame'. off < len \<Longrightarrow>
      sentry_relay_encode_data frame (rt_chunk_bytes s) i (Some r) off = (frame', 0) \<Longrightarrow>
      P off frame s w (Some (sentry_response_make SENTRY_SEND_ERROR)) frame' s w"
    and "\<And>off frame s w frame' n s' w'. off < len \<Longrightarrow>
      sentry_relay_encode_data frame (rt_chunk_bytes s) i (Some r) off = (frame', n) \<Longrightarrow> n \<noteq> 0 \<Longrightarrow>
      write_frame put (frame_bytes frame' n) s w = (False, s', w') \<Longrightarrow>
      P off frame s w (Some (sentry_response_make SENTRY_SEND_UNAVAILABLE)) frame' s' w'"
    and "\<And>off frame s w frame1 n s1 w1 res frame' s' w'. off < len \<Longrightarrow>
      sentry_relay_encode_data frame (rt_chunk_bytes s) i (Some r) off = (frame1, n) \<Longrightarrow> n \<noteq> 0 \<Longrightarrow>
      write_frame put (frame_bytes frame1 n) s w = (True, s1, w1) \<Longrightarrow>
      P (off + (n - SENTRY_RELAY_DATA_HEADER_LEN)) frame1 s1 w1 res frame' s' w' \<Longrightarrow>
      P off frame s w res frame' s' w'"
  shows "P off frame s w res frame' s' w'"
  using assms(1)
proof (induction "len - off" arbitrary: off frame s w rule: less_induct)
  case less
  show ?case
  proof (cases "off < len")
    case False
    with less.prems show ?thesis by (subst (asm) send_data.simps) (simp add: assms(2))
  next
    case True
    obtain frame1 n where enc: "sentry_relay_encode_data frame (rt_chunk_bytes s) i (Some r) off = (frame1, n)"
      by fastforce
    obtain ok s1 w1 where wr: "write_frame put (frame_bytes frame1 n) s w = (ok, s1, w1)" by (cases rule: prod_cases3)
    note unfolded = less.prems [unfolded send_data.simps [of put i r len off] enc prod.case wr]
    consider "n = 0" | "n \<noteq> 0" "\<not> ok" | "n \<noteq> 0" "ok" by blast
    then show ?thesis
    proof cases
      case 1
      with True unfolded enc show ?thesis by (auto intro: assms(3))
    next
      case 2
      with True unfolded enc wr show ?thesis by (auto intro: assms(4))
    next
      case 3
      then have "len - (off + (n - SENTRY_RELAY_DATA_HEADER_LEN)) < len - off"
        using encode_data_progress [OF enc] True by simp
      moreover have "send_data put i r len (off + (n - SENTRY_RELAY_DATA_HEADER_LEN)) frame1 s1 w1 =
          (res, frame', s', w')" using 3 True unfolded by simp
      ultimately show ?thesis using less.hyps assms(5) [OF True enc] wr 3 by simp
    qed
  qed
qed

lemma send_data_timeout:
  "send_data put i r len off frame s w = (res, frame', s', w') \<Longrightarrow> rt_timeout_ms s' = rt_timeout_ms s"
  by (induction rule: send_data_rule) (auto dest: write_frame_timeout)

lemma relay_send_total:
  assumes "\<And>wait clock. rl_wait link = Some wait \<Longrightarrow> rl_clock link = Some clock \<Longrightarrow>
    \<exists>uptime. ticks wait clock uptime (rt_timeout_ms s)"
  shows "\<exists>r s' w'. relay_send link dsn url headers body s w = Some (r, s', w')"
proof -
  have await: "await_status wait clock i s' w' \<noteq> None"
    if "rl_wait link = Some wait" "rl_clock link = Some clock" "rt_timeout_ms s' = rt_timeout_ms s"
    for wait clock i s' w'
    using assms [OF that(1,2)] that(3) await_status_returns by metis
  have finish: "finish_request put wait clock i frame s' w' \<noteq> None"
    if "rl_wait link = Some wait" "rl_clock link = Some clock" "rt_timeout_ms s' = rt_timeout_ms s"
    for put wait clock i frame s' w'
    using that write_frame_timeout [of put _ s' w'] unfolding finish_request_def
    by (intro notI) (auto simp: await split: prod.splits if_splits)
  have request: "relay_request put wait clock i r s' w' \<noteq> None"
    if "rl_wait link = Some wait" "rl_clock link = Some clock" "rt_timeout_ms s' = rt_timeout_ms s"
    for put wait clock i r s' w'
    using that unfolding relay_request_def
    by (intro notI)
      (auto simp: finish dest!: write_frame_timeout send_data_timeout split: prod.splits option.splits if_splits)
  have "relay_send link dsn url headers body s w \<noteq> None"
    unfolding relay_send_def Let_def by (simp del: not_None_eq add: request split: option.split)
  then show ?thesis by (cases "relay_send link dsn url headers body s w") auto
qed

text \<open>
  C30: A send over the relay always returns, whatever the link does and whenever the host speaks,
  hangs up or stays silent: with a clock that keeps time modulo \<open>2 ^ 32\<close> milliseconds and waits
  that last as long as they are asked to, the loop over the frames and the wait for the verdict
  end, also when the clock comes round to zero in between.
\<close>

theorem relay_send_returns:
  assumes "\<And>wait clock. rl_wait link = Some wait \<Longrightarrow> rl_clock link = Some clock \<Longrightarrow>
    \<exists>uptime. ticks wait clock uptime (rt_timeout_ms s)"
  shows "\<exists>r s' w'. relay_send link dsn url headers body s w = Some (r, s', w')"
  by (rule relay_send_total) (rule assms)

text \<open>A link without an answer: time passes, the host was there and says nothing.\<close>

definition silent_link :: "nat relay_link" where
  "silent_link = \<lparr>rl_write = Some (\<lambda>frame w. (True, w + 1, [])), rl_wait = Some (\<lambda>ms w. (w + unat ms, [])),
     rl_clock = Some (\<lambda>w. (of_nat w, w))\<rparr>"

theorem relay_send_returns_witness:
  "\<exists>r s' w'. relay_send silent_link (Some (dsn_zero\<lparr>ds_valid := True, ds_host := ''h''\<rparr>)) (Some ''http://h/'')
     \<lparr>sh_auth = None, sh_content_type = None\<rparr> (Some [1, 2])
     (RelayTransport\<lparr>rt_attached := True, rt_hello_seen := True\<rparr>) 4294967290 = Some (r, s', w')"
proof (rule relay_send_returns)
  fix wait clock
  assume "rl_wait silent_link = Some wait" "rl_clock silent_link = Some clock"
  then have "ticks wait clock (\<lambda>w. w) 20000"
    by (auto simp: silent_link_def ticks_def POLL_INTERVAL_MS_def)
  then show "\<exists>uptime. ticks wait clock uptime
      (rt_timeout_ms (RelayTransport\<lparr>rt_attached := True, rt_hello_seen := True\<rparr>))"
    by (auto simp: RelayTransport_def)
qed

section \<open>What the host receives\<close>

text \<open>
  A host written from the comment of \<open>sentry_relay.h\<close>: DATA frames in order up to the END of the
  same request, their payloads one stream, which the four lengths of BEGIN cut apart.
\<close>

fun host_data :: "u8 \<Rightarrow> nat \<Rightarrow> bytes list \<Rightarrow> bytes option" where
  "host_data i off [] = None"
| "host_data i off (f # fs) =
     (if f = [0x03, i] then (if fs = [] then Some [] else None)
      else (case f of
        ty # i' # a # b # payload \<Rightarrow>
          if ty = 0x02 \<and> i' = i \<and> unat (read_u16 [a, b]) = off
          then map_option ((@) payload) (host_data i (off + length payload) fs) else None
      | _ \<Rightarrow> None))"

fun host_request :: "bytes list \<Rightarrow> (u8 \<times> bytes \<times> bytes \<times> bytes \<times> bytes) option" where
  "host_request [] = None"
| "host_request (f # fs) =
     (if length f = 12 \<and> f ! 0 = 0x01 then
       (let i = f ! 1; u = unat (read_u16 (drop 2 f)); a = unat (read_u16 (drop 4 f));
            c = unat (read_u16 (drop 6 f)); n = unat (read_u32 (drop 8 f))
        in case host_data i 0 fs of
          Some s \<Rightarrow> if length s = u + a + c + n
            then Some (i, take u s, take a (drop u s), take c (drop (u + a) s), drop (u + a + c) s) else None
        | None \<Rightarrow> None)
      else None)"

text \<open>The same link, with the frames handed to it recorded.\<close>

definition logged_write :: "'w write_fn \<Rightarrow> ('w \<times> bytes list) write_fn" where
  "logged_write put frame v =
     (case put frame (fst v) of (ok, w, events) \<Rightarrow> (ok, (w, snd v @ [frame]), events))"

definition logged :: "'w relay_link \<Rightarrow> ('w \<times> bytes list) relay_link" where
  "logged link =
     \<lparr>rl_write = map_option logged_write (rl_write link),
      rl_wait = map_option (\<lambda>wait ms v. case wait ms (fst v) of (w, events) \<Rightarrow> ((w, snd v), events)) (rl_wait link),
      rl_clock = map_option (\<lambda>clock v. case clock (fst v) of (now, w) \<Rightarrow> (now, (w, snd v))) (rl_clock link)\<rparr>"

definition fields :: "sentry_relay_request \<Rightarrow> bytes \<times> bytes \<times> bytes \<times> bytes" where
  "fields r =
     (let text = (\<lambda>s. bytes_of (case s of Some t \<Rightarrow> t | None \<Rightarrow> ''''))
      in (text (rq_url r), text (rq_auth r), text (rq_content_type r),
          case rq_body r of Some b \<Rightarrow> b | None \<Rightarrow> []))"

lemma write_frame_logged:
  assumes "write_frame (logged_write put) f s v = (ok, s', v')"
  shows "snd v' = snd v @ [f]" and "relay_wf s \<Longrightarrow> relay_wf s'" and "\<forall>f w. fst (put f w) \<Longrightarrow> ok"
  using assms relay_wf_events
  by (auto simp: write_frame_def logged_write_def split: prod.splits) (metis fst_conv)

text \<open>One DATA frame of a well-formed transport: never empty, never longer than the chunk.\<close>

lemma encode_data_step:
  assumes "sentry_relay_encode_data (Some mem) (rt_chunk_bytes s) i (Some r) off = (frame1, n)"
    and "relay_wf s" "length mem = 256" "off < length (relay_stream r)" "length (relay_stream r) \<le> 0xFFFF"
  shows "\<exists>mem1 p rest. frame1 = Some mem1 \<and> length mem1 = 256 \<and> drop off (relay_stream r) = p @ rest \<and>
    p \<noteq> [] \<and> n = 4 + length p \<and> n \<le> 256 \<and> take n mem1 = data_frame i off p"
proof -
  let ?chunk = "rt_chunk_bytes s"
  have chunk: "4 < ?chunk" "?chunk \<le> 256"
    using assms(2) by (simp_all add: relay_wf_def relay_lens FRAME_BUFFER_BYTES_def)
  define p where "p = take (?chunk - 4) (drop off (relay_stream r))"
  have p: "p \<noteq> []" "4 + length p \<le> 256" using chunk assms(4) by (auto simp: p_def)
  have "frame1 = Some (mem_write mem 0 (data_frame i off p))" "n = 4 + length p"
    using encode_data_frame [of ?chunk mem off i r] assms chunk p by (simp_all add: p_def)
  moreover have "drop off (relay_stream r) = p @ drop (?chunk - 4) (drop off (relay_stream r))"
    by (simp only: p_def append_take_drop_id)
  moreover have "take (4 + length p) (mem_write mem 0 (data_frame i off p)) = data_frame i off p"
    by (simp add: mem_write_def)
  ultimately show ?thesis using p assms(3) by (auto intro!: exI)
qed

lemma host_data_frame:
  assumes "p \<noteq> []" "off \<le> 0xFFFF"
  shows "host_data i off (data_frame i off p # fs) = map_option ((@) p) (host_data i (off + length p) fs)"
proof -
  obtain a b where ab: "write_u16 (of_nat off) = [a, b]" by (simp add: write_u16_def)
  have "read_u16 [a, b] = of_nat off" using read_u16_write [of "of_nat off" "[]"] by (simp add: ab)
  then have "unat (read_u16 [a, b]) = off" using assms(2) by (simp add: unat_of_nat)
  then show ?thesis using assms(1) by (simp add: data_frame_def relay_types ab)
qed

lemma send_data_logged:
  fixes r
  defines "t \<equiv> relay_stream r"
  assumes "send_data (logged_write put) i r len off frame s v = (res, frame', s', v')"
    and "len = length t" "length t \<le> 0xFFFF" "off \<le> len" "relay_wf s" "frame = Some mem" "length mem = 256"
  shows "relay_wf s' \<and> (\<exists>mem'. frame' = Some mem' \<and> length mem' = 256) \<and>
    (\<exists>fs. snd v' = snd v @ fs \<and> list_all (\<lambda>f. length f \<le> 256) fs \<and>
      (case res of
         None \<Rightarrow> host_data i off (fs @ [end_frame i]) = Some (drop off t)
       | Some x \<Rightarrow> rs_result x = SENTRY_SEND_UNAVAILABLE \<and> \<not> (\<forall>f w. fst (put f w))))"
  using assms(2,5-)
proof (induction arbitrary: mem rule: send_data_rule)
  case (finished off frame s w)
  then show ?case using assms(3) by (simp add: end_frame_def relay_types)
next
  case (stuck off frame s w frame')
  then show ?case using encode_data_frame [of "rt_chunk_bytes s" mem off i r] assms(3,4)
    by (simp add: relay_wf_def relay_lens FRAME_BUFFER_BYTES_def t_def split: if_splits)
next
  case (cut off frame s w frame' n s' w')
  from encode_data_step [of mem s i r off frame' n] cut assms(3,4) obtain mem1
    where "frame' = Some mem1" "length mem1 = 256" "n \<le> 256" by (auto simp: t_def)
  then show ?case using cut write_frame_logged [OF cut(4)]
    by (auto simp: sentry_response_make_def)
next
  case (more off frame s w frame1 n s1 w1 res frame' s' w')
  from encode_data_step [of mem s i r off frame1 n] more assms(3,4) obtain mem1 p rest
    where f: "frame1 = Some mem1" "length mem1 = 256" "drop off t = p @ rest" "p \<noteq> []" "n = 4 + length p"
      "n \<le> 256" "take n mem1 = data_frame i off p" by (auto simp: t_def)
  have len: "off + length p \<le> len"
    using arg_cong [OF f(3), of length] more.hyps(1) assms(3) by simp
  have rest: "drop (off + length p) t = rest"
    using arg_cong [OF f(3), of "drop (length p)"] by (simp add: add.commute)
  have wr: "snd w1 = snd w @ [data_frame i off p]" "relay_wf s1"
    using write_frame_logged [OF more.hyps(4)] more.prems(2) f(1,7) by simp_all
  have step: "n - SENTRY_RELAY_DATA_HEADER_LEN = length p" by (simp add: f(5) relay_lens)
  from more.IH [of mem1, unfolded step] len wr(2) f(1,2) obtain fs where ih: "relay_wf s'"
      "\<exists>mem'. frame' = Some mem' \<and> length mem' = 256" "snd w' = snd w1 @ fs" "list_all (\<lambda>f. length f \<le> 256) fs"
      "case res of None \<Rightarrow> host_data i (off + length p) (fs @ [end_frame i]) = Some (drop (off + length p) t)
       | Some x \<Rightarrow> rs_result x = SENTRY_SEND_UNAVAILABLE \<and> \<not> (\<forall>f w. fst (put f w))" by auto
  have "off \<le> 0xFFFF" using more.hyps(1) assms(3,4) by simp
  with f ih wr(1) rest show ?case
    by (auto simp: host_data_frame simp del: host_data.simps(2) split: option.splits intro!: exI [of _ "data_frame i off p # fs"])
qed

lemma await_keeps_log:
  assumes "await_loop wait clock i started s v = Some (r, s', v')"
    and "\<And>ms v. snd (fst (wait ms v)) = snd v" "\<And>v. snd (snd (clock v)) = snd v"
  shows "snd v' = snd v"
proof -
  have "(\<forall>ms v. snd (fst (wait ms v)) = snd v) \<longrightarrow> (\<forall>v. snd (snd (clock v)) = snd v) \<longrightarrow>
      snd (snd (snd (r, s', v'))) = snd v"
  proof (rule await_loop.raw_induct [where P = "\<lambda>wait clock i started s v res.
      (\<forall>ms v. snd (fst (wait ms v)) = snd v) \<longrightarrow> (\<forall>v. snd (snd (clock v)) = snd v) \<longrightarrow>
      snd (snd (snd res)) = snd v", OF _ assms(1)], intro impI, goal_cases)
    case (1 f wait clock i started s v res)
    obtain now v1 where clock: "clock v = (now, v1)" by (cases "clock v")
    obtain v2 events where wait: "wait POLL_INTERVAL_MS v1 = (v2, events)" by (cases "wait POLL_INTERVAL_MS v1")
    have same: "snd v1 = snd v" "snd v2 = snd v1" using 1(3,4) clock wait by (metis fst_conv snd_conv)+
    have IH: "f wait clock i started s2 v2 = Some res \<Longrightarrow> snd (snd (snd res)) = snd v2" for s2
      using 1(1,3,4) by blast
    from 1(2) show ?case by (auto simp: Let_def clock wait same dest: IH split: if_splits)
  qed
  with assms(2,3) show ?thesis by simp
qed

lemma logged_simps [simp]:
  "rl_write (logged link) = map_option logged_write (rl_write link)"
  "rl_wait (logged link) = Some wait \<Longrightarrow> snd (fst (wait ms v)) = snd v"
  "rl_clock (logged link) = Some clock \<Longrightarrow> snd (snd (clock v)) = snd v"
  by (auto simp: logged_def split: prod.splits)

lemma host_request_begin:
  assumes "host_data i 0 fs = Some (relay_stream r)" "length (relay_stream r) \<le> 0xFFFF"
  shows "host_request (begin_frame i r # fs) = Some (i, fields r)"
proof -
  obtain u a c b where f: "fields r = (u, a, c, b)" by (cases "fields r")
  have stream: "relay_stream r = u @ a @ c @ b"
    and len: "str_len (rq_url r) = length u" "str_len (rq_auth r) = length a"
      "str_len (rq_content_type r) = length c" "body_len r = length b"
    using f by (auto simp: fields_def Let_def relay_stream_def segments_of_def segment_bytes_def str_len_def
        body_len_def split: option.splits)
  let ?f = "begin_frame i r"
  have "read_u16 (drop 2 ?f) = of_nat (length u)" "read_u16 (drop 4 ?f) = of_nat (length a)"
    "read_u16 (drop 6 ?f) = of_nat (length c)" "read_u32 (drop 8 ?f) = of_nat (length b)"
    using read_u32_write [of "of_nat (length b)" "[]"]
    by (simp_all add: begin_frame_def len read_u16_write eval_nat_numeral)
  then have "unat (read_u16 (drop 2 ?f)) = length u" "unat (read_u16 (drop 4 ?f)) = length a"
    "unat (read_u16 (drop 6 ?f)) = length c" "unat (read_u32 (drop 8 ?f)) = length b"
    using assms(2) by (simp_all add: stream unat_of_nat)
  moreover have "?f ! 0 = 1" "?f ! 1 = i" by (simp_all add: begin_frame_def relay_types)
  ultimately show ?thesis by (simp add: assms(1) stream f)
qed

lemma finish_request_logged:
  assumes "finish_request (logged_write put) wait clock i (Some mem) s v = Some (resp, s', v')" "length mem = 256"
    and "\<And>ms v. snd (fst (wait ms v)) = snd v" "\<And>v. snd (snd (clock v)) = snd v"
  shows "snd v' = snd v @ [end_frame i]"
proof -
  have enc: "sentry_relay_encode_end (Some mem) FRAME_BUFFER_BYTES i = (Some (mem_write mem 0 (end_frame i)), 2)"
    by (simp add: encode_end_frame FRAME_BUFFER_BYTES_def)
  have "take 2 (mem_write mem 0 (end_frame i)) = end_frame i" by (simp add: mem_write_def)
  then obtain ok s1 v1 where wr: "write_frame (logged_write put) (end_frame i) s v = (ok, s1, v1)"
      and rest: "(if \<not> ok then Some (sentry_response_make SENTRY_SEND_UNAVAILABLE, s1, v1)
        else await_status wait clock i s1 v1) = Some (resp, s', v')"
    using assms(1) by (auto simp: finish_request_def enc split: prod.splits)
  obtain started v2 where clock: "clock v1 = (started, v2)" by (cases "clock v1")
  then have "snd v2 = snd v1" using assms(4) [of v1] by simp
  then have "snd v' = snd v1"
    using rest await_keeps_log [OF _ assms(3,4)] by (auto simp: await_status_def clock split: if_splits)
  with write_frame_logged(1) [OF wr] show ?thesis by simp
qed

lemma relay_request_logged:
  assumes "relay_request (logged_write put) wait clock i r s v = Some (resp, s', v')" and wf: "relay_wf s"
    and keeps: "\<And>ms v. snd (fst (wait ms v)) = snd v" "\<And>v. snd (snd (clock v)) = snd v"
  shows "\<exists>fs. snd v' = snd v @ fs \<and> list_all (\<lambda>f. length f \<le> 256) fs \<and>
    (fs \<noteq> [] \<longleftrightarrow> length (relay_stream r) \<le> 0xFFFF) \<and>
    (rs_result resp \<in> {SENTRY_SEND_OK, SENTRY_SEND_RATE_LIMITED} \<or> fs \<noteq> [] \<and> (\<forall>f w. fst (put f w)) \<longrightarrow>
      host_request fs = Some (i, fields r))"
proof (cases "length (relay_stream r) \<le> 0xFFFF")
  case False
  then show ?thesis
    using assms(1) encode_begin_frame [of 256 "replicate 256 0" i r]
    by (auto simp: relay_request_def FRAME_BUFFER_BYTES_def sentry_response_make_def)
next
  case True
  define mem where "mem = mem_write (replicate 256 0) 0 (begin_frame i r)"
  have mem: "length mem = 256" "take 12 mem = begin_frame i r" by (simp_all add: mem_def mem_write_def)
  have enc: "sentry_relay_encode_begin (Some (replicate FRAME_BUFFER_BYTES 0)) FRAME_BUFFER_BYTES i (Some r) = (Some mem, 12)"
    using True by (simp add: encode_begin_frame FRAME_BUFFER_BYTES_def mem_def)
  obtain ok s1 v1 where wr: "write_frame (logged_write put) (begin_frame i r) s v = (ok, s1, v1)"
    by (cases rule: prod_cases3)
  note log1 = write_frame_logged [OF wr]
  show ?thesis
  proof (cases ok)
    case False
    then have "v' = v1" "resp = sentry_response_make SENTRY_SEND_UNAVAILABLE"
      using assms(1) by (auto simp: relay_request_def enc mem wr)
    then show ?thesis using log1 True False by (auto simp: sentry_response_make_def)
  next
    case ok: True
    obtain res frame2 s2 v2 where sd: "send_data (logged_write put) i r (sentry_relay_stream_len (Some r)) 0
        (Some mem) s1 v1 = (res, frame2, s2, v2)" by (metis prod_cases4)
    from send_data_logged [OF sd] True log1(2) [OF wf] mem(1) obtain mem2 fs where d: "frame2 = Some mem2"
        "length mem2 = 256" "snd v2 = snd v1 @ fs" "list_all (\<lambda>f. length f \<le> 256) fs"
        "case res of None \<Rightarrow> host_data i 0 (fs @ [end_frame i]) = Some (relay_stream r)
         | Some x \<Rightarrow> rs_result x = SENTRY_SEND_UNAVAILABLE \<and> \<not> (\<forall>f w. fst (put f w))"
      by (auto simp: stream_len_stream cong: option.case_cong)
    note fin = assms(1) [unfolded relay_request_def enc prod.case mem wr]
    show ?thesis
    proof (cases res)
      case (Some x)
      then have "v' = v2" "resp = x" using fin ok sd by (simp_all add: mem wr)
      then show ?thesis using d log1(1) True Some by (auto intro!: exI [of _ "begin_frame i r # fs"])
    next
      case None
      then have "finish_request (logged_write put) wait clock i (Some mem2) s2 v2 = Some (resp, s', v')"
        using fin ok sd d(1) by (simp add: mem wr)
      from finish_request_logged [OF this d(2) keeps] have "snd v' = snd v @ begin_frame i r # fs @ [end_frame i]"
        by (simp add: d(3) log1(1))
      then show ?thesis
        using d(4,5) None True by (auto simp: host_request_begin simp del: host_request.simps)
    qed
  qed
qed

text \<open>
  What \<open>send\<close> leaves of the state: whatever the events of the link and the bookkeeping of \<open>send\<close>
  itself keep.
\<close>

definition relay_keeps :: "(relay_transport \<Rightarrow> bool) \<Rightarrow> bool" where
  "relay_keeps P \<longleftrightarrow> (\<forall>s e. P s \<longrightarrow> P (deliver_event e s)) \<and> (\<forall>s b. P s \<longrightarrow> P (s\<lparr>rt_status_pending := b\<rparr>)) \<and>
     (\<forall>s i. P s \<longrightarrow> P (s\<lparr>rt_next_request_id := i\<rparr>))"

lemma events_keep: "relay_keeps P \<Longrightarrow> P s \<Longrightarrow> P (fold deliver_event es s)"
  by (induction es arbitrary: s) (simp_all add: relay_keeps_def)

lemma write_frame_keeps: "write_frame put f s w = (ok, s', w') \<Longrightarrow> relay_keeps P \<Longrightarrow> P s \<Longrightarrow> P s'"
  by (auto simp: write_frame_def events_keep split: prod.splits)

lemma send_data_keeps:
  "send_data put i r len off frame s w = (res, frame', s', w') \<Longrightarrow> relay_keeps P \<Longrightarrow> P s \<Longrightarrow> P s'"
  by (induction rule: send_data_rule) (auto dest: write_frame_keeps)

lemma await_keeps:
  assumes "await_loop wait clock i started s w = Some (r, s', w')" and keeps: "relay_keeps P" and "P s"
  shows "P s'"
proof -
  have "P s \<longrightarrow> P (fst (snd (r, s', w')))"
  proof (rule await_loop.raw_induct [where P = "\<lambda>wait clock i started s w res. P s \<longrightarrow> P (fst (snd res))",
      OF _ assms(1)], intro impI, goal_cases)
    case (1 f wait clock i started s w res)
    have clear: "P (s\<lparr>rt_status_pending := False\<rparr>)" using keeps 1(3) by (simp add: relay_keeps_def)
    have again: "f wait clock i started (fold deliver_event es (s\<lparr>rt_status_pending := False\<rparr>)) w2 = Some res \<Longrightarrow>
        P (fst (snd res))" for es w2
      using 1(1) events_keep [OF keeps clear] by blast
    from 1(2) show ?case
      using clear by (auto simp: Let_def dest: again split: if_splits prod.splits)
  qed
  with assms(3) show ?thesis by simp
qed

lemma relay_send_keeps:
  assumes "relay_send link dsn url headers body s w = Some (r, s', w')" and "relay_keeps P" and "P s"
  shows "P s'"
proof -
  have finish: "P x'" if "finish_request put wait clock i frame x v = Some (r, x', v')" "P x" for put wait clock i frame x v x' v'
    using that assms(2)
    by (auto simp: finish_request_def await_status_def dest: write_frame_keeps await_keeps split: prod.splits if_splits)
  have request: "P x'" if "relay_request put wait clock i q x v = Some (r, x', v')" "P x" for put wait clock i q x v x' v'
    using that assms(2)
    by (auto simp: relay_request_def dest: finish write_frame_keeps send_data_keeps split: prod.splits if_splits option.splits)
  have start: "P (s\<lparr>rt_next_request_id := i, rt_status_pending := False\<rparr>)" for i
    using assms(2,3) by (simp add: relay_keeps_def)
  show ?thesis
    using assms(1,3) request [OF _ start]
    by (auto simp: relay_send_def Let_def split: option.splits if_splits)
qed

lemma relay_send_logged:
  fixes link :: "'w relay_link" and url :: cptr and headers :: sentry_headers and body :: "bytes option"
  defines "r \<equiv> \<lparr>rq_url = url, rq_auth = sh_auth headers, rq_content_type = sh_content_type headers, rq_body = body\<rparr>"
  assumes "relay_wf s"
    and "relay_send (logged link) dsn url headers body s (w, []) = Some (resp, s', (w', log))"
  shows "list_all (\<lambda>f. length f \<le> FRAME_BUFFER_BYTES) log \<and>
    (log \<noteq> [] \<longleftrightarrow> rl_write link \<noteq> None \<and> rl_wait link \<noteq> None \<and> rl_clock link \<noteq> None \<and>
      host_ready s \<and> length (relay_stream r) \<le> 0xFFFF \<and> url \<noteq> None \<and> (\<exists>d. dsn = Some d \<and> ds_valid d \<and> sentry_url_host_matches url (Some (ds_host d)))) \<and>
    (rs_result resp \<in> {SENTRY_SEND_OK, SENTRY_SEND_RATE_LIMITED} \<or>
       log \<noteq> [] \<and> (\<forall>put f w. rl_write link = Some put \<longrightarrow> fst (put f w)) \<longrightarrow>
     host_request log = Some (rt_next_request_id s, fields r))"
proof -
  let ?s = "s\<lparr>rt_next_request_id := (if rt_next_request_id s + 1 = 0 then 1 else rt_next_request_id s + 1),
    rt_status_pending := False\<rparr>"
  define ready where "ready \<longleftrightarrow> rl_write link \<noteq> None \<and> rl_wait link \<noteq> None \<and> rl_clock link \<noteq> None \<and>
    host_ready s \<and> url \<noteq> None \<and> (\<exists>d. dsn = Some d \<and> ds_valid d \<and> sentry_url_host_matches url (Some (ds_host d)))"
  consider "\<not> ready" "log = []"
      "resp = sentry_response_make SENTRY_SEND_UNAVAILABLE \<or> resp = sentry_response_make SENTRY_SEND_REJECTED"
    | put wait clock where "ready" "rl_write link = Some put" "rl_wait (logged link) = Some wait"
      "rl_clock (logged link) = Some clock"
      "relay_request (logged_write put) wait clock (rt_next_request_id s) r ?s (w, []) = Some (resp, s', (w', log))"
    using assms(3) unfolding relay_send_def Let_def r_def ready_def
    by (auto simp: logged_def split: option.splits if_splits)
  then show ?thesis
  proof cases
    case 1
    then show ?thesis by (auto simp: sentry_response_make_def ready_def)
  next
    case 2
    have "relay_wf ?s" using assms(2) by simp
    from relay_request_logged [OF 2(5) this logged_simps(2) [OF 2(3)] logged_simps(3) [OF 2(4)]] 2(1,2)
    show ?thesis by (auto simp: FRAME_BUFFER_BYTES_def ready_def)
  qed
qed

text \<open>
  C10: The relay tells the host exactly what was asked, or nothing of it counts. Whatever the link
  does and whenever the host speaks, the frames of one send are at most 256 bytes each, and are
  written exactly when the link has its functions, a host is attached and has said hello, the URL
  is on the host of the DSN, and 16-bit offsets can address the request; if the answer is that the request was
  delivered or rate limited, or if no write failed, then a host that follows the protocol has
  received from them the URL, the two header values and the body, byte for byte, under the id
  of this request.
\<close>

theorem relay_delivers_whole_requests:
  fixes link :: "'w relay_link" and url :: cptr and headers :: sentry_headers and body :: "bytes option"
  defines "r \<equiv> \<lparr>rq_url = url, rq_auth = sh_auth headers, rq_content_type = sh_content_type headers, rq_body = body\<rparr>"
  assumes "relay_wf s"
    and "relay_send (logged link) dsn url headers body s (w, []) = Some (resp, s', (w', log))"
  shows "list_all (\<lambda>f. length f \<le> FRAME_BUFFER_BYTES) log \<and>
    (log \<noteq> [] \<longleftrightarrow> rl_write link \<noteq> None \<and> rl_wait link \<noteq> None \<and> rl_clock link \<noteq> None \<and>
      host_ready s \<and> length (relay_stream r) \<le> 0xFFFF \<and> url \<noteq> None \<and> (\<exists>d. dsn = Some d \<and> ds_valid d \<and> sentry_url_host_matches url (Some (ds_host d)))) \<and>
    (rs_result resp \<in> {SENTRY_SEND_OK, SENTRY_SEND_RATE_LIMITED} \<or>
       log \<noteq> [] \<and> (\<forall>put f w. rl_write link = Some put \<longrightarrow> fst (put f w)) \<longrightarrow>
     host_request log = Some (rt_next_request_id s, fields r))"
  unfolding r_def by (rule relay_send_logged [OF assms(2,3)])

text \<open>A chunk of the smallest size, so that the body takes several frames.\<close>

definition sample_relay :: relay_transport where
  "sample_relay = set_chunk_bytes 0 (RelayTransport\<lparr>rt_attached := True, rt_hello_seen := True\<rparr>)"

theorem relay_delivers_whole_requests_witness:
  "\<exists>resp s' w' log. relay_send (logged silent_link) (Some (dsn_zero\<lparr>ds_valid := True, ds_host := ''h''\<rparr>))
      (Some ''http://h/'') \<lparr>sh_auth = None, sh_content_type = Some ''text''\<rparr> (Some [1, 2, 3]) sample_relay (0, []) =
      Some (resp, s', (w', log)) \<and>
    host_request log = Some (1, bytes_of ''http://h/'', [], bytes_of ''text'', [1, 2, 3])"
proof -
  let ?r = "\<lparr>rq_url = Some ''http://h/'', rq_auth = None, rq_content_type = Some ''text'', rq_body = Some [1, 2, 3]\<rparr>"
  have s: "relay_wf sample_relay" "host_ready sample_relay" "rt_next_request_id sample_relay = 1"
    "rt_timeout_ms sample_relay = 20000"
    by (simp_all add: sample_relay_def host_ready_def set_chunk_bytes_def RelayTransport_def Let_def
        relay_wf_def relay_lens FRAME_BUFFER_BYTES_def)
  have host: "sentry_url_host_matches (Some ''http://h/'') (Some ''h'')" by code_simp
  have "\<exists>uptime. ticks wait clock uptime (rt_timeout_ms sample_relay)"
    if "rl_wait (logged silent_link) = Some wait" "rl_clock (logged silent_link) = Some clock" for wait clock
    using that by (intro exI [of _ fst])
      (auto simp: logged_def silent_link_def ticks_def POLL_INTERVAL_MS_def s(4))
  from relay_send_total [OF this] obtain resp s' w' log where sent: "relay_send (logged silent_link)
      (Some (dsn_zero\<lparr>ds_valid := True, ds_host := ''h''\<rparr>)) (Some ''http://h/'')
      \<lparr>sh_auth = None, sh_content_type = Some ''text''\<rparr> (Some [1, 2, 3]) sample_relay (0, []) = Some (resp, s', (w', log))"
    by (metis prod.collapse)
  have "length (relay_stream ?r) = 16" "fields ?r = (bytes_of ''http://h/'', [], bytes_of ''text'', [1, 2, 3])"
    by (simp_all add: relay_stream_def segments_of_def segment_bytes_def fields_def Let_def)
  then have "host_request log = Some (1, bytes_of ''http://h/'', [], bytes_of ''text'', [1, 2, 3])"
    using relay_delivers_whole_requests [OF s(1) sent] s(2,3) host by (auto simp: silent_link_def)
  with sent show ?thesis by blast
qed

end
