(* ===== verification/Sentry_Device.thy ===== *)
theory Sentry_Device
  imports Sentry_Log "HOL-Library.Signed_Division"
begin

text \<open>
  The device layer of the ESP32 (\<open>src/device/sentry_device_esp32.c\<close>). What it calls of ESP-IDF
  and the C library is a record of functions over the state \<open>'w\<close> of the chip, the build's
  configuration macros a record of constants. The two blocks of RTC memory, which a software
  reset or a panic leaves alone, are a record of their own: an array of bytes that only ever
  holds the image of one C object is modelled by that object, with the length it was stored
  under.
\<close>

section \<open>What ESP-IDF and the C library provide\<close>

text \<open>The reset reasons the code names, and any other.\<close>

datatype esp_reset_reason =
    ESP_RST_POWERON | ESP_RST_EXT | ESP_RST_SW | ESP_RST_PANIC | ESP_RST_INT_WDT | ESP_RST_TASK_WDT
  | ESP_RST_WDT | ESP_RST_DEEPSLEEP | ESP_RST_BROWNOUT | ESP_RST_SDIO | ESP_RST_USB | ESP_RST_JTAG
  | ESP_RST_OTHER nat

text \<open>The targets of the build, \<open>CONFIG_IDF_TARGET_...\<close>, and what is derived from them.\<close>

datatype esp_target =
    TARGET_ESP32 | TARGET_ESP32S2 | TARGET_ESP32S3 | TARGET_ESP32C2 | TARGET_ESP32C3 | TARGET_ESP32C5
  | TARGET_ESP32C6 | TARGET_ESP32H2 | TARGET_ESP32P4 | TARGET_OTHER

fun SENTRY_CHIP_MODEL :: "esp_target \<Rightarrow> string" where
  "SENTRY_CHIP_MODEL TARGET_ESP32 = ''ESP32''"
| "SENTRY_CHIP_MODEL TARGET_ESP32S2 = ''ESP32-S2''"
| "SENTRY_CHIP_MODEL TARGET_ESP32S3 = ''ESP32-S3''"
| "SENTRY_CHIP_MODEL TARGET_ESP32C2 = ''ESP32-C2''"
| "SENTRY_CHIP_MODEL TARGET_ESP32C3 = ''ESP32-C3''"
| "SENTRY_CHIP_MODEL TARGET_ESP32C5 = ''ESP32-C5''"
| "SENTRY_CHIP_MODEL TARGET_ESP32C6 = ''ESP32-C6''"
| "SENTRY_CHIP_MODEL TARGET_ESP32H2 = ''ESP32-H2''"
| "SENTRY_CHIP_MODEL TARGET_ESP32P4 = ''ESP32-P4''"
| "SENTRY_CHIP_MODEL TARGET_OTHER = ''ESP32-unknown''"

definition SENTRY_CHIP_ARCH :: "esp_target \<Rightarrow> string" where
  "SENTRY_CHIP_ARCH target =
     (if target \<in> {TARGET_ESP32, TARGET_ESP32S2, TARGET_ESP32S3} then ''xtensa'' else ''riscv'')"

record esp_config =
  cf_target :: esp_target
  cf_idf_5_1 :: bool
  cf_sizeof_trace :: nat
  cf_sizeof_log_entry :: nat
  cf_sizeof_log_ring :: nat

record 'w esp =
  esp_timer_get_time :: "'w \<Rightarrow> i64 \<times> 'w"
  esp_fill_random :: "nat \<Rightarrow> 'w \<Rightarrow> bytes \<times> 'w"
  c_time :: "'w \<Rightarrow> i64 \<times> 'w"
  gettimeofday :: "'w \<Rightarrow> (i64 \<times> i64) option \<times> 'w"
  esp_get_free_heap_size :: "'w \<Rightarrow> u32"
  esp_get_minimum_free_heap_size :: "'w \<Rightarrow> u32"
  esp_chip_revision :: "'w \<Rightarrow> u16"
  esp_chip_cores :: "'w \<Rightarrow> u8"
  esp_get_idf_version :: "'w \<Rightarrow> string"
  esp_efuse_mac_get_default :: "'w \<Rightarrow> bytes option"
  esp_flash_get_size :: "'w \<Rightarrow> u32 option"
  heap_caps_get_total_size :: "'w \<Rightarrow> u32"
  esp_reset_reason_get :: "'w \<Rightarrow> esp_reset_reason"

section \<open>Device facts\<close>

definition map_reset_reason :: "esp_config \<Rightarrow> esp_reset_reason \<Rightarrow> sentry_reset_reason" where
  "map_reset_reason cf reason =
     (case reason of
        ESP_RST_POWERON \<Rightarrow> SENTRY_RESET_POWERON
      | ESP_RST_EXT \<Rightarrow> SENTRY_RESET_EXTERNAL
      | ESP_RST_SW \<Rightarrow> SENTRY_RESET_SOFTWARE
      | ESP_RST_PANIC \<Rightarrow> SENTRY_RESET_PANIC
      | ESP_RST_INT_WDT \<Rightarrow> SENTRY_RESET_INT_WDT
      | ESP_RST_TASK_WDT \<Rightarrow> SENTRY_RESET_TASK_WDT
      | ESP_RST_WDT \<Rightarrow> SENTRY_RESET_WDT
      | ESP_RST_DEEPSLEEP \<Rightarrow> SENTRY_RESET_DEEPSLEEP
      | ESP_RST_BROWNOUT \<Rightarrow> SENTRY_RESET_BROWNOUT
      | ESP_RST_SDIO \<Rightarrow> SENTRY_RESET_SDIO
      | ESP_RST_USB \<Rightarrow> if cf_idf_5_1 cf then SENTRY_RESET_USB else SENTRY_RESET_UNKNOWN
      | ESP_RST_JTAG \<Rightarrow> if cf_idf_5_1 cf then SENTRY_RESET_JTAG else SENTRY_RESET_UNKNOWN
      | ESP_RST_OTHER _ \<Rightarrow> SENTRY_RESET_UNKNOWN)"

definition device_info_zero :: sentry_device_info where
  "device_info_zero =
     \<lparr>di_chip_model = [], di_device_id = [], di_sdk_version = [], di_arch = [], di_chip_revision = 0,
      di_cpu_cores = 0, di_flash_size_bytes = 0, di_total_heap_bytes = 0,
      di_reset_reason = SENTRY_RESET_UNKNOWN\<rparr>"

text \<open>The capacities of the arrays of \<open>sentry_device_info_t\<close>.\<close>

definition DEVICE_ID_LEN :: nat where "DEVICE_ID_LEN = 13"
definition CHIP_MODEL_LEN :: nat where "CHIP_MODEL_LEN = 16"
definition SDK_VERSION_LEN :: nat where "SDK_VERSION_LEN = 24"
definition ARCH_LEN :: nat where "ARCH_LEN = 8"

definition sentry_device_info_get :: "esp_config \<Rightarrow> 'w esp \<Rightarrow> 'w \<Rightarrow> sentry_device_info" where
  "sentry_device_info_get cf esp w =
     device_info_zero\<lparr>
       di_chip_model := snprintf_content CHIP_MODEL_LEN (SENTRY_CHIP_MODEL (cf_target cf)),
       di_arch := snprintf_content ARCH_LEN (SENTRY_CHIP_ARCH (cf_target cf)),
       di_chip_revision := esp_chip_revision esp w,
       di_cpu_cores := esp_chip_cores esp w,
       di_sdk_version := snprintf_content SDK_VERSION_LEN (esp_get_idf_version esp w),
       di_device_id :=
         (case esp_efuse_mac_get_default esp w of
            Some mac \<Rightarrow> snprintf_content DEVICE_ID_LEN (concat (map (\<lambda>i. hex_byte (mac ! i)) [0..<6]))
          | None \<Rightarrow> []),
       di_flash_size_bytes := (case esp_flash_get_size esp w of Some n \<Rightarrow> n | None \<Rightarrow> 0),
       di_total_heap_bytes := heap_caps_get_total_size esp w,
       di_reset_reason := map_reset_reason cf (esp_reset_reason_get esp w)\<rparr>"

section \<open>Clocks, heap and randomness\<close>

definition sentry_device_free_heap :: "'w esp \<Rightarrow> 'w \<Rightarrow> u32" where
  "sentry_device_free_heap esp w = esp_get_free_heap_size esp w"

definition sentry_device_min_free_heap :: "'w esp \<Rightarrow> 'w \<Rightarrow> u32" where
  "sentry_device_min_free_heap esp w = esp_get_minimum_free_heap_size esp w"

text \<open>\<open>int64_t\<close> divides towards zero.\<close>

definition sentry_device_uptime_ms :: "'w esp \<Rightarrow> 'w \<Rightarrow> u64 \<times> 'w" where
  "sentry_device_uptime_ms esp w =
     (case esp_timer_get_time esp w of (us, w') \<Rightarrow> (of_int (sint us sdiv 1000), w'))"

definition sentry_device_uptime_us :: "'w esp \<Rightarrow> 'w \<Rightarrow> u64 \<times> 'w" where
  "sentry_device_uptime_us esp w = esp_timer_get_time esp w"

text \<open>\<open>out\<close> is never NULL where the SDK calls this, so the answer is always yes.\<close>

definition sentry_device_random :: "'w esp \<Rightarrow> nat \<Rightarrow> 'w \<Rightarrow> bytes option \<times> 'w" where
  "sentry_device_random esp len w = (case esp_fill_random esp len w of (bytes, w') \<Rightarrow> (Some bytes, w'))"

definition CLOCK_FLOOR :: u64 where "CLOCK_FLOOR = 1600000000"

definition sentry_device_unix_time :: "'w esp \<Rightarrow> 'w \<Rightarrow> u64 \<times> 'w" where
  "sentry_device_unix_time esp w =
     (case c_time esp w of (now, w') \<Rightarrow> (if now < CLOCK_FLOOR then 0 else now, w'))"

definition sentry_device_unix_time_us :: "'w esp \<Rightarrow> 'w \<Rightarrow> u64 \<times> 'w" where
  "sentry_device_unix_time_us esp w =
     (case gettimeofday esp w of
        (None, w') \<Rightarrow> (0, w')
      | (Some (sec, usec), w') \<Rightarrow> (if sec < CLOCK_FLOOR then 0 else sec * 1000000 + usec, w'))"

section \<open>RTC memory\<close>

definition SENTRY_RTC_TRACE_MAGIC :: u32 where "SENTRY_RTC_TRACE_MAGIC = 0x53545243"
definition SENTRY_RTC_TRACE_CAP :: nat where "SENTRY_RTC_TRACE_CAP = 160"
definition SENTRY_RTC_BLOCK_CAP :: nat where "SENTRY_RTC_BLOCK_CAP = 1024"
definition SENTRY_RTC_BLOCK_MAGIC :: u32 where "SENTRY_RTC_BLOCK_MAGIC = 0x53424c4b"

record rtc_trace =
  rtt_magic :: u32
  rtt_len :: u32
  rtt_bytes :: sentry_trace_context

record rtc_block =
  rtb_magic :: u32
  rtb_layout_id :: u32
  rtb_len :: u32
  rtb_bytes :: sentry_log_ring

record rtc_memory =
  g_rtc_trace :: rtc_trace
  g_rtc_block :: rtc_block

definition sentry_device_trace_persist :: "sentry_trace_context option \<Rightarrow> nat \<Rightarrow> rtc_memory \<Rightarrow> rtc_memory" where
  "sentry_device_trace_persist context len rtc =
     (case context of
        Some c \<Rightarrow>
          if len = 0 \<or> SENTRY_RTC_TRACE_CAP < len
          then rtc\<lparr>g_rtc_trace := (g_rtc_trace rtc)\<lparr>rtt_magic := 0\<rparr>\<rparr>
          else rtc\<lparr>g_rtc_trace := \<lparr>rtt_magic = SENTRY_RTC_TRACE_MAGIC, rtt_len = of_nat len, rtt_bytes = c\<rparr>\<rparr>
      | None \<Rightarrow> rtc\<lparr>g_rtc_trace := (g_rtc_trace rtc)\<lparr>rtt_magic := 0\<rparr>\<rparr>)"

text \<open>What is left in \<open>out\<close>: a zeroed context when there is nothing to recover.\<close>

definition sentry_device_trace_recover :: "nat \<Rightarrow> rtc_memory \<Rightarrow> sentry_trace_context" where
  "sentry_device_trace_recover len rtc =
     (if rtt_magic (g_rtc_trace rtc) = SENTRY_RTC_TRACE_MAGIC \<and> unat (rtt_len (g_rtc_trace rtc)) = len
      then rtt_bytes (g_rtc_trace rtc) else trace_zero)"

text \<open>
  \<open>sentry_device_persistent_block\<close>: whether a block was found room for, whether it came back
  from a previous boot, and the memory. Zero bytes are the image of a ring of zeros.
\<close>

definition log_ring_zero :: sentry_log_ring where
  "log_ring_zero =
     \<lparr>lr_entries = replicate SENTRY_MICRO_MAX_LOGS log_entry_zero, lr_head = 0, lr_count = 0,
      lr_dropped = 0, lr_boot_seq = 0, lr_anchor_unix_us = 0, lr_anchor_uptime_us = 0,
      lr_prev_anchor_unix_us = 0, lr_prev_anchor_uptime_us = 0\<rparr>"

definition sentry_device_persistent_block :: "nat \<Rightarrow> u32 \<Rightarrow> rtc_memory \<Rightarrow> bool \<times> bool \<times> rtc_memory" where
  "sentry_device_persistent_block len layout_id rtc =
     (if len = 0 \<or> SENTRY_RTC_BLOCK_CAP < len then (False, False, rtc)
      else
       (let b = g_rtc_block rtc
        in if rtb_magic b = SENTRY_RTC_BLOCK_MAGIC \<and> rtb_layout_id b = layout_id \<and> rtb_len b = of_nat len
           then (True, True, rtc)
           else (True, False, rtc\<lparr>g_rtc_block := \<lparr>rtb_magic = SENTRY_RTC_BLOCK_MAGIC,
                   rtb_layout_id = layout_id, rtb_len = of_nat len, rtb_bytes = log_ring_zero\<rparr>\<rparr>)))"

section \<open>Facts\<close>

lemma trace_recover_persist:
  "0 < len \<Longrightarrow> len \<le> SENTRY_RTC_TRACE_CAP \<Longrightarrow>
     sentry_device_trace_recover len (sentry_device_trace_persist (Some c) len rtc) = c"
  by (simp add: sentry_device_trace_recover_def sentry_device_trace_persist_def SENTRY_RTC_TRACE_CAP_def
      unat_of_nat)

lemma trace_recover_too_large:
  "SENTRY_RTC_TRACE_CAP < len \<Longrightarrow>
     sentry_device_trace_recover len' (sentry_device_trace_persist (Some c) len rtc) = trace_zero"
  by (simp add: sentry_device_trace_recover_def sentry_device_trace_persist_def SENTRY_RTC_TRACE_MAGIC_def)

text \<open>Both clocks refuse a date before the floor, so they agree on whether there is one.\<close>

lemma unix_time_floor:
  "fst (sentry_device_unix_time esp w) = 0 \<or> CLOCK_FLOOR \<le> fst (sentry_device_unix_time esp w)"
  by (auto simp: sentry_device_unix_time_def split: prod.splits)

lemma device_info_ok: "length (di_device_id (sentry_device_info_get cf esp w)) < DEVICE_ID_LEN"
  by (auto simp: sentry_device_info_get_def snprintf_content_def DEVICE_ID_LEN_def split: option.splits)

lemma reset_reason_crash:
  "sentry_reset_reason_is_crash (map_reset_reason cf r) \<longleftrightarrow>
     r \<in> {ESP_RST_PANIC, ESP_RST_INT_WDT, ESP_RST_TASK_WDT, ESP_RST_WDT, ESP_RST_BROWNOUT}"
  by (cases r) (simp_all add: map_reset_reason_def)

end
