(* ===== verification/Sentry_Coredump_Device.thy ===== *)
theory Sentry_Coredump_Device
  imports Sentry_Device_Info
begin

text \<open>
  Reading the stored core dump off the chip (\<open>src/device/sentry_coredump_esp32.c\<close>). The two
  architectures are two branches of the build; here the configuration says which one is
  compiled, and the summary ESP-IDF fills in has the fields of both. The functions of ESP-IDF
  are a record over the state \<open>'w\<close> of the flash.
\<close>

section \<open>What ESP-IDF provides\<close>

datatype esp_err = ESP_OK | ESP_ERR_NOT_FOUND | ESP_ERR_OTHER nat

record esp_core_dump_summary =
  es_exc_task :: string
  es_exc_pc :: u32
  es_app_elf_sha256 :: string
  es_exc_cause :: u32
  es_exc_vaddr :: u32
  es_bt_depth :: u32
  es_bt :: "u32 list"
  es_bt_corrupted :: bool
  es_mcause :: u32
  es_mtval :: u32
  es_ra :: u32

record 'w esp_core_dump =
  SENTRY_COREDUMP_SUPPORTED :: bool
  SENTRY_COREDUMP_ARCH_RISCV :: bool
  esp_core_dump_image_check :: "'w \<Rightarrow> esp_err"
  esp_core_dump_get_summary :: "'w \<Rightarrow> esp_core_dump_summary option"
  esp_core_dump_image_erase :: "'w \<Rightarrow> esp_err \<times> 'w"

section \<open>RISC-V\<close>

definition riscv_exception_name :: "u32 \<Rightarrow> string" where
  "riscv_exception_name mcause =
     (case map_of
        [(0, ''InstructionAddressMisaligned''), (1, ''InstructionAccessFault''), (2, ''IllegalInstruction''),
         (3, ''Breakpoint''), (4, ''LoadAddressMisaligned''), (5, ''LoadAccessFault''),
         (6, ''StoreAddressMisaligned''), (7, ''StoreAccessFault''), (8, ''EnvironmentCall''),
         (9, ''EnvironmentCall''), (11, ''EnvironmentCall''), (12, ''InstructionPageFault''),
         (13, ''LoadPageFault''), (15, ''StorePageFault'')] mcause of
        Some name \<Rightarrow> name
      | None \<Rightarrow> [])"

definition cause_has_address :: "u32 \<Rightarrow> bool" where
  "cause_has_address mcause \<longleftrightarrow> mcause \<in> {0, 1, 4, 5, 6, 7, 12, 13, 15}"

definition riscv_fill_arch_details :: "sentry_coredump \<Rightarrow> esp_core_dump_summary \<Rightarrow> sentry_coredump" where
  "riscv_fill_arch_details out summary =
     (let out = out\<lparr>cd_exception_type := snprintf_content 32 (riscv_exception_name (es_mcause summary)),
            cd_exception_addr := es_mtval summary,
            cd_exception_addr_valid := cause_has_address (es_mcause summary),
            cd_frames := (cd_frames out)[0 := es_exc_pc summary],
            cd_frame_count := 1\<rparr>;
          out = (if es_ra summary \<noteq> 0 \<and> es_ra summary \<noteq> es_exc_pc summary
                 then out\<lparr>cd_frames := (cd_frames out)[1 := es_ra summary], cd_frame_count := 2\<rparr> else out)
      in out\<lparr>cd_truncated := True\<rparr>)"

section \<open>Xtensa\<close>

definition xtensa_exception_name :: "u32 \<Rightarrow> string" where
  "xtensa_exception_name cause =
     (case map_of
        [(0, ''IllegalInstruction''), (1, ''Syscall''), (2, ''InstructionFetchError''), (3, ''LoadStoreError''),
         (4, ''Level1Interrupt''), (5, ''Alloca''), (6, ''IntegerDivideByZero''), (8, ''Privileged''),
         (9, ''LoadStoreAlignment''), (12, ''InstrPIFDataError''), (13, ''LoadStorePIFDataError''),
         (14, ''InstrPIFAddrError''), (15, ''LoadStorePIFAddrError''), (16, ''InstTLBMiss''),
         (17, ''InstTLBMultiHit''), (18, ''InstFetchPrivilege''), (20, ''InstFetchProhibited''),
         (24, ''LoadStoreTLBMiss''), (25, ''LoadStoreTLBMultiHit''), (26, ''LoadStorePrivilege''),
         (28, ''LoadProhibited''), (29, ''StoreProhibited'')] cause of
        Some name \<Rightarrow> name
      | None \<Rightarrow> [])"

fun copy_frames :: "nat \<Rightarrow> u32 list \<Rightarrow> u32 list \<Rightarrow> u32 list" where
  "copy_frames 0 bt frames = frames"
| "copy_frames (Suc i) bt frames = (copy_frames i bt frames)[i := bt ! i]"

definition xtensa_fill_arch_details :: "sentry_coredump \<Rightarrow> esp_core_dump_summary \<Rightarrow> sentry_coredump" where
  "xtensa_fill_arch_details out summary =
     (let depth = es_bt_depth summary;
          depth = (if of_nat SENTRY_MICRO_MAX_FRAMES < depth then of_nat SENTRY_MICRO_MAX_FRAMES else depth)
      in out\<lparr>cd_exception_type := snprintf_content 32 (xtensa_exception_name (es_exc_cause summary)),
           cd_exception_addr := es_exc_vaddr summary,
           cd_exception_addr_valid := es_exc_cause summary \<in> {3, 9, 24, 25, 26, 28, 29},
           cd_frames := copy_frames (unat depth) (es_bt summary) (cd_frames out),
           cd_frame_count := depth,
           cd_truncated := es_bt_corrupted summary\<rparr>)"

section \<open>The interface\<close>

definition fill_arch_details ::
    "'w esp_core_dump \<Rightarrow> sentry_coredump \<Rightarrow> esp_core_dump_summary \<Rightarrow> sentry_coredump" where
  "fill_arch_details esp out summary =
     (if SENTRY_COREDUMP_ARCH_RISCV esp then riscv_fill_arch_details out summary
      else xtensa_fill_arch_details out summary)"

definition sentry_coredump_is_supported :: "'w esp_core_dump \<Rightarrow> bool" where
  "sentry_coredump_is_supported esp = SENTRY_COREDUMP_SUPPORTED esp"

definition sentry_coredump_available :: "'w esp_core_dump \<Rightarrow> 'w \<Rightarrow> bool" where
  "sentry_coredump_available esp w \<longleftrightarrow>
     SENTRY_COREDUMP_SUPPORTED esp \<and> esp_core_dump_image_check esp w = ESP_OK"

text \<open>What is left in \<open>*out\<close>, and whether the dump was read.\<close>

definition sentry_coredump_read :: "'w esp_core_dump \<Rightarrow> 'w \<Rightarrow> sentry_coredump \<times> bool" where
  "sentry_coredump_read esp w =
     (let out = coredump_zero
      in if \<not> SENTRY_COREDUMP_SUPPORTED esp then (out, False)
         else if esp_core_dump_image_check esp w \<noteq> ESP_OK then (out, False)
         else (case esp_core_dump_get_summary esp w of
             None \<Rightarrow> (out, False)
           | Some summary \<Rightarrow>
               let out = out\<lparr>cd_task_name := snprintf_content 16 (es_exc_task summary),
                     cd_exception_pc := es_exc_pc summary,
                     cd_app_elf_sha256 := snprintf_content 33 (es_app_elf_sha256 summary)\<rparr>
               in ((fill_arch_details esp out summary)\<lparr>cd_available := True\<rparr>, True)))"

definition sentry_coredump_erase :: "'w esp_core_dump \<Rightarrow> 'w \<Rightarrow> bool \<times> 'w" where
  "sentry_coredump_erase esp w =
     (if \<not> SENTRY_COREDUMP_SUPPORTED esp then (False, w)
      else (case esp_core_dump_image_erase esp w of
          (err, w') \<Rightarrow> (err = ESP_OK \<or> err = ESP_ERR_NOT_FOUND, w')))"

section \<open>What is read is well formed\<close>

lemma length_copy_frames [simp]: "length (copy_frames n bt frames) = length frames"
  by (induction n) simp_all

lemma copy_frames_take:
  "n \<le> length frames \<Longrightarrow> n \<le> length bt \<Longrightarrow> copy_frames n bt frames = take n bt @ drop n frames"
proof (induction n)
  case (Suc n)
  then have "(take n bt @ drop n frames)[n := bt ! n] = take n bt @ (drop n frames)[0 := bt ! n]"
    by (simp add: list_update_append)
  also have "\<dots> = take (Suc n) bt @ drop (Suc n) frames"
    using Suc.prems by (simp add: take_Suc_conv_app_nth Cons_nth_drop_Suc [symmetric])
  finally show ?case using Suc by simp
qed simp

lemma length_snprintf_content: "0 < n \<Longrightarrow> length (snprintf_content n s) < n"
  by (simp add: snprintf_content_def)

text \<open>The frames a summary gives, innermost first.\<close>

definition summary_frames :: "'w esp_core_dump \<Rightarrow> esp_core_dump_summary \<Rightarrow> u32 list" where
  "summary_frames esp summary =
     (if SENTRY_COREDUMP_ARCH_RISCV esp
      then es_exc_pc summary # (if es_ra summary \<in> {0, es_exc_pc summary} then [] else [es_ra summary])
      else take (min (unat (es_bt_depth summary)) SENTRY_MICRO_MAX_FRAMES) (es_bt summary))"

definition fault_address :: "'w esp_core_dump \<Rightarrow> esp_core_dump_summary \<Rightarrow> u32" where
  "fault_address esp summary =
     (if SENTRY_COREDUMP_ARCH_RISCV esp then es_mtval summary else es_exc_vaddr summary)"

text \<open>
  The cause, by its name, and the causes whose address register means something: on RISC-V the
  misaligned accesses, the access faults and the page faults, on Xtensa the faults of loads and
  stores. The two tables of the code go by number.
\<close>

definition cause_name :: "'w esp_core_dump \<Rightarrow> esp_core_dump_summary \<Rightarrow> string" where
  "cause_name esp summary =
     (if SENTRY_COREDUMP_ARCH_RISCV esp then riscv_exception_name (es_mcause summary)
      else xtensa_exception_name (es_exc_cause summary))"

definition address_faults :: "'w esp_core_dump \<Rightarrow> string list" where
  "address_faults esp =
     (if SENTRY_COREDUMP_ARCH_RISCV esp
      then [''InstructionAddressMisaligned'', ''LoadAddressMisaligned'', ''StoreAddressMisaligned'',
        ''InstructionAccessFault'', ''LoadAccessFault'', ''StoreAccessFault'',
        ''InstructionPageFault'', ''LoadPageFault'', ''StorePageFault'']
      else [''LoadStoreError'', ''LoadStoreAlignment'', ''LoadStoreTLBMiss'', ''LoadStoreTLBMultiHit'',
        ''LoadStorePrivilege'', ''LoadProhibited'', ''StoreProhibited''])"

lemma riscv_addresses:
  "SENTRY_COREDUMP_ARCH_RISCV esp \<Longrightarrow>
    cause_has_address mcause \<longleftrightarrow> riscv_exception_name mcause \<in> set (address_faults esp)"
  by (simp add: cause_has_address_def riscv_exception_name_def address_faults_def)

lemma xtensa_addresses:
  "\<not> SENTRY_COREDUMP_ARCH_RISCV esp \<Longrightarrow>
    c \<in> {3, 9, 24, 25, 26, 28, 29} \<longleftrightarrow> xtensa_exception_name c \<in> set (address_faults esp)"
  by (simp add: xtensa_exception_name_def address_faults_def)

lemma names_fit: "snprintf_content 32 (riscv_exception_name c) = riscv_exception_name c"
  "snprintf_content 32 (xtensa_exception_name c) = xtensa_exception_name c"
  by (simp_all add: riscv_exception_name_def xtensa_exception_name_def snprintf_content_def)

lemma riscv_details:
  fixes out :: sentry_coredump and summary :: esp_core_dump_summary
  assumes "length (cd_frames out) = 16" and "SENTRY_COREDUMP_ARCH_RISCV esp"
  defines "r \<equiv> riscv_fill_arch_details out summary"
  shows "length (cd_frames r) = 16 \<and> unat (cd_frame_count r) \<le> 16 \<and> length (cd_exception_type r) < 32 \<and>
    take (unat (cd_frame_count r)) (cd_frames r) = summary_frames esp summary \<and>
    cd_task_name r = cd_task_name out \<and> cd_exception_pc r = cd_exception_pc out \<and>
    cd_exception_type r = cause_name esp summary \<and> cd_exception_addr r = fault_address esp summary \<and>
    (cd_exception_addr_valid r \<longleftrightarrow> cause_name esp summary \<in> set (address_faults esp))"
proof -
  obtain a b rest where "cd_frames out = a # b # rest"
    using assms(1) by (auto simp: numeral_eq_Suc length_Suc_conv)
  then show ?thesis
    using assms(1,2) length_snprintf_content [of 32 "riscv_exception_name (es_mcause summary)"]
    by (auto simp: r_def riscv_fill_arch_details_def Let_def summary_frames_def fault_address_def cause_name_def
        names_fit riscv_addresses [OF assms(2)])
qed

lemma xtensa_details:
  fixes out :: sentry_coredump and summary :: esp_core_dump_summary
  assumes "length (cd_frames out) = 16" and "\<not> SENTRY_COREDUMP_ARCH_RISCV esp" and "length (es_bt summary) = 16"
  defines "r \<equiv> xtensa_fill_arch_details out summary"
  shows "length (cd_frames r) = 16 \<and> unat (cd_frame_count r) \<le> 16 \<and> length (cd_exception_type r) < 32 \<and>
    take (unat (cd_frame_count r)) (cd_frames r) = summary_frames esp summary \<and>
    cd_task_name r = cd_task_name out \<and> cd_exception_pc r = cd_exception_pc out \<and>
    cd_exception_type r = cause_name esp summary \<and> cd_exception_addr r = fault_address esp summary \<and>
    (cd_exception_addr_valid r \<longleftrightarrow> cause_name esp summary \<in> set (address_faults esp))"
proof -
  define d :: u32 where "d = (if of_nat SENTRY_MICRO_MAX_FRAMES < es_bt_depth summary
      then of_nat SENTRY_MICRO_MAX_FRAMES else es_bt_depth summary)"
  have depth: "unat d = min (unat (es_bt_depth summary)) 16"
    by (simp add: d_def SENTRY_MICRO_MAX_FRAMES_def word_less_nat_alt min_def)
  note r = r_def [unfolded xtensa_fill_arch_details_def Let_def d_def [symmetric]]
  show ?thesis
    using assms(1-3) copy_frames_take [of "min (unat (es_bt_depth summary)) 16" "cd_frames out" "es_bt summary"]
      length_snprintf_content [of 32 "xtensa_exception_name (es_exc_cause summary)"]
    by (simp add: r depth summary_frames_def fault_address_def SENTRY_MICRO_MAX_FRAMES_def cause_name_def names_fit
        xtensa_addresses [OF assms(2)] del: insert_iff)
qed

lemma coredump_not_read:
  assumes "\<not> (sentry_coredump_available esp w \<and> esp_core_dump_get_summary esp w \<noteq> None)"
  shows "sentry_coredump_read esp w = (coredump_zero, False)"
  using assms
  by (auto simp: sentry_coredump_read_def sentry_coredump_available_def Let_def split: option.splits)

lemma coredump_read_whole:
  fixes esp :: "'w esp_core_dump"
  assumes "sentry_coredump_available esp w" and s: "esp_core_dump_get_summary esp w = Some summary"
    and "length (es_bt summary) = 16"
  shows "\<exists>c. sentry_coredump_read esp w = (c, True) \<and> cd_available c \<and> coredump_wf c \<and>
    take (unat (cd_frame_count c)) (cd_frames c) = summary_frames esp summary \<and>
    cd_exception_pc c = es_exc_pc summary \<and>
    cd_exception_type c = cause_name esp summary \<and> cd_exception_addr c = fault_address esp summary \<and>
    (cd_exception_addr_valid c \<longleftrightarrow> cause_name esp summary \<in> set (address_faults esp))"
proof -
  define out where "out = coredump_zero\<lparr>cd_task_name := snprintf_content 16 (es_exc_task summary),
    cd_exception_pc := es_exc_pc summary, cd_app_elf_sha256 := snprintf_content 33 (es_app_elf_sha256 summary)\<rparr>"
  have out: "length (cd_frames out) = 16" "length (cd_task_name out) < 16" "cd_exception_pc out = es_exc_pc summary"
    by (simp_all add: out_def coredump_zero_def SENTRY_MICRO_MAX_FRAMES_def length_snprintf_content)
  have read: "sentry_coredump_read esp w = ((fill_arch_details esp out summary)\<lparr>cd_available := True\<rparr>, True)"
    using assms(1) s by (simp add: sentry_coredump_read_def sentry_coredump_available_def Let_def out_def)
  define r where "r = fill_arch_details esp out summary"
  have "length (cd_frames r) = 16 \<and> unat (cd_frame_count r) \<le> 16 \<and> length (cd_exception_type r) < 32 \<and>
    take (unat (cd_frame_count r)) (cd_frames r) = summary_frames esp summary \<and>
    cd_task_name r = cd_task_name out \<and> cd_exception_pc r = cd_exception_pc out \<and>
    cd_exception_type r = cause_name esp summary \<and> cd_exception_addr r = fault_address esp summary \<and>
    (cd_exception_addr_valid r \<longleftrightarrow> cause_name esp summary \<in> set (address_faults esp))"
  proof (cases "SENTRY_COREDUMP_ARCH_RISCV esp")
    case True
    show ?thesis
      unfolding r_def fill_arch_details_def if_P [OF True] by (rule riscv_details [OF out(1) True])
  next
    case False
    show ?thesis
      unfolding r_def fill_arch_details_def if_not_P [OF False]
      by (rule xtensa_details [OF out(1) False assms(3)])
  qed
  then show ?thesis
    unfolding read r_def [symmetric] using out by (elim conjE) (simp add: coredump_wf_def SENTRY_MICRO_MAX_FRAMES_def)
qed


lemma coredump_read_wf:
  assumes "\<And>summary. esp_core_dump_get_summary esp w = Some summary \<Longrightarrow> length (es_bt summary) = 16"
  shows "cd_available (fst (sentry_coredump_read esp w)) = snd (sentry_coredump_read esp w)"
    "coredump_wf (fst (sentry_coredump_read esp w))"
proof -
  let ?r = "sentry_coredump_read esp w"
  have "cd_available (fst ?r) = snd ?r \<and> coredump_wf (fst ?r)"
  proof (cases "sentry_coredump_available esp w \<and> esp_core_dump_get_summary esp w \<noteq> None")
    case True
    then obtain summary where s: "sentry_coredump_available esp w" "esp_core_dump_get_summary esp w = Some summary" by auto
    from coredump_read_whole [OF s assms [OF s(2)]] show ?thesis by auto
  qed (simp add: coredump_not_read, simp add: coredump_zero_def coredump_wf_def)
  then show "cd_available (fst ?r) = snd ?r" "coredump_wf (fst ?r)" by auto
qed

definition sample_core_dump :: "unit esp_core_dump" where
  "sample_core_dump =
     \<lparr>SENTRY_COREDUMP_SUPPORTED = True, SENTRY_COREDUMP_ARCH_RISCV = False,
      esp_core_dump_image_check = (\<lambda>w. ESP_OK),
      esp_core_dump_get_summary = (\<lambda>w. Some \<lparr>es_exc_task = ''loopTask'', es_exc_pc = 0x400d1000,
        es_app_elf_sha256 = ''ab'', es_exc_cause = 28, es_exc_vaddr = 0, es_bt_depth = 99,
        es_bt = replicate 16 0x400d1000, es_bt_corrupted = True, es_mcause = 0, es_mtval = 0, es_ra = 0\<rparr>),
      esp_core_dump_image_erase = (\<lambda>w. (ESP_OK, w))\<rparr>"


end
