(* ===== verification/Sentry_Micro.thy ===== *)
theory Sentry_Micro
  imports Sentry_Device Sentry_Coredump_Device Sentry_Metrics Sentry_Throttle Sentry_Dsn Sentry_Buffer
    Sentry_Transport
begin

text \<open>
  The SDK itself, \<open>src/sentry_micro.c\<close>: the one static instance of its state and every function
  of its API. \<open>'w sentry_state\<close> is \<open>g_state\<close>; \<open>'w micro\<close> puts beside it the RTC memory of the device
  layer and the state \<open>'w\<close> of everything outside the program: clock, random numbers, network,
  flash. A function that reads a clock or sends takes and returns the whole. The log ring is a
  pointer into RTC memory or NULL, so the state keeps which, and the ring lives in that memory.
  A transport, a storage and the chip are records of functions over \<open>'w\<close>. The build options are
  those of the shipped configuration, metrics and logs compiled in. The \<open>debug_log\<close> lines only reach
  the logger of the application; those of \<open>sentry_init\<close> and \<open>sentry_set_transport\<close> are in
  \<open>Sentry_Front_End\<close>, the others are not modelled.
\<close>

section \<open>Options and state\<close>

record sentry_options =
  op_dsn :: cptr
  op_release :: cptr
  op_environment :: cptr
  op_board :: cptr
  op_org_id :: cptr
  op_strict_trace_continuation :: bool
  op_build_id :: cptr
  op_image_addr :: u64
  op_image_size :: u64
  op_image_name :: cptr
  op_max_messages_per_minute :: u16
  op_message_repeat_window_ms :: u32
  op_debug :: bool

record 'w sentry_state =
  gs_options :: sentry_options
  gs_dsn :: sentry_dsn
  gs_device :: sentry_device_info
  gs_transport :: "'w sentry_transport option"
  gs_envelope_url :: string
  gs_auth_header :: string
  gs_enabled :: bool
  gs_buffer :: "'w sentry_buffer"
  gs_buffering :: bool
  gs_retry_after_uptime_ms :: u64
  gs_throttle :: sentry_throttle
  gs_trace :: sentry_trace_context
  gs_metrics :: sentry_metrics
  gs_metrics_dropped :: u32
  gs_log_ring :: bool
  gs_logs_dropped :: u32
  gs_logs_truncated :: u32
  gs_crash_trace :: sentry_trace_context

record 'w micro =
  m_state :: "'w sentry_state"
  m_rtc :: rtc_memory
  m_world :: 'w

text \<open>The chip, its core dumps, and what the build defines.\<close>

record 'w platform =
  pf_config :: esp_config
  pf_esp :: "'w esp"
  pf_core_dump :: "'w esp_core_dump"
  SENTRY_BUILD_ID_HEX :: cptr
  SENTRY_IMAGE_ADDR :: "u64 option"
  SENTRY_IMAGE_SIZE :: "u64 option"
  SENTRY_IMAGE_NAME :: cptr

definition options_zero :: sentry_options where
  "options_zero =
     \<lparr>op_dsn = None, op_release = None, op_environment = None, op_board = None, op_org_id = None,
      op_strict_trace_continuation = False, op_build_id = None, op_image_addr = 0, op_image_size = 0,
      op_image_name = None, op_max_messages_per_minute = 0, op_message_repeat_window_ms = 0, op_debug = False\<rparr>"

definition sentry_options_defaults :: "'w platform \<Rightarrow> sentry_options" where
  "sentry_options_defaults p =
     options_zero\<lparr>op_environment := Some ''production'', op_max_messages_per_minute := 10,
       op_message_repeat_window_ms := 10000, op_build_id := SENTRY_BUILD_ID_HEX p,
       op_image_addr := (case SENTRY_IMAGE_ADDR p of Some a \<Rightarrow> a | None \<Rightarrow> 0),
       op_image_size := (case SENTRY_IMAGE_SIZE p of Some n \<Rightarrow> n | None \<Rightarrow> 0),
       op_image_name := (case SENTRY_IMAGE_NAME p of Some s \<Rightarrow> Some s | None \<Rightarrow> Some ''firmware.elf'')\<rparr>"

definition throttle_zero :: sentry_throttle where
  "throttle_zero =
     \<lparr>th_max_per_minute = 0, th_repeat_window_ms = 0, th_window_start_ms = 0, th_sent_in_window = 0,
      th_last_digest = 0, th_last_digest_ms = 0, th_has_last_digest = False, th_suppressed = 0\<rparr>"

definition metrics_zero :: sentry_metrics where
  "metrics_zero = \<lparr>ms_items = replicate SENTRY_MICRO_MAX_METRICS metric_zero, ms_dropped = 0\<rparr>"

definition state_zero :: "'w sentry_state" where
  "state_zero =
     \<lparr>gs_options = options_zero, gs_dsn = dsn_zero, gs_device = device_info_zero, gs_transport = None,
      gs_envelope_url = [], gs_auth_header = [], gs_enabled = False, gs_buffer = buffer_zero,
      gs_buffering = False, gs_retry_after_uptime_ms = 0, gs_throttle = throttle_zero,
      gs_trace = trace_zero, gs_metrics = metrics_zero, gs_metrics_dropped = 0, gs_log_ring = False,
      gs_logs_dropped = 0, gs_logs_truncated = 0, gs_crash_trace = trace_zero\<rparr>"

abbreviation upd :: "('w sentry_state \<Rightarrow> 'w sentry_state) \<Rightarrow> 'w micro \<Rightarrow> 'w micro" where
  "upd f m \<equiv> m\<lparr>m_state := f (m_state m)\<rparr>"

section \<open>Calls to the device layer\<close>

definition uptime_ms :: "'w platform \<Rightarrow> 'w micro \<Rightarrow> u64 \<times> 'w micro" where
  "uptime_ms p m = (case sentry_device_uptime_ms (pf_esp p) (m_world m) of (t, w) \<Rightarrow> (t, m\<lparr>m_world := w\<rparr>))"

definition uptime_us :: "'w platform \<Rightarrow> 'w micro \<Rightarrow> u64 \<times> 'w micro" where
  "uptime_us p m = (case sentry_device_uptime_us (pf_esp p) (m_world m) of (t, w) \<Rightarrow> (t, m\<lparr>m_world := w\<rparr>))"

definition unix_time :: "'w platform \<Rightarrow> 'w micro \<Rightarrow> u64 \<times> 'w micro" where
  "unix_time p m = (case sentry_device_unix_time (pf_esp p) (m_world m) of (t, w) \<Rightarrow> (t, m\<lparr>m_world := w\<rparr>))"

definition unix_time_us :: "'w platform \<Rightarrow> 'w micro \<Rightarrow> u64 \<times> 'w micro" where
  "unix_time_us p m =
     (case sentry_device_unix_time_us (pf_esp p) (m_world m) of (t, w) \<Rightarrow> (t, m\<lparr>m_world := w\<rparr>))"

definition random :: "'w platform \<Rightarrow> nat \<Rightarrow> 'w micro \<Rightarrow> bytes option \<times> 'w micro" where
  "random p len m = (case sentry_device_random (pf_esp p) len (m_world m) of (b, w) \<Rightarrow> (b, m\<lparr>m_world := w\<rparr>))"

text \<open>\<open>sentry_device_trace_persist(&g_state.trace, sizeof(g_state.trace))\<close>.\<close>

definition persist_trace :: "'w platform \<Rightarrow> 'w micro \<Rightarrow> 'w micro" where
  "persist_trace p m =
     m\<lparr>m_rtc := sentry_device_trace_persist (Some (gs_trace (m_state m))) (cf_sizeof_trace (pf_config p)) (m_rtc m)\<rparr>"

text \<open>What \<open>g_state.log_ring\<close> points to, and writing through it.\<close>

definition log_ring :: "'w micro \<Rightarrow> sentry_log_ring option" where
  "log_ring m = (if gs_log_ring (m_state m) then Some (rtb_bytes (g_rtc_block (m_rtc m))) else None)"

definition set_log_ring :: "sentry_log_ring \<Rightarrow> 'w micro \<Rightarrow> 'w micro" where
  "set_log_ring ring m = m\<lparr>m_rtc := (m_rtc m)\<lparr>g_rtc_block := (g_rtc_block (m_rtc m))\<lparr>rtb_bytes := ring\<rparr>\<rparr>\<rparr>"

definition on_log_ring :: "(sentry_log_ring \<Rightarrow> sentry_log_ring) \<Rightarrow> 'w micro \<Rightarrow> 'w micro" where
  "on_log_ring f m = (case log_ring m of Some ring \<Rightarrow> set_log_ring (f ring) m | None \<Rightarrow> m)"

text \<open>An envelope array of the stack, and what is sent of it.\<close>

definition envelope_array :: string where
  "envelope_array = replicate SENTRY_MICRO_ENVELOPE_BUFFER_BYTES NUL"

definition envelope_bytes :: "string option \<Rightarrow> nat \<Rightarrow> bytes" where
  "envelope_bytes buf n = bytes_of (take n (case buf of Some mem \<Rightarrow> mem | None \<Rightarrow> []))"

section \<open>Starting and stopping\<close>

text \<open>The claim on memory that survives a reset.\<close>

definition claim_log_ring :: "'w platform \<Rightarrow> 'w micro \<Rightarrow> 'w micro" where
  "claim_log_ring p m =
     (case sentry_device_persistent_block (cf_sizeof_log_ring (pf_config p))
          (sentry_log_ring_layout_id (cf_sizeof_log_entry (pf_config p)) (cf_sizeof_log_ring (pf_config p)))
          (m_rtc m) of
        (ring_block, logs_recovered, rtc) \<Rightarrow>
          (let m = m\<lparr>m_rtc := rtc\<rparr>
           in if ring_block
              then (let m = upd (gs_log_ring_update (\<lambda>_. True)) m
                    in if \<not> logs_recovered then on_log_ring sentry_log_ring_reset m else m)
              else upd (gs_log_ring_update (\<lambda>_. False)) m))"

definition init_log_ring :: "'w platform \<Rightarrow> 'w micro \<Rightarrow> 'w micro" where
  "init_log_ring p m = on_log_ring (\<lambda>ring. fst (sentry_log_ring_begin_boot ring)) (claim_log_ring p m)"

text \<open>The DSN and what is built from it once; a failure leaves the SDK disabled.\<close>

definition init_dsn :: "cptr \<Rightarrow> 'w micro \<Rightarrow> bool \<times> 'w micro" where
  "init_dsn dsn m =
     (case sentry_dsn_parse dsn of
        (d, ok) \<Rightarrow>
          (let m = upd (gs_dsn_update (\<lambda>_. d)) m
           in if \<not> ok then (False, m)
              else (case sentry_dsn_envelope_url d SENTRY_MICRO_MAX_URL_LEN of
                (url, url_len) \<Rightarrow>
                  (let m = upd (gs_envelope_url_update (\<lambda>_. cptr_text url)) m
                   in if url_len = 0 then (False, upd (gs_dsn_update (\<lambda>_. dsn_zero)) m)
                      else (case sentry_dsn_auth_header d SENTRY_MICRO_MAX_AUTH_LEN of
                        (auth, auth_len) \<Rightarrow>
                          (let m = upd (gs_auth_header_update (\<lambda>_. cptr_text auth)) m
                           in if auth_len = 0 then (False, upd (gs_dsn_update (\<lambda>_. dsn_zero)) m)
                              else (True, m)))))))"

text \<open>
  What this boot recovers of the last one, and the state it starts with. The persisted trace is
  read before it is cleared.
\<close>

definition recover_boot :: "'w platform \<Rightarrow> sentry_options \<Rightarrow> 'w micro \<Rightarrow> 'w micro" where
  "recover_boot p options m =
     (let m = upd (gs_device_update (\<lambda>_. sentry_device_info_get (pf_config p) (pf_esp p) (m_world m))) m;
          m = upd (gs_crash_trace_update (\<lambda>_.
                sentry_device_trace_recover (cf_sizeof_trace (pf_config p)) (m_rtc m))) m;
          m = upd (gs_trace_update sentry_trace_clear) m;
          m = persist_trace p m
      in upd (gs_throttle_update (\<lambda>_. sentry_throttle_init (op_max_messages_per_minute options)
           (op_message_repeat_window_ms options))) m)"

definition init_boot :: "'w platform \<Rightarrow> sentry_options \<Rightarrow> 'w micro \<Rightarrow> 'w micro" where
  "init_boot p options m = upd (gs_enabled_update (\<lambda>_. True)) (init_log_ring p (recover_boot p options m))"

definition sentry_init :: "'w platform \<Rightarrow> sentry_options option \<Rightarrow> 'w micro \<Rightarrow> bool \<times> 'w micro" where
  "sentry_init p options m =
     (let m = m\<lparr>m_state := state_zero\<rparr>
      in case options of
           None \<Rightarrow> (False, m)
         | Some opts \<Rightarrow>
             (let m = upd (gs_options_update (\<lambda>_. opts)) m
              in if op_dsn opts = None \<or> op_dsn opts = Some [] then (False, m)
                 else (case init_dsn (op_dsn opts) m of
                     (False, m) \<Rightarrow> (False, m)
                   | (True, m) \<Rightarrow> (True, init_boot p opts m))))"

definition sentry_close :: "'w micro \<Rightarrow> 'w micro" where
  "sentry_close m = m\<lparr>m_state := state_zero\<rparr>"

section \<open>What the application can ask\<close>

definition sentry_is_enabled :: "'w micro \<Rightarrow> bool" where
  "sentry_is_enabled m = gs_enabled (m_state m)"

definition sentry_sdk_version :: string where
  "sentry_sdk_version = SENTRY_MICRO_SDK_VERSION"

definition sentry_get_dsn :: "'w micro \<Rightarrow> sentry_dsn" where
  "sentry_get_dsn m = gs_dsn (m_state m)"

definition sentry_get_envelope_url :: "'w micro \<Rightarrow> string" where
  "sentry_get_envelope_url m = gs_envelope_url (m_state m)"

definition sentry_get_auth_header :: "'w micro \<Rightarrow> string" where
  "sentry_get_auth_header m = gs_auth_header (m_state m)"

definition sentry_get_org_id :: "'w micro \<Rightarrow> string" where
  "sentry_get_org_id m = sentry_dsn_resolve_org_id (Some (gs_dsn (m_state m))) (op_org_id (gs_options (m_state m)))"

definition sentry_get_device_info :: "'w micro \<Rightarrow> sentry_device_info" where
  "sentry_get_device_info m = gs_device (m_state m)"

definition sentry_get_options :: "'w micro \<Rightarrow> sentry_options" where
  "sentry_get_options m = gs_options (m_state m)"

definition sentry_set_transport :: "'w sentry_transport option \<Rightarrow> 'w micro \<Rightarrow> 'w micro" where
  "sentry_set_transport transport m = upd (gs_transport_update (\<lambda>_. transport)) m"

definition sentry_get_transport :: "'w micro \<Rightarrow> 'w sentry_transport option" where
  "sentry_get_transport m = gs_transport (m_state m)"

section \<open>Delivery\<close>

definition deliver :: "'w platform \<Rightarrow> bytes \<Rightarrow> 'w micro \<Rightarrow> sentry_response \<times> 'w micro" where
  "deliver p envelope m =
     (let headers = \<lparr>sh_auth = Some (gs_auth_header (m_state m)),
            sh_content_type = Some ''application/x-sentry-envelope''\<rparr>
      in case sentry_transport_send (gs_transport (m_state m)) (Some (gs_envelope_url (m_state m)))
             (Some headers) (Some envelope) (m_world m) of
           (response, w) \<Rightarrow>
             (let m = m\<lparr>m_world := w\<rparr>
              in if rs_retry_after_ms response > 0
                 then (case uptime_ms p m of
                     (now, m) \<Rightarrow>
                       (response,
                        upd (gs_retry_after_uptime_ms_update (\<lambda>_. now + ucast (rs_retry_after_ms response))) m))
                 else (response, m)))"

definition in_backoff :: "'w platform \<Rightarrow> 'w micro \<Rightarrow> bool \<times> 'w micro" where
  "in_backoff p m =
     (if gs_retry_after_uptime_ms (m_state m) > 0
      then (case uptime_ms p m of (now, m) \<Rightarrow> (now < gs_retry_after_uptime_ms (m_state m), m))
      else (False, m))"

definition worth_retrying :: "sentry_send_result \<Rightarrow> bool" where
  "worth_retrying result \<longleftrightarrow>
     result = SENTRY_SEND_UNAVAILABLE \<or> result = SENTRY_SEND_ERROR \<or> result = SENTRY_SEND_RATE_LIMITED"

text \<open>The buffer operations on \<open>g_state.buffer\<close>, whose storage is part of the world.\<close>

definition buffer_push :: "bytes \<Rightarrow> 'w micro \<Rightarrow> bool \<times> 'w micro" where
  "buffer_push envelope m =
     (case sentry_buffer_push envelope (m_world m) (gs_buffer (m_state m)) of
        (w, b, ok) \<Rightarrow> (ok, (upd (gs_buffer_update (\<lambda>_. b)) m)\<lparr>m_world := w\<rparr>))"

definition buffer_peek :: "nat \<Rightarrow> 'w micro \<Rightarrow> bytes option \<times> 'w micro" where
  "buffer_peek cap m =
     (case sentry_buffer_peek cap (m_world m) (gs_buffer (m_state m)) of (w, r) \<Rightarrow> (r, m\<lparr>m_world := w\<rparr>))"

definition buffer_pop :: "'w micro \<Rightarrow> 'w micro" where
  "buffer_pop m =
     (case sentry_buffer_pop (m_world m) (gs_buffer (m_state m)) of
        (w, b, _) \<Rightarrow> (upd (gs_buffer_update (\<lambda>_. b)) m)\<lparr>m_world := w\<rparr>)"

definition sentry_send_envelope ::
    "'w platform \<Rightarrow> bytes option \<Rightarrow> 'w micro \<Rightarrow> sentry_response \<times> 'w micro" where
  "sentry_send_envelope p envelope m =
     (if \<not> gs_enabled (m_state m) \<or> envelope = None \<or> envelope = Some []
      then (sentry_response_make SENTRY_SEND_UNAVAILABLE, m)
      else
       (case (case in_backoff p m of
                (True, m) \<Rightarrow> (sentry_response_make SENTRY_SEND_RATE_LIMITED, m)
              | (False, m) \<Rightarrow> deliver p (the envelope) m) of
          (response, m) \<Rightarrow>
            if rs_result response \<noteq> SENTRY_SEND_OK \<and> gs_buffering (m_state m) \<and>
               worth_retrying (rs_result response)
            then (response, snd (buffer_push (the envelope) m))
            else (response, m)))"

section \<open>Traces\<close>

text \<open>Replacing the active trace, and the copy of it that survives a panic.\<close>

definition set_trace :: "'w platform \<Rightarrow> sentry_trace_context \<Rightarrow> 'w micro \<Rightarrow> 'w micro" where
  "set_trace p ctx m = persist_trace p (upd (gs_trace_update (\<lambda>_. ctx)) m)"

definition sentry_trace_adopt :: "'w platform \<Rightarrow> cptr \<Rightarrow> cptr \<Rightarrow> 'w micro \<Rightarrow> bool \<times> 'w micro" where
  "sentry_trace_adopt p sentry_trace baggage m =
     (if \<not> gs_enabled (m_state m) then (False, m)
      else (case random p 8 m of
          (None, m) \<Rightarrow> (False, m)
        | (Some span_bytes, m) \<Rightarrow>
            (case sentry_trace_adopt_header sentry_trace baggage (Some span_bytes) of
               (parsed, False) \<Rightarrow> (False, set_trace p (sentry_trace_clear (gs_trace (m_state m))) m)
             | (parsed, True) \<Rightarrow>
                 if \<not> sentry_trace_can_continue (Some (tc_org_id parsed)) (Some (sentry_get_org_id m))
                        (op_strict_trace_continuation (gs_options (m_state m)))
                 then (case random p 16 m of
                     (None, m) \<Rightarrow> (False, set_trace p (sentry_trace_clear (gs_trace (m_state m))) m)
                   | (Some trace_bytes, m) \<Rightarrow>
                       (True, set_trace p (sentry_trace_begin trace_bytes span_bytes True) m))
                 else (True, set_trace p parsed m))))"

definition sentry_trace_start :: "'w platform \<Rightarrow> 'w micro \<Rightarrow> bool \<times> 'w micro" where
  "sentry_trace_start p m =
     (if \<not> gs_enabled (m_state m) then (False, m)
      else (case random p 16 m of
          (None, m) \<Rightarrow> (False, m)
        | (Some trace_bytes, m) \<Rightarrow>
            (case random p 8 m of
               (None, m) \<Rightarrow> (False, m)
             | (Some span_bytes, m) \<Rightarrow>
                 (True, set_trace p (sentry_trace_begin trace_bytes span_bytes True) m))))"

definition sentry_trace_release :: "'w platform \<Rightarrow> 'w micro \<Rightarrow> 'w micro" where
  "sentry_trace_release p m = set_trace p (sentry_trace_clear (gs_trace (m_state m))) m"

definition sentry_trace_current :: "'w micro \<Rightarrow> sentry_trace_context" where
  "sentry_trace_current m = gs_trace (m_state m)"

definition sentry_trace_header :: "string option \<Rightarrow> nat \<Rightarrow> 'w micro \<Rightarrow> string option \<times> nat" where
  "sentry_trace_header buf cap m = sentry_trace_header_write buf cap (gs_trace (m_state m))"

section \<open>Recording metrics and logs\<close>

definition sentry_metric_count :: "cptr \<Rightarrow> i64 \<Rightarrow> cptr \<Rightarrow> 'w micro \<Rightarrow> 'w micro" where
  "sentry_metric_count name delta unit m =
     (if gs_enabled (m_state m)
      then (case sentry_metrics_count name delta unit (gs_metrics (m_state m)) of
          (metrics, ok) \<Rightarrow>
            (let m = upd (gs_metrics_update (\<lambda>_. metrics)) m
             in if \<not> ok then upd (gs_metrics_dropped_update (\<lambda>n. n + 1)) m else m))
      else m)"

definition sentry_metric_gauge :: "cptr \<Rightarrow> i64 \<Rightarrow> cptr \<Rightarrow> 'w micro \<Rightarrow> 'w micro" where
  "sentry_metric_gauge name value unit m =
     (if gs_enabled (m_state m)
      then (case sentry_metrics_gauge name value unit (gs_metrics (m_state m)) of
          (metrics, ok) \<Rightarrow>
            (let m = upd (gs_metrics_update (\<lambda>_. metrics)) m
             in if \<not> ok then upd (gs_metrics_dropped_update (\<lambda>n. n + 1)) m else m))
      else m)"

definition sentry_metrics_dropped_count :: "'w micro \<Rightarrow> u32" where
  "sentry_metrics_dropped_count m = gs_metrics_dropped (m_state m)"

definition count_logs_dropped :: "u32 \<Rightarrow> 'w micro \<Rightarrow> 'w micro" where
  "count_logs_dropped lost m =
     upd (gs_logs_dropped_update (\<lambda>n. if 0xFFFFFFFF - n < lost then 0xFFFFFFFF else n + lost)) m"

text \<open>
  \<open>vsnprintf\<close> with the arguments of a call: \<open>Inr\<close> the text the format expands to, or \<open>Inl\<close>
  what an output error leaves in \<open>body\<close>.
\<close>

type_synonym format_args = "string \<Rightarrow> string + string"

definition sentry_log :: "'w platform \<Rightarrow> sentry_level \<Rightarrow> cptr \<Rightarrow> format_args \<Rightarrow> 'w micro \<Rightarrow> 'w micro" where
  "sentry_log p level message expand m =
     (if \<not> gs_enabled (m_state m) then m
      else (case message of
          None \<Rightarrow> m
        | Some fmt \<Rightarrow>
           (let (body, truncated) =
                  (case expand fmt of
                     Inl left \<Rightarrow> (snprintf_content SENTRY_MICRO_LOG_BODY_LEN left, True)
                   | Inr text \<Rightarrow> (snprintf_content SENTRY_MICRO_LOG_BODY_LEN text,
                                  length text \<ge> SENTRY_MICRO_LOG_BODY_LEN));
                m = (if truncated \<and> gs_logs_truncated (m_state m) < 0xFFFFFFFF
                     then upd (gs_logs_truncated_update (\<lambda>n. n + 1)) m else m);
                trace = gs_trace (m_state m);
                (now, m) = uptime_us p m
            in case log_ring m of
                 None \<Rightarrow> m
               | Some ring \<Rightarrow>
                   (case sentry_log_ring_push level (Some (if tc_active trace then tc_trace_id trace else []))
                           now (Some body) truncated ring of
                      (ring, evicted) \<Rightarrow>
                        (let m = set_log_ring ring m
                         in if evicted then count_logs_dropped 1 m else m)))))"

definition sentry_logs_dropped_count :: "'w micro \<Rightarrow> u32" where
  "sentry_logs_dropped_count m = gs_logs_dropped (m_state m)"

definition sentry_logs_truncated_count :: "'w micro \<Rightarrow> u32" where
  "sentry_logs_truncated_count m = gs_logs_truncated (m_state m)"

section \<open>Sending what was recorded\<close>

definition available :: "'w micro \<Rightarrow> bool \<times> 'w micro" where
  "available m =
     (case sentry_transport_is_available (gs_transport (m_state m)) (m_world m) of
        (yes, w) \<Rightarrow> (yes, m\<lparr>m_world := w\<rparr>))"

text \<open>A batch that is gone: counted, and cleared from the ring.\<close>

definition drop_logs :: "sentry_log_ring \<Rightarrow> 'w micro \<Rightarrow> 'w micro" where
  "drop_logs ring m = set_log_ring (sentry_log_ring_clear ring) (count_logs_dropped (ucast (lr_count ring)) m)"

text \<open>What \<open>flush_logs\<close> does with the answer to a batch that was sent.\<close>

definition settle_logs :: "sentry_log_ring \<Rightarrow> sentry_response \<Rightarrow> 'w micro \<Rightarrow> 'w micro" where
  "settle_logs ring response m =
     (if rs_result response = SENTRY_SEND_OK then set_log_ring (sentry_log_ring_clear ring) m
      else if worth_retrying (rs_result response) then m
      else drop_logs ring m)"

definition flush_logs :: "'w platform \<Rightarrow> 'w micro \<Rightarrow> 'w micro" where
  "flush_logs p m =
     (if sentry_log_ring_empty (log_ring m) then m
      else
       (let (now_unix_us, m) = unix_time_us p m;
            (anchor_uptime_us, m) = uptime_us p m;
            m = on_log_ring (sentry_log_ring_set_anchor now_unix_us anchor_uptime_us) m;
            (route, m) = available m
        in if \<not> route then m
           else if now_unix_us = 0 then m
           else
            (let (trace_bytes, m) = random p 16 m;
                 fallback_trace_id = (case trace_bytes of Some b \<Rightarrow> sentry_trace_id_format b | None \<Rightarrow> [])
             in if fallback_trace_id = [] then m
                else
                 (let (now_uptime_us, m) = uptime_us p m;
                      (envelope, needed) =
                        sentry_log_envelope_write (Some envelope_array) SENTRY_MICRO_ENVELOPE_BUFFER_BYTES
                          (log_ring m) (Some fallback_trace_id) (Some (di_device_id (gs_device (m_state m))))
                          now_uptime_us now_unix_us;
                      ring = the (log_ring m)
                  in if needed = 0 \<or> needed \<ge> SENTRY_MICRO_ENVELOPE_BUFFER_BYTES then drop_logs ring m
                     else (case deliver p (envelope_bytes envelope needed) m of
                         (response, m) \<Rightarrow> settle_logs ring response m)))))"

definition settle_metrics :: "sentry_response \<Rightarrow> 'w micro \<Rightarrow> 'w micro" where
  "settle_metrics response m =
     (if rs_result response = SENTRY_SEND_OK then upd (gs_metrics_update sentry_metrics_reset) m
      else if worth_retrying (rs_result response) then m
      else upd (gs_metrics_update sentry_metrics_reset) m)"

text \<open>\<open>if (!g_state.trace.active && !sentry_trace_start())\<close>: whether there is a trace now.\<close>

definition ensure_trace :: "'w platform \<Rightarrow> 'w micro \<Rightarrow> bool \<times> 'w micro" where
  "ensure_trace p m = (if tc_active (gs_trace (m_state m)) then (True, m) else sentry_trace_start p m)"

definition flush_metrics :: "'w platform \<Rightarrow> 'w micro \<Rightarrow> 'w micro" where
  "flush_metrics p m =
     (if sentry_metrics_empty (Some (gs_metrics (m_state m))) then m
      else
       (let (route, m) = available m
        in if \<not> route then m
           else
            (let (traced, m) = ensure_trace p m
             in if \<not> traced then m
                else
                 (let (now_unix_us, m) = unix_time_us p m
                  in if now_unix_us = 0 then m
                     else
                      (let (envelope, needed) =
                             sentry_metrics_envelope_write (Some envelope_array) SENTRY_MICRO_ENVELOPE_BUFFER_BYTES
                               (Some (gs_metrics (m_state m))) (Some (tc_trace_id (gs_trace (m_state m)))) now_unix_us
                       in if needed = 0 \<or> needed \<ge> SENTRY_MICRO_ENVELOPE_BUFFER_BYTES
                          then upd (gs_metrics_update sentry_metrics_reset) m
                          else (case deliver p (envelope_bytes envelope needed) m of
                              (response, m) \<Rightarrow> settle_metrics response m))))))"

section \<open>Transactions\<close>

text \<open>A transaction pointer is NULL or what it points to, before and after the call.\<close>

definition sentry_transaction_start ::
    "'w platform \<Rightarrow> sentry_transaction option \<Rightarrow> cptr \<Rightarrow> cptr \<Rightarrow> 'w micro \<Rightarrow>
     bool \<times> sentry_transaction option \<times> 'w micro" where
  "sentry_transaction_start p txn name op m =
     (if \<not> gs_enabled (m_state m) \<or> txn = None then (False, txn, m)
      else (case ensure_trace p m of
          (False, m) \<Rightarrow> (False, txn, m)
        | (True, m) \<Rightarrow>
            (let trace = gs_trace (m_state m)
             in if tc_has_sampling_decision trace \<and> \<not> tc_sampled trace then (False, txn, m)
                else (case uptime_us p m of
                    (now, m) \<Rightarrow> (True, Some (sentry_transaction_begin (Some trace) name op now), m)))))"

definition sentry_transaction_start_child ::
    "'w platform \<Rightarrow> sentry_transaction option \<Rightarrow> cptr \<Rightarrow> cptr \<Rightarrow> 'w micro \<Rightarrow>
     nat option \<times> sentry_transaction option \<times> 'w micro" where
  "sentry_transaction_start_child p txn op description m =
     (case txn of
        None \<Rightarrow> (None, txn, m)
      | Some t \<Rightarrow>
          if \<not> gs_enabled (m_state m) then (None, txn, m)
          else (case random p 8 m of
              (None, m) \<Rightarrow> (None, txn, m)
            | (Some span_bytes, m) \<Rightarrow>
                (case uptime_us p m of
                   (now, m) \<Rightarrow>
                     (case sentry_span_open op description (Some span_bytes) now t of
                        (t, span) \<Rightarrow> (span, Some t, m)))))"

definition sentry_span_finish ::
    "'w platform \<Rightarrow> nat option \<Rightarrow> sentry_transaction \<Rightarrow> 'w micro \<Rightarrow> sentry_transaction \<times> 'w micro" where
  "sentry_span_finish p span txn m =
     (case uptime_us p m of (now, m) \<Rightarrow> (update_span span (sentry_span_close now) txn, m))"

definition sentry_span_set_attribute ::
    "nat option \<Rightarrow> cptr \<Rightarrow> i64 \<Rightarrow> sentry_transaction \<Rightarrow> sentry_transaction" where
  "sentry_span_set_attribute span key value txn = update_span span (sentry_span_set_number key value) txn"

definition transaction_meta :: "string \<Rightarrow> 'w micro \<Rightarrow> sentry_transaction_meta" where
  "transaction_meta event_id m =
     \<lparr>tm_event_id = Some event_id, tm_release = op_release (gs_options (m_state m)),
      tm_environment = op_environment (gs_options (m_state m)),
      tm_board = op_board (gs_options (m_state m)), tm_device = Some (gs_device (m_state m))\<rparr>"

definition sentry_transaction_finish ::
    "'w platform \<Rightarrow> sentry_transaction option \<Rightarrow> 'w micro \<Rightarrow>
     sentry_response \<times> sentry_transaction option \<times> 'w micro" where
  "sentry_transaction_finish p txn m =
     (case txn of
        None \<Rightarrow> (sentry_response_make SENTRY_SEND_UNAVAILABLE, None, m)
      | Some t \<Rightarrow>
          if \<not> gs_enabled (m_state m) \<or> \<not> tx_active t
          then (sentry_response_make SENTRY_SEND_UNAVAILABLE, txn, m)
          else
           (let (now_uptime_us, m) = uptime_us p m;
                (now_unix_us, m) = unix_time_us p m;
                (t, dated) = sentry_transaction_end_at now_uptime_us now_unix_us t
            in if \<not> dated then (sentry_response_make SENTRY_SEND_UNAVAILABLE, Some t, m)
               else (case random p 16 m of
                   (None, m) \<Rightarrow> (sentry_response_make SENTRY_SEND_UNAVAILABLE, Some t, m)
                 | (Some random_bytes, m) \<Rightarrow>
                    (case sentry_transaction_envelope_write (Some t)
                            (Some (transaction_meta (sentry_event_id_format random_bytes) m))
                            (Some envelope_array) SENTRY_MICRO_ENVELOPE_BUFFER_BYTES of
                       (envelope, needed) \<Rightarrow>
                         if needed = 0 \<or> needed \<ge> SENTRY_MICRO_ENVELOPE_BUFFER_BYTES
                         then (sentry_response_make SENTRY_SEND_REJECTED, Some t, m)
                         else (case sentry_send_envelope p (Some (envelope_bytes envelope needed)) m of
                             (response, m) \<Rightarrow> (response, Some t, m))))))"

section \<open>Events\<close>

definition event_zero :: sentry_event where
  "event_zero =
     \<lparr>ev_event_id = None, ev_level = SENTRY_LEVEL_DEBUG, ev_message = None, ev_release = None,
      ev_environment = None, ev_board = None, ev_timestamp = 0, ev_device = None, ev_build_id = None,
      ev_coredump = None, ev_image_addr = 0, ev_image_size = 0, ev_image_name = None, ev_trace = None,
      ev_free_heap_bytes = 0, ev_min_free_heap_bytes = 0, ev_uptime_ms = 0\<rparr>"

text \<open>The fields copied from the state; the id buffer is what the event's id points to.\<close>

definition event_from_state :: "string \<Rightarrow> 'w sentry_state \<Rightarrow> sentry_event" where
  "event_from_state event_id st =
     event_zero\<lparr>ev_event_id := Some event_id, ev_level := SENTRY_LEVEL_ERROR,
       ev_release := op_release (gs_options st), ev_environment := op_environment (gs_options st),
       ev_board := op_board (gs_options st), ev_device := Some (gs_device st),
       ev_build_id := op_build_id (gs_options st), ev_image_addr := op_image_addr (gs_options st),
       ev_image_size := op_image_size (gs_options st), ev_image_name := op_image_name (gs_options st),
       ev_trace := (if tc_active (gs_trace st) then Some (gs_trace st) else None)\<rparr>"

text \<open>For an event and an id buffer that are not NULL: what the event is left as.\<close>

definition sentry_event_prepare :: "'w platform \<Rightarrow> 'w micro \<Rightarrow> bool \<times> sentry_event \<times> 'w micro" where
  "sentry_event_prepare p m =
     (if \<not> gs_enabled (m_state m) then (False, event_zero, m)
      else (case random p 16 m of
          (None, m) \<Rightarrow> (False, event_zero, m)
        | (Some random_bytes, m) \<Rightarrow>
            (let event = event_from_state (sentry_event_id_format random_bytes) (m_state m);
                 (timestamp, m) = unix_time p m;
                 event = event\<lparr>ev_timestamp := timestamp,
                   ev_free_heap_bytes := sentry_device_free_heap (pf_esp p) (m_world m),
                   ev_min_free_heap_bytes := sentry_device_min_free_heap (pf_esp p) (m_world m)\<rparr>;
                 (uptime, m) = uptime_ms p m
             in (True, event\<lparr>ev_uptime_ms := uptime\<rparr>, m))))"

text \<open>The storage is filled in only once the guards are passed; the event last of all.\<close>

definition sentry_event_attach_coredump ::
    "'w platform \<Rightarrow> sentry_event option \<Rightarrow> sentry_coredump option \<Rightarrow> 'w micro \<Rightarrow>
     bool \<times> sentry_event option \<times> sentry_coredump option" where
  "sentry_event_attach_coredump p event storage m =
     (case (event, storage) of
        (Some ev, Some _) \<Rightarrow>
          if \<not> gs_enabled (m_state m) then (False, event, storage)
          else (case sentry_coredump_read (pf_core_dump p) (m_world m) of
              (dump, ok) \<Rightarrow>
                if \<not> ok \<or> \<not> cd_available dump then (False, event, Some dump)
                else
                 (True,
                  Some (ev\<lparr>ev_coredump := Some dump, ev_level := SENTRY_LEVEL_FATAL,
                    ev_trace := (if tc_active (gs_crash_trace (m_state m))
                                 then Some (gs_crash_trace (m_state m)) else None)\<rparr>),
                  Some dump))
      | _ \<Rightarrow> (False, event, storage))"

text \<open>The event of a message that the throttle let through, and its delivery.\<close>

definition capture_event ::
    "'w platform \<Rightarrow> sentry_level \<Rightarrow> cptr \<Rightarrow> 'w micro \<Rightarrow> sentry_response \<times> 'w micro" where
  "capture_event p level message m =
     (case sentry_event_prepare p m of
        (False, _, m) \<Rightarrow> (sentry_response_make SENTRY_SEND_UNAVAILABLE, m)
      | (True, event, m) \<Rightarrow>
          (case sentry_envelope_write (Some (event\<lparr>ev_level := level, ev_message := message\<rparr>))
                  (Some envelope_array) SENTRY_MICRO_ENVELOPE_BUFFER_BYTES of
             (envelope, needed) \<Rightarrow>
               if needed = 0 \<or> needed \<ge> SENTRY_MICRO_ENVELOPE_BUFFER_BYTES
               then (sentry_response_make SENTRY_SEND_REJECTED, m)
               else
                (let (response, m) = sentry_send_envelope p (Some (envelope_bytes envelope needed)) m;
                     (now, m) = uptime_ms p m
                 in (response, upd (gs_throttle_update (sentry_throttle_settle now)) m))))"

definition sentry_capture_message ::
    "'w platform \<Rightarrow> sentry_level \<Rightarrow> cptr \<Rightarrow> 'w micro \<Rightarrow> sentry_response \<times> 'w micro" where
  "sentry_capture_message p level message m =
     (if \<not> gs_enabled (m_state m) then (sentry_response_make SENTRY_SEND_UNAVAILABLE, m)
      else
       (let (now, m) = uptime_ms p m;
            (throttle, allowed) = sentry_throttle_allow level message now (gs_throttle (m_state m));
            m = upd (gs_throttle_update (\<lambda>_. throttle)) m
        in if \<not> allowed then (sentry_response_make SENTRY_SEND_RATE_LIMITED, m)
           else capture_event p level message m))"

definition sentry_suppressed_count :: "'w micro \<Rightarrow> u32" where
  "sentry_suppressed_count m = sentry_throttle_suppressed (gs_throttle (m_state m))"

section \<open>Offline buffering\<close>

definition sentry_enable_buffering :: "'w sentry_storage option \<Rightarrow> 'w micro \<Rightarrow> bool \<times> 'w micro" where
  "sentry_enable_buffering storage m =
     (case sentry_buffer_init storage (m_world m) of
        (w, b, ok) \<Rightarrow>
          (ok, (upd (gs_buffer_update (\<lambda>_. b) \<circ> gs_buffering_update (\<lambda>_. ok)) m)\<lparr>m_world := w\<rparr>))"

definition sentry_buffered_count :: "'w micro \<Rightarrow> u32" where
  "sentry_buffered_count m =
     (if gs_buffering (m_state m) then sentry_buffer_count (gs_buffer (m_state m)) else 0)"

definition sentry_dropped_count :: "'w micro \<Rightarrow> u32" where
  "sentry_dropped_count m =
     (if gs_buffering (m_state m) then sentry_buffer_dropped (gs_buffer (m_state m)) else 0)"

text \<open>
  The loop of \<open>sentry_flush\<close>: \<open>None\<close> is a loop that never returns, which a buffer with a count
  but no storage would be.
\<close>

partial_function (option) flush_loop :: "'w platform \<Rightarrow> u32 \<Rightarrow> u32 \<Rightarrow> 'w micro \<Rightarrow> (u32 \<times> 'w micro) option" where
  "flush_loop p max_events delivered m =
     (if delivered < max_events \<and> sentry_buffer_count (gs_buffer (m_state m)) > 0
      then (case buffer_peek SENTRY_MICRO_ENVELOPE_BUFFER_BYTES m of
          (peeked, m) \<Rightarrow>
            (case peeked of
               None \<Rightarrow> flush_loop p max_events delivered (buffer_pop m)
             | Some envelope \<Rightarrow>
                 (case deliver p envelope m of
                    (response, m) \<Rightarrow>
                      if rs_result response = SENTRY_SEND_OK
                      then flush_loop p max_events (delivered + 1) (buffer_pop m)
                      else if \<not> worth_retrying (rs_result response)
                      then flush_loop p max_events delivered (buffer_pop m)
                      else Some (delivered, m))))
      else Some (delivered, m))"

declare flush_loop.simps [code]

definition sentry_flush :: "'w platform \<Rightarrow> u32 \<Rightarrow> 'w micro \<Rightarrow> (u32 \<times> 'w micro) option" where
  "sentry_flush p max_events m =
     (if \<not> gs_enabled (m_state m) then Some (0, m)
      else (case in_backoff p m of
          (True, m) \<Rightarrow> Some (0, m)
        | (False, m) \<Rightarrow>
            (let m = flush_logs p (flush_metrics p m)
             in if \<not> gs_buffering (m_state m) then Some (0, m) else flush_loop p max_events 0 m)))"

end
