(* ===== verification/Sentry_Micro_Invariant.thy ===== *)
theory Sentry_Micro_Invariant
  imports Sentry_Micro
begin

text \<open>
  What holds of the SDK at every moment. Each API function is a sequence of elementary updates
  of the state (\<open>micro_update\<close>), so an invariant is proved once for those and holds for every
  function. \<open>api_step\<close> is a call of a running SDK or the passing of time, \<open>device_step\<close> also an
  \<open>sentry_init\<close>, a \<open>sentry_close\<close> or a reset that leaves only the RTC memory.
\<close>

section \<open>Well-formedness\<close>

definition buffer_wf :: "'w sentry_buffer \<Rightarrow> bool" where
  "buffer_wf b \<longleftrightarrow> (sb_storage b = None \<longrightarrow> sb_count b = 0)"

text \<open>A DSN that was accepted, with the URL and the header built from it in their arrays.\<close>

definition requests_wf :: "'w sentry_state \<Rightarrow> bool" where
  "requests_wf st \<longleftrightarrow> dsn_ok (gs_dsn st) \<and>
     sentry_dsn_envelope_url (gs_dsn st) SENTRY_MICRO_MAX_URL_LEN =
       (Some (gs_envelope_url st), length (gs_envelope_url st)) \<and>
     sentry_dsn_auth_header (gs_dsn st) SENTRY_MICRO_MAX_AUTH_LEN =
       (Some (gs_auth_header st), length (gs_auth_header st)) \<and>
     0 < length (gs_envelope_url st) \<and> length (gs_envelope_url st) < SENTRY_MICRO_MAX_URL_LEN \<and>
     0 < length (gs_auth_header st) \<and> length (gs_auth_header st) < SENTRY_MICRO_MAX_AUTH_LEN"

definition state_wf :: "'w sentry_state \<Rightarrow> bool" where
  "state_wf st \<longleftrightarrow> trace_wf (gs_trace st) \<and> trace_wf (gs_crash_trace st) \<and> metrics_wf (gs_metrics st) \<and>
     throttle_ok (gs_throttle st) \<and> buffer_wf (gs_buffer st) \<and>
     (gs_buffering st \<longrightarrow> sb_storage (gs_buffer st) \<noteq> None) \<and>
     (gs_enabled st \<longrightarrow> requests_wf st)"

text \<open>
  RTC memory is noise after a power-on; it is trusted only where its magic numbers and lengths
  match, and then it holds what the SDK last stored.
\<close>

definition layout_of :: "'w platform \<Rightarrow> u32" where
  "layout_of p = sentry_log_ring_layout_id (cf_sizeof_log_entry (pf_config p)) (cf_sizeof_log_ring (pf_config p))"

definition rtc_wf :: "'w platform \<Rightarrow> rtc_memory \<Rightarrow> bool" where
  "rtc_wf p rtc \<longleftrightarrow>
     trace_wf (sentry_device_trace_recover (cf_sizeof_trace (pf_config p)) rtc) \<and>
     (rtb_magic (g_rtc_block rtc) = SENTRY_RTC_BLOCK_MAGIC \<and> rtb_layout_id (g_rtc_block rtc) = layout_of p \<and>
      rtb_len (g_rtc_block rtc) = of_nat (cf_sizeof_log_ring (pf_config p)) \<longrightarrow> log_wf (rtb_bytes (g_rtc_block rtc)))"

definition micro_wf :: "'w platform \<Rightarrow> 'w micro \<Rightarrow> bool" where
  "micro_wf p m \<longleftrightarrow> state_wf (m_state m) \<and> rtc_wf p (m_rtc m) \<and> (\<forall>ring. log_ring m = Some ring \<longrightarrow> log_wf ring)"

section \<open>Elementary updates\<close>

inductive micro_update :: "'w platform \<Rightarrow> 'w micro \<Rightarrow> 'w micro \<Rightarrow> bool" for p where
  world: "micro_update p m (m\<lparr>m_world := w\<rparr>)"
| transport: "micro_update p m (upd (gs_transport_update f) m)"
| retry_after: "micro_update p m (upd (gs_retry_after_uptime_ms_update f) m)"
| buffer: "(buffer_wf (gs_buffer (m_state m)) \<Longrightarrow> buffer_wf b) \<Longrightarrow>
    sb_storage b = sb_storage (gs_buffer (m_state m)) \<Longrightarrow> micro_update p m (upd (gs_buffer_update (\<lambda>_. b)) m)"
| buffering: "buffer_wf b \<Longrightarrow> (on \<Longrightarrow> sb_storage b \<noteq> None) \<Longrightarrow>
    micro_update p m (upd (gs_buffer_update (\<lambda>_. b) \<circ> gs_buffering_update (\<lambda>_. on)) m)"
| trace: "trace_wf t \<Longrightarrow> micro_update p m (set_trace p t m)"
| metrics: "(metrics_wf (gs_metrics (m_state m)) \<Longrightarrow> metrics_wf (f (gs_metrics (m_state m)))) \<Longrightarrow>
    micro_update p m (upd (gs_metrics_update f) m)"
| metrics_dropped: "micro_update p m (upd (gs_metrics_dropped_update f) m)"
| logs_dropped: "micro_update p m (upd (gs_logs_dropped_update f) m)"
| logs_truncated: "micro_update p m (upd (gs_logs_truncated_update f) m)"
| throttle: "(throttle_ok (gs_throttle (m_state m)) \<Longrightarrow> throttle_ok (f (gs_throttle (m_state m)))) \<Longrightarrow>
    micro_update p m (upd (gs_throttle_update f) m)"
| ring: "log_ring m \<noteq> None \<Longrightarrow> (log_wf (the (log_ring m)) \<Longrightarrow> log_wf r) \<Longrightarrow> micro_update p m (set_log_ring r m)"

abbreviation updates :: "'w platform \<Rightarrow> 'w micro \<Rightarrow> 'w micro \<Rightarrow> bool" where
  "updates p \<equiv> (micro_update p)\<^sup>*\<^sup>*"

lemma update_then: "updates p a m \<Longrightarrow> micro_update p m m' \<Longrightarrow> updates p a m'"
  by (rule rtranclp.rtrancl_into_rtrancl)

named_theorems update_intros

lemma updates_clock [update_intros]:
  assumes "updates p a m"
  shows "updates p a (snd (uptime_ms p m))" "updates p a (snd (uptime_us p m))"
    "updates p a (snd (unix_time p m))" "updates p a (snd (unix_time_us p m))"
    "updates p a (snd (random p n m))" "updates p a (snd (available m))"
    "updates p a (snd (buffer_peek cap m))"
  unfolding uptime_ms_def uptime_us_def unix_time_def unix_time_us_def random_def available_def buffer_peek_def
  using assms by (auto simp: case_prod_beta intro: update_then world)

lemma updates_plain [update_intros]:
  assumes "updates p a m"
  shows "updates p a (m\<lparr>m_world := w\<rparr>)" "updates p a (upd (gs_transport_update ft) m)"
    "updates p a (upd (gs_retry_after_uptime_ms_update fr) m)"
    "updates p a (upd (gs_metrics_dropped_update fm) m)" "updates p a (upd (gs_logs_truncated_update fl) m)"
    "updates p a (count_logs_dropped lost m)" "trace_wf t \<Longrightarrow> updates p a (set_trace p t m)"
  unfolding count_logs_dropped_def
  by (rule update_then [OF assms], rule micro_update.intros; assumption?)+

text \<open>The components' operations keep the components' invariants.\<close>

lemma buffer_wf_ops:
  assumes "buffer_wf b"
  shows "buffer_wf (fst (snd (sentry_buffer_push e w b)))" "buffer_wf (fst (snd (sentry_buffer_pop w b)))"
    "buffer_wf (fst (snd (sentry_buffer_init st w)))"
  using assms
  by (auto simp: buffer_wf_def sentry_buffer_push_def sentry_buffer_pop_def sentry_buffer_init_def buffer_evict_def
      buffer_zero_def storage_usable_def Let_def case_prod_beta split: option.splits if_splits)

lemma buffer_storage_ops:
  "sb_storage (fst (snd (sentry_buffer_push e w b))) = sb_storage b"
  "sb_storage (fst (snd (sentry_buffer_pop w b))) = sb_storage b"
  "snd (snd (sentry_buffer_init st w)) \<Longrightarrow> sb_storage (fst (snd (sentry_buffer_init st w))) \<noteq> None"
  by (auto simp: sentry_buffer_push_def sentry_buffer_pop_def sentry_buffer_init_def buffer_evict_def
      storage_usable_def buffer_zero_def Let_def case_prod_beta split: option.splits if_splits)

lemma throttle_ok_allow: "throttle_ok th \<Longrightarrow> throttle_ok (fst (sentry_throttle_allow level message now th))"
  using inc_le [of "th_sent_in_window th" "th_max_per_minute th"] inc_le [of 0 "th_max_per_minute th"]
  by (auto simp: throttle_ok_def sentry_throttle_allow_def Let_def not_le)

lemma throttle_ok_settle: "throttle_ok th \<Longrightarrow> throttle_ok (sentry_throttle_settle now th)"
  by (simp add: throttle_ok_def sentry_throttle_settle_def)

lemma metrics_wf_record:
  assumes "metrics_wf ms"
  shows "metrics_wf (fst (sentry_metrics_count name delta unit ms))"
    "metrics_wf (fst (sentry_metrics_gauge name value unit ms))" "metrics_wf (sentry_metrics_reset ms)"
proof -
  show "metrics_wf (sentry_metrics_reset ms)" using metrics_reset_empty by blast
  show "metrics_wf (fst (sentry_metrics_count name delta unit ms))"
    using assms metric_put_map [OF assms]
    by (cases name) (simp_all add: metric_put_calls(1), simp add: sentry_metrics_count_def)
  show "metrics_wf (fst (sentry_metrics_gauge name value unit ms))"
    using assms metric_put_map [OF assms]
    by (cases name) (simp_all add: metric_put_calls(2), simp add: sentry_metrics_gauge_def)
qed

lemma log_wf_ops:
  assumes "log_wf ring"
  shows "log_wf (sentry_log_ring_clear ring)" "log_wf (fst (sentry_log_ring_begin_boot ring))"
    "log_wf (sentry_log_ring_set_anchor at_unix at_uptime ring)"
    "log_wf (fst (sentry_log_ring_push level trace_id now body truncated ring))"
proof -
  show "log_wf (sentry_log_ring_clear ring)"
    by (simp add: sentry_log_ring_clear_def log_wf_def log_slots_def SENTRY_MICRO_MAX_LOGS_def)
  show "log_wf (fst (sentry_log_ring_begin_boot ring))"
    using assms log_slots_clock(2) [of ring]
    by (simp add: log_wf_def) (simp add: sentry_log_ring_begin_boot_def)
  show "log_wf (sentry_log_ring_set_anchor at_unix at_uptime ring)"
    using assms by (simp add: sentry_log_ring_set_anchor_def log_wf_def)
  show "log_wf (fst (sentry_log_ring_push level trace_id now body truncated ring))"
    using assms log_wf_push [OF assms] by (cases body) (simp_all add: sentry_log_ring_push_def)
qed

lemma log_wf_reset: "log_wf (sentry_log_ring_reset ring)"
  using log_refines_reset by (simp add: log_refines_def)

section \<open>Every function is a sequence of updates\<close>

lemma updates_components [update_intros]:
  assumes "updates p a m"
  shows "updates p a (buffer_pop m)" "updates p a (snd (buffer_push e m))"
    "updates p a (snd (sentry_enable_buffering st m))"
    "updates p a (upd (gs_metrics_update sentry_metrics_reset) m)"
    "updates p a (upd (gs_metrics_update (\<lambda>_. fst (sentry_metrics_count name delta unit (gs_metrics (m_state m))))) m)"
    "updates p a (upd (gs_metrics_update (\<lambda>_. fst (sentry_metrics_gauge name delta unit (gs_metrics (m_state m))))) m)"
    "updates p a (upd (gs_throttle_update (sentry_throttle_settle now)) m)"
    "updates p a (upd (gs_throttle_update (\<lambda>_. fst (sentry_throttle_allow l msg now (gs_throttle (m_state m))))) m)"
proof -
  show "updates p a (buffer_pop m)"
    unfolding buffer_pop_def case_prod_beta
    by (intro updates_plain update_then [OF assms] micro_update.buffer buffer_wf_ops buffer_storage_ops)
  show "updates p a (snd (buffer_push e m))"
    unfolding buffer_push_def case_prod_beta snd_conv
    by (intro updates_plain update_then [OF assms] micro_update.buffer buffer_wf_ops buffer_storage_ops)
  have "buffer_wf (fst (snd (sentry_buffer_init st (m_world m))))"
    by (rule buffer_wf_ops(3) [of buffer_zero]) (simp add: buffer_wf_def buffer_zero_def)
  then show "updates p a (snd (sentry_enable_buffering st m))"
    unfolding sentry_enable_buffering_def case_prod_beta snd_conv
    by (intro updates_plain update_then [OF assms] micro_update.buffering buffer_storage_ops)
qed (rule update_then [OF assms], rule micro_update.metrics micro_update.throttle,
    erule metrics_wf_record throttle_ok_settle throttle_ok_allow)+

lemma updates_ring [update_intros]:
  "updates p a m \<Longrightarrow> log_ring m = Some r \<Longrightarrow> (log_wf r \<Longrightarrow> log_wf r') \<Longrightarrow> updates p a (set_log_ring r' m)"
  by (rule update_then, assumption, rule micro_update.ring) auto

lemma updates_if [update_intros]:
  "(c \<Longrightarrow> updates p a x) \<Longrightarrow> (\<not> c \<Longrightarrow> updates p a y) \<Longrightarrow> updates p a (if c then x else y)"
  by simp

lemma updates_on_ring [update_intros]:
  assumes "updates p a m" and "\<And>r. log_wf r \<Longrightarrow> log_wf (f r)"
  shows "updates p a (on_log_ring f m)"
  unfolding on_log_ring_def using assms by (auto intro: updates_ring split: option.split)

text \<open>Functions of several steps: the last state of each is reached by updates.\<close>

lemma updates_deliver [update_intros]: "updates p a m \<Longrightarrow> updates p a (snd (deliver p e m))"
  unfolding deliver_def Let_def case_prod_beta
  by (auto intro!: update_intros)

lemma updates_backoff [update_intros]: "updates p a m \<Longrightarrow> updates p a (snd (in_backoff p m))"
  unfolding in_backoff_def case_prod_beta
  by (auto intro!: update_intros)

lemma updates_send [update_intros]: "updates p a m \<Longrightarrow> updates p a (snd (sentry_send_envelope p e m))"
  unfolding sentry_send_envelope_def case_prod_beta bool.case_eq_if
  by (auto intro!: update_intros)

lemma updates_trace [update_intros]:
  assumes "updates p a m"
  shows "updates p a (snd (sentry_trace_start p m))" "updates p a (sentry_trace_release p m)"
    "updates p a (snd (sentry_trace_adopt p header baggage m))" "updates p a (snd (ensure_trace p m))"
proof -
  show "updates p a (snd (sentry_trace_start p m))"
    unfolding sentry_trace_start_def case_prod_beta using assms
    by (auto intro!: update_intros trace_wf_begin split: option.split)
  then show "updates p a (snd (ensure_trace p m))"
    unfolding ensure_trace_def using assms by simp
  show "updates p a (sentry_trace_release p m)"
    unfolding sentry_trace_release_def sentry_trace_clear_def using assms
    by (auto intro!: update_intros)
  show "updates p a (snd (sentry_trace_adopt p header baggage m))"
    unfolding sentry_trace_adopt_def case_prod_beta bool.case_eq_if sentry_trace_clear_def using assms
    by (auto intro!: update_intros trace_wf_begin trace_wf_adopt_header split: option.split)
qed

lemma updates_record [update_intros]:
  assumes "updates p a m"
  shows "updates p a (sentry_metric_count name delta unit m)" "updates p a (sentry_metric_gauge name delta unit m)"
    "updates p a (sentry_log p level msg args m)"
proof -
  show "updates p a (sentry_metric_count name delta unit m)"
    unfolding sentry_metric_count_def case_prod_beta Let_def using assms by (intro update_intros)
  show "updates p a (sentry_metric_gauge name delta unit m)"
    unfolding sentry_metric_gauge_def case_prod_beta Let_def using assms by (intro update_intros)
  show "updates p a (sentry_log p level msg args m)"
    unfolding sentry_log_def case_prod_beta Let_def using assms
    by (auto intro!: update_intros log_wf_ops split: option.split)
qed

lemma log_ring_simps [simp]:
  "log_ring (m\<lparr>m_world := w\<rparr>) = log_ring m"
  "log_ring (count_logs_dropped lost m) = log_ring m"
  "gs_log_ring (m_state m) \<Longrightarrow> log_ring (set_log_ring r m) = Some r"
  by (simp_all add: log_ring_def set_log_ring_def count_logs_dropped_def)

lemma updates_drop_logs [update_intros]:
  "updates p a m \<Longrightarrow> log_ring m = Some r \<Longrightarrow> updates p a (drop_logs r m)"
  unfolding drop_logs_def by (auto intro: updates_ring updates_plain log_wf_ops(1))

lemma updates_settle_logs [update_intros]:
  "updates p a m \<Longrightarrow> log_ring m = Some r \<Longrightarrow> updates p a (settle_logs r response m)"
  unfolding settle_logs_def by (auto intro: updates_ring updates_drop_logs log_wf_ops(1))

lemma log_ring_world [simp]:
  "log_ring (snd (uptime_us p m)) = log_ring m" "log_ring (snd (unix_time_us p m)) = log_ring m"
  "log_ring (snd (uptime_ms p m)) = log_ring m" "log_ring (snd (random p n m)) = log_ring m"
  "log_ring (snd (available m)) = log_ring m" "log_ring (snd (deliver p e m)) = log_ring m"
  "log_ring (on_log_ring f m) = map_option f (log_ring m)"
  by (auto simp: log_ring_def uptime_us_def unix_time_us_def uptime_ms_def random_def available_def deliver_def
      on_log_ring_def set_log_ring_def Let_def case_prod_beta)

lemma updates_flush_logs [update_intros]: "updates p a m \<Longrightarrow> updates p a (flush_logs p m)"
proof (cases "log_ring m")
  case (Some r)
  moreover assume "updates p a m"
  ultimately show ?thesis
    unfolding flush_logs_def case_prod_beta Let_def
    by (auto intro!: update_intros log_wf_ops)
qed (simp add: flush_logs_def sentry_log_ring_empty_def)

lemma updates_flush_metrics [update_intros]: "updates p a m \<Longrightarrow> updates p a (flush_metrics p m)"
  unfolding flush_metrics_def settle_metrics_def case_prod_beta Let_def
  by (auto intro!: update_intros)

lemma updates_transaction [update_intros]:
  assumes "updates p a m"
  shows "updates p a (snd (snd (sentry_transaction_start p txn name op m)))"
    "updates p a (snd (snd (sentry_transaction_start_child p txn op descr m)))"
    "updates p a (snd (sentry_span_finish p span t m))"
    "updates p a (snd (snd (sentry_transaction_finish p txn m)))"
proof -
  show "updates p a (snd (snd (sentry_transaction_start p txn name op m)))"
    unfolding sentry_transaction_start_def case_prod_beta bool.case_eq_if Let_def using assms
    by (auto intro!: update_intros)
  show "updates p a (snd (snd (sentry_transaction_start_child p txn op descr m)))"
    unfolding sentry_transaction_start_child_def case_prod_beta using assms
    by (auto intro!: update_intros split: option.split)
  show "updates p a (snd (sentry_span_finish p span t m))"
    unfolding sentry_span_finish_def case_prod_beta using assms by (auto intro!: update_intros)
  show "updates p a (snd (snd (sentry_transaction_finish p txn m)))"
    unfolding sentry_transaction_finish_def case_prod_beta Let_def using assms
    by (auto intro!: update_intros split: option.split)
qed

lemma updates_capture [update_intros]:
  assumes "updates p a m"
  shows "updates p a (snd (snd (sentry_event_prepare p m)))" "updates p a (snd (capture_event p level msg m))"
    "updates p a (snd (sentry_capture_message p level msg m))"
proof -
  have prepare: "updates p a (snd (snd (sentry_event_prepare p m)))" if "updates p a m" for m
    unfolding sentry_event_prepare_def case_prod_beta Let_def using that
    by (auto intro!: update_intros split: option.split)
  have capture: "updates p a (snd (capture_event p level msg m))" if "updates p a m" for m
    unfolding capture_event_def case_prod_beta bool.case_eq_if Let_def using that
    by (auto intro!: update_intros prepare)
  show "updates p a (snd (snd (sentry_event_prepare p m)))" by (rule prepare [OF assms])
  show "updates p a (snd (capture_event p level msg m))" by (rule capture [OF assms])
  show "updates p a (snd (sentry_capture_message p level msg m))"
    unfolding sentry_capture_message_def case_prod_beta Let_def using assms
    by (auto intro!: update_intros capture)
qed

lemmas flush_loop_induct = flush_loop.raw_induct [rotated, consumes 1, case_names round]

lemma updates_flush_loop:
  "flush_loop p n d m = Some r \<Longrightarrow> updates p a m \<Longrightarrow> updates p a (snd r)"
proof (induction rule: flush_loop_induct)
  case (round loop p n d m r)
  show ?case
  proof (cases "d < n \<and> 0 < sentry_buffer_count (gs_buffer (m_state m))")
    case True
    then show ?thesis
      using round(2,3)
      by (auto simp: case_prod_beta split: option.splits if_splits elim!: round(1) intro!: update_intros)
  qed (use round(2,3) in auto)
qed

lemma updates_flush:
  "sentry_flush p n m = Some r \<Longrightarrow> updates p a m \<Longrightarrow> updates p a (snd r)"
  unfolding sentry_flush_def case_prod_beta bool.case_eq_if Let_def
  by (auto split: if_splits intro!: update_intros elim!: updates_flush_loop)

section \<open>Starting\<close>

lemma init_dsn_accepted:
  assumes "sentry_dsn_parse (Some s) = (d, True)"
  shows "\<exists>url auth. sentry_dsn_envelope_url d SENTRY_MICRO_MAX_URL_LEN = (Some url, length url) \<and>
    sentry_dsn_auth_header d SENTRY_MICRO_MAX_AUTH_LEN = (Some auth, length auth) \<and>
    0 < length url \<and> length url < SENTRY_MICRO_MAX_URL_LEN \<and>
    0 < length auth \<and> length auth < SENTRY_MICRO_MAX_AUTH_LEN \<and> dsn_ok d \<and>
    init_dsn (Some s) m = (True, upd (gs_auth_header_update (\<lambda>_. auth) \<circ>
      gs_envelope_url_update (\<lambda>_. url) \<circ> gs_dsn_update (\<lambda>_. d)) m)"
proof -
  from dsn_requests_built [OF assms] obtain url auth where
    u: "sentry_dsn_envelope_url d SENTRY_MICRO_MAX_URL_LEN = (Some url, length url)"
    and a: "sentry_dsn_auth_header d SENTRY_MICRO_MAX_AUTH_LEN = (Some auth, length auth)"
    and len: "0 < length url" "length url < SENTRY_MICRO_MAX_URL_LEN" "0 < length auth"
      "length auth < SENTRY_MICRO_MAX_AUTH_LEN" by blast
  have "init_dsn (Some s) m = (True, upd (gs_auth_header_update (\<lambda>_. auth) \<circ>
      gs_envelope_url_update (\<lambda>_. url) \<circ> gs_dsn_update (\<lambda>_. d)) m)"
    using len by (simp add: init_dsn_def assms u a cptr_text_def)
  with u a len parse_ok [OF assms] show ?thesis by blast
qed

lemma init_dsn_refused:
  "sentry_dsn_parse dsn = (d, False) \<Longrightarrow> init_dsn dsn m = (False, upd (gs_dsn_update (\<lambda>_. d)) m)"
  by (simp add: init_dsn_def)

lemma parse_refuses_nothing: "\<not> snd (sentry_dsn_parse None)" "\<not> snd (sentry_dsn_parse (Some []))"
  by (simp_all add: sentry_dsn_parse_def)

text \<open>The two outcomes of \<open>sentry_init\<close>.\<close>

lemma init_cases:
  fixes p :: "'w platform" and m
  obtains (refused) o' d where "\<And>opts. options = Some opts \<Longrightarrow> \<not> snd (sentry_dsn_parse (op_dsn opts))"
    "sentry_init p options m = (False, m\<lparr>m_state := state_zero\<lparr>gs_options := o', gs_dsn := d\<rparr>\<rparr>)"
  | (accepted) opts s d url auth where "options = Some opts" "op_dsn opts = Some s"
    "sentry_dsn_parse (Some s) = (d, True)"
    "requests_wf (state_zero\<lparr>gs_options := opts, gs_dsn := d, gs_envelope_url := url, gs_auth_header := auth\<rparr>
       :: 'w sentry_state)"
    "sentry_init p options m = (True, init_boot p opts (m\<lparr>m_state :=
       state_zero\<lparr>gs_options := opts, gs_dsn := d, gs_envelope_url := url, gs_auth_header := auth\<rparr>\<rparr>))"
proof (cases options)
  case None
  then have "sentry_init p options m = (False, m\<lparr>m_state := state_zero\<lparr>gs_options := options_zero, gs_dsn := dsn_zero\<rparr>\<rparr>)"
    by (simp add: sentry_init_def state_zero_def)
  with None show ?thesis by (intro refused) simp_all
next
  case (Some opts)
  show ?thesis
  proof (cases "snd (sentry_dsn_parse (op_dsn opts))")
    case True
    then obtain s d where s: "op_dsn opts = Some s" "s \<noteq> []" and d: "sentry_dsn_parse (Some s) = (d, True)"
      using parse_refuses_nothing by (cases "op_dsn opts") (auto simp: prod_eq_iff)
    let ?m = "m\<lparr>m_state := state_zero\<lparr>gs_options := opts\<rparr>\<rparr>"
    from init_dsn_accepted [OF d, of ?m] obtain url auth where
      u: "sentry_dsn_envelope_url d SENTRY_MICRO_MAX_URL_LEN = (Some url, length url)"
      and a: "sentry_dsn_auth_header d SENTRY_MICRO_MAX_AUTH_LEN = (Some auth, length auth)"
      and len: "0 < length url" "length url < SENTRY_MICRO_MAX_URL_LEN" "0 < length auth"
        "length auth < SENTRY_MICRO_MAX_AUTH_LEN" "dsn_ok d"
      and i: "init_dsn (Some s) ?m = (True, upd (gs_auth_header_update (\<lambda>_. auth) \<circ>
        gs_envelope_url_update (\<lambda>_. url) \<circ> gs_dsn_update (\<lambda>_. d)) ?m)" by blast
    let ?st = "state_zero\<lparr>gs_options := opts, gs_dsn := d, gs_envelope_url := url, gs_auth_header := auth\<rparr>
      :: 'w sentry_state"
    have "requests_wf ?st" using u a len by (simp add: requests_wf_def)
    moreover have "sentry_init p options m = (True, init_boot p opts (m\<lparr>m_state := ?st\<rparr>))"
      using Some s i by (simp add: sentry_init_def Let_def)
    ultimately show ?thesis by (rule accepted [OF Some s(1) d])
  next
    case False
    obtain d where d: "d = (if op_dsn opts = None \<or> op_dsn opts = Some [] then dsn_zero
        else fst (sentry_dsn_parse (op_dsn opts)))" by simp
    have "sentry_dsn_parse (op_dsn opts) = (fst (sentry_dsn_parse (op_dsn opts)), False)"
      using False by (simp add: prod_eq_iff)
    then have "sentry_init p options m = (False, m\<lparr>m_state := state_zero\<lparr>gs_options := opts, gs_dsn := d\<rparr>\<rparr>)"
      using Some d by (auto simp: sentry_init_def Let_def init_dsn_refused) (simp_all add: state_zero_def)
    with False Some show ?thesis by (intro refused) simp_all
  qed
qed

text \<open>What \<open>init_log_ring\<close> claims, and that it holds a well-formed ring.\<close>

definition ring_claimed :: "'w platform \<Rightarrow> 'w micro \<Rightarrow> bool" where
  "ring_claimed p m \<longleftrightarrow> (gs_log_ring (m_state m) \<longrightarrow>
     0 < cf_sizeof_log_ring (pf_config p) \<and> cf_sizeof_log_ring (pf_config p) \<le> SENTRY_RTC_BLOCK_CAP \<and>
     rtb_magic (g_rtc_block (m_rtc m)) = SENTRY_RTC_BLOCK_MAGIC \<and>
     rtb_layout_id (g_rtc_block (m_rtc m)) = layout_of p \<and>
     rtb_len (g_rtc_block (m_rtc m)) = of_nat (cf_sizeof_log_ring (pf_config p)))"

lemma persist_rtc [simp]:
  "g_rtc_block (m_rtc (persist_trace p m)) = g_rtc_block (m_rtc m)" "m_state (persist_trace p m) = m_state m"
  "m_world (persist_trace p m) = m_world m"
  by (auto simp: persist_trace_def sentry_device_trace_persist_def)

lemma recover_persisted:
  "sentry_device_trace_recover (cf_sizeof_trace (pf_config p)) (m_rtc (persist_trace p m)) =
     (if 0 < cf_sizeof_trace (pf_config p) \<and> cf_sizeof_trace (pf_config p) \<le> SENTRY_RTC_TRACE_CAP
      then gs_trace (m_state m) else trace_zero)"
  using trace_recover_persist [of "cf_sizeof_trace (pf_config p)" "gs_trace (m_state m)" "m_rtc m"]
  by (auto simp: persist_trace_def)
    (simp_all add: sentry_device_trace_persist_def sentry_device_trace_recover_def SENTRY_RTC_TRACE_MAGIC_def)

lemma recover_block [simp]:
  "sentry_device_trace_recover n (rtc\<lparr>g_rtc_block := b\<rparr>) = sentry_device_trace_recover n rtc"
  by (simp add: sentry_device_trace_recover_def)

text \<open>What \<open>init_log_ring\<close> does to the memory.\<close>

definition init_log_rtc :: "'w platform \<Rightarrow> rtc_memory \<Rightarrow> rtc_memory" where
  "init_log_rtc p rtc =
     (case sentry_device_persistent_block (cf_sizeof_log_ring (pf_config p)) (layout_of p) rtc of
        (found, recovered, rtc') \<Rightarrow>
          if found then
            (let ring = (if recovered then rtb_bytes (g_rtc_block rtc')
                   else sentry_log_ring_reset (rtb_bytes (g_rtc_block rtc')))
             in rtc'\<lparr>g_rtc_block := (g_rtc_block rtc')\<lparr>rtb_bytes := fst (sentry_log_ring_begin_boot ring)\<rparr>\<rparr>)
          else rtc')"

lemma init_log_ring_rtc: "m_rtc (init_log_ring p m) = init_log_rtc p (m_rtc m)"
  by (cases "sentry_device_persistent_block (cf_sizeof_log_ring (pf_config p)) (layout_of p) (m_rtc m)")
    (simp add: init_log_ring_def claim_log_ring_def layout_of_def [symmetric] init_log_rtc_def Let_def on_log_ring_def log_ring_def
      set_log_ring_def)

lemma init_log_ring_frame:
  "m_state (init_log_ring p m) = (m_state m)\<lparr>gs_log_ring := fst (sentry_device_persistent_block
     (cf_sizeof_log_ring (pf_config p)) (layout_of p) (m_rtc m))\<rparr>"
  "m_world (init_log_ring p m) = m_world m" "g_rtc_trace (m_rtc (init_log_ring p m)) = g_rtc_trace (m_rtc m)"
  by (auto simp: init_log_ring_def claim_log_ring_def layout_of_def sentry_device_persistent_block_def Let_def on_log_ring_def
      log_ring_def set_log_ring_def)

lemma init_log_ring_claims: "ring_claimed p (init_log_ring p m)"
  by (auto simp: ring_claimed_def init_log_ring_def claim_log_ring_def layout_of_def sentry_device_persistent_block_def Let_def
      on_log_ring_def log_ring_def set_log_ring_def)

lemma init_log_ring_wf:
  assumes "rtc_wf p (m_rtc m)"
  shows "rtc_wf p (m_rtc (init_log_ring p m))"
    "log_ring (init_log_ring p m) = Some r \<Longrightarrow> log_wf r"
proof -
  have t: "sentry_device_trace_recover n (m_rtc (init_log_ring p m)) = sentry_device_trace_recover n (m_rtc m)" for n
    by (simp add: sentry_device_trace_recover_def init_log_ring_frame)
  show "rtc_wf p (m_rtc (init_log_ring p m))"
    using assms log_wf_ops(2) log_wf_reset unfolding rtc_wf_def t
    by (auto simp: init_log_ring_def claim_log_ring_def layout_of_def sentry_device_persistent_block_def Let_def
      on_log_ring_def log_ring_def set_log_ring_def)
  then show "log_wf r" if "log_ring (init_log_ring p m) = Some r"
    using that init_log_ring_claims [of p m]
    by (auto simp: rtc_wf_def log_ring_def ring_claimed_def split: if_splits)
qed

section \<open>Steps\<close>

text \<open>A call that uses the storage and the transport there are, and the other calls of a running SDK.\<close>

inductive sdk_call :: "'w platform \<Rightarrow> 'w micro \<Rightarrow> 'w micro \<Rightarrow> bool" for p where
  set_transport: "sdk_call p m (sentry_set_transport t m)"
| send_envelope: "sentry_send_envelope p e m = (r, m') \<Longrightarrow> sdk_call p m m'"
| trace_adopt: "sentry_trace_adopt p header baggage m = (ok, m') \<Longrightarrow> sdk_call p m m'"
| trace_start: "sentry_trace_start p m = (ok, m') \<Longrightarrow> sdk_call p m m'"
| trace_release: "sdk_call p m (sentry_trace_release p m)"
| metric_count: "sdk_call p m (sentry_metric_count name delta unit m)"
| metric_gauge: "sdk_call p m (sentry_metric_gauge name val unit m)"
| log_line: "sdk_call p m (sentry_log p level message args m)"
| transaction_start: "sentry_transaction_start p txn name op m = (ok, txn', m') \<Longrightarrow> sdk_call p m m'"
| start_child: "sentry_transaction_start_child p txn op descr m = (span, txn', m') \<Longrightarrow> sdk_call p m m'"
| span_finish: "sentry_span_finish p span t m = (t', m') \<Longrightarrow> sdk_call p m m'"
| transaction_finish: "sentry_transaction_finish p txn m = (r, txn', m') \<Longrightarrow> sdk_call p m m'"
| capture_message: "sentry_capture_message p level msg m = (r, m') \<Longrightarrow> sdk_call p m m'"
| event_prepare: "sentry_event_prepare p m = (ok, event, m') \<Longrightarrow> sdk_call p m m'"
| flush: "sentry_flush p n m = Some (k, m') \<Longrightarrow> sdk_call p m m'"

inductive api_step :: "'w platform \<Rightarrow> 'w micro \<Rightarrow> 'w micro \<Rightarrow> bool" for p where
  call: "sdk_call p m m' \<Longrightarrow> api_step p m m'"
| time_passes: "api_step p m (m\<lparr>m_world := w\<rparr>)"
| enable_buffering: "sentry_enable_buffering storage m = (ok, m') \<Longrightarrow> api_step p m m'"

inductive device_step :: "'w platform \<Rightarrow> 'w micro \<Rightarrow> 'w micro \<Rightarrow> bool" for p where
  call: "api_step p m m' \<Longrightarrow> device_step p m m'"
| init: "sentry_init p options m = (ok, m') \<Longrightarrow> device_step p m m'"
| close: "device_step p m (sentry_close m)"
| reset: "device_step p m (m\<lparr>m_state := state_zero, m_world := w\<rparr>)"

text \<open>A device at power-on: zeroed RAM, and whatever the RTC memory holds.\<close>

definition power_on :: "rtc_memory \<Rightarrow> 'w \<Rightarrow> 'w micro" where
  "power_on rtc w = \<lparr>m_state = state_zero, m_rtc = rtc, m_world = w\<rparr>"

lemma sdk_call_updates: "sdk_call p m m' \<Longrightarrow> updates p m m'"
proof (induction rule: sdk_call.induct)
  case (flush n m k m')
  from updates_flush [OF flush.hyps rtranclp.rtrancl_refl] show ?case by simp
qed (metis sentry_set_transport_def snd_conv rtranclp.rtrancl_refl updates_plain(2) updates_send
    updates_trace updates_record updates_transaction updates_capture)+

lemma api_step_updates: "api_step p m m' \<Longrightarrow> updates p m m'"
proof (induction rule: api_step.induct)
  case (enable_buffering storage m ok m')
  with updates_components(3) [OF rtranclp.rtrancl_refl, of p m storage] show ?case by simp
qed (auto intro: sdk_call_updates updates_plain(1))

section \<open>Invariants\<close>

lemma set_trace_simps [simp]:
  "m_state (set_trace p t m) = (m_state m)\<lparr>gs_trace := t\<rparr>" "log_ring (set_trace p t m) = log_ring m"
  "g_rtc_block (m_rtc (set_trace p t m)) = g_rtc_block (m_rtc m)"
  by (simp_all add: set_trace_def log_ring_def)

lemma recover_set_trace:
  "sentry_device_trace_recover (cf_sizeof_trace (pf_config p)) (m_rtc (set_trace p t m)) =
     (if 0 < cf_sizeof_trace (pf_config p) \<and> cf_sizeof_trace (pf_config p) \<le> SENTRY_RTC_TRACE_CAP
      then t else trace_zero)"
  unfolding set_trace_def recover_persisted by simp

lemma set_log_ring_simps [simp]:
  "m_state (set_log_ring r m) = m_state m"
  "sentry_device_trace_recover n (m_rtc (set_log_ring r m)) = sentry_device_trace_recover n (m_rtc m)"
  "rtb_magic (g_rtc_block (m_rtc (set_log_ring r m))) = rtb_magic (g_rtc_block (m_rtc m))"
  "rtb_layout_id (g_rtc_block (m_rtc (set_log_ring r m))) = rtb_layout_id (g_rtc_block (m_rtc m))"
  "rtb_len (g_rtc_block (m_rtc (set_log_ring r m))) = rtb_len (g_rtc_block (m_rtc m))"
  "rtb_bytes (g_rtc_block (m_rtc (set_log_ring r m))) = r"
  by (simp_all add: set_log_ring_def)

lemma log_ring_state: "log_ring m = Some r \<longleftrightarrow> gs_log_ring (m_state m) \<and> r = rtb_bytes (g_rtc_block (m_rtc m))"
  by (auto simp: log_ring_def)

lemma update_wf: "micro_update p m m' \<Longrightarrow> micro_wf p m \<Longrightarrow> micro_wf p m'"
proof (induction rule: micro_update.induct)
  case (trace t m)
  then show ?case
    by (auto simp: micro_wf_def state_wf_def rtc_wf_def recover_set_trace requests_wf_def)
next
  case (ring m r)
  then have "log_wf r" by (auto simp: micro_wf_def)
  with ring.prems show ?case by (simp add: micro_wf_def rtc_wf_def log_ring_state)
qed (auto simp: micro_wf_def state_wf_def log_ring_def requests_wf_def)

text \<open>The persisted trace is the active one, while the SDK is enabled.\<close>

definition trace_persisted :: "'w platform \<Rightarrow> 'w micro \<Rightarrow> bool" where
  "trace_persisted p m \<longleftrightarrow> (gs_enabled (m_state m) \<longrightarrow>
     sentry_device_trace_recover (cf_sizeof_trace (pf_config p)) (m_rtc m) = gs_trace (m_state m))"

definition trace_fits :: "'w platform \<Rightarrow> bool" where
  "trace_fits p \<longleftrightarrow> 0 < cf_sizeof_trace (pf_config p) \<and> cf_sizeof_trace (pf_config p) \<le> SENTRY_RTC_TRACE_CAP"

lemma update_frame:
  assumes "micro_update p m m'"
  shows "gs_enabled (m_state m') = gs_enabled (m_state m)" "gs_crash_trace (m_state m') = gs_crash_trace (m_state m)"
    "gs_options (m_state m') = gs_options (m_state m)" "gs_log_ring (m_state m') = gs_log_ring (m_state m)"
    "ring_claimed p m \<Longrightarrow> ring_claimed p m'"
    "trace_fits p \<Longrightarrow> trace_persisted p m \<Longrightarrow> trace_persisted p m'"
  using assms
  by (induction rule: micro_update.induct)
    (auto simp: ring_claimed_def trace_persisted_def trace_fits_def recover_set_trace)

lemma updates_frame:
  assumes "updates p m m'"
  shows "gs_enabled (m_state m') = gs_enabled (m_state m) \<and> gs_crash_trace (m_state m') = gs_crash_trace (m_state m) \<and>
    gs_options (m_state m') = gs_options (m_state m) \<and> gs_log_ring (m_state m') = gs_log_ring (m_state m) \<and>
    (micro_wf p m \<longrightarrow> micro_wf p m') \<and> (ring_claimed p m \<longrightarrow> ring_claimed p m') \<and>
    (trace_fits p \<longrightarrow> trace_persisted p m \<longrightarrow> trace_persisted p m')"
  using assms
proof (induction rule: rtranclp_induct)
  case (step y z)
  then show ?case using update_frame [OF step.hyps(2)] update_wf [OF step.hyps(2)] by simp
qed simp

lemma state_zero_wf [simp]: "state_wf state_zero"
proof -
  have "metrics_wf metrics_zero"
    using metrics_reset_empty [of metrics_zero] by (simp add: metrics_zero_def sentry_metrics_reset_def)
  then show ?thesis
    by (simp add: state_wf_def state_zero_def throttle_ok_def throttle_zero_def buffer_wf_def buffer_zero_def)
qed

lemma init_boot_state:
  "m_state (init_boot p opts m) = (m_state m)\<lparr>gs_enabled := True,
     gs_device := sentry_device_info_get (pf_config p) (pf_esp p) (m_world m),
     gs_crash_trace := sentry_device_trace_recover (cf_sizeof_trace (pf_config p)) (m_rtc m),
     gs_trace := trace_zero,
     gs_throttle := sentry_throttle_init (op_max_messages_per_minute opts) (op_message_repeat_window_ms opts),
     gs_log_ring := fst (sentry_device_persistent_block (cf_sizeof_log_ring (pf_config p)) (layout_of p) (m_rtc m))\<rparr>"
  "m_world (init_boot p opts m) = m_world m"
  by (simp_all add: init_boot_def recover_boot_def Let_def init_log_ring_frame sentry_trace_clear_def sentry_device_persistent_block_def)

lemma init_boot_rtc:
  "m_rtc (init_boot p opts m) =
     init_log_rtc p (sentry_device_trace_persist (Some trace_zero) (cf_sizeof_trace (pf_config p)) (m_rtc m))"
  by (simp add: init_boot_def recover_boot_def Let_def sentry_trace_clear_def init_log_ring_rtc persist_trace_def)

lemma zero_simps [simp]:
  "\<not> gs_enabled state_zero" "\<not> gs_log_ring state_zero" "gs_trace state_zero = trace_zero"
  "gs_crash_trace state_zero = trace_zero" "\<not> gs_buffering state_zero"
  by (simp_all add: state_zero_def)

definition device_ok :: "'w platform \<Rightarrow> 'w micro \<Rightarrow> bool" where
  "device_ok p m \<longleftrightarrow> micro_wf p m \<and> ring_claimed p m \<and> (trace_fits p \<longrightarrow> trace_persisted p m)"

lemma rtc_wf_persist_zero:
  assumes "rtc_wf p rtc"
  shows "rtc_wf p (sentry_device_trace_persist (Some trace_zero) (cf_sizeof_trace (pf_config p)) rtc)"
    "0 < cf_sizeof_trace (pf_config p) \<Longrightarrow> cf_sizeof_trace (pf_config p) \<le> SENTRY_RTC_TRACE_CAP \<Longrightarrow>
     sentry_device_trace_recover (cf_sizeof_trace (pf_config p))
       (sentry_device_trace_persist (Some trace_zero) (cf_sizeof_trace (pf_config p)) rtc) = trace_zero"
proof -
  show "rtc_wf p (sentry_device_trace_persist (Some trace_zero) (cf_sizeof_trace (pf_config p)) rtc)"
    using assms by (auto simp: rtc_wf_def sentry_device_trace_persist_def sentry_device_trace_recover_def
        SENTRY_RTC_TRACE_MAGIC_def)
qed (rule trace_recover_persist)

lemma recover_init_log_rtc [simp]:
  "sentry_device_trace_recover n (init_log_rtc p rtc) = sentry_device_trace_recover n rtc"
  using init_log_ring_frame(3) [of p "power_on rtc undefined"] init_log_ring_rtc [of p "power_on rtc undefined"]
  by (simp add: sentry_device_trace_recover_def power_on_def)

lemma block_found: "fst (sentry_device_persistent_block n i rtc) \<longleftrightarrow> 0 < n \<and> n \<le> SENTRY_RTC_BLOCK_CAP"
  by (auto simp: sentry_device_persistent_block_def Let_def)

lemma init_boot_ok:
  assumes "rtc_wf p (m_rtc m)" and "state_wf (m_state m)" and "requests_wf (m_state m)"
  shows "device_ok p (init_boot p opts m)"
proof -
  define m0 where "m0 = persist_trace p (upd (gs_trace_update (\<lambda>_. trace_zero)) m)"
  have r: "m_rtc m0 = sentry_device_trace_persist (Some trace_zero) (cf_sizeof_trace (pf_config p)) (m_rtc m)"
    by (simp add: m0_def persist_trace_def)
  have rtc: "rtc_wf p (m_rtc m0)" unfolding r by (rule rtc_wf_persist_zero(1) [OF assms(1)])
  have same: "m_rtc (init_boot p opts m) = m_rtc (init_log_ring p m0)"
    by (simp add: init_boot_rtc init_log_ring_rtc r)
  have on: "gs_log_ring (m_state (init_boot p opts m)) = gs_log_ring (m_state (init_log_ring p m0))"
    by (simp add: init_boot_state init_log_ring_frame block_found)
  then have ring: "log_ring (init_boot p opts m) = log_ring (init_log_ring p m0)"
    by (simp add: log_ring_def same)
  have "state_wf (m_state (init_boot p opts m))"
    using assms throttle_init_ok
    by (auto simp: init_boot_state state_wf_def requests_wf_def rtc_wf_def)
  then have "micro_wf p (init_boot p opts m)"
    using init_log_ring_wf [OF rtc] by (simp add: micro_wf_def same ring)
  moreover have "ring_claimed p (init_boot p opts m)"
    using init_log_ring_claims [of p m0] by (simp add: ring_claimed_def same on)
  moreover have "trace_fits p \<Longrightarrow> trace_persisted p (init_boot p opts m)"
    using rtc_wf_persist_zero(2) [OF assms(1)]
    by (simp add: trace_persisted_def trace_fits_def init_boot_rtc init_boot_state)
  ultimately show ?thesis by (simp add: device_ok_def)
qed

lemma idle_ok:
  "rtc_wf p (m_rtc m) \<Longrightarrow> state_wf (m_state m) \<Longrightarrow> \<not> gs_enabled (m_state m) \<Longrightarrow> \<not> gs_log_ring (m_state m) \<Longrightarrow>
     device_ok p m"
  by (simp add: device_ok_def micro_wf_def ring_claimed_def trace_persisted_def log_ring_def)

lemma init_state_wf:
  "state_wf (state_zero\<lparr>gs_options := opts, gs_dsn := d\<rparr>)"
  "state_wf (state_zero\<lparr>gs_options := opts, gs_dsn := d, gs_envelope_url := url, gs_auth_header := auth\<rparr>)"
  using state_zero_wf by (simp_all add: state_wf_def del: state_zero_wf)

lemma device_step_ok: "device_step p m m' \<Longrightarrow> device_ok p m \<Longrightarrow> device_ok p m'"
proof (induction rule: device_step.induct)
  case (call m m')
  then show ?case using updates_frame [OF api_step_updates [OF call.hyps]] by (simp add: device_ok_def)
next
  case (init options m ok m')
  have rtc: "rtc_wf p (m_rtc m)" using init.prems by (simp add: device_ok_def micro_wf_def)
  show ?case
  proof (cases rule: init_cases [of options p m])
    case (refused o' d)
    with init.hyps have m': "m' = m\<lparr>m_state := state_zero\<lparr>gs_options := o', gs_dsn := d\<rparr>\<rparr>" by simp
    show ?thesis unfolding m' by (rule idle_ok) (use rtc init_state_wf in simp_all)
  next
    case (accepted opts s d url auth)
    with init.hyps have m': "m' = init_boot p opts (m\<lparr>m_state := state_zero\<lparr>gs_options := opts, gs_dsn := d,
      gs_envelope_url := url, gs_auth_header := auth\<rparr>\<rparr>)" by simp
    show ?thesis unfolding m' by (rule init_boot_ok) (use rtc init_state_wf accepted(4) in simp_all)
  qed
next
  case (close m)
  then show ?case by (intro idle_ok) (simp_all add: sentry_close_def device_ok_def micro_wf_def)
next
  case (reset m w)
  then show ?case by (intro idle_ok) (simp_all add: device_ok_def micro_wf_def)
qed

abbreviation device_runs :: "'w platform \<Rightarrow> 'w micro \<Rightarrow> 'w micro \<Rightarrow> bool" where
  "device_runs p \<equiv> (device_step p)\<^sup>*\<^sup>*"

abbreviation api_runs :: "'w platform \<Rightarrow> 'w micro \<Rightarrow> 'w micro \<Rightarrow> bool" where
  "api_runs p \<equiv> (api_step p)\<^sup>*\<^sup>*"

lemma device_runs_ok: "device_runs p m m' \<Longrightarrow> device_ok p m \<Longrightarrow> device_ok p m'"
  by (induction rule: rtranclp_induct) (auto intro: device_step_ok)

lemma power_on_ok: "rtc_wf p rtc \<Longrightarrow> device_ok p (power_on rtc w)"
  by (rule idle_ok) (simp_all add: power_on_def)

lemma api_runs_updates: "api_runs p m m' \<Longrightarrow> updates p m m'"
  by (induction rule: rtranclp_induct) (auto intro: rtranclp_trans api_step_updates)

section \<open>Properties\<close>

text \<open>
  C12: At every moment of a device's life the SDK's state is well formed, whatever the application
  calls, in whatever order and with whatever arguments, whatever the transport, the storage, the
  clocks and the chip answer, and however often the device is reset: both traces are idle or have
  full ids, the metrics table has distinct keys, the throttle is within its budget, the buffer
  counts nothing it has no storage for, an enabled SDK has an accepted DSN with the URL and auth
  header built from it in their arrays, and a log ring it points to is a ring of at most six
  complete lines. All it takes is that the RTC memory of a cold start, where it carries the magic
  numbers of this firmware, holds what the SDK would have stored.
\<close>

theorem micro_invariant:
  assumes "rtc_wf p rtc" and "device_runs p (power_on rtc w) m"
  shows "micro_wf p m"
  using device_runs_ok [OF assms(2) power_on_ok [OF assms(1)]] by (simp add: device_ok_def)

text \<open>
  C8: A crash belongs to the trace the device died inside: whatever was called before, if the
  enabled SDK is cut short at any moment, its RAM lost, and started again, then the trace its next
  crash report carries is the one that was active at that moment, and none when none was; and
  nothing called after the restart, the adoption of a new trace included, changes that.
\<close>

theorem crash_keeps_its_trace:
  assumes "trace_fits p" and "rtc_wf p rtc" and "device_runs p (power_on rtc w) m" and "sentry_is_enabled m"
    and "sentry_init p options (m\<lparr>m_state := ram, m_world := w'\<rparr>) = (True, m1)" and "api_runs p m1 m2"
  shows "case sentry_event_attach_coredump p (Some ev) (Some storage) m2 of (ok, ev', _) \<Rightarrow>
    gs_crash_trace (m_state m2) = sentry_trace_current m \<and>
    (if ok then map_option ev_trace ev' = Some (if tc_active (sentry_trace_current m)
        then Some (sentry_trace_current m) else None)
     else ev' = Some ev)"
proof -
  have persisted: "sentry_device_trace_recover (cf_sizeof_trace (pf_config p)) (m_rtc m) = gs_trace (m_state m)"
    using device_runs_ok [OF assms(3) power_on_ok [OF assms(2)]] assms(1,4)
    by (simp add: device_ok_def trace_persisted_def sentry_is_enabled_def)
  have "gs_crash_trace (m_state m1) = gs_trace (m_state m)"
  proof (cases rule: init_cases [of options p "m\<lparr>m_state := ram, m_world := w'\<rparr>"])
    case (refused o' d)
    with assms(5) show ?thesis by simp
  next
    case (accepted opts s d url auth)
    with assms(5) show ?thesis using persisted by (auto simp: init_boot_state)
  qed
  then have "gs_crash_trace (m_state m2) = sentry_trace_current m"
    using updates_frame [OF api_runs_updates [OF assms(6)]] by (simp add: sentry_trace_current_def)
  then show ?thesis
    by (simp add: sentry_event_attach_coredump_def split: prod.splits)
qed

text \<open>
  C33: The console lines leading up to a reset are still there to explain it: a restart finds
  exactly the lines of the ring, in order, knows each line of the boot that ended as recovered
  rather than its own, and keeps that boot's clock anchor to date them by.
\<close>

theorem log_survives_reset:
  assumes "rtc_wf p rtc" and "device_runs p (power_on rtc w) m" and "log_ring m = Some ring"
    and "sentry_init p options (m\<lparr>m_state := ram, m_world := w'\<rparr>) = (True, m1)"
  shows "\<exists>ring'. log_ring m1 = Some ring' \<and> log_wf ring' \<and> log_slots ring' = log_slots ring \<and>
    lr_prev_anchor_unix_us ring' = lr_anchor_unix_us ring \<and>
    lr_prev_anchor_uptime_us ring' = lr_anchor_uptime_us ring \<and>
    (\<forall>e. le_boot_seq e = lr_boot_seq ring \<longrightarrow> sentry_log_entry_is_recovered ring' e)"
proof -
  have ok: "device_ok p m" by (rule device_runs_ok [OF assms(2) power_on_ok [OF assms(1)]])
  then have wf: "log_wf ring" and claimed: "ring_claimed p m"
    using assms(3) by (simp_all add: device_ok_def micro_wf_def)
  have on: "gs_log_ring (m_state m)" and bytes: "ring = rtb_bytes (g_rtc_block (m_rtc m))"
    using assms(3) by (simp_all add: log_ring_state)
  let ?ring = "fst (sentry_log_ring_begin_boot ring)"
  have "log_ring m1 = Some ?ring"
  proof (cases rule: init_cases [of options p "m\<lparr>m_state := ram, m_world := w'\<rparr>"])
    case (refused o' d)
    with assms(4) show ?thesis by simp
  next
    case (accepted opts s d url auth)
    then have m1: "m1 = init_boot p opts (m\<lparr>m_world := w', m_state := state_zero\<lparr>gs_options := opts, gs_dsn := d,
        gs_envelope_url := url, gs_auth_header := auth\<rparr>\<rparr>)" using assms(4) by simp
    have block: "g_rtc_block (sentry_device_trace_persist (Some trace_zero) n (m_rtc m)) = g_rtc_block (m_rtc m)" for n
      by (simp add: sentry_device_trace_persist_def)
    have "rtb_bytes (g_rtc_block (m_rtc m1)) = ?ring"
      using claimed on
      by (simp add: m1 init_boot_rtc init_log_rtc_def sentry_device_persistent_block_def ring_claimed_def block
          Let_def bytes)
    moreover have "gs_log_ring (m_state m1)"
      using claimed on by (simp add: m1 init_boot_state block_found ring_claimed_def)
    ultimately show ?thesis by (simp add: log_ring_state)
  qed
  moreover have "log_wf ?ring" by (rule log_wf_ops(2) [OF wf])
  ultimately show ?thesis
    by (auto simp: log_slots_clock(2) sentry_log_entry_is_recovered_def sentry_log_ring_begin_boot_def log_slots_def)
qed

text \<open>
  Calls of an SDK that is not enabled. The calls that have a guard report that they are unavailable
  and leave everything as it was. Of the calls that change anything, four have no guard, and this is all they do:
  \<open>sentry_set_transport\<close> notes its transport, \<open>sentry_span_finish\<close> reads the clock,
  \<open>sentry_trace_release\<close> empties the trace and its copy in RTC memory, and
  \<open>sentry_enable_buffering\<close> opens the buffer on the storage it is given.
\<close>

definition refuses :: "'w platform \<Rightarrow> 'w micro \<Rightarrow> bool" where
  "refuses p m \<longleftrightarrow>
     (\<forall>envelope level message txn name op expand header baggage n v ev storage.
        sentry_send_envelope p envelope m = (sentry_response_make SENTRY_SEND_UNAVAILABLE, m) \<and>
        sentry_capture_message p level message m = (sentry_response_make SENTRY_SEND_UNAVAILABLE, m) \<and>
        sentry_transaction_start p txn name op m = (False, txn, m) \<and>
        sentry_transaction_start_child p txn name op m = (None, txn, m) \<and>
        sentry_transaction_finish p txn m = (sentry_response_make SENTRY_SEND_UNAVAILABLE, txn, m) \<and>
        sentry_trace_adopt p header baggage m = (False, m) \<and> sentry_trace_start p m = (False, m) \<and>
        sentry_log p level message expand m = m \<and> sentry_metric_count name v op m = m \<and>
        sentry_metric_gauge name v op m = m \<and> sentry_event_prepare p m = (False, event_zero, m) \<and>
        sentry_event_attach_coredump p ev storage m = (False, ev, storage) \<and>
        sentry_flush p n m = Some (0, m))"

definition unguarded :: "'w platform \<Rightarrow> 'w micro \<Rightarrow> 'w micro \<Rightarrow> bool" where
  "unguarded p m m' \<longleftrightarrow>
     (\<exists>transport. m' = upd (gs_transport_update (\<lambda>_. transport)) m) \<or>
     m' = m\<lparr>m_world := snd (sentry_device_uptime_us (pf_esp p) (m_world m))\<rparr> \<or>
     (let empty = sentry_trace_clear (gs_trace (m_state m))
      in m' = (upd (gs_trace_update (\<lambda>_. empty)) m)\<lparr>m_rtc :=
           sentry_device_trace_persist (Some empty) (cf_sizeof_trace (pf_config p)) (m_rtc m)\<rparr>)"

definition opens_buffer :: "'w micro \<Rightarrow> 'w micro \<Rightarrow> bool" where
  "opens_buffer m m' \<longleftrightarrow>
     (\<exists>storage. case sentry_buffer_init storage (m_world m) of
        (w, b, ok) \<Rightarrow> m' = (upd (gs_buffer_update (\<lambda>_. b) \<circ> gs_buffering_update (\<lambda>_. ok)) m)\<lparr>m_world := w\<rparr>)"

text \<open>
  Inert: so it is after any calls of a client and any time, and no call of the client does more than
  is said here.
\<close>

definition inert :: "'w platform \<Rightarrow> 'w micro \<Rightarrow> bool" where
  "inert p m \<longleftrightarrow>
     (\<forall>m1. rtranclp (api_step p) m m1 \<longrightarrow>
        refuses p m1 \<and>
        (\<forall>m2. sdk_call p m1 m2 \<longrightarrow> m2 = m1 \<or> unguarded p m1 m2) \<and>
        (\<forall>m2. api_step p m1 m2 \<longrightarrow> sdk_call p m1 m2 \<or> opens_buffer m1 m2 \<or> (\<exists>w. m2 = m1\<lparr>m_world := w\<rparr>)))"

lemma disabled_refuses: "\<not> gs_enabled (m_state m) \<Longrightarrow> refuses p m"
  by (auto simp: refuses_def sentry_send_envelope_def sentry_capture_message_def sentry_transaction_start_def
      sentry_transaction_start_child_def sentry_transaction_finish_def sentry_trace_adopt_def sentry_trace_start_def
      sentry_log_def sentry_metric_count_def sentry_metric_gauge_def sentry_event_prepare_def
      sentry_event_attach_coredump_def sentry_flush_def split: option.splits)

lemma disabled_calls:
  assumes "\<not> gs_enabled (m_state m)" and "sdk_call p m m'"
  shows "m' = m \<or> unguarded p m m'"
  using assms(2)
proof cases
  case trace_release
  then show ?thesis
    by (simp add: unguarded_def sentry_trace_release_def set_trace_def persist_trace_def Let_def)
next
  case (span_finish span t t')
  then show ?thesis by (auto simp: unguarded_def sentry_span_finish_def uptime_us_def split: prod.splits)
qed (use disabled_refuses [OF assms(1), of p] in \<open>auto simp: refuses_def unguarded_def sentry_set_transport_def\<close>)

lemma disabled_steps:
  assumes "\<not> gs_enabled (m_state m)" and "api_step p m m'"
  shows "sdk_call p m m' \<or> opens_buffer m m' \<or> (\<exists>w. m' = m\<lparr>m_world := w\<rparr>)" and "\<not> gs_enabled (m_state m')"
proof -
  have buffer: "opens_buffer m m' \<and> \<not> gs_enabled (m_state m')" if "sentry_enable_buffering storage m = (ok, m')" for storage ok
    using that assms(1) unfolding opens_buffer_def
    by (intro conjI exI [of _ storage]) (auto simp: sentry_enable_buffering_def split: prod.splits)
  show "sdk_call p m m' \<or> opens_buffer m m' \<or> (\<exists>w. m' = m\<lparr>m_world := w\<rparr>)"
    using assms(2) by cases (use buffer in blast)+
  show "\<not> gs_enabled (m_state m')"
    using assms(2)
  proof cases
    case call
    then show ?thesis using disabled_calls [OF assms(1) call] assms(1) by (auto simp: unguarded_def Let_def)
  qed (use buffer assms(1) in auto)
qed

lemma disabled_inert:
  assumes "\<not> gs_enabled (m_state m)"
  shows "inert p m"
proof -
  have "\<not> gs_enabled (m_state m1)" if "rtranclp (api_step p) m m1" for m1
    using that by induction (use assms disabled_steps(2) in blast)+
  then show ?thesis unfolding inert_def using disabled_refuses disabled_calls disabled_steps(1) by metis
qed


section \<open>A device\<close>

definition sample_esp :: "'w esp" where
  "sample_esp =
     \<lparr>esp_timer_get_time = (\<lambda>w. (5000000, w)), esp_fill_random = (\<lambda>n w. (replicate n 0xab, w)),
      c_time = (\<lambda>w. (1700000000, w)), gettimeofday = (\<lambda>w. (Some (1700000000, 0), w)),
      esp_get_free_heap_size = (\<lambda>w. 200000), esp_get_minimum_free_heap_size = (\<lambda>w. 150000),
      esp_chip_revision = (\<lambda>w. 3), esp_chip_cores = (\<lambda>w. 2), esp_get_idf_version = (\<lambda>w. ''v5.1''),
      esp_efuse_mac_get_default = (\<lambda>w. Some [0xde, 0xad, 0xbe, 0xef, 0, 1]), esp_flash_get_size = (\<lambda>w. Some 4194304),
      heap_caps_get_total_size = (\<lambda>w. 320000), esp_reset_reason_get = (\<lambda>w. ESP_RST_PANIC)\<rparr>"

definition sample_config :: esp_config where
  "sample_config = \<lparr>cf_target = TARGET_ESP32, cf_idf_5_1 = True,
     cf_sizeof_trace = 133, cf_sizeof_log_entry = 136, cf_sizeof_log_ring = 864\<rparr>"

definition sample_platform :: "'w esp_core_dump \<Rightarrow> 'w platform" where
  "sample_platform core_dump =
     \<lparr>pf_config = sample_config, pf_esp = sample_esp, pf_core_dump = core_dump, SENTRY_BUILD_ID_HEX = None,
      SENTRY_IMAGE_ADDR = None, SENTRY_IMAGE_SIZE = None, SENTRY_IMAGE_NAME = None\<rparr>"

definition sample_options :: sentry_options where
  "sample_options = options_zero\<lparr>op_dsn := Some ''https://abc@o1.ingest.io/42''\<rparr>"

definition sample_rtc :: rtc_memory where
  "sample_rtc = \<lparr>g_rtc_trace = \<lparr>rtt_magic = 0, rtt_len = 0, rtt_bytes = trace_zero\<rparr>,
     g_rtc_block = \<lparr>rtb_magic = 0, rtb_layout_id = 0, rtb_len = 0, rtb_bytes = log_ring_zero\<rparr>\<rparr>"

lemma sample_rtc_wf: "rtc_wf p sample_rtc"
  by (simp add: rtc_wf_def sample_rtc_def sentry_device_trace_recover_def SENTRY_RTC_TRACE_MAGIC_def
      SENTRY_RTC_BLOCK_MAGIC_def)

lemma sample_platform_fits: "trace_fits (sample_platform c)"
  by (simp add: trace_fits_def sample_platform_def sample_config_def SENTRY_RTC_TRACE_CAP_def)

lemma sample_random: "random (sample_platform c) n m = (Some (replicate n 0xab), m)"
  by (simp add: random_def sentry_device_random_def sample_platform_def sample_esp_def)

text \<open>Any start with that DSN succeeds.\<close>

lemma sample_start:
  obtains m' where "sentry_init p (Some sample_options) m = (True, m')" "gs_enabled (m_state m')"
    "gs_trace (m_state m') = trace_zero"
    "gs_log_ring (m_state m') \<longleftrightarrow> 0 < cf_sizeof_log_ring (pf_config p) \<and>
      cf_sizeof_log_ring (pf_config p) \<le> SENTRY_RTC_BLOCK_CAP"
proof -
  have "snd (sentry_dsn_parse (Some ''https://abc@o1.ingest.io/42''))" by code_simp
  then have accepted: "snd (sentry_dsn_parse (op_dsn sample_options))" by (simp add: sample_options_def)
  show ?thesis
  proof (cases rule: init_cases [of "Some sample_options" p m])
    case (refused o' d)
    with accepted show ?thesis by blast
  next
    case (accepted opts s d url auth)
    show ?thesis by (rule that [OF accepted(5)]) (simp_all add: init_boot_state block_found)
  qed
qed

definition sample_running :: "unit micro" where
  "sample_running = snd (sentry_init (sample_platform sample_core_dump) (Some sample_options) (power_on sample_rtc ()))"

lemma sample_running:
  "device_runs (sample_platform sample_core_dump) (power_on sample_rtc ()) sample_running"
  "gs_enabled (m_state sample_running)" "gs_trace (m_state sample_running) = trace_zero"
  "gs_log_ring (m_state sample_running)"
proof -
  obtain m where m: "sentry_init (sample_platform sample_core_dump) (Some sample_options) (power_on sample_rtc ()) = (True, m)"
    "gs_enabled (m_state m)" "gs_trace (m_state m) = trace_zero"
    "gs_log_ring (m_state m) \<longleftrightarrow> 0 < cf_sizeof_log_ring (pf_config (sample_platform sample_core_dump)) \<and>
       cf_sizeof_log_ring (pf_config (sample_platform sample_core_dump)) \<le> SENTRY_RTC_BLOCK_CAP"
    by (rule sample_start)
  then have "sample_running = m" by (simp add: sample_running_def)
  with m show "device_runs (sample_platform sample_core_dump) (power_on sample_rtc ()) sample_running"
    "gs_enabled (m_state sample_running)" "gs_trace (m_state sample_running) = trace_zero"
    "gs_log_ring (m_state sample_running)"
    by (auto intro: device_step.init simp: sample_platform_def sample_config_def SENTRY_RTC_BLOCK_CAP_def)
qed

theorem micro_invariant_witness: "micro_wf (sample_platform sample_core_dump) sample_running"
  by (rule micro_invariant [OF sample_rtc_wf sample_running(1)])

definition sample_traced :: "unit micro" where
  "sample_traced = snd (sentry_trace_start (sample_platform sample_core_dump) sample_running)"

lemma sample_traced:
  "device_runs (sample_platform sample_core_dump) (power_on sample_rtc ()) sample_traced"
  "gs_enabled (m_state sample_traced)" "tc_active (gs_trace (m_state sample_traced))"
proof -
  let ?p = "sample_platform sample_core_dump"
  have t: "sentry_trace_start ?p sample_running =
      (True, set_trace ?p (sentry_trace_begin (replicate 16 0xab) (replicate 8 0xab) True) sample_running)"
    using sample_running(2) by (simp add: sentry_trace_start_def sample_random)
  from rtranclp.rtrancl_into_rtrancl [OF sample_running(1) device_step.call [OF api_step.call [OF sdk_call.trace_start [OF t]]]]
  show "device_runs ?p (power_on sample_rtc ()) sample_traced" by (simp add: sample_traced_def t)
  show "gs_enabled (m_state sample_traced)" "tc_active (gs_trace (m_state sample_traced))"
    using sample_running(2) by (simp_all add: sample_traced_def t sentry_trace_begin_def)
qed

theorem crash_keeps_its_trace_witness:
  "tc_active (sentry_trace_current sample_traced) \<and>
   gs_crash_trace (m_state (snd (sentry_init (sample_platform sample_core_dump) (Some sample_options)
     (sample_traced\<lparr>m_state := state_zero, m_world := ()\<rparr>)))) = sentry_trace_current sample_traced"
proof -
  let ?p = "sample_platform sample_core_dump"
  obtain m1 where m1: "sentry_init ?p (Some sample_options) (sample_traced\<lparr>m_state := state_zero, m_world := ()\<rparr>) = (True, m1)"
    by (rule sample_start)
  have "sentry_is_enabled sample_traced" using sample_traced(2) by (simp add: sentry_is_enabled_def)
  from crash_keeps_its_trace [OF sample_platform_fits sample_rtc_wf sample_traced(1) this m1 rtranclp.rtrancl_refl,
      of event_zero coredump_zero] m1 sample_traced(3)
  show ?thesis by (simp add: sentry_trace_current_def split: prod.splits)
qed

theorem log_survives_reset_witness:
  "\<exists>ring ring'. log_ring sample_running = Some ring \<and>
     log_ring (snd (sentry_init (sample_platform sample_core_dump) (Some sample_options)
       (sample_running\<lparr>m_state := state_zero, m_world := ()\<rparr>))) = Some ring' \<and> log_slots ring' = log_slots ring"
proof -
  let ?p = "sample_platform sample_core_dump"
  obtain m1 where m1: "sentry_init ?p (Some sample_options) (sample_running\<lparr>m_state := state_zero, m_world := ()\<rparr>) = (True, m1)"
    by (rule sample_start)
  have "log_ring sample_running = Some (rtb_bytes (g_rtc_block (m_rtc sample_running)))"
    using sample_running(4) by (simp add: log_ring_def)
  from log_survives_reset [OF sample_rtc_wf sample_running(1) this m1] this m1 show ?thesis by auto
qed

end
