(* ===== verification/Sentry_Micro_Delivery.thy ===== *)
theory Sentry_Micro_Delivery
  imports Sentry_Micro_Invariant Sentry_Storage_Ram
begin

text \<open>
  What becomes of an envelope: a flush returns, it accounts for every envelope of the buffer, a
  back-off the server asked for is kept, and a captured message is delivered as an event that
  reads back.
\<close>

section \<open>A flush returns\<close>

lemma buffer_frame [simp]:
  "gs_buffer (m_state (snd (buffer_peek cap m))) = gs_buffer (m_state m)"
  "gs_buffer (m_state (snd (deliver p e m))) = gs_buffer (m_state m)"
  "gs_buffer (m_state (snd (uptime_ms p m))) = gs_buffer (m_state m)"
  "gs_buffer (m_state (snd (in_backoff p m))) = gs_buffer (m_state m)"
  by (simp_all add: buffer_peek_def deliver_def uptime_ms_def in_backoff_def Let_def case_prod_beta)

lemma buffer_pop_state:
  "gs_buffer (m_state (buffer_pop m)) = fst (snd (sentry_buffer_pop (m_world m) (gs_buffer (m_state m))))"
  by (simp add: buffer_pop_def case_prod_beta)

text \<open>A round that goes on pops an envelope.\<close>

lemma flush_loop_returns:
  assumes "buffer_wf (gs_buffer (m_state m))"
  shows "\<exists>k m'. flush_loop p n d m = Some (k, m') \<and> d \<le> k \<and> (k = d \<or> k \<le> n) \<and>
    (unat k - unat d) + unat (sb_count (gs_buffer (m_state m'))) \<le> unat (sb_count (gs_buffer (m_state m)))"
  using assms
proof (induction "unat (sb_count (gs_buffer (m_state m)))" arbitrary: m d rule: less_induct)
  case less
  let ?b = "gs_buffer (m_state m)"
  show ?case
  proof (cases "d < n \<and> 0 < sentry_buffer_count ?b")
    case False
    then show ?thesis by (subst flush_loop.simps) auto
  next
    case True
    then have st: "sb_storage ?b \<noteq> None" "sb_count ?b \<noteq> 0" and d: "d < n"
      using less.prems by (auto simp: buffer_wf_def sentry_buffer_count_def)
    let ?m = "snd (buffer_peek SENTRY_MICRO_ENVELOPE_BUFFER_BYTES m)"
    have popped: "unat (sb_count (gs_buffer (m_state (buffer_pop x)))) < unat (sb_count ?b)"
        "buffer_wf (gs_buffer (m_state (buffer_pop x)))"
      if "gs_buffer (m_state x) = ?b" for x
      using pop_shrinks [OF st] buffer_wf_ops(2) [OF less.prems] that by (simp_all add: buffer_pop_state)
    note again = less.hyps [OF popped]
    have succ: "d \<le> d + 1" "d + 1 \<le> n" "unat (d + 1) = Suc (unat d)"
      using word_succ_less [OF d] by (simp_all add: word_le_nat_alt)
    have on: "\<exists>k m'. flush_loop p n d (buffer_pop x) = Some (k, m') \<and> d \<le> k \<and> (k = d \<or> k \<le> n) \<and>
        (unat k - unat d) + unat (sb_count (gs_buffer (m_state m'))) \<le> unat (sb_count ?b)"
      if "gs_buffer (m_state x) = ?b" for x
      using again [OF that that, of d] popped(1) [OF that] by fastforce
    have ok: "\<exists>k m'. flush_loop p n (d + 1) (buffer_pop x) = Some (k, m') \<and> d \<le> k \<and> (k = d \<or> k \<le> n) \<and>
        (unat k - unat d) + unat (sb_count (gs_buffer (m_state m'))) \<le> unat (sb_count ?b)"
      if x: "gs_buffer (m_state x) = ?b" for x
    proof -
      from again [OF x x, of "d + 1"] obtain k m' where
        r: "flush_loop p n (d + 1) (buffer_pop x) = Some (k, m')" "d + 1 \<le> k" "k = d + 1 \<or> k \<le> n"
          "(unat k - unat (d + 1)) + unat (sb_count (gs_buffer (m_state m'))) \<le>
             unat (sb_count (gs_buffer (m_state (buffer_pop x))))" by blast
      then show ?thesis using popped(1) [OF x] succ by (auto simp: word_le_nat_alt)
    qed
    show ?thesis
    proof (cases "fst (buffer_peek SENTRY_MICRO_ENVELOPE_BUFFER_BYTES m)")
      case None
      then show ?thesis
        using True on [of ?m] by (subst flush_loop.simps) (simp add: case_prod_beta)
    next
      case (Some e)
      then show ?thesis
        using True on [of "snd (deliver p e ?m)"] ok [of "snd (deliver p e ?m)"]
        by (subst flush_loop.simps) (auto simp: case_prod_beta)
    qed
  qed
qed

text \<open>The batches sent first leave the buffer alone.\<close>

lemma buffer_frame_more [simp]:
  "gs_buffer (m_state (snd (uptime_us p m))) = gs_buffer (m_state m)"
  "gs_buffer (m_state (snd (unix_time_us p m))) = gs_buffer (m_state m)"
  "gs_buffer (m_state (snd (random p len m))) = gs_buffer (m_state m)"
  "gs_buffer (m_state (snd (available m))) = gs_buffer (m_state m)"
  "gs_buffer (m_state (on_log_ring f m)) = gs_buffer (m_state m)"
  "gs_buffer (m_state (count_logs_dropped lost m)) = gs_buffer (m_state m)"
  "gs_buffer (m_state (drop_logs r m)) = gs_buffer (m_state m)"
  "gs_buffer (m_state (settle_logs r resp m)) = gs_buffer (m_state m)"
  "gs_buffer (m_state (settle_metrics resp m)) = gs_buffer (m_state m)"
  "gs_buffer (m_state (snd (sentry_trace_start p m))) = gs_buffer (m_state m)"
  "gs_buffer (m_state (snd (ensure_trace p m))) = gs_buffer (m_state m)"
  by (auto simp: uptime_us_def unix_time_us_def random_def available_def on_log_ring_def count_logs_dropped_def
      drop_logs_def settle_logs_def settle_metrics_def sentry_trace_start_def ensure_trace_def case_prod_beta
      split: option.split)

lemma batches_frame [simp]:
  "gs_buffer (m_state (flush_logs p m)) = gs_buffer (m_state m)"
  "gs_buffer (m_state (flush_metrics p m)) = gs_buffer (m_state m)"
  by (simp_all add: flush_logs_def flush_metrics_def Let_def case_prod_beta)

lemma flush_returns_wf:
  assumes "buffer_wf (gs_buffer (m_state m))"
  shows "\<exists>k m'. sentry_flush p n m = Some (k, m') \<and> k \<le> n \<and>
    unat k + unat (sb_count (gs_buffer (m_state m'))) \<le> unat (sb_count (gs_buffer (m_state m)))"
proof -
  let ?m = "flush_logs p (flush_metrics p (snd (in_backoff p m)))"
  have "buffer_wf (gs_buffer (m_state ?m))" using assms by simp
  from flush_loop_returns [OF this, of p n 0] obtain k m' where
    "flush_loop p n 0 ?m = Some (k, m')" "k \<le> n"
    "unat k + unat (sb_count (gs_buffer (m_state m'))) \<le> unat (sb_count (gs_buffer (m_state m)))"
    by auto
  then show ?thesis
    unfolding sentry_flush_def case_prod_beta bool.case_eq_if Let_def by auto
qed

text \<open>
  C14: \<open>sentry_flush\<close> returns, from every state the SDK can get into and whatever the transport,
  the storage and the clocks answer: its loop never spins on an entry it cannot read, cannot
  erase or that ingest refuses. It delivers at most what it was asked to and at most what was
  waiting, and what it delivered is no longer waiting.
\<close>

theorem flush_returns:
  assumes "rtc_wf p rtc" and "device_runs p (power_on rtc w) m"
  shows "\<exists>k m'. sentry_flush p n m = Some (k, m') \<and> k \<le> n \<and>
    unat k + unat (sb_count (gs_buffer (m_state m'))) \<le> unat (sb_count (gs_buffer (m_state m)))"
proof (rule flush_returns_wf)
  show "buffer_wf (gs_buffer (m_state m))"
    using device_runs_ok [OF assms(2) power_on_ok [OF assms(1)]] by (simp add: device_ok_def micro_wf_def state_wf_def)
qed

theorem flush_returns_witness:
  "\<exists>k m'. sentry_flush (sample_platform sample_core_dump) 8 sample_running = Some (k, m') \<and> k \<le> 8"
  using flush_returns [OF sample_rtc_wf sample_running(1), of 8] by blast

section \<open>Worlds\<close>

text \<open>
  A function of the world keeps a predicate when it makes it true of no world less; the chip, a
  storage and a transport keep it when all their functions do.
\<close>

definition keeps :: "('w \<Rightarrow> bool) \<Rightarrow> ('w \<Rightarrow> 'w) \<Rightarrow> bool" where
  "keeps P f \<longleftrightarrow> (\<forall>w. P w \<longrightarrow> P (f w))"

definition chip_keeps :: "'w platform \<Rightarrow> ('w \<Rightarrow> bool) \<Rightarrow> bool" where
  "chip_keeps p P \<longleftrightarrow> keeps P (\<lambda>w. snd (esp_timer_get_time (pf_esp p) w)) \<and>
     (\<forall>n. keeps P (\<lambda>w. snd (esp_fill_random (pf_esp p) n w))) \<and>
     keeps P (\<lambda>w. snd (c_time (pf_esp p) w)) \<and> keeps P (\<lambda>w. snd (gettimeofday (pf_esp p) w))"

lemma chip_keeps_part: "\<forall>v. chip_keeps p (\<lambda>w. f w = v) \<Longrightarrow> chip_keeps p (\<lambda>w. g (f w) = u)"
  by (simp add: chip_keeps_def keeps_def)

definition storage_keeps :: "'w sentry_storage option \<Rightarrow> ('w \<Rightarrow> bool) \<Rightarrow> bool" where
  "storage_keeps storage P \<longleftrightarrow> (case storage of
     None \<Rightarrow> True
   | Some st \<Rightarrow>
       (\<forall>i d. keeps P (\<lambda>w. fst (the (st_write st) w i d))) \<and>
       (\<forall>i n. keeps P (\<lambda>w. fst (the (st_read st) w i n))) \<and>
       (\<forall>i. keeps P (\<lambda>w. fst (the (st_erase st) w i))) \<and>
       (\<forall>h t d. keeps P (\<lambda>w. fst (the (st_save_meta st) w h t d))))"

lemma clock_world [simp]:
  "m_world (snd (uptime_ms p m)) = snd (esp_timer_get_time (pf_esp p) (m_world m))"
  "m_world (snd (uptime_us p m)) = snd (esp_timer_get_time (pf_esp p) (m_world m))"
  "m_world (snd (unix_time p m)) = snd (c_time (pf_esp p) (m_world m))"
  "m_world (snd (unix_time_us p m)) = snd (gettimeofday (pf_esp p) (m_world m))"
  "m_world (snd (random p n m)) = snd (esp_fill_random (pf_esp p) n (m_world m))"
  "m_world (set_trace p t m) = m_world m" "m_world (set_log_ring r m) = m_world m"
  by (auto simp: uptime_ms_def uptime_us_def unix_time_def unix_time_us_def random_def sentry_device_uptime_ms_def
      sentry_device_uptime_us_def sentry_device_unix_time_def sentry_device_unix_time_us_def sentry_device_random_def
      set_trace_def set_log_ring_def case_prod_beta split: option.split)

lemma clock_state [simp]:
  "m_state (snd (uptime_ms p m)) = m_state m" "m_state (snd (uptime_us p m)) = m_state m"
  "m_state (snd (unix_time p m)) = m_state m" "m_state (snd (unix_time_us p m)) = m_state m"
  "m_state (snd (random p n m)) = m_state m" "m_state (snd (available m)) = m_state m"
  "m_state (snd (buffer_peek cap m)) = m_state m" "m_state (snd (in_backoff p m)) = m_state m"
  by (simp_all add: uptime_ms_def uptime_us_def unix_time_def unix_time_us_def random_def available_def
      buffer_peek_def in_backoff_def case_prod_beta)

section \<open>What holds before a call and after it\<close>

text \<open>
  A predicate on the state of the program that the steps the calls are made of do not falsify: the
  reading of a clock, the writing of a field, the sending of one envelope. It is then kept by every
  call but a flush and the registration of a transport, which are for the client to settle.
\<close>

locale kept_by_steps =
  fixes p :: "'w platform" and Q :: "'w micro \<Rightarrow> bool"
  assumes kept_clock:
      "Q m \<Longrightarrow> Q (snd (uptime_ms p m))" "Q m \<Longrightarrow> Q (snd (uptime_us p m))" "Q m \<Longrightarrow> Q (snd (unix_time p m))"
      "Q m \<Longrightarrow> Q (snd (unix_time_us p m))" "Q m \<Longrightarrow> Q (snd (random p n m))"
    and kept_state:
      "Q m \<Longrightarrow> Q (upd (gs_metrics_update fs) m)" "Q m \<Longrightarrow> Q (upd (gs_metrics_dropped_update fm) m)"
      "Q m \<Longrightarrow> Q (upd (gs_logs_truncated_update fl) m)" "Q m \<Longrightarrow> Q (upd (gs_throttle_update fh) m)"
      "Q m \<Longrightarrow> Q (count_logs_dropped lost m)" "Q m \<Longrightarrow> Q (set_trace p t m)" "Q m \<Longrightarrow> Q (set_log_ring r m)"
    and kept_send: "Q m \<Longrightarrow> Q (snd (sentry_send_envelope p e m))"
begin

lemma kept_if: "(c \<Longrightarrow> Q x) \<Longrightarrow> (\<not> c \<Longrightarrow> Q y) \<Longrightarrow> Q (if c then x else y)"
  by simp

lemmas kept = kept_if kept_clock kept_state kept_send

lemma kept_trace:
  assumes "Q m"
  shows "Q (snd (sentry_trace_start p m))" "Q (sentry_trace_release p m)"
    "Q (snd (sentry_trace_adopt p header baggage m))" "Q (snd (ensure_trace p m))"
proof -
  show "Q (snd (sentry_trace_start p m))"
    unfolding sentry_trace_start_def case_prod_beta using assms by (auto intro!: kept split: option.split)
  then show "Q (snd (ensure_trace p m))"
    unfolding ensure_trace_def using assms by simp
  show "Q (sentry_trace_release p m)"
    unfolding sentry_trace_release_def using assms by (auto intro!: kept)
  show "Q (snd (sentry_trace_adopt p header baggage m))"
    unfolding sentry_trace_adopt_def case_prod_beta bool.case_eq_if using assms by (auto intro!: kept split: option.split)
qed

lemma kept_record:
  assumes "Q m"
  shows "Q (sentry_metric_count name delta unit m)" "Q (sentry_metric_gauge name delta unit m)"
    "Q (sentry_log p level msg args m)"
proof -
  show "Q (sentry_metric_count name delta unit m)"
    unfolding sentry_metric_count_def case_prod_beta Let_def using assms by (intro kept)
  show "Q (sentry_metric_gauge name delta unit m)"
    unfolding sentry_metric_gauge_def case_prod_beta Let_def using assms by (intro kept)
  show "Q (sentry_log p level msg args m)"
    unfolding sentry_log_def case_prod_beta Let_def using assms by (auto intro!: kept split: option.split)
qed

lemma kept_transaction:
  assumes "Q m"
  shows "Q (snd (snd (sentry_transaction_start p txn name op m)))"
    "Q (snd (snd (sentry_transaction_start_child p txn op descr m)))"
    "Q (snd (sentry_span_finish p span t m))" "Q (snd (snd (sentry_transaction_finish p txn m)))"
proof -
  show "Q (snd (snd (sentry_transaction_start p txn name op m)))"
    unfolding sentry_transaction_start_def case_prod_beta bool.case_eq_if Let_def using assms
    by (auto intro!: kept kept_trace)
  show "Q (snd (snd (sentry_transaction_start_child p txn op descr m)))"
    unfolding sentry_transaction_start_child_def case_prod_beta using assms by (auto intro!: kept split: option.split)
  show "Q (snd (sentry_span_finish p span t m))"
    unfolding sentry_span_finish_def case_prod_beta using assms by (auto intro!: kept)
  show "Q (snd (snd (sentry_transaction_finish p txn m)))"
    unfolding sentry_transaction_finish_def case_prod_beta Let_def using assms by (auto intro!: kept split: option.split)
qed

lemma kept_capture:
  assumes "Q m"
  shows "Q (snd (snd (sentry_event_prepare p m)))" "Q (snd (sentry_capture_message p level msg m))"
proof -
  have prepare: "Q (snd (snd (sentry_event_prepare p m)))" if "Q m" for m
    unfolding sentry_event_prepare_def case_prod_beta Let_def using that by (auto intro!: kept split: option.split)
  have capture: "Q (snd (capture_event p level msg m))" if "Q m" for m
    unfolding capture_event_def case_prod_beta bool.case_eq_if Let_def using that
    by (auto intro!: kept prepare simp del: clock_state)
  show "Q (snd (snd (sentry_event_prepare p m)))" by (rule prepare [OF assms])
  show "Q (snd (sentry_capture_message p level msg m))"
    unfolding sentry_capture_message_def case_prod_beta Let_def using assms
    by (auto intro!: kept capture simp del: clock_state)
qed

lemma kept_call:
  assumes "sdk_call p m m'" and "Q m"
  shows "Q m' \<or> (\<exists>t. m' = sentry_set_transport t m) \<or> (\<exists>n k. sentry_flush p n m = Some (k, m'))"
  using assms by induction (auto, (metis kept_send kept_trace kept_record kept_transaction kept_capture snd_conv)+)

end

section \<open>A back-off is kept\<close>

text \<open>
  The SDK was told to wait until \<open>T\<close>; \<open>P\<close> is a property of the world that nothing but the
  transport can break, and the clock has not reached \<open>T\<close> wherever it holds.
\<close>

definition waiting :: "'w platform \<Rightarrow> ('w \<Rightarrow> bool) \<Rightarrow> u64 \<Rightarrow> 'w micro \<Rightarrow> bool" where
  "waiting p P T m \<longleftrightarrow> 0 < T \<and> chip_keeps p P \<and>
     (\<forall>w. P w \<longrightarrow> fst (sentry_device_uptime_ms (pf_esp p) w) < T) \<and>
     gs_retry_after_uptime_ms (m_state m) = T \<and> P (m_world m) \<and>
     storage_keeps (sb_storage (gs_buffer (m_state m))) P"

named_theorems waiting_intros

lemma waiting_clock [waiting_intros]:
  assumes "waiting p P T m"
  shows "waiting p P T (snd (uptime_ms p m))" "waiting p P T (snd (uptime_us p m))"
    "waiting p P T (snd (unix_time p m))" "waiting p P T (snd (unix_time_us p m))"
    "waiting p P T (snd (random p n m))"
  using assms by (simp_all add: waiting_def chip_keeps_def keeps_def)

lemma waiting_state [waiting_intros]:
  assumes "waiting p P T m"
  shows "waiting p P T (upd (gs_transport_update ft) m)" "waiting p P T (upd (gs_metrics_update fs) m)"
    "waiting p P T (upd (gs_metrics_dropped_update fm) m)" "waiting p P T (upd (gs_logs_truncated_update fl) m)"
    "waiting p P T (upd (gs_throttle_update fh) m)" "waiting p P T (count_logs_dropped lost m)"
    "waiting p P T (set_trace p t m)" "waiting p P T (set_log_ring r m)"
  using assms by (simp_all add: waiting_def count_logs_dropped_def)

lemma waiting_if [waiting_intros]:
  "(c \<Longrightarrow> waiting p P T x) \<Longrightarrow> (\<not> c \<Longrightarrow> waiting p P T y) \<Longrightarrow> waiting p P T (if c then x else y)"
  by simp

lemma push_keeps:
  assumes "storage_keeps (sb_storage b) P" and "P w"
  shows "P (fst (sentry_buffer_push e w b))"
  using assms
  by (auto simp: sentry_buffer_push_def storage_keeps_def keeps_def buffer_evict_def persist_meta_def Let_def
      case_prod_beta split: option.split)

lemma waiting_backoff [waiting_intros]:
  assumes "waiting p P T m"
  shows "waiting p P T (snd (in_backoff p m))" and "fst (in_backoff p m)"
  using assms
  by (auto simp: in_backoff_def case_prod_beta waiting_clock)
    (auto simp: waiting_def uptime_ms_def case_prod_beta)

lemma waiting_push [waiting_intros]: "waiting p P T m \<Longrightarrow> waiting p P T (snd (buffer_push e m))"
  using push_keeps [of "gs_buffer (m_state m)" P "m_world m" e] buffer_storage_ops(1) [of e "m_world m" "gs_buffer (m_state m)"]
  by (simp add: waiting_def buffer_push_def case_prod_beta)

lemma waiting_send [waiting_intros]:
  assumes "waiting p P T m"
  shows "waiting p P T (snd (sentry_send_envelope p e m))"
  unfolding sentry_send_envelope_def case_prod_beta bool.case_eq_if
  using assms by (auto simp: waiting_backoff(2) intro!: waiting_intros)

interpretation waiting_steps: kept_by_steps p "waiting p P T" for p P T
  by unfold_locales (auto intro: waiting_intros)

lemma waiting_call:
  assumes "sdk_call p m m'" and "waiting p P T m"
  shows "waiting p P T m'"
proof -
  have "sentry_flush p n m = Some (k, m') \<Longrightarrow> m' = m \<or> m' = snd (in_backoff p m)" for n k
    using waiting_backoff(2) [OF assms(2)]
    unfolding sentry_flush_def case_prod_beta bool.case_eq_if by (auto split: if_splits)
  then show ?thesis
    using waiting_steps.kept_call [OF assms] waiting_backoff(1) [OF assms(2)] waiting_state(1) [OF assms(2)] assms(2)
    by (auto simp: sentry_set_transport_def)
qed

text \<open>
  C11: A server that says wait is not called: once a response has set the deadline \<open>T\<close>, no
  sequence of API calls, in any order and with any arguments, reaches the transport while the
  clock is before \<open>T\<close>, even if the transport is exchanged. Formally, any property of the world
  that the chip, the storage and the passing of time keep, such as \<open>nothing was sent\<close>, is kept by
  all of them. The deadline stands, an envelope is answered as rate-limited (and kept, when there
  is a buffer for it), and a flush delivers nothing.
\<close>

theorem backoff_sends_nothing:
  assumes "waiting p P T m"
    and "(\<lambda>m m'. sdk_call p m m' \<or> (\<exists>w. P w \<and> m' = m\<lparr>m_world := w\<rparr>))\<^sup>*\<^sup>* m m'"
    and "sentry_is_enabled m'" and "e \<noteq> []"
  shows "P (m_world m') \<and> gs_retry_after_uptime_ms (m_state m') = T \<and>
    sentry_send_envelope p (Some e) m' = (sentry_response_make SENTRY_SEND_RATE_LIMITED,
      if gs_buffering (m_state m') then snd (buffer_push e (snd (in_backoff p m'))) else snd (in_backoff p m')) \<and>
    sentry_flush p n m' = Some (0, snd (in_backoff p m'))"
proof -
  have w: "waiting p P T m'"
    using assms(2,1)
  proof (induction rule: rtranclp_induct)
    case (step y z)
    then have "waiting p P T y" by simp
    then show ?case using step.hyps(2) waiting_call [of p y z P T] by (auto simp: waiting_def)
  qed
  have "gs_buffering (m_state (snd (in_backoff p m'))) = gs_buffering (m_state m')" by simp
  with w waiting_backoff(2) [OF w] show ?thesis
    using assms(3,4)
    by (simp add: waiting_def sentry_send_envelope_def sentry_flush_def case_prod_beta bool.case_eq_if
        sentry_is_enabled_def sentry_response_make_def worth_retrying_def)
qed

text \<open>A world that counts what was sent through a transport that always asks for ten seconds.\<close>

definition counting_transport :: "nat sentry_transport" where
  "counting_transport =
     \<lparr>tp_send = Some (\<lambda>url headers body w.
        (\<lparr>rs_result = SENTRY_SEND_RATE_LIMITED, rs_http_status = 429, rs_retry_after_ms = 10000\<rparr>, w + 1)),
      tp_is_available = None, tp_name = None\<rparr>"

definition no_core_dump :: "'w esp_core_dump" where
  "no_core_dump = \<lparr>SENTRY_COREDUMP_SUPPORTED = False, SENTRY_COREDUMP_ARCH_RISCV = False,
     esp_core_dump_image_check = (\<lambda>w. ESP_ERR_NOT_FOUND), esp_core_dump_get_summary = (\<lambda>w. None),
     esp_core_dump_image_erase = (\<lambda>w. (ESP_OK, w))\<rparr>"

definition sample_waiting :: "nat micro" where
  "sample_waiting = snd (sentry_send_envelope (sample_platform no_core_dump) (Some [1])
     ((power_on sample_rtc 0)\<lparr>m_state := state_zero\<lparr>gs_enabled := True, gs_transport := Some counting_transport\<rparr>\<rparr>))"

lemma sample_clock:
  "uptime_ms (sample_platform c) m = (5000, m)"
  by (simp add: uptime_ms_def sentry_device_uptime_ms_def sample_platform_def sample_esp_def)

theorem backoff_sends_nothing_witness:
  "m_world sample_waiting = 1 \<and>
   m_world (snd (sentry_send_envelope (sample_platform no_core_dump) (Some [2]) sample_waiting)) = 1 \<and>
   sentry_flush (sample_platform no_core_dump) 5 sample_waiting =
     Some (0, snd (in_backoff (sample_platform no_core_dump) sample_waiting))"
proof -
  let ?p = "sample_platform no_core_dump :: nat platform"
  have m: "sample_waiting = (power_on sample_rtc 1)\<lparr>m_state := state_zero\<lparr>gs_enabled := True,
      gs_transport := Some counting_transport, gs_retry_after_uptime_ms := 15000\<rparr>\<rparr>"
    by (simp add: sample_waiting_def sentry_send_envelope_def in_backoff_def deliver_def sentry_transport_send_def
        counting_transport_def sample_clock Let_def power_on_def) (simp add: state_zero_def)
  have w: "waiting ?p (\<lambda>w. w = 1) 15000 sample_waiting"
    by (simp add: waiting_def m chip_keeps_def keeps_def power_on_def sample_platform_def sample_esp_def
        sentry_device_uptime_ms_def storage_keeps_def) (simp add: state_zero_def buffer_zero_def)
  have e: "sentry_is_enabled sample_waiting" by (simp add: m sentry_is_enabled_def)
  let ?m' = "snd (sentry_send_envelope ?p (Some [2]) sample_waiting)"
  have c: "sdk_call ?p sample_waiting ?m'" by (rule sdk_call.send_envelope [OF prod.collapse [symmetric]])
  have "sentry_is_enabled ?m'"
    using updates_frame [OF sdk_call_updates [OF c]] e by (simp add: sentry_is_enabled_def)
  with backoff_sends_nothing [OF w _ _, of ?m' "[3]" 5] c have "m_world ?m' = 1" by blast
  moreover have "sentry_flush ?p 5 sample_waiting = Some (0, snd (in_backoff ?p sample_waiting))"
    using backoff_sends_nothing [OF w rtranclp.rtrancl_refl e, of "[3]" 5] by simp
  ultimately show ?thesis by (simp add: m power_on_def)
qed

section \<open>A flush accounts for every envelope\<close>

text \<open>
  \<open>sent\<close> reads off the world what went through the transport and how it was answered; nothing
  but the transport's \<open>send\<close> adds to it. \<open>S\<close> is what the world holds of the storage, which neither
  the transport nor the chip touches.
\<close>

definition traffic_log ::
    "'w platform \<Rightarrow> 'w sentry_transport \<Rightarrow> ('w \<Rightarrow> 'o) \<Rightarrow> ('w \<Rightarrow> (bytes \<times> sentry_send_result) list) \<Rightarrow> bool" where
  "traffic_log p t S sent \<longleftrightarrow>
     (\<forall>v. chip_keeps p (\<lambda>w. (S w, sent w) = v)) \<and>
     (\<forall>available v. tp_is_available t = Some available \<longrightarrow> keeps (\<lambda>w. (S w, sent w) = v) (\<lambda>w. snd (available w))) \<and>
     (\<exists>send. tp_send t = Some send \<and> (\<forall>url headers body w. S (snd (send url headers (Some body) w)) = S w \<and>
        sent (snd (send url headers (Some body) w)) =
          sent w @ [(body, rs_result (fst (send url headers (Some body) w)))]))"

text \<open>At most \<open>n\<close> envelopes were sent on the way, and the storage was left alone.\<close>

definition talks ::
    "'w sentry_transport \<Rightarrow> ('w \<Rightarrow> 'o) \<Rightarrow> ('w \<Rightarrow> (bytes \<times> sentry_send_result) list) \<Rightarrow> nat \<Rightarrow> 'w micro \<Rightarrow> 'w micro \<Rightarrow> bool"
  where
  "talks t S sent n m m' \<longleftrightarrow> S (m_world m') = S (m_world m) \<and>
     (\<exists>xs. sent (m_world m') = sent (m_world m) @ xs \<and> length xs \<le> n) \<and>
     gs_transport (m_state m') = Some t \<and> gs_buffer (m_state m') = gs_buffer (m_state m) \<and>
     gs_buffering (m_state m') = gs_buffering (m_state m)"

named_theorems talks_intros

lemma traffic_clock:
  assumes "traffic_log p t S sent"
  shows "S (snd (esp_timer_get_time (pf_esp p) w)) = S w" "sent (snd (esp_timer_get_time (pf_esp p) w)) = sent w"
    "S (snd (esp_fill_random (pf_esp p) n w)) = S w" "sent (snd (esp_fill_random (pf_esp p) n w)) = sent w"
    "S (snd (c_time (pf_esp p) w)) = S w" "sent (snd (c_time (pf_esp p) w)) = sent w"
    "S (snd (gettimeofday (pf_esp p) w)) = S w" "sent (snd (gettimeofday (pf_esp p) w)) = sent w"
  using assms by (auto simp: traffic_log_def chip_keeps_def keeps_def)

lemma talks_clock [talks_intros]:
  assumes "traffic_log p t S sent" and "talks t S sent n a m"
  shows "talks t S sent n a (snd (uptime_ms p m))" "talks t S sent n a (snd (uptime_us p m))"
    "talks t S sent n a (snd (unix_time_us p m))" "talks t S sent n a (snd (random p k m))"
    "talks t S sent n a (snd (in_backoff p m))"
  using assms(2)
  by (simp_all add: talks_def traffic_clock [OF assms(1)] in_backoff_def case_prod_beta)

lemma talks_available:
  assumes "traffic_log p t S sent" and "talks t S sent n a m"
  shows "talks t S sent n a (snd (available m))"
  using assms
  by (auto simp: talks_def available_def sentry_transport_is_available_def case_prod_beta traffic_log_def keeps_def
      split: option.splits)

lemma talks_state [talks_intros]:
  assumes "talks t S sent n a m"
  shows "talks t S sent n a (upd (gs_metrics_update f) m)" "talks t S sent n a (count_logs_dropped lost m)"
    "talks t S sent n a (set_trace p c m)" "talks t S sent n a (set_log_ring r m)"
    "talks t S sent n a (upd (gs_retry_after_uptime_ms_update fr) m)"
  using assms by (simp_all add: talks_def count_logs_dropped_def)

lemma talks_if [talks_intros]:
  "(c \<Longrightarrow> talks t S sent n a x) \<Longrightarrow> (\<not> c \<Longrightarrow> talks t S sent n a y) \<Longrightarrow> talks t S sent n a (if c then x else y)"
  by simp

lemma talks_on_log_ring [talks_intros]: "talks t S sent n a m \<Longrightarrow> talks t S sent n a (on_log_ring f m)"
  by (auto simp: on_log_ring_def intro: talks_state split: option.split)

lemma deliver_sends:
  assumes "traffic_log p t S sent" and "gs_transport (m_state m) = Some t"
  shows "S (m_world (snd (deliver p e m))) = S (m_world m)"
    "sent (m_world (snd (deliver p e m))) = sent (m_world m) @ [(e, rs_result (fst (deliver p e m)))]"
    "gs_transport (m_state (snd (deliver p e m))) = Some t"
    "gs_buffering (m_state (snd (deliver p e m))) = gs_buffering (m_state m)"
  using assms
  by (auto simp: deliver_def sentry_transport_send_def Let_def case_prod_beta traffic_clock [OF assms(1)] traffic_log_def)

lemma talks_deliver [talks_intros]:
  assumes "traffic_log p t S sent" and "talks t S sent n a m"
  shows "talks t S sent (Suc n) a (snd (deliver p e m))"
  using assms(2) deliver_sends [OF assms(1), of m e] by (auto simp: talks_def)

lemma talks_settle [talks_intros]:
  assumes "talks t S sent n a m"
  shows "talks t S sent n a (drop_logs r m)" "talks t S sent n a (settle_logs r resp m)"
    "talks t S sent n a (settle_metrics resp m)"
  using assms by (auto simp: drop_logs_def settle_logs_def settle_metrics_def intro!: talks_intros)

lemma talks_trace [talks_intros]:
  assumes "traffic_log p t S sent" and "talks t S sent n a m"
  shows "talks t S sent n a (snd (ensure_trace p m))"
  using assms
  by (auto simp: ensure_trace_def sentry_trace_start_def case_prod_beta intro!: talks_intros split: option.split)

lemma talks_more: "talks t S sent n a m \<Longrightarrow> talks t S sent (Suc n) a m"
  by (auto simp: talks_def)

lemma talks_batch:
  assumes "traffic_log p t S sent" and "talks t S sent n a m"
  shows "talks t S sent (Suc n) a (flush_metrics p m)" "talks t S sent (Suc n) a (flush_logs p m)"
proof -
  note more = talks_more [OF assms(2)]
  show "talks t S sent (Suc n) a (flush_metrics p m)"
    unfolding flush_metrics_def case_prod_beta Let_def
    by (intro talks_available [OF assms(1)] talks_intros assms more)
  show "talks t S sent (Suc n) a (flush_logs p m)"
    unfolding flush_logs_def case_prod_beta Let_def
    by (intro talks_available [OF assms(1)] talks_intros assms more)
qed

context reliable_storage
begin

lemma peek_front:
  assumes "holds s b q" and "q \<noteq> []" and "length (hd q) \<le> cap"
  shows "snd (sentry_buffer_peek cap s b) = Some (hd q)"
proof -
  obtain x r where q: "q = x # r" using assms(2) by (cases q) auto
  have h: "sb_head b < slot_count" "inv s" "sb_storage b = Some st" "sb_count b \<noteq> 0"
    using assms(1) q by (auto simp: holds_def)
  then have hN: "unat (sb_head b) < N" by (simp add: unat_less_iff)
  have "map (\<lambda>i. slots s (word_of_nat i)) (ring_window N (unat (sb_head b)) (Suc (length r))) = map Some (x # r)"
    using assms(1) q by (simp add: holds_def)
  then have "slots s (sb_head b) = Some x" by (simp add: ring_window_Cons [OF hN])
  then have "snd (get s (sb_head b) cap) = Some x" using get_total [OF h(2,1)] assms(3) q by simp
  then show ?thesis using h q by (simp add: sentry_buffer_peek_def)
qed

end

text \<open>
  What a flush did to the queue \<open>q\<close>, having answered for \<open>d\<close> envelopes before and \<open>k\<close> after: it
  took the envelopes \<open>ps\<close> off its front; those short enough for the scratch buffer were all sent,
  in order, and got a final answer; \<open>k\<close> counts the accepted ones. It stopped because nothing is
  left or enough were delivered, or after sending the next envelope and being told to retry,
  with that envelope still at the front.
\<close>

definition sendable :: "bytes \<Rightarrow> bool" where
  "sendable e \<longleftrightarrow> length e \<le> SENTRY_MICRO_ENVELOPE_BUFFER_BYTES"

definition flush_outcome ::
    "('w \<Rightarrow> (bytes \<times> sentry_send_result) list) \<Rightarrow> u32 \<Rightarrow> u32 \<Rightarrow> 'w \<Rightarrow> bytes list \<Rightarrow> u32 \<Rightarrow> 'w \<Rightarrow> bytes list \<Rightarrow> bool"
  where
  "flush_outcome sent max_events d w q k w' q' \<longleftrightarrow>
     (\<exists>ps ys zs. q = ps @ q' \<and> sent w' = sent w @ ys @ zs \<and> map fst ys = filter sendable ps \<and>
        (\<forall>y \<in> set ys. \<not> worth_retrying (snd y)) \<and>
        unat k = unat d + length (filter (\<lambda>y. snd y = SENTRY_SEND_OK) ys) \<and>
        (if zs = [] then q' = [] \<or> k = max_events
         else \<exists>r. zs = [(hd q', r)] \<and> q' \<noteq> [] \<and> worth_retrying r))"

lemma outcome_done: "q = [] \<or> d = n \<Longrightarrow> flush_outcome sent n d w q d w q"
  unfolding flush_outcome_def by (intro exI [of _ "[]"]) simp

lemma outcome_stop:
  "sent w1 = sent w @ [(x, r)] \<Longrightarrow> worth_retrying r \<Longrightarrow> flush_outcome sent n d w (x # q) d w1 (x # q)"
  unfolding flush_outcome_def by (rule exI [of _ "[]"], rule exI [of _ "[]"], rule exI [of _ "[(x, r)]"]) simp

lemma outcome_unreadable:
  assumes "\<not> sendable x" and "sent w1 = sent w" and "flush_outcome sent n d w1 q k w' q'"
  shows "flush_outcome sent n d w (x # q) k w' q'"
proof -
  from assms(3) obtain ps ys zs where o: "q = ps @ q'" "sent w' = sent w1 @ ys @ zs" "map fst ys = filter sendable ps"
    "\<forall>y \<in> set ys. \<not> worth_retrying (snd y)" "unat k = unat d + length (filter (\<lambda>y. snd y = SENTRY_SEND_OK) ys)"
    "if zs = [] then q' = [] \<or> k = n else \<exists>r. zs = [(hd q', r)] \<and> q' \<noteq> [] \<and> worth_retrying r"
    unfolding flush_outcome_def by blast
  show ?thesis
    unfolding flush_outcome_def
    by (rule exI [of _ "x # ps"], rule exI [of _ ys], rule exI [of _ zs]) (use o assms(1,2) in simp)
qed

lemma outcome_answered:
  assumes "sendable x" and "sent w1 = sent w @ [(x, r)]" and "\<not> worth_retrying r"
    and "unat d' = unat d + (if r = SENTRY_SEND_OK then 1 else 0)" and "flush_outcome sent n d' w1 q k w' q'"
  shows "flush_outcome sent n d w (x # q) k w' q'"
proof -
  from assms(5) obtain ps ys zs where o: "q = ps @ q'" "sent w' = sent w1 @ ys @ zs" "map fst ys = filter sendable ps"
    "\<forall>y \<in> set ys. \<not> worth_retrying (snd y)" "unat k = unat d' + length (filter (\<lambda>y. snd y = SENTRY_SEND_OK) ys)"
    "if zs = [] then q' = [] \<or> k = n else \<exists>r. zs = [(hd q', r)] \<and> q' \<noteq> [] \<and> worth_retrying r"
    unfolding flush_outcome_def by blast
  show ?thesis
    unfolding flush_outcome_def
    by (rule exI [of _ "x # ps"], rule exI [of _ "(x, r) # ys"], rule exI [of _ zs]) (use o assms(1-4) in simp)
qed

lemma pop_keeps:
  assumes "storage_keeps (sb_storage b) P" and "P w"
  shows "P (fst (sentry_buffer_pop w b))" "P (fst (sentry_buffer_peek cap w b))"
  using assms
  by (auto simp: sentry_buffer_pop_def sentry_buffer_peek_def storage_keeps_def keeps_def persist_meta_def Let_def
      split: option.split)

context reliable_storage
begin

lemma holds_same: "holds s b q \<Longrightarrow> (inv s', slots s') = (inv s, slots s) \<Longrightarrow> holds s' b q"
  by (rule holds_transfer) (simp_all add: holds_def)

lemma flush_loop_accounts:
  fixes p :: "'s platform" and t :: "'s sentry_transport"
  assumes log: "traffic_log p t (\<lambda>w. (inv w, slots w)) sent"
    and quiet: "\<forall>v. storage_keeps (Some st) (\<lambda>w. sent w = v)"
  shows "gs_transport (m_state m) = Some t \<Longrightarrow> holds (m_world m) (gs_buffer (m_state m)) q \<Longrightarrow> d \<le> n \<Longrightarrow>
    \<exists>k m' q'. flush_loop p n d m = Some (k, m') \<and> holds (m_world m') (gs_buffer (m_state m')) q' \<and>
      flush_outcome sent n d (m_world m) q k (m_world m') q'"
proof (induction q arbitrary: m d)
  case Nil
  then have "sentry_buffer_count (gs_buffer (m_state m)) = 0"
    by (simp add: holds_def sentry_buffer_count_def unat_eq_zero)
  then have "flush_loop p n d m = Some (d, m)" by (subst flush_loop.simps) simp
  then show ?case using Nil.prems(2) by (auto intro: outcome_done)
next
  case (Cons x q)
  let ?b = "gs_buffer (m_state m)" and ?w = "m_world m"
  show ?case
  proof (cases "d = n")
    case True
    then have "flush_loop p n d m = Some (d, m)" by (subst flush_loop.simps) simp
    then show ?thesis using Cons.prems(2) True by (auto intro: outcome_done)
  next
    case False
    have go: "d < n \<and> 0 < sentry_buffer_count ?b"
      using False Cons.prems(2,3) by (auto simp: holds_def sentry_buffer_count_def word_gt_0)
    have b: "sb_storage ?b = Some st" using Cons.prems(2) by (simp add: holds_def)
    let ?B = SENTRY_MICRO_ENVELOPE_BUFFER_BYTES
    define m1 where "m1 = snd (buffer_peek ?B m)"
    have peek: "sentry_buffer_peek ?B ?w ?b = (m_world m1, fst (buffer_peek ?B m))"
      by (simp add: m1_def buffer_peek_def case_prod_beta)
    have m1: "holds (m_world m1) ?b (x # q)" "m_state m1 = m_state m"
      using peek_holds(1) [OF Cons.prems(2) peek] by (simp_all add: m1_def)
    have sent1: "sent (m_world m1) = sent ?w"
      using pop_keeps(2) [of ?b "\<lambda>w. sent w = sent ?w" ?w ?B] quiet b peek by simp
    have pop: "holds (m_world (buffer_pop y)) (gs_buffer (m_state (buffer_pop y))) q \<and>
        sent (m_world (buffer_pop y)) = sent (m_world y) \<and> gs_transport (m_state (buffer_pop y)) = gs_transport (m_state y)"
      if "holds (m_world y) (gs_buffer (m_state y)) (x # q)" "gs_buffer (m_state y) = ?b" for y
    proof -
      obtain w' b' ok where r: "sentry_buffer_pop (m_world y) (gs_buffer (m_state y)) = (w', b', ok)"
        by (rule prod_cases3)
      have "sent w' = sent (m_world y)"
        using pop_keeps(1) [of "gs_buffer (m_state y)" "\<lambda>w. sent w = sent (m_world y)" "m_world y"] quiet b that(2) r
        by simp
      then show ?thesis using pop_holds(1) [OF that(1) r] r by (simp add: buffer_pop_def)
    qed
    show ?thesis
    proof (cases "sendable x")
      case False
      then have none: "fst (buffer_peek ?B m) = None"
        using peek_holds(2) [OF Cons.prems(2) peek] by (cases "fst (buffer_peek ?B m)") (auto simp: sendable_def)
      have step: "flush_loop p n d m = flush_loop p n d (buffer_pop m1)"
        using go none by (subst flush_loop.simps) (simp add: case_prod_beta m1_def)
      have y: "holds (m_world m1) (gs_buffer (m_state m1)) (x # q)" "gs_buffer (m_state m1) = ?b" using m1 by simp_all
      have "gs_transport (m_state (buffer_pop m1)) = Some t" using pop [OF y] m1(2) Cons.prems(1) by simp
      from Cons.IH [OF this _ Cons.prems(3)] pop [OF y] obtain k m' q' where
        "flush_loop p n d (buffer_pop m1) = Some (k, m')" "holds (m_world m') (gs_buffer (m_state m')) q'"
        "flush_outcome sent n d (m_world (buffer_pop m1)) q k (m_world m') q'" by blast
      moreover have "sent (m_world (buffer_pop m1)) = sent ?w" using pop [OF y] sent1 by simp
      ultimately show ?thesis using step outcome_unreadable [OF False] by metis
    next
      case True
      then have some: "fst (buffer_peek ?B m) = Some x"
        using peek_front [OF Cons.prems(2), of ?B] peek by (simp add: sendable_def)
      define r where "r = rs_result (fst (deliver p x m1))"
      define m2 where "m2 = snd (deliver p x m1)"
      have tr: "gs_transport (m_state m1) = Some t" using m1(2) Cons.prems(1) by simp
      note sends = deliver_sends [OF log tr, of x, folded m2_def r_def]
      have y: "holds (m_world m2) (gs_buffer (m_state m2)) (x # q)" "gs_buffer (m_state m2) = ?b"
        using holds_same [OF m1(1) sends(1)] m1(2) by (simp_all add: m2_def)
      have sent2: "sent (m_world m2) = sent ?w @ [(x, r)]" using sends(2) sent1 by simp
      have step: "flush_loop p n d m = (if r = SENTRY_SEND_OK then flush_loop p n (d + 1) (buffer_pop m2)
          else if \<not> worth_retrying r then flush_loop p n d (buffer_pop m2) else Some (d, m2))"
        using go some by (subst flush_loop.simps) (simp add: case_prod_beta m1_def [symmetric] m2_def r_def)
      show ?thesis
      proof (cases "worth_retrying r")
        case True
        then have "flush_loop p n d m = Some (d, m2)" using step by (auto simp: worth_retrying_def)
        then show ?thesis using y(1) outcome_stop [of sent _ _ x r n d q, OF sent2 True] by blast
      next
        case False
        define d' where "d' = (if r = SENTRY_SEND_OK then d + 1 else d)"
        have "unat (d + 1) = Suc (unat d)" "d + 1 \<le> n" using word_succ_less [of d n] go by simp_all
        then have d': "d' \<le> n" "unat d' = unat d + (if r = SENTRY_SEND_OK then 1 else 0)"
          using Cons.prems(3) by (simp_all add: d'_def)
        have "flush_loop p n d m = flush_loop p n d' (buffer_pop m2)" using step False by (simp add: d'_def)
        moreover have "gs_transport (m_state (buffer_pop m2)) = Some t" using pop [OF y] sends(3) by simp
        from Cons.IH [OF this _ d'(1)] pop [OF y] obtain k m' q' where
          "flush_loop p n d' (buffer_pop m2) = Some (k, m')" "holds (m_world m') (gs_buffer (m_state m')) q'"
          "flush_outcome sent n d' (m_world (buffer_pop m2)) q k (m_world m') q'" by blast
        moreover have "sent (m_world (buffer_pop m2)) = sent ?w @ [(x, r)]" using pop [OF y] sent2 by simp
        ultimately show ?thesis using outcome_answered [OF True _ False d'(2)] by metis
      qed
    qed
  qed
qed

end

lemma talks_flush:
  assumes "traffic_log p t S sent" and "gs_transport (m_state m) = Some t"
  shows "talks t S sent 2 m (flush_logs p (flush_metrics p (snd (in_backoff p m))))"
proof -
  have "talks t S sent 0 m m" using assms(2) by (simp add: talks_def)
  then show ?thesis
    using talks_batch [OF assms(1)] talks_clock(5) [OF assms(1)] by (metis numeral_2_eq_2)
qed

context reliable_storage
begin

lemma flush_accounts:
  fixes p :: "'s platform" and t :: "'s sentry_transport"
  assumes log: "traffic_log p t (\<lambda>w. (inv w, slots w)) sent"
    and quiet: "\<forall>v. storage_keeps (Some st) (\<lambda>w. sent w = v)"
    and "sentry_is_enabled m" and "gs_buffering (m_state m)" and "sentry_get_transport m = Some t"
    and "\<not> fst (in_backoff p m)" and "holds (m_world m) (gs_buffer (m_state m)) q"
  shows "\<exists>k m' q' w1 batches. sentry_flush p n m = Some (k, m') \<and>
    sent w1 = sent (m_world m) @ batches \<and> length batches \<le> 2 \<and>
    flush_outcome sent n 0 w1 q k (m_world m') q' \<and> holds (m_world m') (gs_buffer (m_state m')) q'"
proof -
  let ?m1 = "flush_logs p (flush_metrics p (snd (in_backoff p m)))"
  have tr: "gs_transport (m_state m) = Some t" using assms(5) by (simp add: sentry_get_transport_def)
  note batches = talks_flush [OF log tr]
  then have m1: "gs_transport (m_state ?m1) = Some t" "gs_buffer (m_state ?m1) = gs_buffer (m_state m)"
    "gs_buffering (m_state ?m1)" "(inv (m_world ?m1), slots (m_world ?m1)) = (inv (m_world m), slots (m_world m))"
    using assms(4) by (simp_all add: talks_def)
  from batches obtain xs where xs: "sent (m_world ?m1) = sent (m_world m) @ xs" "length xs \<le> 2"
    by (auto simp: talks_def)
  have "holds (m_world ?m1) (gs_buffer (m_state ?m1)) q" using holds_same [OF assms(7) m1(4)] m1(2) by simp
  from flush_loop_accounts [OF log quiet m1(1) this, of 0 n] obtain k m' q' where
    loop: "flush_loop p n 0 ?m1 = Some (k, m')" "holds (m_world m') (gs_buffer (m_state m')) q'"
      "flush_outcome sent n 0 (m_world ?m1) q k (m_world m') q'" by auto
  have "sentry_flush p n m = Some (k, m')"
    using assms(3,6) loop(1) m1(3) by (simp add: sentry_flush_def case_prod_beta bool.case_eq_if sentry_is_enabled_def)
  with loop xs show ?thesis by blast
qed

end

text \<open>
  C1: No envelope is lost by a flush. On a storage that works, where \<open>sent\<close> records what the
  transport was given and how it was answered, and after at most one batch of metrics and one of
  logs, a flush outside a back-off works through the buffered envelopes oldest first: each one it
  removes was sent exactly once and either accepted or permanently refused, or is too large for
  the scratch buffer; the number returned is that of the accepted ones; and it stops only when
  nothing is left, when as many as asked for are delivered, or after one failed attempt, with the
  envelope that failed still the oldest in the buffer.
\<close>

theorem flush_accounts_for_every_envelope:
  assumes "reliable_storage put get erase load_meta save_meta count slots meta sound fits"
    and "traffic_log p t (\<lambda>w. (sound w, slots w)) sent"
    and "\<forall>v. storage_keeps (Some (storage_of put get erase load_meta save_meta count)) (\<lambda>w. sent w = v)"
    and "sentry_is_enabled m" and "gs_buffering (m_state m)" and "sentry_get_transport m = Some t"
    and "\<not> fst (in_backoff p m)"
    and "slot_storage.holds put get erase load_meta save_meta count slots sound (m_world m) (gs_buffer (m_state m)) q"
  shows "\<exists>k m' q' w1 batches. sentry_flush p n m = Some (k, m') \<and>
    sent w1 = sent (m_world m) @ batches \<and> length batches \<le> 2 \<and>
    flush_outcome sent n 0 w1 q k (m_world m') q' \<and>
    slot_storage.holds put get erase load_meta save_meta count slots sound (m_world m') (gs_buffer (m_state m')) q'"
  by (rule reliable_storage.flush_accounts [OF assms])

text \<open>The storage of the host tests beside a record of the traffic.\<close>

type_synonym test_world = "fake_storage \<times> (bytes \<times> sentry_send_result) list"

definition beside :: "(fake_storage \<Rightarrow> fake_storage \<times> 'r) \<Rightarrow> test_world \<Rightarrow> test_world \<times> 'r" where
  "beside f w = (case f (fst w) of (s, r) \<Rightarrow> ((s, snd w), r))"

abbreviation test_storage :: "test_world sentry_storage" where
  "test_storage \<equiv> storage_of (\<lambda>w i d. beside (\<lambda>s. fake_write s i d) w) (\<lambda>w i n. beside (\<lambda>s. fake_read s i n) w)
     (\<lambda>w i. beside (\<lambda>s. fake_erase s i) w) (beside fake_load_meta) (\<lambda>w h t d. beside (\<lambda>s. fake_save_meta s h t d) w) 4"

lemma beside_eq: "beside f w = (w', r) \<longleftrightarrow> f (fst w) = (fst w', r) \<and> snd w' = snd w"
  by (cases w'; cases "f (fst w)") (auto simp: beside_def)

lemma snd_beside [simp]: "snd (beside f w) = snd (f (fst w))" "snd (fst (beside f w)) = snd w"
  by (simp_all add: beside_def case_prod_beta)

lemma test_storage_reliable:
  "reliable_storage (\<lambda>w i d. beside (\<lambda>s. fake_write s i d) w) (\<lambda>w i n. beside (\<lambda>s. fake_read s i n) w)
     (\<lambda>w i. beside (\<lambda>s. fake_erase s i) w) (beside fake_load_meta) (\<lambda>w h t d. beside (\<lambda>s. fake_save_meta s h t d) w) 4
     (\<lambda>w. fake_slots (fst w)) (\<lambda>w. fs_meta (fst w)) (\<lambda>w. fake_working (fst w)) (\<lambda>d. length d \<le> SLOT_CAP)"
  by standard
    (auto simp: beside_eq dest: working.put_ok working.put_frame working.erase_frame working.get_frame working.get_ok
      working.load_frame working.load_ok working.save_frame working.save_ok working.put_total working.get_total
      working.load_total working.save_total)

definition accepting_transport :: "test_world sentry_transport" where
  "accepting_transport =
     \<lparr>tp_send = Some (\<lambda>url headers body w.
        (sentry_response_make SENTRY_SEND_OK, (fst w, snd w @ [(the body, SENTRY_SEND_OK)]))),
      tp_is_available = None, tp_name = None\<rparr>"

lemma test_traffic:
  "traffic_log (sample_platform c) accepting_transport (\<lambda>w. (fake_working (fst w), fake_slots (fst w))) snd"
  "\<forall>v. storage_keeps (Some test_storage) (\<lambda>w. snd w = v)"
  by (simp_all add: traffic_log_def chip_keeps_def keeps_def sample_platform_def sample_esp_def
      accepting_transport_def sentry_response_make_def storage_keeps_def)

interpretation traffic: reliable_storage "\<lambda>w i d. beside (\<lambda>s. fake_write s i d) w"
  "\<lambda>w i n. beside (\<lambda>s. fake_read s i n) w" "\<lambda>w i. beside (\<lambda>s. fake_erase s i) w" "beside fake_load_meta"
  "\<lambda>w h t d. beside (\<lambda>s. fake_save_meta s h t d) w" 4 "\<lambda>w. fake_slots (fst w)" "\<lambda>w. fs_meta (fst w)"
  "\<lambda>w. fake_working (fst w)" "\<lambda>d. length d \<le> SLOT_CAP"
  by (rule test_storage_reliable)

theorem flush_accounts_for_every_envelope_witness:
  "\<exists>m k m' q' w1 batches. sentry_flush (sample_platform no_core_dump) 5 m = Some (k, m') \<and>
     snd w1 = snd (m_world m) @ batches \<and> length batches \<le> 2 \<and>
     traffic.holds (m_world m) (gs_buffer (m_state m)) [[1], [2]] \<and>
     flush_outcome snd 5 0 w1 [[1], [2]] k (m_world (m' :: test_world micro)) q'"
proof -
  obtain w0 b0 ok where init: "sentry_buffer_init (Some test_storage) (fake_zero False, []) = (w0, b0, ok)"
    by (rule prod_cases3)
  have "fake_working (fst (fake_zero False, []))" "fs_meta (fst (fake_zero False, [])) = None"
    by (simp_all add: fake_zero_def fake_working_def fake_sound_def)
  from traffic.refines_boot(1) [OF this init] have "traffic.refines (w0, b0) ([], 0)" .
  from traffic.step_refines [OF this, of "Push [1]"] have
    "traffic.refines (fst (buffer_step test_storage (Push [1]) (w0, b0))) ([[1]], 0)"
    by (simp add: SLOT_CAP_def bounded_push_def)
  from traffic.step_refines [OF this, of "Push [2]"] have
    "traffic.refines (fst (buffer_step test_storage (Push [2]) (fst (buffer_step test_storage (Push [1]) (w0, b0)))))
       ([[1], [2]], 0)"
    by (simp add: SLOT_CAP_def bounded_push_def del: buffer_step.simps)
  then obtain w b where h: "traffic.holds w b [[1], [2]]"
    unfolding traffic.refines_def by (metis fst_conv)
  define m where "m = \<lparr>m_state = state_zero\<lparr>gs_enabled := True, gs_buffering := True, gs_buffer := b,
    gs_transport := Some accepting_transport\<rparr>, m_rtc = sample_rtc, m_world = w\<rparr>"
  have "\<not> fst (in_backoff (sample_platform no_core_dump) m)"
    by (simp add: m_def in_backoff_def) (simp add: state_zero_def)
  then have "\<exists>k m' q' w1 batches. sentry_flush (sample_platform no_core_dump) 5 m = Some (k, m') \<and>
      snd w1 = snd (m_world m) @ batches \<and> length batches \<le> 2 \<and>
      flush_outcome snd 5 0 w1 [[1], [2]] k (m_world m') q' \<and>
      traffic.holds (m_world m') (gs_buffer (m_state m')) q'"
    by (rule flush_accounts_for_every_envelope [OF test_storage_reliable test_traffic, rotated 3])
      (simp_all add: m_def sentry_is_enabled_def sentry_get_transport_def h)
  moreover have "traffic.holds (m_world m) (gs_buffer (m_state m)) [[1], [2]]" using h by (simp add: m_def)
  ultimately show ?thesis by blast
qed

section \<open>A captured message arrives\<close>

lemma random_bytes:
  "fst (random p n m) = Some (fst (esp_fill_random (pf_esp p) n (m_world m)))"
  by (simp add: random_def sentry_device_random_def case_prod_beta)

lemma prepare_event:
  assumes "gs_enabled (m_state m)"
  obtains ev m' where "sentry_event_prepare p m = (True, ev, m')" "m_state m' = m_state m"
    "ev_event_id ev = Some (sentry_event_id_format (fst (esp_fill_random (pf_esp p) 16 (m_world m))))"
    "ev_coredump ev = None" "ev_release ev = op_release (gs_options (m_state m))"
    "ev_environment ev = op_environment (gs_options (m_state m))" "ev_device ev = Some (gs_device (m_state m))"
    "ev_trace ev = (if tc_active (gs_trace (m_state m)) then Some (gs_trace (m_state m)) else None)"
    "\<And>P. chip_keeps p P \<Longrightarrow> P (m_world m) \<Longrightarrow> P (m_world m')"
proof -
  obtain ok ev m' where e: "sentry_event_prepare p m = (ok, ev, m')" by (rule prod_cases3)
  show ?thesis
    by (rule that [of ev m'])
      (use assms e in \<open>auto simp: sentry_event_prepare_def random_bytes case_prod_beta Let_def event_from_state_def
        event_zero_def chip_keeps_def keeps_def\<close>)
qed

lemma envelope_text:
  assumes "length (cstring_of mem) = n"
  shows "text_of (envelope_bytes (Some mem) n) = cstring_of mem"
  using assms takeWhile_eq_take [of "\<lambda>c. c \<noteq> NUL" mem] by (simp add: envelope_bytes_def cstring_of_def)

text \<open>The event envelope in the array of the stack, exact or refused.\<close>

lemma event_in_array:
  fixes ev event_id
  defines "n \<equiv> snd (sentry_envelope_write (Some ev) None 0)"
    and "result \<equiv> sentry_envelope_write (Some ev) (Some envelope_array) SENTRY_MICRO_ENVELOPE_BUFFER_BYTES"
  assumes wf: "event_wf ev" and "ev_event_id ev = Some event_id" and "hex_id 32 event_id"
  shows "snd result = n" and "n \<noteq> 0"
    and "n < SENTRY_MICRO_ENVELOPE_BUFFER_BYTES \<Longrightarrow> \<exists>k. read_envelope (text_of (envelope_bytes (fst result) n)) =
      Some (id_header event_id, type_header ''event'' k, event_document ev)"
proof -
  have eq: "sentry_envelope_write (Some ev) buf c =
      envelope_frame 128 (item_header ''event'' (Some event_id)) (sentry_event_write (Some ev)) buf c"
    for buf c using assms(4) by (simp add: sentry_envelope_write_def)
  have exact: "if n < SENTRY_MICRO_ENVELOPE_BUFFER_BYTES
    then \<exists>mem' k. result = (Some mem', n) \<and> length mem' = SENTRY_MICRO_ENVELOPE_BUFFER_BYTES \<and>
      length (cstring_of mem') = n \<and>
      read_envelope (cstring_of mem') = Some (id_header event_id, type_header ''event'' k, event_document ev)
    else result = (Some (mem_write envelope_array 0 [NUL]), n)"
    unfolding n_def result_def eq
    by (rule event_payload.item_envelope)
      (use wf assms(5) in \<open>simp_all add: envelope_array_def SENTRY_MICRO_ENVELOPE_BUFFER_BYTES_def\<close>)
  then show r: "snd result = n" by (auto split: if_splits)
  have "read_envelope [] = None" by (simp add: read_envelope_def split_line_def)
  then show "n \<noteq> 0"
    using exact by (auto simp: SENTRY_MICRO_ENVELOPE_BUFFER_BYTES_def split: if_splits)
  show "\<exists>k. read_envelope (text_of (envelope_bytes (fst result) n)) =
      Some (id_header event_id, type_header ''event'' k, event_document ev)"
    if "n < SENTRY_MICRO_ENVELOPE_BUFFER_BYTES"
    using exact that envelope_text by auto
qed

lemma push_keeps_world:
  assumes "storage_keeps (sb_storage (gs_buffer (m_state m))) P" and "P (m_world m)"
  shows "P (m_world (snd (buffer_push e m)))"
  using push_keeps [OF assms] by (simp add: buffer_push_def case_prod_beta)

text \<open>Outside a back-off an envelope is sent, once.\<close>

lemma send_sends:
  assumes "traffic_log p t S sent" and "gs_transport (m_state m) = Some t" and "gs_enabled (m_state m)"
    and "gs_retry_after_uptime_ms (m_state m) = 0" and "e \<noteq> []"
    and "\<forall>v. storage_keeps (sb_storage (gs_buffer (m_state m))) (\<lambda>w. sent w = v)"
  shows "sent (m_world (snd (sentry_send_envelope p (Some e) m))) =
    sent (m_world m) @ [(e, rs_result (fst (sentry_send_envelope p (Some e) m)))]"
proof -
  have b: "in_backoff p m = (False, m)" using assms(4) by (simp add: in_backoff_def)
  note d = deliver_sends [OF assms(1,2), of e]
  have "sent (m_world (snd (buffer_push e (snd (deliver p e m))))) = sent (m_world (snd (deliver p e m)))"
    by (rule push_keeps_world) (use assms(6) in simp_all)
  then show ?thesis
    using assms(3,5) d by (simp add: sentry_send_envelope_def b case_prod_beta)
qed

text \<open>
  C2: A message that the throttle lets through is delivered as an event: the application gets the
  answer to exactly one envelope, and what was sent reads back as the event header with a version
  4 id, an item header with the right length, and the document of an event of that level and
  message that carries the release and environment of the options, the device and the active
  trace. Only when that envelope does not fit the array of the stack is nothing sent, and the
  answer a refusal the caller need not retry.
\<close>

theorem capture_delivers_event:
  assumes "traffic_log p t S sent" and "sentry_get_transport m = Some t" and "sentry_is_enabled m"
    and "\<And>w. length (fst (esp_fill_random (pf_esp p) 16 w)) = 16"
    and "\<forall>v. storage_keeps (sb_storage (gs_buffer (m_state m))) (\<lambda>w. sent w = v)"
    and "gs_retry_after_uptime_ms (m_state m) = 0"
    and "snd (sentry_throttle_allow level message (fst (uptime_ms p m)) (gs_throttle (m_state m)))"
  shows "case sentry_capture_message p level message m of (response, m') \<Rightarrow>
    \<exists>ev event_id. ev_event_id ev = Some event_id \<and> hex_id 32 event_id \<and> ev_level ev = level \<and>
      ev_message ev = message \<and> ev_release ev = op_release (sentry_get_options m) \<and>
      ev_environment ev = op_environment (sentry_get_options m) \<and> ev_device ev = Some (sentry_get_device_info m) \<and>
      ev_trace ev = (if tc_active (sentry_trace_current m) then Some (sentry_trace_current m) else None) \<and>
      (if snd (sentry_envelope_write (Some ev) None 0) < SENTRY_MICRO_ENVELOPE_BUFFER_BYTES
       then \<exists>body k. sent (m_world m') = sent (m_world m) @ [(body, rs_result response)] \<and>
         read_envelope (text_of body) = Some (id_header event_id, type_header ''event'' k, event_document ev)
       else sent (m_world m') = sent (m_world m) \<and> response = sentry_response_make SENTRY_SEND_REJECTED)"
proof -
  let ?throttle = "fst (sentry_throttle_allow level message (fst (uptime_ms p m)) (gs_throttle (m_state m)))"
  define m1 where "m1 = upd (gs_throttle_update (\<lambda>_. ?throttle)) (snd (uptime_ms p m))"
  have capture: "sentry_capture_message p level message m = capture_event p level message m1"
    using assms(3,7) by (simp add: sentry_capture_message_def case_prod_beta Let_def m1_def sentry_is_enabled_def)
  have m1: "m_state m1 = gs_throttle_update (\<lambda>_. ?throttle) (m_state m)" "sent (m_world m1) = sent (m_world m)"
    by (simp_all add: m1_def traffic_clock [OF assms(1)])
  then have on: "gs_enabled (m_state m1)" using assms(3) by (simp add: sentry_is_enabled_def)
  obtain ev0 m2 where prep: "sentry_event_prepare p m1 = (True, ev0, m2)" and m2: "m_state m2 = m_state m1"
    and ev0: "ev_event_id ev0 = Some (sentry_event_id_format (fst (esp_fill_random (pf_esp p) 16 (m_world m1))))"
      "ev_coredump ev0 = None" "ev_release ev0 = op_release (gs_options (m_state m1))"
      "ev_environment ev0 = op_environment (gs_options (m_state m1))" "ev_device ev0 = Some (gs_device (m_state m1))"
      "ev_trace ev0 = (if tc_active (gs_trace (m_state m1)) then Some (gs_trace (m_state m1)) else None)"
    and keep: "\<And>P. chip_keeps p P \<Longrightarrow> P (m_world m1) \<Longrightarrow> P (m_world m2)"
    by (rule prepare_event [OF on, of p]) blast
  have "chip_keeps p (\<lambda>w. sent w = sent (m_world m1))"
    using traffic_clock [OF assms(1)] by (simp add: chip_keeps_def keeps_def)
  from keep [OF this] have sent2: "sent (m_world m2) = sent (m_world m)" using m1(2) by simp
  define ev where "ev = ev0\<lparr>ev_level := level, ev_message := message\<rparr>"
  define event_id where "event_id = sentry_event_id_format (fst (esp_fill_random (pf_esp p) 16 (m_world m1)))"
  have id: "hex_id 32 event_id"
    unfolding event_id_def using event_id_is_uuid_v4 [OF assms(4) assms(4)] by blast
  have ev: "ev_event_id ev = Some event_id" "ev_coredump ev = None" "ev_level ev = level" "ev_message ev = message"
    "ev_release ev = op_release (sentry_get_options m)" "ev_environment ev = op_environment (sentry_get_options m)"
    "ev_device ev = Some (sentry_get_device_info m)"
    "ev_trace ev = (if tc_active (sentry_trace_current m) then Some (sentry_trace_current m) else None)"
    using ev0 m1(1)
    by (simp_all add: ev_def event_id_def sentry_get_options_def sentry_get_device_info_def sentry_trace_current_def)
  let ?B = SENTRY_MICRO_ENVELOPE_BUFFER_BYTES
  define r where "r = sentry_envelope_write (Some ev) (Some envelope_array) ?B"
  define n where "n = snd (sentry_envelope_write (Some ev) None 0)"
  have "event_wf ev" using ev(1,2) by (simp add: event_wf_def)
  note array = event_in_array [OF this ev(1) id, folded n_def r_def]
  define body where "body = envelope_bytes (fst r) n"
  have step: "capture_event p level message m1 = (if n < ?B
      then (let (response, m) = sentry_send_envelope p (Some body) m2; (now, m) = uptime_ms p m
        in (response, upd (gs_throttle_update (sentry_throttle_settle now)) m))
      else (sentry_response_make SENTRY_SEND_REJECTED, m2))"
    using array(1,2)
    by (simp add: capture_event_def prep ev_def [symmetric] r_def [symmetric] body_def case_prod_beta Let_def not_le)
  show ?thesis
  proof (cases "n < ?B")
    case True
    then obtain k where k: "read_envelope (text_of body) = Some (id_header event_id, type_header ''event'' k, event_document ev)"
      using array(3) by (auto simp: body_def)
    have "read_envelope (text_of []) = None" by (simp add: read_envelope_def split_line_def text_of_def)
    with k have "body \<noteq> []" by auto
    then have "sent (m_world (snd (sentry_send_envelope p (Some body) m2))) =
        sent (m_world m2) @ [(body, rs_result (fst (sentry_send_envelope p (Some body) m2)))]"
      using assms(2,3,5,6) m2 m1(1)
      by (intro send_sends [OF assms(1)]) (simp_all add: sentry_get_transport_def sentry_is_enabled_def)
    then show ?thesis
      unfolding capture step using True k id ev sent2
      by (auto simp: case_prod_beta Let_def traffic_clock [OF assms(1)] n_def [symmetric] intro!: exI [of _ ev])
  next
    case False
    then show ?thesis
      unfolding capture step using id ev sent2 by (auto simp: n_def [symmetric] intro!: exI [of _ ev])
  qed
qed

definition sample_online :: "test_world micro" where
  "sample_online = \<lparr>m_state = state_zero\<lparr>gs_enabled := True, gs_transport := Some accepting_transport\<rparr>,
     m_rtc = sample_rtc, m_world = (fake_zero False, [])\<rparr>"

theorem capture_delivers_event_witness:
  "case sentry_capture_message (sample_platform no_core_dump) SENTRY_LEVEL_ERROR (Some ''boom'') sample_online of
     (response, m') \<Rightarrow>
       \<exists>ev. ev_level ev = SENTRY_LEVEL_ERROR \<and> ev_message ev = Some ''boom'' \<and> ev_trace ev = None \<and>
         (if snd (sentry_envelope_write (Some ev) None 0) < SENTRY_MICRO_ENVELOPE_BUFFER_BYTES
          then \<exists>body d1 d2. snd (m_world m') = [(body, rs_result response)] \<and>
            read_envelope (text_of body) = Some (d1, d2, event_document ev)
          else snd (m_world m') = [])"
proof -
  have "snd (sentry_throttle_allow SENTRY_LEVEL_ERROR (Some ''boom'')
      (fst (uptime_ms (sample_platform no_core_dump) sample_online)) (gs_throttle (m_state sample_online)))"
    by (simp add: sample_online_def state_zero_def throttle_zero_def sentry_throttle_allow_def Let_def)
  then have "case sentry_capture_message (sample_platform no_core_dump) SENTRY_LEVEL_ERROR (Some ''boom'') sample_online of
    (response, m') \<Rightarrow>
      \<exists>ev event_id. ev_event_id ev = Some event_id \<and> hex_id 32 event_id \<and> ev_level ev = SENTRY_LEVEL_ERROR \<and>
        ev_message ev = Some ''boom'' \<and> ev_release ev = op_release (sentry_get_options sample_online) \<and>
        ev_environment ev = op_environment (sentry_get_options sample_online) \<and>
        ev_device ev = Some (sentry_get_device_info sample_online) \<and>
        ev_trace ev = (if tc_active (sentry_trace_current sample_online) then Some (sentry_trace_current sample_online) else None) \<and>
        (if snd (sentry_envelope_write (Some ev) None 0) < SENTRY_MICRO_ENVELOPE_BUFFER_BYTES
         then \<exists>body k. snd (m_world m') = snd (m_world sample_online) @ [(body, rs_result response)] \<and>
           read_envelope (text_of body) = Some (id_header event_id, type_header ''event'' k, event_document ev)
         else snd (m_world m') = snd (m_world sample_online) \<and> response = sentry_response_make SENTRY_SEND_REJECTED)"
    by (intro capture_delivers_event [OF test_traffic(1)])
      (simp_all add: sample_online_def sentry_get_transport_def sentry_is_enabled_def sample_platform_def
        sample_esp_def storage_keeps_def, simp_all add: state_zero_def buffer_zero_def)
  moreover have "snd (m_world sample_online) = []" "\<not> tc_active (sentry_trace_current sample_online)"
    by (simp_all add: sentry_trace_current_def sample_online_def trace_zero_def)
  ultimately show ?thesis
    by (cases "sentry_capture_message (sample_platform no_core_dump) SENTRY_LEVEL_ERROR (Some ''boom'') sample_online")
      (simp only: prod.case append_Nil if_False, elim exE conjE, rule exI, intro conjI, assumption+,
        simp split: if_splits, blast)
qed

end
