(* ===== verification/Sentry_Crash_Report.thy ===== *)
theory Sentry_Crash_Report
  imports Sentry_Micro_Delivery
begin

text \<open>
  What the firmware does with the SDK at boot: the crash of the previous boot is turned into an
  event, sent or buffered, and erased from flash once it is somewhere durable; a boot without
  one is reported as news. \<open>reportCrash\<close> and \<open>reportBoot\<close> are the usermods of WLED
  (\<open>examples/wled_browser_relay\<close> and \<open>examples/wled_http_forwarder\<close>), \<open>report_crash\<close> is the
  older form in \<open>examples/wifi_basic/src/main.cpp\<close>, which judges durability by another test.
\<close>

section \<open>Reporting a crash\<close>

definition crash_message :: "sentry_coredump \<Rightarrow> string" where
  "crash_message crash =
     snprintf_content 128
       ((if cd_exception_type crash \<noteq> [] then cd_exception_type crash else ''Panic'') @ '' in task '' @
        cd_task_name crash)"

text \<open>
  The event of the stored dump, built the way all three begin; \<open>None\<close> is their \<open>return false\<close>.
\<close>

definition crash_event :: "'w platform \<Rightarrow> 'w micro \<Rightarrow> sentry_event option \<times> 'w micro" where
  "crash_event p m =
     (case sentry_event_prepare p m of
        (False, _, m) \<Rightarrow> (None, m)
      | (True, event, m) \<Rightarrow>
          (case sentry_event_attach_coredump p (Some event) (Some coredump_zero) m of
             (True, Some event, Some crash) \<Rightarrow> (Some (event\<lparr>ev_message := Some (crash_message crash)\<rparr>), m)
           | _ \<Rightarrow> (None, m)))"

definition erase_dump :: "'w platform \<Rightarrow> 'w micro \<Rightarrow> 'w micro" where
  "erase_dump p m = m\<lparr>m_world := snd (sentry_coredump_erase (pf_core_dump p) (m_world m))\<rparr>"

definition reportCrash :: "'w platform \<Rightarrow> 'w micro \<Rightarrow> bool \<times> 'w micro" where
  "reportCrash p m =
     (case crash_event p m of
        (None, m) \<Rightarrow> (False, m)
      | (Some event, m) \<Rightarrow>
          (case sentry_envelope_write (Some event) (Some envelope_array) SENTRY_MICRO_ENVELOPE_BUFFER_BYTES of
             (envelope, needed) \<Rightarrow>
               if needed = 0 \<or> needed \<ge> SENTRY_MICRO_ENVELOPE_BUFFER_BYTES then (True, m)
               else
                (let bufferedBefore = sentry_buffered_count m;
                     (response, m) = sentry_send_envelope p (Some (envelope_bytes envelope needed)) m;
                     durablyHeld = (rs_result response = SENTRY_SEND_OK \<or> sentry_buffered_count m > bufferedBefore)
                 in (True, if durablyHeld then erase_dump p m else m))))"

definition report_crash :: "'w platform \<Rightarrow> 'w micro \<Rightarrow> bool \<times> 'w micro" where
  "report_crash p m =
     (case crash_event p m of
        (None, m) \<Rightarrow> (False, m)
      | (Some event, m) \<Rightarrow>
          (case sentry_envelope_write (Some event) (Some envelope_array) SENTRY_MICRO_ENVELOPE_BUFFER_BYTES of
             (envelope, needed) \<Rightarrow>
               if needed = 0 \<or> needed \<ge> SENTRY_MICRO_ENVELOPE_BUFFER_BYTES then (True, m)
               else
                (let (response, m) = sentry_send_envelope p (Some (envelope_bytes envelope needed)) m
                 in (True,
                     if rs_result response = SENTRY_SEND_OK \<or> sentry_buffered_count m > 0
                     then erase_dump p m else m))))"

section \<open>Reporting a boot\<close>

definition boot_message :: "string \<Rightarrow> sentry_device_info \<Rightarrow> string" where
  "boot_message subject dev =
     snprintf_content 96 (subject @ '' booted: '' @ sentry_reset_reason_name (di_reset_reason dev))"

definition reportBoot :: "'w platform \<Rightarrow> 'w micro \<Rightarrow> 'w micro" where
  "reportBoot p m =
     (let dev = sentry_get_device_info m;
          crashed = sentry_reset_reason_is_crash (di_reset_reason dev)
      in snd (sentry_capture_message p (if crashed then SENTRY_LEVEL_FATAL else SENTRY_LEVEL_INFO)
           (Some (boot_message ''WLED'' dev)) m))"

definition report_boot :: "'w platform \<Rightarrow> 'w micro \<Rightarrow> 'w micro" where
  "report_boot p m =
     (let dev = sentry_get_device_info m;
          crashed = sentry_reset_reason_is_crash (di_reset_reason dev)
      in snd (sentry_capture_message p (if crashed then SENTRY_LEVEL_FATAL else SENTRY_LEVEL_INFO)
           (Some (boot_message ''Device'' dev)) m))"

text \<open>The end of \<open>setup\<close>: one report per boot.\<close>

definition report_at_boot :: "'w platform \<Rightarrow> 'w micro \<Rightarrow> 'w micro" where
  "report_at_boot p m = (case reportCrash p m of (reported, m) \<Rightarrow> if \<not> reported then reportBoot p m else m)"

section \<open>The usermods: options, and the flush of the one that posts over WiFi\<close>

text \<open>
  What the build of the firmware names: its DSN, release, board and whether it prints debug lines.
\<close>

record firmware =
  SENTRY_DSN :: cptr
  SENTRY_RELEASE :: cptr
  ARDUINO_BOARD :: cptr
  SENTRY_MICRO_DEBUG :: bool

definition usermod_options :: "firmware \<Rightarrow> 'w platform \<Rightarrow> sentry_options" where
  "usermod_options fw p =
     (sentry_options_defaults p)\<lparr>op_dsn := SENTRY_DSN fw, op_release := SENTRY_RELEASE fw,
       op_environment := Some ''development'', op_board := ARDUINO_BOARD fw, op_debug := SENTRY_MICRO_DEBUG fw\<rparr>"

text \<open>
  The part of its \<open>loop\<close> after the deliberate crash: \<open>lastFlushMs\<close> is its static variable, and the two
  calls of \<open>millis\<close> return \<open>now\<close> and \<open>again\<close>. \<open>None\<close> is a flush that does not return.
\<close>

definition forwarder_loop :: "'w platform \<Rightarrow> u32 \<Rightarrow> u32 \<Rightarrow> u32 \<Rightarrow> 'w micro \<Rightarrow> (u32 \<times> 'w micro) option" where
  "forwarder_loop p now again lastFlushMs m =
     (if sentry_buffered_count m > 0 \<and> now - lastFlushMs \<ge> 30000
      then map_option (\<lambda>(_, m). (again, m)) (sentry_flush p 2 m)
      else Some (lastFlushMs, m))"

section \<open>Where an envelope ends up\<close>

lemma in_backoff_deadline: "fst (in_backoff p m) \<Longrightarrow> gs_retry_after_uptime_ms (m_state m) \<noteq> 0"
  by (auto simp: in_backoff_def split: if_splits)

context slot_storage
begin

lemma holds_world: "holds s b q \<Longrightarrow> (inv s', slots s') = (inv s, slots s) \<Longrightarrow> holds s' b q"
  by (rule holds_transfer) (simp_all add: holds_def)

text \<open>
  A push onto the buffer, and what else is in the world. \<open>D\<close> is whatever neither the storage nor
  the transport touches.
\<close>

lemma push_places:
  fixes m :: "'s micro"
  assumes "holds (m_world m) (gs_buffer (m_state m)) q" and "e \<noteq> []"
    and "\<forall>v. storage_keeps (Some st) (\<lambda>w. (sent w, D w) = v)"
  shows "\<exists>q'. holds (m_world (snd (buffer_push e m))) (gs_buffer (m_state (snd (buffer_push e m)))) q' \<and>
    (length q < length q' \<longrightarrow> q' = q @ [e]) \<and> sent (m_world (snd (buffer_push e m))) = sent (m_world m) \<and>
    D (m_world (snd (buffer_push e m))) = D (m_world m)"
proof -
  obtain w b ok where p: "sentry_buffer_push e (m_world m) (gs_buffer (m_state m)) = (w, b, ok)" by (rule prod_cases3)
  have "sb_storage (gs_buffer (m_state m)) = Some st" using assms(1) by (simp add: holds_def)
  then have "(sent w, D w) = (sent (m_world m), D (m_world m))"
    using push_keeps [of "gs_buffer (m_state m)" "\<lambda>w. (sent w, D w) = (sent (m_world m), D (m_world m))" "m_world m" e]
      assms(3) p by simp
  with push_holds [OF assms(1,2) p] show ?thesis
    by (intro exI [of _ "if ok then bounded_push N e q else if length q = N then tl q else q"])
      (auto simp: buffer_push_def p bounded_push_def)
qed

lemma send_places:
  fixes m :: "'s micro"
  assumes log: "traffic_log p t (\<lambda>w. ((inv w, slots w), D w)) sent"
    and "\<forall>v. storage_keeps (Some st) (\<lambda>w. (sent w, D w) = v)"
    and "gs_transport (m_state m) = Some t" and "gs_enabled (m_state m)" and "gs_buffering (m_state m)" and "e \<noteq> []"
    and "holds (m_world m) (gs_buffer (m_state m)) q"
  shows "case sentry_send_envelope p (Some e) m of (response, m') \<Rightarrow>
    \<exists>xs q'. sent (m_world m') = sent (m_world m) @ xs \<and> D (m_world m') = D (m_world m) \<and>
      gs_buffering (m_state m') \<and> holds (m_world m') (gs_buffer (m_state m')) q' \<and>
      (xs = [(e, rs_result response)] \<or> xs = [] \<and> gs_retry_after_uptime_ms (m_state m) \<noteq> 0) \<and>
      (if rs_result response = SENTRY_SEND_OK then xs = [(e, SENTRY_SEND_OK)] \<and> q' = q
       else (\<forall>b. (b, SENTRY_SEND_OK) \<notin> set xs) \<and> (length q < length q' \<longrightarrow> q' = q @ [e]))"
proof -
  define m1 where "m1 = snd (in_backoff p m)"
  have "talks t (\<lambda>w. ((inv w, slots w), D w)) sent 0 m m1"
    unfolding m1_def using assms(3) by (intro talks_clock [OF log]) (simp add: talks_def)
  then have m1: "holds (m_world m1) (gs_buffer (m_state m1)) q" "sent (m_world m1) = sent (m_world m)"
    "D (m_world m1) = D (m_world m)" "gs_transport (m_state m1) = Some t" "gs_buffering (m_state m1)"
    using holds_world [OF assms(7)] assms(5) by (auto simp: talks_def)
  have send: "sentry_send_envelope p (Some e) m =
      (let (response, x) = (if fst (in_backoff p m) then (sentry_response_make SENTRY_SEND_RATE_LIMITED, m1) else deliver p e m1)
       in if rs_result response \<noteq> SENTRY_SEND_OK \<and> gs_buffering (m_state x) \<and> worth_retrying (rs_result response)
          then (response, snd (buffer_push e x)) else (response, x))"
    using assms(4,6) by (simp add: sentry_send_envelope_def m1_def case_prod_beta bool.case_eq_if Let_def)
  have place: "\<exists>q'. holds (m_world (snd (buffer_push e x))) (gs_buffer (m_state (snd (buffer_push e x)))) q' \<and>
      (length q < length q' \<longrightarrow> q' = q @ [e]) \<and> sent (m_world (snd (buffer_push e x))) = sent (m_world x) \<and>
      D (m_world (snd (buffer_push e x))) = D (m_world x) \<and> gs_buffering (m_state (snd (buffer_push e x)))"
    if "holds (m_world x) (gs_buffer (m_state x)) q" "gs_buffering (m_state x)" for x
    using push_places [OF that(1) assms(6,2)] that(2) by (simp add: buffer_push_def case_prod_beta)
  show ?thesis
  proof (cases "fst (in_backoff p m)")
    case True
    then show ?thesis
      using place [OF m1(1,5)] m1(2,3,5) in_backoff_deadline [OF True]
      by (fastforce simp: send sentry_response_make_def worth_retrying_def intro: exI [of _ "[]"])
  next
    case False
    define r where "r = fst (deliver p e m1)"
    define x where "x = snd (deliver p e m1)"
    have x: "holds (m_world x) (gs_buffer (m_state x)) q" "sent (m_world x) = sent (m_world m) @ [(e, rs_result r)]"
      "D (m_world x) = D (m_world m)" "gs_buffering (m_state x)"
      using deliver_sends [OF log m1(4), of e] holds_world [OF m1(1)] m1 by (simp_all add: x_def r_def)
    have "sentry_send_envelope p (Some e) m =
        (if rs_result r \<noteq> SENTRY_SEND_OK \<and> worth_retrying (rs_result r) then (r, snd (buffer_push e x)) else (r, x))"
      using False x(4) by (simp add: send case_prod_beta r_def x_def)
    with place [OF x(1,4)] x show ?thesis by (cases "rs_result r = SENTRY_SEND_OK") (fastforce, auto)
  qed
qed

end

section \<open>The event of a crash\<close>

text \<open>What the flash holds of the dump; nothing but the erase changes it.\<close>

definition stored_dump :: "'w platform \<Rightarrow> 'w \<Rightarrow> esp_err \<times> esp_core_dump_summary option" where
  "stored_dump p w = (esp_core_dump_image_check (pf_core_dump p) w, esp_core_dump_get_summary (pf_core_dump p) w)"

lemma read_stored:
  "stored_dump p w = stored_dump p w' \<Longrightarrow>
    sentry_coredump_read (pf_core_dump p) w = sentry_coredump_read (pf_core_dump p) w'"
  by (simp add: stored_dump_def sentry_coredump_read_def)

text \<open>The event of the dump stored in the world of \<open>m\<close>, and an envelope that carries an event.\<close>

definition is_crash_event :: "'w platform \<Rightarrow> 'w micro \<Rightarrow> sentry_event \<Rightarrow> bool" where
  "is_crash_event p m ev \<longleftrightarrow>
     (let crash = fst (sentry_coredump_read (pf_core_dump p) (m_world m)); trace = gs_crash_trace (m_state m)
      in ev_coredump ev = Some crash \<and> coredump_wf crash \<and> cd_available crash \<and> ev_level ev = SENTRY_LEVEL_FATAL \<and>
         ev_message ev = Some (crash_message crash) \<and> ev_trace ev = (if tc_active trace then Some trace else None))"

definition carries :: "bytes \<Rightarrow> sentry_event \<Rightarrow> bool" where
  "carries body ev \<longleftrightarrow> (\<exists>event_id k. ev_event_id ev = Some event_id \<and> hex_id 32 event_id \<and>
     read_envelope (text_of body) = Some (id_header event_id, type_header ''event'' k, event_document ev))"

lemma crash_event_cases:
  assumes "gs_enabled (m_state m)"
    and len: "\<And>w. length (fst (esp_fill_random (pf_esp p) 16 w)) = 16"
    and bt: "\<And>summary. esp_core_dump_get_summary (pf_core_dump p) (m_world m) = Some summary \<Longrightarrow> length (es_bt summary) = 16"
    and keep: "\<forall>v. chip_keeps p (\<lambda>w. ((S w, stored_dump p w), sent w) = v)"
  obtains ev m' where "crash_event p m = (ev, m')" "m_state m' = m_state m" "S (m_world m') = S (m_world m)"
    "sent (m_world m') = sent (m_world m)" "stored_dump p (m_world m') = stored_dump p (m_world m)"
    "ev \<noteq> None \<longleftrightarrow> snd (sentry_coredump_read (pf_core_dump p) (m_world m))"
    "\<And>e. ev = Some e \<Longrightarrow> is_crash_event p m e \<and> (\<exists>event_id. ev_event_id e = Some event_id \<and> hex_id 32 event_id)"
proof -
  obtain ev0 m1 where prep: "sentry_event_prepare p m = (True, ev0, m1)" and m1: "m_state m1 = m_state m"
    and id: "ev_event_id ev0 = Some (sentry_event_id_format (fst (esp_fill_random (pf_esp p) 16 (m_world m))))"
    and kept: "\<And>P. chip_keeps p P \<Longrightarrow> P (m_world m) \<Longrightarrow> P (m_world m1)"
    by (rule prepare_event [OF assms(1), of p]) blast
  have w: "((S (m_world m1), stored_dump p (m_world m1)), sent (m_world m1)) =
      ((S (m_world m), stored_dump p (m_world m)), sent (m_world m))"
    using kept [OF keep [rule_format]] by blast
  then have read: "sentry_coredump_read (pf_core_dump p) (m_world m1) = sentry_coredump_read (pf_core_dump p) (m_world m)"
    by (intro read_stored) simp
  have hex: "hex_id 32 (sentry_event_id_format (fst (esp_fill_random (pf_esp p) 16 (m_world m))))"
    using event_id_is_uuid_v4 [OF len len] by blast
  obtain c ok where c: "sentry_coredump_read (pf_core_dump p) (m_world m) = (c, ok)" by fastforce
  have sound: "cd_available c = ok" "coredump_wf c"
    using coredump_read_wf [of "pf_core_dump p" "m_world m", OF bt] c by simp_all
  show ?thesis
    by (rule that [of "fst (crash_event p m)" "snd (crash_event p m)"])
      (use assms(1) m1 w id hex c sound in \<open>auto simp: crash_event_def prep sentry_event_attach_coredump_def read
        is_crash_event_def Let_def\<close>)
qed

section \<open>A crash is not lost\<close>

lemma holds_count:
  "slot_storage.holds put get erase load_meta save_meta count slots sound s b q \<Longrightarrow> slot_storage put get erase load_meta save_meta count slots meta sound \<Longrightarrow>
    unat (sentry_buffer_count b) = length q"
  by (simp add: slot_storage.holds_def sentry_buffer_count_def)

lemma erase_dump_simps [simp]:
  "m_state (erase_dump p m) = m_state m"
  "m_world (erase_dump p m) = snd (sentry_coredump_erase (pf_core_dump p) (m_world m))"
  by (simp_all add: erase_dump_def)

text \<open>The envelope that holds a crash event, written into the array of the stack.\<close>

lemma crash_envelope_length:
  assumes "is_crash_event p m ev" and "ev_event_id ev = Some event_id" and "hex_id 32 event_id"
    and "sentry_envelope_write (Some ev) (Some envelope_array) SENTRY_MICRO_ENVELOPE_BUFFER_BYTES = (envelope, needed)"
  shows "needed = snd (sentry_envelope_write (Some ev) None 0)" and "needed \<noteq> 0"
proof -
  have "event_wf ev" using assms(1,2) by (auto simp: event_wf_def is_crash_event_def Let_def)
  note array = event_in_array [OF this assms(2,3), unfolded assms(4) fst_conv snd_conv]
  show "needed = snd (sentry_envelope_write (Some ev) None 0)" using array(1) .
  then show "needed \<noteq> 0" using array(2) by simp
qed

lemma crash_envelope:
  assumes "is_crash_event p m ev" and "ev_event_id ev = Some event_id" and "hex_id 32 event_id"
    and "sentry_envelope_write (Some ev) (Some envelope_array) SENTRY_MICRO_ENVELOPE_BUFFER_BYTES = (envelope, needed)"
    and "needed < SENTRY_MICRO_ENVELOPE_BUFFER_BYTES"
  shows "carries (envelope_bytes envelope needed) ev" and "envelope_bytes envelope needed \<noteq> []"
proof -
  have "event_wf ev" using assms(1,2) by (auto simp: event_wf_def is_crash_event_def Let_def)
  note array = event_in_array [OF this assms(2,3), unfolded assms(4) fst_conv snd_conv]
  show c: "carries (envelope_bytes envelope needed) ev"
    using array(1,3) assms(2,3,5) by (simp add: carries_def)
  have "read_envelope (text_of []) = None" by (simp add: read_envelope_def split_line_def text_of_def)
  with c show "envelope_bytes envelope needed \<noteq> []" by (auto simp: carries_def)
qed

text \<open>
  C3: A crash is reported without being lost. On a storage that may fail in any way its contract
  allows, \<open>reportCrash\<close> answers whether there was a core dump to report. Afterwards either the
  dump is still in flash, its report was not accepted and the buffer has not grown; or the dump
  was erased, and then an envelope that reads back as the fatal event of that dump, with
  the message of the crash and the trace that was active when the device died, was accepted by
  the server, or is the newest one in the buffer, behind all that were waiting before. And the
  report is attempted: outside a back-off exactly one envelope is sent, which carries that event,
  unless it does not fit the array of the stack.
\<close>

theorem crash_report_not_lost:
  assumes "slot_storage put get erase load_meta save_meta count slots meta sound"
    and "traffic_log p t (\<lambda>w. ((sound w, slots w), stored_dump p w)) sent"
    and "\<forall>v. storage_keeps (Some (storage_of put get erase load_meta save_meta count)) (\<lambda>w. (sent w, stored_dump p w) = v)"
    and "\<forall>v. keeps (\<lambda>w. ((sound w, slots w), sent w) = v) (\<lambda>w. snd (sentry_coredump_erase (pf_core_dump p) w))"
    and "\<And>w. length (fst (esp_fill_random (pf_esp p) 16 w)) = 16"
    and "\<And>summary. esp_core_dump_get_summary (pf_core_dump p) (m_world m) = Some summary \<Longrightarrow> length (es_bt summary) = 16"
    and "sentry_is_enabled m" and "gs_buffering (m_state m)" and "sentry_get_transport m = Some t"
    and "slot_storage.holds put get erase load_meta save_meta count slots sound (m_world m) (gs_buffer (m_state m)) q"
  shows "case reportCrash p m of (reported, m') \<Rightarrow>
    reported = snd (sentry_coredump_read (pf_core_dump p) (m_world m)) \<and>
    (\<exists>xs q' w. sent (m_world m') = sent (m_world m) @ xs \<and> stored_dump p w = stored_dump p (m_world m) \<and>
      slot_storage.holds put get erase load_meta save_meta count slots sound (m_world m') (gs_buffer (m_state m')) q' \<and>
      (reported \<and> gs_retry_after_uptime_ms (m_state m) = 0 \<longrightarrow> (\<exists>ev. is_crash_event p m ev \<and>
        (if snd (sentry_envelope_write (Some ev) None 0) < SENTRY_MICRO_ENVELOPE_BUFFER_BYTES
         then \<exists>body r. xs = [(body, r)] \<and> carries body ev else xs = []))) \<and>
      (m_world m' = w \<and> (\<forall>b. (b, SENTRY_SEND_OK) \<notin> set xs) \<and> length q' \<le> length q \<or>
       m_world m' = snd (sentry_coredump_erase (pf_core_dump p) w) \<and>
       (\<exists>body ev. is_crash_event p m ev \<and> carries body ev \<and>
         (xs = [(body, SENTRY_SEND_OK)] \<and> q' = q \<or> q' = q @ [body]))))"
proof -
  let ?holds = "slot_storage.holds put get erase load_meta save_meta count slots sound"
  have "\<forall>v. chip_keeps p (\<lambda>w. (((sound w, slots w), stored_dump p w), sent w) = v)"
    using assms(2) by (simp add: traffic_log_def)
  from crash_event_cases [OF assms(7) [unfolded sentry_is_enabled_def] assms(5,6) this] obtain r m1 where
    ev: "crash_event p m = (r, m1)" "r \<noteq> None \<longleftrightarrow> snd (sentry_coredump_read (pf_core_dump p) (m_world m))"
      "\<And>e. r = Some e \<Longrightarrow> is_crash_event p m e \<and> (\<exists>event_id. ev_event_id e = Some event_id \<and> hex_id 32 event_id)"
    and m1: "m_state m1 = m_state m" "(sound (m_world m1), slots (m_world m1)) = (sound (m_world m), slots (m_world m))"
      "sent (m_world m1) = sent (m_world m)" "stored_dump p (m_world m1) = stored_dump p (m_world m)"
    by metis
  have h1: "?holds (m_world m1) (gs_buffer (m_state m1)) q"
    using slot_storage.holds_world [OF assms(1,10) m1(2)] m1(1) by simp
  note kept = h1 m1(3,4)
  show ?thesis
  proof (cases r)
    case None
    then show ?thesis
      using ev(1,2) kept by (auto simp: reportCrash_def intro!: exI [of _ "[]"] exI [of _ q] exI [of _ "m_world m1"])
  next
    case (Some e)
    obtain envelope needed where
      w: "sentry_envelope_write (Some e) (Some envelope_array) SENTRY_MICRO_ENVELOPE_BUFFER_BYTES = (envelope, needed)"
      by fastforce
    define body where "body = envelope_bytes envelope needed"
    obtain response m2 where send: "sentry_send_envelope p (Some body) m1 = (response, m2)" by fastforce
    define held where "held \<longleftrightarrow> rs_result response = SENTRY_SEND_OK \<or> sentry_buffered_count m2 > sentry_buffered_count m1"
    have read: "snd (sentry_coredump_read (pf_core_dump p) (m_world m))" using ev(2) Some by simp
    from ev(3) [OF Some] obtain event_id where e: "is_crash_event p m e" "ev_event_id e = Some event_id" "hex_id 32 event_id"
      by blast
    note size = crash_envelope_length [OF e w]
    show ?thesis
    proof (cases "needed \<ge> SENTRY_MICRO_ENVELOPE_BUFFER_BYTES")
      case True
      then have "reportCrash p m = (True, m1)" using ev(1) Some w by (simp add: reportCrash_def)
      then show ?thesis
        using read kept True size(1) e(1)
        by (auto intro!: exI [of _ "[]"] exI [of _ q] exI [of _ "m_world m1"] exI [of _ e])
    next
      case False
      then have run: "reportCrash p m = (True, if held then erase_dump p m2 else m2)"
        using ev(1) Some w send size(2) by (simp add: reportCrash_def body_def [symmetric] held_def)
      have body: "carries body e" "body \<noteq> []" using crash_envelope [OF e w, folded body_def] False by simp_all
      from slot_storage.send_places [OF assms(1-3) _ _ _ body(2) h1] assms(7-9) send m1(1) obtain xs q' where
        place: "sent (m_world m2) = sent (m_world m1) @ xs" "stored_dump p (m_world m2) = stored_dump p (m_world m1)"
          "gs_buffering (m_state m2)" "?holds (m_world m2) (gs_buffer (m_state m2)) q'"
          "xs = [(body, rs_result response)] \<or> xs = [] \<and> gs_retry_after_uptime_ms (m_state m) \<noteq> 0"
          "if rs_result response = SENTRY_SEND_OK then xs = [(body, SENTRY_SEND_OK)] \<and> q' = q
           else (\<forall>b. (b, SENTRY_SEND_OK) \<notin> set xs) \<and> (length q < length q' \<longrightarrow> q' = q @ [body])"
        by (auto simp: sentry_get_transport_def sentry_is_enabled_def)
      have grew: "sentry_buffered_count m2 > sentry_buffered_count m1 \<longleftrightarrow> length q < length q'"
        using holds_count [OF place(4) assms(1)] holds_count [OF h1 assms(1)] place(3) assms(8) m1(1)
        by (simp add: sentry_buffered_count_def word_less_nat_alt)
      have tried: "gs_retry_after_uptime_ms (m_state m) = 0 \<longrightarrow> (\<exists>ev. is_crash_event p m ev \<and>
          (if snd (sentry_envelope_write (Some ev) None 0) < SENTRY_MICRO_ENVELOPE_BUFFER_BYTES
           then \<exists>body r. xs = [(body, r)] \<and> carries body ev else xs = []))"
        using e(1) body(1) place(5) False size(1) by (auto intro!: exI [of _ e])
      show ?thesis
      proof (cases held)
        case False
        then have "m_world m2 = m_world m2 \<and> (\<forall>b. (b, SENTRY_SEND_OK) \<notin> set xs) \<and> length q' \<le> length q"
          using place(6) grew by (simp add: held_def)
        moreover have "reportCrash p m = (True, m2)" using run False by simp
        ultimately show ?thesis
          using read place(1-4) m1 tried
          by (simp, intro exI [of _ xs] conjI exI [of _ q'] exI [of _ "m_world m2"]) auto
      next
        case True
        let ?w = "snd (sentry_coredump_erase (pf_core_dump p) (m_world m2))"
        have erased: "((sound ?w, slots ?w), sent ?w) = ((sound (m_world m2), slots (m_world m2)), sent (m_world m2))"
          using assms(4) by (simp add: keeps_def)
        then have "?holds ?w (gs_buffer (m_state m2)) q'"
          using slot_storage.holds_world [OF assms(1) place(4), of ?w] by simp
        moreover have "xs = [(body, SENTRY_SEND_OK)] \<and> q' = q \<or> q' = q @ [body]"
          using True place(6) grew by (auto simp: held_def split: if_splits)
        moreover have "reportCrash p m = (True, erase_dump p m2)" using run True by simp
        ultimately show ?thesis
          using read place(1-4) m1 erased e(1) body(1) tried
          by (simp, intro exI [of _ xs] conjI exI [of _ q'] exI [of _ "m_world m2"]) auto
      qed
    qed
  qed
qed

text \<open>
  The test of \<open>report_crash\<close> is weaker: whatever was waiting before passes for the report itself,
  so a dump whose report was neither accepted nor stored is erased all the same.
\<close>

lemma older_entries_pass_for_the_report:
  assumes "crash_event p m = (Some ev, m1)"
    and "sentry_envelope_write (Some ev) (Some envelope_array) SENTRY_MICRO_ENVELOPE_BUFFER_BYTES = (envelope, needed)"
    and "0 < needed" and "needed < SENTRY_MICRO_ENVELOPE_BUFFER_BYTES"
    and "sentry_send_envelope p (Some (envelope_bytes envelope needed)) m1 = (response, m2)"
    and "rs_result response \<noteq> SENTRY_SEND_OK" and "gs_buffering (m_state m2)"
    and "slot_storage.holds put get erase load_meta save_meta count slots sound (m_world m2) (gs_buffer (m_state m2)) q"
    and "slot_storage put get erase load_meta save_meta count slots meta sound"
    and "envelope_bytes envelope needed \<notin> set q" and "q \<noteq> []"
  shows "report_crash p m = (True, erase_dump p m2)"
proof -
  have "0 < unat (sentry_buffered_count m2)"
    using holds_count [OF assms(8,9)] assms(7,11) by (simp add: sentry_buffered_count_def)
  then have "sentry_buffered_count m2 > 0" by (simp add: unat_gt_0 word_gt_0)
  then show ?thesis using assms(1-6) by (simp add: report_crash_def)
qed

text \<open>A dump in flash beside the storage of the host tests, with an empty buffer and a server that accepts.\<close>

definition test_core_dump :: "test_world esp_core_dump" where
  "test_core_dump =
     \<lparr>SENTRY_COREDUMP_SUPPORTED = True, SENTRY_COREDUMP_ARCH_RISCV = False,
      esp_core_dump_image_check = (\<lambda>w. ESP_OK),
      esp_core_dump_get_summary = (\<lambda>w. esp_core_dump_get_summary sample_core_dump ()),
      esp_core_dump_image_erase = (\<lambda>w. (ESP_OK, w))\<rparr>"

definition sample_crashed :: "test_world micro" where
  "sample_crashed = \<lparr>m_state = state_zero\<lparr>gs_enabled := True, gs_transport := Some accepting_transport,
       gs_buffering := True, gs_buffer := buffer_zero\<lparr>sb_storage := Some test_storage\<rparr>\<rparr>,
     m_rtc = sample_rtc, m_world = (fake_zero False, [])\<rparr>"

theorem crash_report_not_lost_witness:
  "case reportCrash (sample_platform test_core_dump) sample_crashed of (reported, m') \<Rightarrow>
     reported \<and> (\<exists>q'. traffic.holds (m_world m') (gs_buffer (m_state m')) q') \<and>
     (\<exists>ev. is_crash_event (sample_platform test_core_dump) sample_crashed ev \<and>
       (if snd (sentry_envelope_write (Some ev) None 0) < SENTRY_MICRO_ENVELOPE_BUFFER_BYTES
        then \<exists>body r. snd (m_world m') = [(body, r)] \<and> carries body ev else snd (m_world m') = []))"
proof -
  let ?p = "sample_platform test_core_dump"
  have slot: "slot_storage (\<lambda>w i d. beside (\<lambda>s. fake_write s i d) w) (\<lambda>w i n. beside (\<lambda>s. fake_read s i n) w)
     (\<lambda>w i. beside (\<lambda>s. fake_erase s i) w) (beside fake_load_meta) (\<lambda>w h t d. beside (\<lambda>s. fake_save_meta s h t d) w) 4
     (\<lambda>w. fake_slots (fst w)) (\<lambda>w. fs_meta (fst w)) (\<lambda>w. fake_working (fst w))"
    using test_storage_reliable by (simp add: reliable_storage_def)
  have log: "traffic_log ?p accepting_transport (\<lambda>w. ((fake_working (fst w), fake_slots (fst w)), stored_dump ?p w)) snd"
    "\<forall>v. storage_keeps (Some test_storage) (\<lambda>w. (snd w, stored_dump ?p w) = v)"
    by (simp_all add: traffic_log_def chip_keeps_def keeps_def sample_platform_def sample_esp_def stored_dump_def
      test_core_dump_def accepting_transport_def sentry_response_make_def storage_keeps_def)
  have h: "traffic.holds (m_world sample_crashed) (gs_buffer (m_state sample_crashed)) []"
    unfolding traffic.holds_def
    by (simp add: sample_crashed_def buffer_zero_def fake_zero_def fake_working_def fake_sound_def)
  have read: "snd (sentry_coredump_read (pf_core_dump ?p) w)" for w
    by (simp add: sample_platform_def test_core_dump_def sentry_coredump_read_def sample_core_dump_def Let_def)
  have "case reportCrash ?p sample_crashed of (reported, m') \<Rightarrow>
      reported = snd (sentry_coredump_read (pf_core_dump ?p) (m_world sample_crashed)) \<and>
      (\<exists>xs q' w. snd (m_world m') = snd (m_world sample_crashed) @ xs \<and>
        stored_dump ?p w = stored_dump ?p (m_world sample_crashed) \<and>
        traffic.holds (m_world m') (gs_buffer (m_state m')) q' \<and>
        (reported \<and> gs_retry_after_uptime_ms (m_state sample_crashed) = 0 \<longrightarrow> (\<exists>ev. is_crash_event ?p sample_crashed ev \<and>
          (if snd (sentry_envelope_write (Some ev) None 0) < SENTRY_MICRO_ENVELOPE_BUFFER_BYTES
           then \<exists>body r. xs = [(body, r)] \<and> carries body ev else xs = []))) \<and>
        (m_world m' = w \<and> (\<forall>b. (b, SENTRY_SEND_OK) \<notin> set xs) \<and> length q' \<le> length ([] :: bytes list) \<or>
         m_world m' = snd (sentry_coredump_erase (pf_core_dump ?p) w) \<and>
         (\<exists>body ev. is_crash_event ?p sample_crashed ev \<and> carries body ev \<and>
           (xs = [(body, SENTRY_SEND_OK)] \<and> q' = [] \<or> q' = [] @ [body]))))"
    by (rule crash_report_not_lost [OF slot log _ _ _ _ _ _ h])
      (simp_all add: keeps_def sample_platform_def sample_esp_def test_core_dump_def sample_core_dump_def
        sentry_coredump_erase_def sample_crashed_def sentry_is_enabled_def sentry_get_transport_def)
  moreover have "snd (m_world sample_crashed) = []" "gs_retry_after_uptime_ms (m_state sample_crashed) = 0"
    by (simp_all add: sample_crashed_def) (simp add: state_zero_def)
  ultimately show ?thesis
    using read by (cases "reportCrash ?p sample_crashed") (simp only: prod.case append_Nil, blast)
qed

section \<open>The loop of the usermod\<close>

text \<open>It goes on whatever the flush meets, and never flushes twice in 30 seconds.\<close>

lemma forwarder_loop_returns:
  assumes "buffer_wf (gs_buffer (m_state m))"
  shows "\<exists>last m'. forwarder_loop p now again lastFlushMs m = Some (last, m') \<and>
    (m' = m \<and> last = lastFlushMs \<or> last = again \<and> 30000 \<le> now - lastFlushMs)"
  using flush_returns_wf [OF assms, of p 2] by (auto simp: forwarder_loop_def)

end
