(* ===== verification/Sentry_Wled_Relay.thy ===== *)
theory Sentry_Wled_Relay
  imports Sentry_Relay_Transport Sentry_Base64 Sentry_Http Sentry_Micro
begin

text \<open>
  The relay link of the WLED usermod
  (\<open>examples/wled_browser_relay/usermods/sentry/usermod_sentry.cpp\<close>): the frames of the relay
  transport wait in a byte queue until the page of a browser polls for them, in base64, and the
  page's verdict comes back as the arguments of a request. The web server, its request arguments
  and the lock are parameters: a call is told whether it got the lock in time, whether memory
  for the text could be had, and whether the server's string took a copy of it. The page's side
  of the link is written from \<open>wled_ui_relay.js\<close>.
\<close>

section \<open>The state of the usermod\<close>

definition kRelayChunkBytes :: nat where "kRelayChunkBytes = 1024"
definition kRelayQueueBytes :: nat where "kRelayQueueBytes = 4096"
definition kHostIdleTimeoutMs :: u32 where "kHostIdleTimeoutMs = 8000"

text \<open>\<open>queue_\<close> and \<open>queueLen_\<close> are the list of the bytes in use.\<close>

record usermod =
  um_relay :: relay_transport
  um_queueLock :: bool
  um_queue :: bytes
  um_crashPending :: bool
  um_crashAtMs :: u32
  um_testPending :: bool
  um_lastPollMs :: u32

text \<open>What \<open>setup\<close> leaves of it, with the answer of \<open>xSemaphoreCreateMutex\<close>.\<close>

definition usermod_setup :: "bool \<Rightarrow> usermod" where
  "usermod_setup mutex =
     \<lparr>um_relay = set_chunk_bytes kRelayChunkBytes RelayTransport, um_queueLock = mutex, um_queue = [],
      um_crashPending = False, um_crashAtMs = 0, um_testPending = False, um_lastPollMs = 0\<rparr>"

section \<open>The operations\<close>

text \<open>\<open>taken\<close> is the answer of \<open>xSemaphoreTake\<close>.\<close>

definition enqueueFrame :: "bool \<Rightarrow> bytes \<Rightarrow> usermod \<Rightarrow> usermod \<times> bool" where
  "enqueueFrame taken frame u =
     (if \<not> um_queueLock u \<or> length frame > 0xffff then (u, False)
      else if taken then
        (if length (um_queue u) + 2 + length frame \<le> kRelayQueueBytes
         then (u\<lparr>um_queue := um_queue u @ [of_nat (length frame mod 256), of_nat (length frame div 256)] @ frame\<rparr>, True)
         else (u, False))
      else (u, False))"

text \<open>The arguments of a request, and \<open>request->arg(name).toInt()\<close>.\<close>

type_synonym request_args = "string \<Rightarrow> string option"

definition arg_int :: "request_args \<Rightarrow> string \<Rightarrow> int" where
  "arg_int args name = fst (strtol10 (case args name of Some s \<Rightarrow> s | None \<Rightarrow> ''''))"

text \<open>How the platform serves a poll.\<close>

record poll_luck =
  pl_taken :: bool
  pl_allocated :: bool
  pl_copied :: bool

definition handlePoll :: "u32 \<Rightarrow> request_args \<Rightarrow> poll_luck \<Rightarrow> usermod \<Rightarrow> usermod \<times> string" where
  "handlePoll now args luck u =
     (let u = u\<lparr>um_lastPollMs := now\<rparr>;
          u = (if \<not> host_ready (um_relay u)
               then let chunk = (if args ''chunk'' \<noteq> None then word_of_int (arg_int args ''chunk'')
                                 else of_nat kRelayChunkBytes) :: u16;
                        version = (if args ''v'' \<noteq> None then word_of_int (arg_int args ''v'')
                                   else SENTRY_RELAY_PROTOCOL_VERSION);
                        hello = [SENTRY_RELAY_FRAME_HELLO, version] @ write_u16 chunk
                    in u\<lparr>um_relay := on_host_frame (Some hello) (set_host_attached True (um_relay u))\<rparr>
               else u)
      in if um_queueLock u \<and> pl_taken luck then
           (if 0 < length (um_queue u) then
             let need = SENTRY_BASE64_ENCODED_LEN (length (um_queue u)) + 1
             in if pl_allocated luck then
                  (case sentry_base64_encode (Some (replicate need NUL)) need (Some (um_queue u)) (length (um_queue u)) of
                     (encoded, written) \<Rightarrow>
                       if 0 < written \<and> written < need
                       then (u\<lparr>um_queue := []\<rparr>, if pl_copied luck then cstring_of (the encoded) else '''')
                       else (u, ''''))
                else (u, '''')
            else (u, ''''))
         else (u, ''''))"

text \<open>The code the page is answered, and the verdict handed to the transport as a frame.\<close>

definition handleRelayStatus :: "request_args \<Rightarrow> usermod \<Rightarrow> usermod \<times> nat" where
  "handleRelayStatus args u =
     (if args ''req'' = None then (u, 400)
      else
       (let retry = (if args ''retry'' \<noteq> None then word_of_int (arg_int args ''retry'') else 0) :: u32;
            http = (if args ''http'' \<noteq> None then word_of_int (arg_int args ''http'') else 0) :: u16;
            result = (if args ''result'' \<noteq> None then word_of_int (arg_int args ''result'')
                      else SENTRY_RELAY_RESULT_ERROR) :: u8;
            status = [SENTRY_RELAY_FRAME_STATUS, word_of_int (arg_int args ''req''), result] @
              write_u16 http @ write_u32 retry
        in (u\<lparr>um_relay := on_host_frame (Some status) (um_relay u)\<rparr>, 200)))"

definition handle_test :: "usermod \<Rightarrow> usermod" where
  "handle_test u = u\<lparr>um_testPending := True\<rparr>"

definition handle_crash :: "u32 \<Rightarrow> usermod \<Rightarrow> usermod" where
  "handle_crash now u = u\<lparr>um_crashAtMs := now + 500, um_crashPending := True\<rparr>"

text \<open>
  One round of the delivery task. The usermod is part of the world of the SDK, which \<open>um\<close> reads
  and \<open>on_um\<close> changes; \<open>now\<close> is what \<open>millis\<close> returned. \<open>None\<close> is a flush that does not return.
\<close>

definition deliveryTick ::
    "('w \<Rightarrow> usermod) \<Rightarrow> ((usermod \<Rightarrow> usermod) \<Rightarrow> 'w \<Rightarrow> 'w) \<Rightarrow> 'w platform \<Rightarrow> u32 \<Rightarrow> 'w micro \<Rightarrow> 'w micro option" where
  "deliveryTick um on_um p now m =
     (let u = um (m_world m);
          m = (if host_ready (um_relay u) \<and> now - um_lastPollMs u > kHostIdleTimeoutMs
               then m\<lparr>m_world := on_um (um_relay_update (set_host_attached False)) (m_world m)\<rparr> else m)
      in if \<not> host_ready (um_relay (um (m_world m))) then Some m
         else
          (let m = (if um_testPending (um (m_world m))
                    then snd (sentry_capture_message p SENTRY_LEVEL_INFO
                           (Some ''WLED test event from the relay page'')
                           (m\<lparr>m_world := on_um (um_testPending_update (\<lambda>_. False)) (m_world m)\<rparr>))
                    else m)
           in if sentry_buffered_count m > 0 then map_option snd (sentry_flush p 2 m) else Some m))"

section \<open>The page\<close>

text \<open>The loop of \<open>poll()\<close> over the bytes of an answer, and the reading of an answer.\<close>

function split_frames :: "bytes \<Rightarrow> bytes list" where
  "split_frames bytes =
     (if length bytes < 2 then []
      else let len = unat (bytes ! 0) + 256 * unat (bytes ! 1); rest = drop 2 bytes
        in if length rest < len then [] else take len rest # split_frames (drop len rest))"
  by pat_completeness auto
termination by (relation "measure length") auto

declare split_frames.simps [simp del]

definition page_reads :: "string \<Rightarrow> bytes list" where
  "page_reads text = (case base64_decode text of Some bytes \<Rightarrow> split_frames bytes | None \<Rightarrow> [])"

definition framed :: "bytes \<Rightarrow> bytes" where
  "framed f = [of_nat (length f mod 256), of_nat (length f div 256)] @ f"

lemma split_frames_Nil [simp]: "split_frames [] = []"
  by (simp add: split_frames.simps)

lemma split_framed:
  assumes "length f \<le> 0xffff"
  shows "split_frames (framed f @ rest) = f # split_frames rest"
proof -
  have "length f div 256 < 256" using assms by simp
  then have "unat (of_nat (length f div 256) :: u8) = length f div 256"
    "unat (of_nat (length f mod 256) :: u8) = length f mod 256"
    by (simp_all add: unat_of_nat)
  then show ?thesis
    using mod_mult_div_eq [of "length f" 256] by (subst split_frames.simps) (simp add: framed_def)
qed

lemma split_concat:
  "list_all (\<lambda>f. length f \<le> 0xffff) fs \<Longrightarrow> split_frames (concat (map framed fs)) = fs"
  by (induction fs) (simp_all add: split_framed)

section \<open>The queue\<close>

definition queue_wf :: "usermod \<Rightarrow> bool" where
  "queue_wf u \<longleftrightarrow> length (um_queue u) \<le> kRelayQueueBytes \<and>
     (\<exists>fs. um_queue u = concat (map framed fs) \<and> list_all (\<lambda>f. length f \<le> 0xffff) fs)"

lemma queue_wf_split:
  "queue_wf u \<Longrightarrow> um_queue u = concat (map framed (split_frames (um_queue u)))"
  by (auto simp: queue_wf_def split_concat)

lemma enqueue_split:
  assumes "queue_wf u" and "enqueueFrame taken f u = (u', ok)"
  shows "queue_wf u'" "split_frames (um_queue u') = split_frames (um_queue u) @ (if ok then [f] else [])"
    "ok \<longleftrightarrow> um_queueLock u \<and> taken \<and> length f \<le> 0xffff \<and> length (um_queue u) + 2 + length f \<le> kRelayQueueBytes"
    "um_queueLock u' = um_queueLock u"
proof -
  from assms(1) obtain fs where fs: "um_queue u = concat (map framed fs)" "list_all (\<lambda>f. length f \<le> 0xffff) fs"
    "length (um_queue u) \<le> kRelayQueueBytes"
    by (auto simp: queue_wf_def)
  then have s: "split_frames (um_queue u) = fs" by (simp add: split_concat)
  show ok: "ok \<longleftrightarrow> um_queueLock u \<and> taken \<and> length f \<le> 0xffff \<and> length (um_queue u) + 2 + length f \<le> kRelayQueueBytes"
    and "um_queueLock u' = um_queueLock u"
    using assms(2) by (auto simp: enqueueFrame_def split: if_splits)
  show "queue_wf u'" "split_frames (um_queue u') = split_frames (um_queue u) @ (if ok then [f] else [])"
  proof -
    have "um_queue u' = concat (map framed (if ok then fs @ [f] else fs))"
      using assms(2) fs(1) by (auto simp: enqueueFrame_def framed_def split: if_splits)
    moreover have all: "list_all (\<lambda>f. length f \<le> 0xffff) (if ok then fs @ [f] else fs)" using fs(2) ok by simp
    moreover have "length (um_queue u') \<le> kRelayQueueBytes"
      using assms(2) fs(3) by (auto simp: enqueueFrame_def split: if_splits)
    ultimately show "queue_wf u'" unfolding queue_wf_def by blast
    show "split_frames (um_queue u') = split_frames (um_queue u) @ (if ok then [f] else [])"
      unfolding s \<open>um_queue u' = _\<close> using split_concat [OF all] by simp
  qed
qed

lemma encode_queue:
  assumes "q \<noteq> []"
  shows "\<exists>t. sentry_base64_encode (Some (replicate (SENTRY_BASE64_ENCODED_LEN (length q) + 1) NUL))
      (SENTRY_BASE64_ENCODED_LEN (length q) + 1) (Some q) (length q) = (Some t, SENTRY_BASE64_ENCODED_LEN (length q)) \<and>
    cstring_of t = base64_text q \<and> 0 < SENTRY_BASE64_ENCODED_LEN (length q)"
proof -
  have "NUL \<notin> set (base64_text q)"
    using base64_letters [of q] by (auto simp: k_alphabet_def)
  moreover have "0 < SENTRY_BASE64_ENCODED_LEN (length q)"
    using assms by (cases q) (auto simp: SENTRY_BASE64_ENCODED_LEN_def)
  ultimately show ?thesis
    by (auto simp: sentry_base64_encode_def Let_def mem_write_def length_base64_text cstring_of_def takeWhile_append)
qed

lemma poll_queue [simp]:
  "um_queue (fst (handlePoll now args luck u)) =
    (if um_queueLock u \<and> pl_taken luck \<and> pl_allocated luck then [] else um_queue u)"
  "um_queueLock (fst (handlePoll now args luck u)) = um_queueLock u"
  using encode_queue [of "um_queue u"] by (cases "um_queue u = []"; auto simp: handlePoll_def Let_def)+

lemma poll_splits:
  assumes "queue_wf u" and "handlePoll now args luck u = (u', body)"
  shows "queue_wf u'" "um_queueLock u' = um_queueLock u"
    "pl_copied luck \<Longrightarrow> page_reads body @ split_frames (um_queue u') = split_frames (um_queue u)"
proof -
  define q where "q = um_queue u"
  obtain r where r: "um_queue r = q" "um_queueLock r = um_queueLock u" and
    run: "(u', body) = (if um_queueLock u \<and> pl_taken luck \<and> q \<noteq> [] \<and> pl_allocated luck
      then (r\<lparr>um_queue := []\<rparr>, if pl_copied luck then base64_text q else '''') else (r, ''''))"
  proof (rule that)
    let ?r = "fst (handlePoll now args (luck\<lparr>pl_taken := False\<rparr>) u)"
    show "um_queue ?r = q" "um_queueLock ?r = um_queueLock u"
      by (simp_all add: handlePoll_def Let_def q_def)
    show "(u', body) = (if um_queueLock u \<and> pl_taken luck \<and> q \<noteq> [] \<and> pl_allocated luck
      then (?r\<lparr>um_queue := []\<rparr>, if pl_copied luck then base64_text q else '''') else (?r, ''''))"
      using encode_queue [of q] unfolding assms(2) [symmetric] q_def
      by (cases "q = []") (auto simp: handlePoll_def Let_def q_def)
  qed
  have nil: "page_reads '''' = []" by (simp add: page_reads_def)
  have empty: "queue_wf (r\<lparr>um_queue := []\<rparr>)" by (auto simp: queue_wf_def intro: exI [of _ "[]"])
  have "queue_wf r" using assms(1) r(1) by (simp add: queue_wf_def q_def)
  then show "queue_wf u'" "um_queueLock u' = um_queueLock u"
    using run empty r(2) by (auto split: if_splits)
  show "page_reads body @ split_frames (um_queue u') = split_frames (um_queue u)" if "pl_copied luck"
    using run that r(1) nil base64_roundtrip [of q]
    by (auto simp: page_reads_def q_def split: if_splits)
qed

section \<open>Any sequence of calls\<close>

text \<open>What happens to the usermod: frames from the transport, requests of pages, the host going away.\<close>

datatype wled_call =
    Enqueue bool bytes
  | Poll u32 request_args poll_luck
  | Verdict request_args
  | Test
  | Crash u32
  | Detach

text \<open>The state after a call, the frames it accepted and the text it answered a poll with.\<close>

fun wled_step :: "wled_call \<Rightarrow> usermod \<Rightarrow> usermod \<times> bytes list \<times> string list" where
  "wled_step (Enqueue taken f) u = (case enqueueFrame taken f u of (u, ok) \<Rightarrow> (u, if ok then [f] else [], []))"
| "wled_step (Poll now args luck) u = (case handlePoll now args luck u of (u, body) \<Rightarrow> (u, [], [body]))"
| "wled_step (Verdict args) u = (fst (handleRelayStatus args u), [], [])"
| "wled_step Test u = (handle_test u, [], [])"
| "wled_step (Crash now) u = (handle_crash now u, [], [])"
| "wled_step Detach u = (u\<lparr>um_relay := set_host_attached False (um_relay u)\<rparr>, [], [])"

fun wled_run :: "wled_call list \<Rightarrow> usermod \<Rightarrow> usermod \<times> bytes list \<times> string list" where
  "wled_run [] u = (u, [], [])"
| "wled_run (c # cs) u =
     (case wled_step c u of (u, fs, ts) \<Rightarrow> (case wled_run cs u of (u, gs, us) \<Rightarrow> (u, fs @ gs, ts @ us)))"

fun copies :: "wled_call \<Rightarrow> bool" where
  "copies (Poll now args luck) = pl_copied luck"
| "copies _ = True"

lemma status_queue [simp]:
  "um_queue (fst (handleRelayStatus args u)) = um_queue u"
  "um_queueLock (fst (handleRelayStatus args u)) = um_queueLock u"
  by (simp_all add: handleRelayStatus_def Let_def)

lemma wled_step_flow:
  assumes "queue_wf u" and "copies c" and "wled_step c u = (u', fs, ts)"
  shows "queue_wf u' \<and> um_queueLock u' = um_queueLock u \<and>
    concat (map page_reads ts) @ split_frames (um_queue u') = split_frames (um_queue u) @ fs"
proof (cases c)
  case (Enqueue taken f)
  then show ?thesis
    using assms enqueue_split [OF assms(1), of taken f] by (cases "enqueueFrame taken f u") auto
next
  case (Poll now args luck)
  then show ?thesis
    using assms poll_splits [OF assms(1), of now args luck] by (cases "handlePoll now args luck u") auto
qed (use assms in \<open>auto simp: handle_test_def handle_crash_def queue_wf_def\<close>)

lemma wled_run_flow:
  "queue_wf u \<Longrightarrow> list_all copies cs \<Longrightarrow> wled_run cs u = (u', fs, ts) \<Longrightarrow>
    queue_wf u' \<and> um_queueLock u' = um_queueLock u \<and>
    concat (map page_reads ts) @ split_frames (um_queue u') = split_frames (um_queue u) @ fs"
proof (induction cs arbitrary: u u' fs ts)
  case (Cons c cs)
  obtain u1 fs1 ts1 where step: "wled_step c u = (u1, fs1, ts1)" by (rule prod_cases3)
  obtain u2 fs2 ts2 where run: "wled_run cs u1 = (u2, fs2, ts2)" by (rule prod_cases3)
  from wled_step_flow [OF Cons.prems(1) _ step] Cons.prems(2) have "queue_wf u1" "um_queueLock u1 = um_queueLock u"
    "concat (map page_reads ts1) @ split_frames (um_queue u1) = split_frames (um_queue u) @ fs1" by simp_all
  with Cons.IH [OF _ _ run] Cons.prems(2,3) step run show ?case by auto
qed simp

text \<open>
  C38: No frame is lost, doubled or reordered between the transport and the page: over any
  sequence of frames, polls, verdicts and other requests, whoever gets the lock and whenever
  memory is short, as long as the web server copies the text it is given, the frames the page
  reads off the answers, followed by those still in the queue, are the frames that were accepted.
  The queue never outgrows its array; the next frame is accepted exactly when the lock is had
  and it fits with its two bytes of length; and a poll that gets the lock and the memory empties
  the queue.
\<close>

theorem wled_queue_delivers:
  assumes "list_all copies calls"
  shows "case wled_run calls (usermod_setup mutex) of (u, given, answers) \<Rightarrow>
    concat (map page_reads answers) @ split_frames (um_queue u) = given \<and>
    length (um_queue u) \<le> kRelayQueueBytes \<and>
    (snd (enqueueFrame taken f u) \<longleftrightarrow> mutex \<and> taken \<and> length f \<le> 0xffff \<and>
       length (um_queue u) + 2 + length f \<le> kRelayQueueBytes) \<and>
    (mutex \<longrightarrow> um_queue (fst (handlePoll now args \<lparr>pl_taken = True, pl_allocated = True, pl_copied = copied\<rparr> u)) = [])"
proof -
  obtain u given answers where run: "wled_run calls (usermod_setup mutex) = (u, given, answers)"
    by (rule prod_cases3)
  have "queue_wf (usermod_setup mutex)" by (auto simp: queue_wf_def usermod_setup_def intro: exI [of _ "[]"])
  from wled_run_flow [OF this assms run] have u: "queue_wf u" "um_queueLock u = mutex"
    "concat (map page_reads answers) @ split_frames (um_queue u) = given"
    by (simp_all add: usermod_setup_def)
  then show ?thesis
    using u(2,3) enqueue_split(3) [OF u(1) prod.collapse [symmetric], of taken f] by (simp add: run queue_wf_def)
qed

theorem wled_queue_delivers_witness:
  "case wled_run [Enqueue True [1, 2], Enqueue False [3], Poll 10 (\<lambda>_. None) \<lparr>pl_taken = True, pl_allocated = False, pl_copied = True\<rparr>,
       Enqueue True [4], Poll 20 (\<lambda>_. None) \<lparr>pl_taken = True, pl_allocated = True, pl_copied = True\<rparr>] (usermod_setup True) of
     (u, given, answers) \<Rightarrow> given = [[1, 2], [4]] \<and> concat (map page_reads answers) @ split_frames (um_queue u) = [[1, 2], [4]]"
proof -
  let ?calls = "[Enqueue True [1, 2], Enqueue False [3], Poll 10 (\<lambda>_. None) \<lparr>pl_taken = True, pl_allocated = False, pl_copied = True\<rparr>,
       Enqueue True [4], Poll 20 (\<lambda>_. None) \<lparr>pl_taken = True, pl_allocated = True, pl_copied = True\<rparr>]"
  have "fst (snd (wled_run ?calls (usermod_setup True))) = [[1, 2], [4]]"
    by (simp add: usermod_setup_def enqueueFrame_def kRelayQueueBytes_def case_prod_beta)
  then show ?thesis
    using wled_queue_delivers [where calls = ?calls and mutex = True]
    by (cases "wled_run ?calls (usermod_setup True)") simp
qed

section \<open>The verdict of the page\<close>

text \<open>The query of \<open>sendStatusFrame\<close>: its numbers in decimal.\<close>

definition verdict_args :: "u8 \<Rightarrow> u8 \<Rightarrow> u16 \<Rightarrow> nat \<Rightarrow> request_args" where
  "verdict_args req result http retry =
     [''req'' \<mapsto> dec (unat req), ''result'' \<mapsto> dec (unat result), ''http'' \<mapsto> dec (unat http), ''retry'' \<mapsto> dec retry]"

lemma arg_int_dec: "args name = Some (dec n) \<Longrightarrow> n \<le> 2147483647 \<Longrightarrow> arg_int args name = int n"
  using strtol10_dec [of "[]" n "[]"] by (simp add: arg_int_def)

lemma verdict_reaches_transport:
  assumes "retry \<le> 2147483647"
  shows "handleRelayStatus (verdict_args req result http retry) u =
    (u\<lparr>um_relay := (um_relay u)\<lparr>rt_status_response := hf_response (host_meaning (Status req result http (of_nat retry))),
       rt_status_request_id := req, rt_status_pending := True\<rparr>\<rparr>, 200)"
proof -
  let ?args = "verdict_args req result http retry"
  have "unat (x :: u8) < 256" for x using unsigned_less [of x] by simp
  then have "unat (x :: u8) \<le> 2147483647" for x by (rule order_trans [OF less_imp_le]) simp
  moreover have "unat http < 65536" using unsigned_less [of http] by simp
  ultimately have ints: "arg_int ?args ''req'' = int (unat req)" "arg_int ?args ''result'' = int (unat result)"
    "arg_int ?args ''http'' = int (unat http)" "arg_int ?args ''retry'' = int retry"
    using assms by (simp_all add: arg_int_dec verdict_args_def)
  have given: "?args ''req'' \<noteq> None" "?args ''result'' \<noteq> None" "?args ''http'' \<noteq> None" "?args ''retry'' \<noteq> None"
    by (simp_all add: verdict_args_def)
  have frame: "[SENTRY_RELAY_FRAME_STATUS, req, result] @ write_u16 http @ write_u32 (of_nat retry) =
      host_bytes (Status req result http (of_nat retry)) @ []"
    by (simp add: relay_types)
  have "handleRelayStatus ?args u =
      (u\<lparr>um_relay := on_host_frame (Some ([SENTRY_RELAY_FRAME_STATUS, req, result] @ write_u16 http @
        write_u32 (of_nat retry))) (um_relay u)\<rparr>, 200)"
    using given by (simp add: handleRelayStatus_def Let_def ints)
  then show ?thesis
    unfolding frame on_host_frame_def parse_host_bytes by simp
qed

text \<open>
  The wait of \<open>send\<close> ends with that verdict when it is for the request in flight; the link needs
  to deliver nothing else.
\<close>

lemma verdict_ends_wait:
  assumes "retry \<le> 2147483647"
  shows "await_loop wait clock req started
      (um_relay (fst (handleRelayStatus (verdict_args req result http retry) u))) w =
    Some (hf_response (host_meaning (Status req result http (of_nat retry))),
      (um_relay (fst (handleRelayStatus (verdict_args req result http retry) u)))\<lparr>rt_status_pending := False\<rparr>, w)"
  by (subst await_loop.simps) (simp add: verdict_reaches_transport [OF assms])

section \<open>Limits\<close>

text \<open>
  The chunk the usermod asks for is not the one it gets; an answer the server could not copy is
  lost with its frames; and a poll that comes in between the two reads of the idle test makes
  the host of that very poll count as gone.
\<close>

lemma chunk_is_clamped: "rt_configured_chunk_bytes (um_relay (usermod_setup mutex)) = FRAME_BUFFER_BYTES"
  by (simp add: usermod_setup_def set_chunk_bytes_def kRelayChunkBytes_def relay_lens FRAME_BUFFER_BYTES_def)

lemma uncopied_answer_is_lost:
  "um_queueLock u \<Longrightarrow>
    (let r = handlePoll now args \<lparr>pl_taken = True, pl_allocated = True, pl_copied = False\<rparr> u
     in snd r = '''' \<and> um_queue (fst r) = [])"
  using encode_queue [of "um_queue u"] by (cases "um_queue u = []") (auto simp: handlePoll_def Let_def)

lemma newer_poll_detaches:
  assumes "host_ready (um_relay (um (m_world m)))" and "um_lastPollMs (um (m_world m)) = now + 1"
    and "\<And>f w. um (on_um f w) = f (um w)"
  shows "deliveryTick um on_um p now m =
    Some (m\<lparr>m_world := on_um (um_relay_update (set_host_attached False)) (m_world m)\<rparr>)"
  using assms by (simp add: deliveryTick_def Let_def kHostIdleTimeoutMs_def host_ready_def set_host_attached_def)

end
