(* ===== verification/Sentry_Relayed_Flush.thy ===== *)
theory Sentry_Relayed_Flush
  imports Sentry_Micro_Delivery Sentry_Relay_Transport Sentry_Storage_Nvs
begin

text \<open>
  The SDK, its flash buffer and the relay transport together: what a flush takes out of the buffer
  has been given to the host of the relay, frame by frame, and the host has read it whole. The
  world holds the flash, the members of the transport and the link; beside them is recorded what
  each send was asked, the state it started from, its answer and the frames it wrote.
\<close>

section \<open>The transport, with its sends recorded\<close>

text \<open>\<open>po_answer\<close> is \<open>None\<close> for a send that does not return.\<close>

record post =
  po_envelope :: bytes
  po_before :: relay_transport
  po_answer :: "(sentry_response \<times> bytes list) option"

record ('f, 'l) relayed =
  ry_flash :: 'f
  ry_relay :: relay_transport
  ry_link :: 'l
  ry_posts :: "post list"

definition recorded_send ::
    "'l relay_link \<Rightarrow> sentry_dsn option \<Rightarrow> cptr \<Rightarrow> sentry_headers \<Rightarrow> bytes option \<Rightarrow> ('f, 'l) relayed \<Rightarrow>
       sentry_response \<times> ('f, 'l) relayed" where
  "recorded_send link dsn url headers body w =
     (let put = (\<lambda>answer. ry_posts w @ [\<lparr>po_envelope = the body, po_before = ry_relay w, po_answer = answer\<rparr>])
      in case relay_send (logged link) dsn url headers body (ry_relay w) (ry_link w, []) of
           None \<Rightarrow> (sentry_response_make SENTRY_SEND_ERROR, w\<lparr>ry_posts := put None\<rparr>)
         | Some (response, relay, (l, frames)) \<Rightarrow>
             (response, w\<lparr>ry_relay := relay, ry_link := l, ry_posts := put (Some (response, frames))\<rparr>))"

definition recorded_class :: "'l relay_link \<Rightarrow> sentry_dsn option \<Rightarrow> ('f, 'l) relayed transport_class" where
  "recorded_class link dsn =
     \<lparr>vt_send = recorded_send link dsn,
      vt_is_available = (\<lambda>w. case vt_is_available (relay_class link dsn) (ry_relay w, ry_link w) of
         (ready, (relay, l)) \<Rightarrow> (ready, w\<lparr>ry_relay := relay, ry_link := l\<rparr>)),
      vt_name = (\<lambda>w. vt_name (relay_class link dsn) (ry_relay w, ry_link w))\<rparr>"

text \<open>Where the sends return, it is the relay transport over the link with its frames recorded.\<close>

lemma recorded_is_relay:
  assumes "relay_send (logged link) dsn url headers body (ry_relay w) (ry_link w, []) \<noteq> None"
  shows "case (recorded_send link dsn url headers body w,
      vt_send (relay_class (logged link) dsn) url headers body (ry_relay w, (ry_link w, []))) of
    ((r1, w1), (r2, (relay, (l, frames)))) \<Rightarrow> r1 = r2 \<and> ry_relay w1 = relay \<and> ry_link w1 = l \<and> ry_flash w1 = ry_flash w"
  using assms by (auto simp: recorded_send_def relay_class_def split: prod.splits)

section \<open>Every send returns, and a delivered one was read whole\<close>

definition sane :: "u32 \<Rightarrow> relay_transport \<Rightarrow> bool" where
  "sane timeout s \<longleftrightarrow> relay_wf s \<and> rt_timeout_ms s = timeout"

definition result_of :: "post \<Rightarrow> sentry_send_result" where
  "result_of post = (case po_answer post of Some (response, _) \<Rightarrow> rs_result response | None \<Rightarrow> SENTRY_SEND_ERROR)"

definition host_has_it :: "post \<Rightarrow> bool" where
  "host_has_it post \<longleftrightarrow> (\<exists>response frames url auth content_type. po_answer post = Some (response, frames) \<and>
     host_request frames = Some (rt_next_request_id (po_before post), url, auth, content_type, po_envelope post))"

definition sends_ok :: "u32 \<Rightarrow> relay_transport \<Rightarrow> post list \<Rightarrow> bool" where
  "sends_ok timeout relay posts \<longleftrightarrow> sane timeout relay \<and>
     (\<forall>post \<in> set posts. sane timeout (po_before post) \<and> po_answer post \<noteq> None \<and>
       (result_of post = SENTRY_SEND_OK \<longrightarrow> host_has_it post))"

lemma relay_keeps_sane: "relay_keeps (sane timeout)"
  using events_keep_timeout [of "[e]" for e] relay_wf_event by (auto simp: relay_keeps_def sane_def)

lemma recorded_send_ok:
  fixes w :: "('f, 'l) relayed" and link :: "'l relay_link"
  assumes total: "\<And>wait clock. rl_wait link = Some wait \<Longrightarrow> rl_clock link = Some clock \<Longrightarrow>
      \<exists>uptime. ticks wait clock uptime timeout"
    and send: "recorded_send link dsn url headers (Some e) w = (response, w')"
  shows "ry_flash w' = ry_flash w"
    and "sends_ok timeout (ry_relay w') (ry_posts w') = sends_ok timeout (ry_relay w) (ry_posts w)"
    and "\<exists>post. ry_posts w' = ry_posts w @ [post] \<and> po_envelope post = e \<and> result_of post = rs_result response"
proof -
  let ?send = "relay_send (logged link) dsn url headers (Some e) (ry_relay w) (ry_link w, [])"
  let ?post = "\<lambda>answer. \<lparr>po_envelope = e, po_before = ry_relay w, po_answer = answer\<rparr>"
  show "ry_flash w' = ry_flash w"
    "\<exists>post. ry_posts w' = ry_posts w @ [post] \<and> po_envelope post = e \<and> result_of post = rs_result response"
    using send
    by (auto simp: recorded_send_def Let_def result_of_def sentry_response_make_def split: option.splits prod.splits)
  show "sends_ok timeout (ry_relay w') (ry_posts w') = sends_ok timeout (ry_relay w) (ry_posts w)"
  proof (cases "sane timeout (ry_relay w)")
    case False
    then have "\<not> sane timeout (po_before (?post answer))" for answer by simp
    then show ?thesis
      using False send by (auto simp: sends_ok_def recorded_send_def Let_def split: option.splits prod.splits)
  next
    case True
    have "\<exists>uptime. ticks wait clock uptime (rt_timeout_ms (ry_relay w))"
      if "rl_wait (logged link) = Some wait" "rl_clock (logged link) = Some clock" for wait clock
    proof -
      from that obtain wait' where link: "rl_wait link = Some wait'"
        and eq: "wait = (\<lambda>ms v. case wait' ms (fst v) of (w, events) \<Rightarrow> ((w, snd v), events))"
        unfolding logged_def relay_link.simps map_option_eq_Some by blast
      from that obtain clock' where link': "rl_clock link = Some clock'"
        and eq': "clock = (\<lambda>v. case clock' (fst v) of (now, w) \<Rightarrow> (now, (w, snd v)))"
        unfolding logged_def relay_link.simps map_option_eq_Some by blast
      from total [OF link link'] obtain uptime where "ticks wait' clock' uptime timeout" ..
      then have "ticks wait clock (\<lambda>v. uptime (fst v)) timeout"
        unfolding ticks_def eq eq' by (simp add: case_prod_beta)
      then show ?thesis using True by (auto simp: sane_def)
    qed
    from relay_send_total [OF this] obtain resp relay l frames where r: "?send = Some (resp, relay, (l, frames))"
      by (metis prod.collapse)
    have "sane timeout relay" by (rule relay_send_keeps [OF r relay_keeps_sane True])
    moreover have "host_has_it (?post (Some (resp, frames)))" if "rs_result resp = SENTRY_SEND_OK"
      using relay_send_logged [OF _ r] True that by (auto simp: sane_def host_has_it_def Sentry_Relay_Transport.fields_def Let_def)
    ultimately show ?thesis
      using True send r
      by (auto simp: sends_ok_def recorded_send_def Let_def result_of_def)
  qed
qed

section \<open>The flash under it\<close>

definition on_flash :: "('f \<Rightarrow> 'f \<times> 'r) \<Rightarrow> ('f, 'l) relayed \<Rightarrow> ('f, 'l) relayed \<times> 'r" where
  "on_flash f w = (case f (ry_flash w) of (s, r) \<Rightarrow> (w\<lparr>ry_flash := s\<rparr>, r))"

lemma on_flash_eq: "on_flash f w = (w', r) \<longleftrightarrow> f (ry_flash w) = (ry_flash w', r) \<and> w' = w\<lparr>ry_flash := ry_flash w'\<rparr>"
  by (cases w; cases w'; cases "f (ry_flash w)") (auto simp: on_flash_def)

lemma on_flash_simps [simp]:
  "snd (on_flash f w) = snd (f (ry_flash w))" "ry_flash (fst (on_flash f w)) = fst (f (ry_flash w))"
  "ry_relay (fst (on_flash f w)) = ry_relay w" "ry_posts (fst (on_flash f w)) = ry_posts w"
  by (simp_all add: on_flash_def case_prod_beta)

text \<open>The storage of the SDK, over the flash part of the world.\<close>

abbreviation flash_storage where
  "flash_storage put get erase load_meta save_meta count \<equiv>
     storage_of (\<lambda>w i d. on_flash (\<lambda>s. put s i d) w) (\<lambda>w i n. on_flash (\<lambda>s. get s i n) w)
       (\<lambda>w i. on_flash (\<lambda>s. erase s i) w) (on_flash load_meta) (\<lambda>w h t d. on_flash (\<lambda>s. save_meta s h t d) w) count"

lemma flash_is_reliable:
  fixes put :: "'f \<Rightarrow> u32 \<Rightarrow> bytes \<Rightarrow> 'f \<times> bool" and P :: "relay_transport \<Rightarrow> post list \<Rightarrow> bool"
  assumes "reliable_storage put get erase load_meta save_meta count slots meta sound fits"
  shows "reliable_storage (\<lambda>(w :: ('f, 'l) relayed) i d. on_flash (\<lambda>s. put s i d) w) (\<lambda>w i n. on_flash (\<lambda>s. get s i n) w)
    (\<lambda>w i. on_flash (\<lambda>s. erase s i) w) (on_flash load_meta) (\<lambda>w h t d. on_flash (\<lambda>s. save_meta s h t d) w) count
    (\<lambda>w. slots (ry_flash w)) (\<lambda>w. meta (ry_flash w)) (\<lambda>w. sound (ry_flash w) \<and> P (ry_relay w) (ry_posts w)) fits"
proof -
  have slot: "slot_storage put get erase load_meta save_meta count slots meta sound"
    and ring: "ring_storage put get erase load_meta save_meta count slots meta sound"
    using assms by (simp_all add: reliable_storage_def slot_storage_def)
  have keep: "w' = w\<lparr>ry_flash := s\<rparr> \<Longrightarrow> ry_relay w' = ry_relay w \<and> ry_posts w' = ry_posts w"
    for w w' :: "('f, 'l) relayed" and s by simp
  show ?thesis
  proof (standard, goal_cases)
    case 1
    show ?case by (rule ring_storage.slot_count_pos [OF ring])
  next
    case (2)
    then show ?case by (auto simp: on_flash_eq dest!: keep dest: ring_storage.put_frame [OF ring])
  next
    case (3)
    then show ?case by (auto simp: on_flash_eq dest!: keep dest: ring_storage.erase_frame [OF ring])
  next
    case (4)
    then show ?case by (auto simp: on_flash_eq dest!: keep dest: ring_storage.get_frame [OF ring])
  next
    case (5)
    then show ?case by (auto simp: on_flash_eq dest!: keep dest: ring_storage.get_ok [OF ring])
  next
    case (6)
    then show ?case by (auto simp: on_flash_eq dest!: keep dest: ring_storage.load_frame [OF ring])
  next
    case (7)
    then show ?case by (auto simp: on_flash_eq dest!: keep dest: ring_storage.load_ok [OF ring])
  next
    case (8)
    then show ?case by (auto simp: on_flash_eq dest!: keep dest: ring_storage.save_frame [OF ring])
  next
    case (9)
    then show ?case by (auto simp: on_flash_eq dest!: keep dest: slot_storage.put_ok [OF slot])
  next
    case (10)
    then show ?case by (auto simp: on_flash_eq dest!: keep dest: slot_storage.save_ok [OF slot])
  next
    case (11)
    then show ?case by (simp add: reliable_storage.put_total [OF assms])
  next
    case (12)
    then show ?case by (simp add: reliable_storage.get_total [OF assms])
  next
    case (13)
    then show ?case by (simp add: reliable_storage.load_total [OF assms])
  next
    case (14)
    then show ?case by (simp add: reliable_storage.save_total [OF assms])
  qed
qed

text \<open>The buffer \<open>b\<close> over the flash of the world holds the queue \<open>q\<close>.\<close>

abbreviation flash_holds where
  "flash_holds put get erase load_meta save_meta count slots sound \<equiv>
     slot_storage.holds (\<lambda>w i d. on_flash (\<lambda>s. put s i d) w) (\<lambda>w i n. on_flash (\<lambda>s. get s i n) w)
       (\<lambda>w i. on_flash (\<lambda>s. erase s i) w) (on_flash load_meta) (\<lambda>w h t d. on_flash (\<lambda>s. save_meta s h t d) w) count
       (\<lambda>w. slots (ry_flash w)) sound"

lemma flash_holds_and:
  assumes "reliable_storage put get erase load_meta save_meta count slots meta sound fits"
  shows "flash_holds put get erase load_meta save_meta count slots
      (\<lambda>w. sound (ry_flash w) \<and> P (ry_relay w) (ry_posts w)) w b q \<longleftrightarrow>
    flash_holds put get erase load_meta save_meta count slots (\<lambda>w. sound (ry_flash w)) w b q \<and> P (ry_relay w) (ry_posts w)"
  using assms
  by (auto simp: slot_storage.holds_def [OF reliable_storage.axioms(1) [OF flash_is_reliable [OF assms, of P]]]
      slot_storage.holds_def [OF reliable_storage.axioms(1) [OF flash_is_reliable [OF assms, of "\<lambda>_ _. True"]], simplified])

section \<open>A flush over the relay\<close>

definition sent_posts :: "('f, 'l) relayed \<Rightarrow> (bytes \<times> sentry_send_result) list" where
  "sent_posts w = map (\<lambda>post. (po_envelope post, result_of post)) (ry_posts w)"

lemma relay_traffic:
  fixes p :: "('f, 'l) relayed platform"
  assumes "\<And>wait clock. rl_wait link = Some wait \<Longrightarrow> rl_clock link = Some clock \<Longrightarrow>
      \<exists>uptime. ticks wait clock uptime timeout"
    and "\<forall>v. chip_keeps p (\<lambda>w. (ry_flash w, ry_relay w, ry_posts w) = v)"
  shows "traffic_log p (c_transport (recorded_class link dsn))
    (\<lambda>w. (sound (ry_flash w) \<and> sends_ok timeout (ry_relay w) (ry_posts w), slots (ry_flash w))) sent_posts"
proof -
  let ?S = "\<lambda>w. (sound (ry_flash w) \<and> sends_ok timeout (ry_relay w) (ry_posts w), slots (ry_flash w))"
  have "chip_keeps p (\<lambda>w. (?S w, sent_posts w) = v)" for v
    using chip_keeps_part [OF assms(2), of "\<lambda>(f, r, ps). ((sound f \<and> sends_ok timeout r ps, slots f),
      map (\<lambda>post. (po_envelope post, result_of post)) ps)" v]
    by (simp add: sent_posts_def)
  moreover have "?S (snd (recorded_send link dsn url headers (Some e) w)) = ?S w \<and>
      sent_posts (snd (recorded_send link dsn url headers (Some e) w)) =
      sent_posts w @ [(e, rs_result (fst (recorded_send link dsn url headers (Some e) w)))]" for url headers e and w :: "('f, 'l) relayed"
    using recorded_send_ok [OF assms(1) prod.collapse [symmetric], of link dsn url headers e w] by (auto simp: sent_posts_def)
  ultimately show ?thesis
    by (simp add: traffic_log_def c_transport_def recorded_class_def relay_class_def trampoline_send_def keeps_def)
qed

text \<open>
  C5: An envelope leaves the flash only for a host that has it. On a flash that works and a relay
  link whose clock keeps time, whatever the link and its host do, every send of a flush returns,
  and the flush does; each envelope it takes off the front of the buffer, oldest first, was
  either handed to the host in frames that read back as a request with exactly that envelope for
  its body, and accepted, or refused for good, or is too large for the scratch buffer; the number
  returned is that of the accepted ones, and what is left is still in the flash, in order. It
  stops only when nothing is left, when as many as asked for are delivered, or when a send of the
  oldest one left ended in an answer that says to retry.
\<close>

theorem flush_reaches_host:
  fixes m :: "('f, 'l) relayed micro"
  assumes "reliable_storage put get erase load_meta save_meta count slots meta sound fits"
    and "\<And>wait clock. rl_wait link = Some wait \<Longrightarrow> rl_clock link = Some clock \<Longrightarrow>
      \<exists>uptime. ticks wait clock uptime (rt_timeout_ms (ry_relay (m_world m)))"
    and "\<forall>v. chip_keeps p (\<lambda>w. (ry_flash w, ry_relay w, ry_posts w) = v)"
    and "sentry_is_enabled m" and "gs_buffering (m_state m)" and "\<not> fst (in_backoff p m)"
    and "sentry_get_transport m = Some (c_transport (recorded_class link dsn))"
    and "relay_wf (ry_relay (m_world m))" and "ry_posts (m_world m) = []"
    and "flash_holds put get erase load_meta save_meta count slots (\<lambda>w. sound (ry_flash w))
      (m_world m) (gs_buffer (m_state m)) q"
  shows "\<exists>k m' ps q' posts. sentry_flush p n m = Some (k, m') \<and> q = ps @ q' \<and>
    flash_holds put get erase load_meta save_meta count slots (\<lambda>w. sound (ry_flash w))
      (m_world m') (gs_buffer (m_state m')) q' \<and>
    (\<forall>post \<in> set (ry_posts (m_world m')). po_answer post \<noteq> None) \<and>
    set posts \<subseteq> set (ry_posts (m_world m')) \<and> map po_envelope posts = filter sendable ps \<and>
    unat k = length (filter (\<lambda>post. result_of post = SENTRY_SEND_OK) posts) \<and>
    (q' = [] \<or> k = n \<or> (\<exists>post \<in> set (ry_posts (m_world m')). po_envelope post = hd q' \<and> worth_retrying (result_of post))) \<and>
    (\<forall>post \<in> set posts. result_of post = SENTRY_SEND_OK \<and> host_has_it post \<or> result_of post = SENTRY_SEND_REJECTED)"
proof -
  let ?T = "rt_timeout_ms (ry_relay (m_world m))"
  note reliable = flash_is_reliable [OF assms(1), of "sends_ok ?T"]
  note both = flash_holds_and [OF assms(1), of "sends_ok ?T"]
  have "sends_ok ?T (ry_relay (m_world m)) (ry_posts (m_world m))"
    using assms(8,9) by (simp add: sends_ok_def sane_def)
  then have start: "flash_holds put get erase load_meta save_meta count slots
      (\<lambda>w. sound (ry_flash w) \<and> sends_ok ?T (ry_relay w) (ry_posts w)) (m_world m) (gs_buffer (m_state m)) q"
    using assms(10) by (simp add: both)
  have quiet: "\<forall>v. storage_keeps (Some (flash_storage put get erase load_meta save_meta count))
      (\<lambda>w :: ('f, 'l) relayed. sent_posts w = v)"
    by (simp add: storage_keeps_def keeps_def sent_posts_def)
  from reliable_storage.flush_accounts [OF reliable relay_traffic [OF assms(2,3), where dsn = dsn and sound = sound and slots = slots] quiet assms(4,5,7,6) start, of n]
  obtain k m' q' w1 where run: "sentry_flush p n m = Some (k, m')"
      "flush_outcome sent_posts n 0 w1 q k (m_world m') q'"
      "flash_holds put get erase load_meta save_meta count slots
        (\<lambda>w. sound (ry_flash w) \<and> sends_ok ?T (ry_relay w) (ry_posts w)) (m_world m') (gs_buffer (m_state m')) q'"
    by blast
  then have fin: "flash_holds put get erase load_meta save_meta count slots (\<lambda>w. sound (ry_flash w))
      (m_world m') (gs_buffer (m_state m')) q'" "sends_ok ?T (ry_relay (m_world m')) (ry_posts (m_world m'))"
    by (simp_all add: both)
  from run(2) obtain ps ys zs where out: "q = ps @ q'" "sent_posts (m_world m') = sent_posts w1 @ ys @ zs"
      "map fst ys = filter sendable ps" "\<forall>y \<in> set ys. \<not> worth_retrying (snd y)"
      "unat k = length (filter (\<lambda>y. snd y = SENTRY_SEND_OK) ys)"
      "if zs = [] then q' = [] \<or> k = n else \<exists>r. zs = [(hd q', r)] \<and> q' \<noteq> [] \<and> worth_retrying r"
    unfolding flush_outcome_def by auto
  from out(2) [unfolded sent_posts_def [of "m_world m'"]] obtain as posts bs
    where posts: "ry_posts (m_world m') = as @ posts @ bs" "ys = map (\<lambda>post. (po_envelope post, result_of post)) posts"
      "zs = map (\<lambda>post. (po_envelope post, result_of post)) bs"
    by (auto simp: map_eq_append_conv append_eq_map_conv)
  have "result_of post = SENTRY_SEND_OK \<and> host_has_it post \<or> result_of post = SENTRY_SEND_REJECTED"
    if "post \<in> set posts" for post
    using that out(4) fin(2) posts by (cases "result_of post") (auto simp: sends_ok_def worth_retrying_def)
  moreover have "\<forall>post \<in> set (ry_posts (m_world m')). po_answer post \<noteq> None"
    using fin(2) by (simp add: sends_ok_def)
  moreover have "q' = [] \<or> k = n \<or>
      (\<exists>post \<in> set (ry_posts (m_world m')). po_envelope post = hd q' \<and> worth_retrying (result_of post))"
    using out(6) posts(1,3) by (cases "zs = []") auto
  moreover have "map po_envelope posts = filter sendable ps" "set posts \<subseteq> set (ry_posts (m_world m'))"
    "unat k = length (filter (\<lambda>post. result_of post = SENTRY_SEND_OK) posts)"
    using out(3,5) posts by (auto simp: comp_def filter_map)
  ultimately show ?thesis
    using run(1) fin(1) out(1)
    by (intro exI [of _ k] exI [of _ m'] exI [of _ ps] exI [of _ q'] exI [of _ posts] conjI) (assumption | blast)+
qed

text \<open>An envelope in NVS, and a host that accepts every request at once.\<close>

definition prompt_link :: "nat relay_link" where
  "prompt_link =
     \<lparr>rl_write = Some (\<lambda>frame w. (True, w, if frame ! 0 = SENTRY_RELAY_FRAME_END
        then [HostFrame (host_bytes (Status (frame ! 1) SENTRY_RELAY_RESULT_OK 200 0))] else [])),
      rl_wait = Some (\<lambda>ms w. (w + unat ms, [])), rl_clock = Some (\<lambda>w. (of_nat w, w))\<rparr>"

definition nvs_storage :: "(map_flash, nat) relayed sentry_storage" where
  "nvs_storage = flash_storage (nvs_write map_nvs) (nvs_read map_nvs) (nvs_erase map_nvs) (nvs_load_meta map_nvs)
     (nvs_save_meta map_nvs) 4"

definition sample_relayed :: "(map_flash, nat) relayed micro" where
  "sample_relayed =
     \<lparr>m_state = state_zero\<lparr>gs_enabled := True, gs_buffering := True, gs_envelope_url := ''https://h/'',
        gs_buffer := \<lparr>sb_storage = Some nvs_storage, sb_head = 0, sb_tail = 1, sb_count = 1, sb_dropped = 0\<rparr>,
        gs_transport := Some (c_transport (recorded_class prompt_link
          (Some (dsn_zero\<lparr>ds_valid := True, ds_host := ''h''\<rparr>))))\<rparr>,
      m_rtc = sample_rtc,
      m_world = \<lparr>ry_flash = ([slot_key 0 16 \<mapsto> [1, 2, 3]], \<lambda>_. None), ry_relay = sample_relay, ry_link = 7, ry_posts = []\<rparr>\<rparr>"

theorem flush_reaches_host_witness:
  "\<exists>k m' ps q' posts. sentry_flush (sample_platform no_core_dump) 5 sample_relayed = Some (k, m') \<and>
     [[1, 2, 3]] = ps @ q' \<and> map po_envelope posts = filter sendable ps \<and>
     (\<forall>post \<in> set posts. result_of post = SENTRY_SEND_OK \<and> host_has_it post \<or> result_of post = SENTRY_SEND_REJECTED)"
proof -
  have ticking: "\<exists>uptime. ticks wait clock uptime (rt_timeout_ms (ry_relay (m_world sample_relayed)))"
    if "rl_wait prompt_link = Some wait" "rl_clock prompt_link = Some clock" for wait clock
    using that by (intro exI [of _ "\<lambda>w. w"])
      (auto simp: prompt_link_def ticks_def POLL_INTERVAL_MS_def sample_relayed_def sample_relay_def
        set_chunk_bytes_def RelayTransport_def Let_def)
  have chip: "\<forall>v. chip_keeps (sample_platform no_core_dump) (\<lambda>w. (ry_flash w, ry_relay w, ry_posts w) = v)"
    by (simp add: chip_keeps_def keeps_def sample_platform_def sample_esp_def)
  have holds: "flash_holds (nvs_write map_nvs) (nvs_read map_nvs) (nvs_erase map_nvs) (nvs_load_meta map_nvs)
      (nvs_save_meta map_nvs) 4 (nvs_slots map_stored) (\<lambda>w. True) (m_world sample_relayed)
      (gs_buffer (m_state sample_relayed)) [[1, 2, 3]]"
    by (subst slot_storage.holds_def [OF reliable_storage.axioms(1)
            [OF flash_is_reliable [OF working_map.adapter_is_reliable, of "\<lambda>_ _. True"], simplified]])
      (simp add: sample_relayed_def nvs_storage_def nvs_slots_def ring_window_def)
  have idle: "\<not> fst (in_backoff (sample_platform no_core_dump) sample_relayed)"
    by (simp add: sample_relayed_def in_backoff_def) (simp add: state_zero_def)
  have rest: "sentry_is_enabled sample_relayed" "gs_buffering (m_state sample_relayed)"
    "sentry_get_transport sample_relayed =
      Some (c_transport (recorded_class prompt_link (Some (dsn_zero\<lparr>ds_valid := True, ds_host := ''h''\<rparr>))))"
    "relay_wf (ry_relay (m_world sample_relayed))" "ry_posts (m_world sample_relayed) = []"
    by (simp_all add: sample_relayed_def sentry_is_enabled_def sentry_get_transport_def sample_relay_def)
  show ?thesis
    using flush_reaches_host [OF working_map.adapter_is_reliable ticking chip rest(1,2) idle rest(3-5) holds, of 5] by blast
qed

end
