(* ===== verification/Sentry_Front_End.thy ===== *)
theory Sentry_Front_End
  imports Sentry_Micro_Invariant
begin

text \<open>
  What an application sees of the SDK: the debug logger of \<open>src/sentry_micro.c\<close>, which a failed
  \<open>sentry_init\<close> explains itself through, and the C++ layer (\<open>src/sentry_micro.hpp\<close> and
  \<open>src/sentry_micro_cxx.cpp\<close>). \<open>'w program\<close> is the static memory of the program, \<open>g_state\<close> with
  what goes with it, and \<open>g_logger\<close>. A logger is a function of the world: one that calls the SDK
  back is not modelled. Of the functions that write debug lines, \<open>sentry_init\<close> and
  \<open>sentry_set_transport\<close> are given here with theirs. The functions of the C++ layer have the
  prefix \<open>cxx_\<close> for the namespace \<open>sentry\<close>.
\<close>

section \<open>The debug logger\<close>

type_synonym 'w sentry_logger_fn = "string \<Rightarrow> 'w \<Rightarrow> 'w"

record 'w program =
  pg_micro :: "'w micro"
  g_logger :: "'w sentry_logger_fn option"

abbreviation on_micro :: "('w micro \<Rightarrow> 'w micro) \<Rightarrow> 'w program \<Rightarrow> 'w program" where
  "on_micro f g \<equiv> g\<lparr>pg_micro := f (pg_micro g)\<rparr>"

abbreviation on_world :: "('w \<Rightarrow> 'w) \<Rightarrow> 'w program \<Rightarrow> 'w program" where
  "on_world f g \<equiv> on_micro (\<lambda>m. m\<lparr>m_world := f (m_world m)\<rparr>) g"

definition sentry_set_logger :: "'w sentry_logger_fn option \<Rightarrow> 'w program \<Rightarrow> 'w program" where
  "sentry_set_logger logger g = g\<lparr>g_logger := logger\<rparr>"

definition sentry_get_logger :: "'w program \<Rightarrow> 'w sentry_logger_fn option" where
  "sentry_get_logger g = g_logger g"

text \<open>\<open>text\<close> is what the format and its arguments expand to; the line is an array of 192 bytes.\<close>

definition debug_log :: "string \<Rightarrow> 'w program \<Rightarrow> 'w program" where
  "debug_log text g =
     (case g_logger g of
        None \<Rightarrow> g
      | Some logger \<Rightarrow>
          if \<not> op_debug (gs_options (m_state (pg_micro g))) then g
          else on_micro (\<lambda>m. m\<lparr>m_world := logger (snprintf_content 192 text) (m_world m)\<rparr>) g)"

lemma debug_log_frame [simp]:
  "m_state (pg_micro (debug_log text g)) = m_state (pg_micro g)" "g_logger (debug_log text g) = g_logger g"
  by (simp_all add: debug_log_def split: option.split)

section \<open>Starting, with what is said about it\<close>

text \<open>A logger does not see the state, so it makes no difference that the last line comes before a memset.\<close>

definition init_dsn_logged :: "cptr \<Rightarrow> 'w program \<Rightarrow> bool \<times> 'w program" where
  "init_dsn_logged dsn g =
     (case init_dsn dsn (pg_micro g) of
        (True, m) \<Rightarrow> (True, g\<lparr>pg_micro := m\<rparr>)
      | (False, m) \<Rightarrow>
          (False,
           debug_log
             (if \<not> snd (sentry_dsn_parse dsn) then ''DSN failed to parse; SDK disabled''
              else ''DSN too long for the fixed buffers; SDK disabled'')
             (g\<lparr>pg_micro := m\<rparr>)))"

definition init_log_ring_logged :: "'w platform \<Rightarrow> 'w program \<Rightarrow> 'w program" where
  "init_log_ring_logged p g =
     (let g = on_micro (claim_log_ring p) g;
          ring = log_ring (pg_micro g);
          g = (if ring = None
               then debug_log ''log ring does not fit persistent storage; logging is off this boot'' g else g);
          carried = (case ring of Some r \<Rightarrow> snd (sentry_log_ring_begin_boot r) | None \<Rightarrow> 0);
          g = on_micro (on_log_ring (\<lambda>ring. fst (sentry_log_ring_begin_boot ring))) g
      in if carried > 0
         then debug_log (''recovered '' @ dec (unat carried) @ '' log lines from the previous boot'') g
         else g)"

definition init_boot_logged :: "'w platform \<Rightarrow> sentry_options \<Rightarrow> 'w program \<Rightarrow> 'w program" where
  "init_boot_logged p options g =
     (let g = on_micro (recover_boot p options) g;
          g = init_log_ring_logged p g;
          g = on_micro (upd (gs_enabled_update (\<lambda>_. True))) g;
          device = gs_device (m_state (pg_micro g));
          reason = sentry_reset_reason_name (di_reset_reason device);
          g = debug_log (''initialised '' @ SENTRY_MICRO_SDK_USER_AGENT @ '', ingest '' @
                gs_envelope_url (m_state (pg_micro g))) g;
          g = debug_log (''device '' @ di_chip_model device @ '' '' @ di_device_id device @
                '', reset reason: '' @ reason) g
      in if sentry_reset_reason_is_crash (di_reset_reason device)
         then debug_log (''previous boot ended in a crash ('' @ reason @ '')'') g
         else g)"

definition sentry_init_logged ::
    "'w platform \<Rightarrow> sentry_options option \<Rightarrow> 'w program \<Rightarrow> bool \<times> 'w program" where
  "sentry_init_logged p options g =
     (let g = on_micro (\<lambda>m. m\<lparr>m_state := state_zero\<rparr>) g
      in case options of
           None \<Rightarrow> (False, debug_log ''no options passed; SDK disabled'' g)
         | Some opts \<Rightarrow>
             (let g = on_micro (upd (gs_options_update (\<lambda>_. opts))) g
              in if op_dsn opts = None \<or> op_dsn opts = Some []
                 then (False, debug_log ''no DSN configured; SDK disabled'' g)
                 else (case init_dsn_logged (op_dsn opts) g of
                     (False, g) \<Rightarrow> (False, g)
                   | (True, g) \<Rightarrow> (True, init_boot_logged p opts g))))"

definition sentry_set_transport_logged :: "'w sentry_transport option \<Rightarrow> 'w program \<Rightarrow> 'w program" where
  "sentry_set_transport_logged transport g =
     (let g = on_micro (sentry_set_transport transport) g
      in debug_log (''transport set to '' @ sentry_transport_name transport (m_world (pg_micro g))) g)"

section \<open>The C++ layer\<close>

text \<open>Arduino's \<open>Serial\<close>, as far as the default logger uses it.\<close>

record 'w serial_port =
  serial_print :: "string \<Rightarrow> 'w \<Rightarrow> 'w"
  serial_println :: "string \<Rightarrow> 'w \<Rightarrow> 'w"

definition serial_logger :: "'w serial_port \<Rightarrow> 'w sentry_logger_fn" where
  "serial_logger port message w = serial_println port message (serial_print port ''[sentry] '' w)"

definition Options :: "'w platform \<Rightarrow> sentry_options" where
  "Options p = sentry_options_defaults p"

text \<open>\<open>port\<close> is \<open>None\<close> in a build without Arduino.\<close>

definition cxx_init ::
    "'w serial_port option \<Rightarrow> 'w platform \<Rightarrow> sentry_options \<Rightarrow> 'w program \<Rightarrow> bool \<times> 'w program" where
  "cxx_init port p options g =
     (let g =
        (case port of
           None \<Rightarrow> g
         | Some serial \<Rightarrow>
             if op_debug options \<and> Option.is_none (sentry_get_logger g)
             then sentry_set_logger (Some (serial_logger serial)) g else g)
      in sentry_init_logged p (Some options) g)"

text \<open>
  Everything else forwards. A parameter with a default is one the caller gives; a reference is the
  value it refers to.
\<close>

definition cxx_shutdown :: "'w micro \<Rightarrow> 'w micro" where "cxx_shutdown m = sentry_close m"

definition cxx_is_enabled :: "'w micro \<Rightarrow> bool" where "cxx_is_enabled m = sentry_is_enabled m"

definition cxx_sdk_version :: string where "cxx_sdk_version = sentry_sdk_version"

definition cxx_dsn :: "'w micro \<Rightarrow> sentry_dsn" where "cxx_dsn m = sentry_get_dsn m"

definition cxx_envelope_url :: "'w micro \<Rightarrow> string" where "cxx_envelope_url m = sentry_get_envelope_url m"

definition cxx_auth_header :: "'w micro \<Rightarrow> string" where "cxx_auth_header m = sentry_get_auth_header m"

definition cxx_org_id :: "'w micro \<Rightarrow> string" where "cxx_org_id m = sentry_get_org_id m"

definition cxx_device_info :: "'w micro \<Rightarrow> sentry_device_info" where "cxx_device_info m = sentry_get_device_info m"

definition cxx_options :: "'w micro \<Rightarrow> sentry_options" where "cxx_options m = sentry_get_options m"

definition cxx_trace_adopt :: "'w platform \<Rightarrow> cptr \<Rightarrow> cptr \<Rightarrow> 'w micro \<Rightarrow> bool \<times> 'w micro" where
  "cxx_trace_adopt p sentry_trace baggage m = sentry_trace_adopt p sentry_trace baggage m"

definition cxx_trace_start :: "'w platform \<Rightarrow> 'w micro \<Rightarrow> bool \<times> 'w micro" where
  "cxx_trace_start p m = sentry_trace_start p m"

definition cxx_trace_release :: "'w platform \<Rightarrow> 'w micro \<Rightarrow> 'w micro" where
  "cxx_trace_release p m = sentry_trace_release p m"

definition cxx_trace :: "'w micro \<Rightarrow> sentry_trace_context" where "cxx_trace m = sentry_trace_current m"

definition cxx_trace_header :: "string option \<Rightarrow> nat \<Rightarrow> 'w micro \<Rightarrow> string option \<times> nat" where
  "cxx_trace_header buf cap m = sentry_trace_header buf cap m"

definition cxx_capture_message ::
    "'w platform \<Rightarrow> sentry_level \<Rightarrow> cptr \<Rightarrow> 'w micro \<Rightarrow> sentry_response \<times> 'w micro" where
  "cxx_capture_message p level message m = sentry_capture_message p level message m"

text \<open>\<open>Transaction()\<close> value-initialises the C struct: no spans, and not active.\<close>

definition Transaction :: sentry_transaction where
  "Transaction =
     \<lparr>tx_name = None, tx_op = None, tx_trace = trace_zero, tx_start_uptime_us = 0, tx_end_uptime_us = 0,
      tx_end_unix_us = 0, tx_spans = [], tx_dropped_spans = 0, tx_active = False\<rparr>"

text \<open>A reference to a transaction is never NULL.\<close>

definition cxx_transaction_start ::
    "'w platform \<Rightarrow> sentry_transaction \<Rightarrow> cptr \<Rightarrow> cptr \<Rightarrow> 'w micro \<Rightarrow> bool \<times> sentry_transaction \<times> 'w micro" where
  "cxx_transaction_start p txn name op m =
     (case sentry_transaction_start p (Some txn) name op m of (ok, txn, m) \<Rightarrow> (ok, the txn, m))"

definition cxx_start_child ::
    "'w platform \<Rightarrow> sentry_transaction \<Rightarrow> cptr \<Rightarrow> cptr \<Rightarrow> 'w micro \<Rightarrow> nat option \<times> sentry_transaction \<times> 'w micro" where
  "cxx_start_child p txn op description m =
     (case sentry_transaction_start_child p (Some txn) op description m of (span, txn, m) \<Rightarrow> (span, the txn, m))"

definition cxx_span_finish ::
    "'w platform \<Rightarrow> nat option \<Rightarrow> sentry_transaction \<Rightarrow> 'w micro \<Rightarrow> sentry_transaction \<times> 'w micro" where
  "cxx_span_finish p span txn m = sentry_span_finish p span txn m"

definition cxx_span_set_attribute :: "nat option \<Rightarrow> cptr \<Rightarrow> i64 \<Rightarrow> sentry_transaction \<Rightarrow> sentry_transaction" where
  "cxx_span_set_attribute span key value txn = sentry_span_set_attribute span key value txn"

definition cxx_transaction_finish ::
    "'w platform \<Rightarrow> sentry_transaction \<Rightarrow> 'w micro \<Rightarrow> sentry_response \<times> sentry_transaction \<times> 'w micro" where
  "cxx_transaction_finish p txn m =
     (case sentry_transaction_finish p (Some txn) m of (response, txn, m) \<Rightarrow> (response, the txn, m))"

definition cxx_metric_count :: "cptr \<Rightarrow> i64 \<Rightarrow> cptr \<Rightarrow> 'w micro \<Rightarrow> 'w micro" where
  "cxx_metric_count name delta unit m = sentry_metric_count name delta unit m"

definition cxx_metric_gauge :: "cptr \<Rightarrow> i64 \<Rightarrow> cptr \<Rightarrow> 'w micro \<Rightarrow> 'w micro" where
  "cxx_metric_gauge name value unit m = sentry_metric_gauge name value unit m"

definition cxx_metrics_dropped :: "'w micro \<Rightarrow> u32" where
  "cxx_metrics_dropped m = sentry_metrics_dropped_count m"

definition cxx_log :: "'w platform \<Rightarrow> sentry_level \<Rightarrow> cptr \<Rightarrow> format_args \<Rightarrow> 'w micro \<Rightarrow> 'w micro" where
  "cxx_log p level message expand m = sentry_log p level message expand m"

definition cxx_logs_dropped :: "'w micro \<Rightarrow> u32" where "cxx_logs_dropped m = sentry_logs_dropped_count m"

definition cxx_logs_truncated :: "'w micro \<Rightarrow> u32" where "cxx_logs_truncated m = sentry_logs_truncated_count m"

definition cxx_suppressed_count :: "'w micro \<Rightarrow> u32" where "cxx_suppressed_count m = sentry_suppressed_count m"

text \<open>Registering a C++ transport hands over its C view; with the line \<open>sentry_set_transport\<close> writes.\<close>

definition cxx_set_transport :: "'w transport_class \<Rightarrow> 'w program \<Rightarrow> 'w program" where
  "cxx_set_transport transport g = sentry_set_transport_logged (Some (c_transport transport)) g"

definition cxx_clear_transport :: "'w program \<Rightarrow> 'w program" where
  "cxx_clear_transport g = sentry_set_transport_logged None g"

text \<open>
  A transaction that could not be started may be used all the same: children are not opened, and
  finishing it sends nothing and changes nothing.
\<close>

lemma unstarted_transaction_is_inert:
  assumes "cxx_transaction_start p Transaction name op m = (False, txn, m')"
  shows "txn = Transaction"
    "cxx_transaction_finish p txn m2 = (sentry_response_make SENTRY_SEND_UNAVAILABLE, Transaction, m2)"
    "case cxx_start_child p txn op2 description m2 of (span, txn2, _) \<Rightarrow> span = None \<and> txn2 = Transaction"
proof -
  show t: "txn = Transaction"
    using assms
    by (auto simp: cxx_transaction_start_def sentry_transaction_start_def Let_def
        split: if_splits prod.splits bool.splits)
  show "cxx_transaction_finish p txn m2 = (sentry_response_make SENTRY_SEND_UNAVAILABLE, Transaction, m2)"
    by (simp add: t cxx_transaction_finish_def sentry_transaction_finish_def Transaction_def)
  show "case cxx_start_child p txn op2 description m2 of (span, txn2, _) \<Rightarrow> span = None \<and> txn2 = Transaction"
    by (simp add: t cxx_start_child_def sentry_transaction_start_child_def sentry_span_open_def Transaction_def
        split: prod.split option.split)
qed

section \<open>What the logger hears\<close>

text \<open>The lines of \<open>sentry_init\<close>, as the state it leaves tells them.\<close>

definition hears :: "'w sentry_logger_fn option \<Rightarrow> bool \<Rightarrow> string list \<Rightarrow> 'w \<Rightarrow> 'w" where
  "hears logger debug lines w =
     (case logger of
        Some f \<Rightarrow> if debug then fold (\<lambda>line. f (snprintf_content 192 line)) lines w else w
      | None \<Rightarrow> w)"

definition refusal :: "sentry_options \<Rightarrow> string" where
  "refusal opts =
     (if op_dsn opts = None \<or> op_dsn opts = Some [] then ''no DSN configured''
      else if \<not> snd (sentry_dsn_parse (op_dsn opts)) then ''DSN failed to parse''
      else ''DSN too long for the fixed buffers'') @ ''; SDK disabled''"

definition ring_lines :: "'w micro \<Rightarrow> string list" where
  "ring_lines m =
     (case log_ring m of
        None \<Rightarrow> [''log ring does not fit persistent storage; logging is off this boot'']
      | Some ring \<Rightarrow>
          if lr_count ring > 0
          then [''recovered '' @ dec (unat (lr_count ring)) @ '' log lines from the previous boot'']
          else [])"

definition boot_lines :: "'w micro \<Rightarrow> string list" where
  "boot_lines m =
     (let device = gs_device (m_state m); reason = sentry_reset_reason_name (di_reset_reason device)
      in ring_lines m @
         [''initialised '' @ SENTRY_MICRO_SDK_USER_AGENT @ '', ingest '' @ gs_envelope_url (m_state m),
          ''device '' @ di_chip_model device @ '' '' @ di_device_id device @ '', reset reason: '' @ reason] @
         (if sentry_reset_reason_is_crash (di_reset_reason device)
          then [''previous boot ended in a crash ('' @ reason @ '')''] else []))"

lemma hears_Nil [simp]: "hears logger debug [] w = w" "hears logger False lines w = w"
  by (simp_all add: hears_def split: option.split)

text \<open>The program after \<open>lines\<close> have been written and the state has become that of \<open>m\<close>.\<close>

definition said :: "'w program \<Rightarrow> string list \<Rightarrow> 'w micro \<Rightarrow> 'w program" where
  "said g lines m = g\<lparr>pg_micro :=
     m_world_update (hears (g_logger g) (op_debug (gs_options (m_state m))) lines) m\<rparr>"

lemma debug_log_said: "debug_log text (said g lines m) = said g (lines @ [text]) m"
  by (cases "g_logger g") (simp_all add: debug_log_def said_def hears_def)

lemma said_micro:
  "(\<And>h. f (m_world_update h m) = m_world_update h (f m)) \<Longrightarrow>
   gs_options (m_state (f m)) = gs_options (m_state m) \<Longrightarrow> on_micro f (said g lines m) = said g lines (f m)"
  by (simp add: said_def)

lemma said_state [simp]: "m_state (pg_micro (said g lines m)) = m_state m" "log_ring (pg_micro (said g lines m)) = log_ring m"
  by (simp_all add: said_def log_ring_def)

lemma said_over [simp]: "said (g\<lparr>pg_micro := x\<rparr>) lines m = said g lines m"
  by (simp add: said_def)

lemma said_start: "g\<lparr>pg_micro := m\<rparr> = said g [] m"
  by (simp add: said_def)

lemma debug_log_first: "debug_log text (g\<lparr>pg_micro := m\<rparr>) = said g [text] m"
  by (simp only: said_start debug_log_said append.simps)

lemma boot_frame:
  "gs_options (m_state (on_log_ring r m)) = gs_options (m_state m)"
  "gs_options (m_state (claim_log_ring p m)) = gs_options (m_state m)"
  "gs_options (m_state (recover_boot p opts m)) = gs_options (m_state m)"
  by (auto simp: on_log_ring_def set_log_ring_def claim_log_ring_def recover_boot_def persist_trace_def log_ring_def Let_def
      split: option.split prod.split)

lemma log_ring_world_update [simp]: "on_log_ring r (m_world_update f m) = m_world_update f (on_log_ring r m)"
  by (auto simp: log_ring_def on_log_ring_def set_log_ring_def split: option.split)

lemma init_log_ring_said:
  "init_log_ring_logged p (said g [] m) = said g (ring_lines (init_log_ring p m)) (init_log_ring p m)"
proof -
  let ?m = "claim_log_ring p m"
  have "on_micro (claim_log_ring p) (said g [] m) = said g [] ?m" by (simp add: said_start [symmetric])
  moreover have "on_micro (on_log_ring r) (said g ls ?m) = said g ls (on_log_ring r ?m)" for r ls
    by (rule said_micro) (simp_all add: boot_frame)
  ultimately show ?thesis
    by (cases "log_ring ?m")
      (simp_all add: init_log_ring_logged_def Let_def debug_log_said init_log_ring_def ring_lines_def sentry_log_ring_begin_boot_def)
qed

lemma init_boot_said:
  "init_boot_logged p opts (said g [] m) = said g (boot_lines (init_boot p opts m)) (init_boot p opts m)"
proof -
  let ?m = "recover_boot p opts m" and ?on = "upd (gs_enabled_update (\<lambda>_. True))"
  have "on_micro (recover_boot p opts) (said g [] m) = said g [] ?m" by (simp add: said_start [symmetric])
  moreover have "on_micro ?on (said g ls (init_log_ring p ?m)) = said g ls (?on (init_log_ring p ?m))" for ls
    by (rule said_micro) simp_all
  moreover have "ring_lines (?on x) = ring_lines x" for x :: "'a micro"
    by (simp add: ring_lines_def log_ring_def)
  ultimately show ?thesis
    by (simp add: init_boot_logged_def init_log_ring_said debug_log_said init_boot_def boot_lines_def Let_def)
qed

text \<open>What \<open>sentry_init\<close> says: of a boot the lines above, of a failure the one that names it.\<close>

definition init_lines :: "sentry_options \<Rightarrow> bool \<Rightarrow> 'w micro \<Rightarrow> string list" where
  "init_lines opts ok m = (if ok then boot_lines m else [refusal opts])"

lemma sentry_init_said:
  "sentry_init_logged p (Some opts) g =
    (case sentry_init p (Some opts) (pg_micro g) of (ok, m) \<Rightarrow> (ok, said g (init_lines opts ok m) m))"
proof -
  let ?m = "(pg_micro g)\<lparr>m_state := state_zero\<lparr>gs_options := opts\<rparr>\<rparr>"
  show ?thesis
  proof (cases "op_dsn opts = None \<or> op_dsn opts = Some []")
    case True
    then show ?thesis
      by (auto simp: sentry_init_logged_def sentry_init_def Let_def debug_log_first init_lines_def refusal_def)
  next
    case False
    obtain ok m where dsn: "init_dsn (op_dsn opts) ?m = (ok, m)" by fastforce
    have "sentry_init p (Some opts) (pg_micro g) = (if ok then (True, init_boot p opts m) else (False, m))"
      using False dsn by (auto simp: sentry_init_def Let_def)
    moreover have "sentry_init_logged p (Some opts) g =
        (if ok then (True, init_boot_logged p opts (said g [] m)) else (False, said g [refusal opts] m))"
      using False dsn
      by (auto simp: sentry_init_logged_def Let_def init_dsn_logged_def said_start [symmetric])
        (simp_all add: debug_log_first refusal_def)
    ultimately show ?thesis by (simp add: init_boot_said init_lines_def)
  qed
qed

lemma init_keeps:
  assumes "sentry_init p (Some opts) m = (ok, m')"
  shows "gs_options (m_state m') = opts" "m_world m' = m_world m"
proof -
  let ?m = "m\<lparr>m_state := state_zero\<lparr>gs_options := opts\<rparr>\<rparr>"
  have ring: "m_world (on_log_ring r x) = m_world x" for r and x :: "'a micro"
    by (auto simp: on_log_ring_def set_log_ring_def split: option.split)
  have "gs_options (m_state (snd (init_dsn dsn x))) = gs_options (m_state x) \<and> m_world (snd (init_dsn dsn x)) = m_world x"
    for dsn and x :: "'a micro"
    by (simp add: init_dsn_def Let_def split: prod.split)
  moreover have "gs_options (m_state (init_boot p opts x)) = gs_options (m_state x) \<and> m_world (init_boot p opts x) = m_world x"
    for x :: "'a micro"
    by (auto simp: init_boot_def init_log_ring_def boot_frame ring claim_log_ring_def recover_boot_def persist_trace_def
        Let_def split: prod.split)
  moreover have "m' = ?m \<or> m' = snd (init_dsn (op_dsn opts) ?m) \<or> m' = init_boot p opts (snd (init_dsn (op_dsn opts) ?m))"
    using assms by (auto simp: sentry_init_def Let_def case_prod_beta bool.case_eq_if split: if_splits)
  ultimately show "gs_options (m_state m') = opts" "m_world m' = m_world m" by auto
qed

text \<open>The logger that is installed after the C++ \<open>init\<close>: one chosen by the application stays.\<close>

definition logger_after ::
    "'w serial_port option \<Rightarrow> sentry_options \<Rightarrow> 'w sentry_logger_fn option \<Rightarrow> 'w sentry_logger_fn option" where
  "logger_after port options logger =
     (case logger of
        Some f \<Rightarrow> Some f
      | None \<Rightarrow> (case port of Some serial \<Rightarrow> if op_debug options then Some (serial_logger serial) else None | None \<Rightarrow> None))"

lemma cxx_init_said:
  "cxx_init port p options g =
    (case sentry_init p (Some options) (pg_micro g) of
       (ok, m) \<Rightarrow> (ok, said (g\<lparr>g_logger := logger_after port options (g_logger g)\<rparr>) (init_lines options ok m) m))"
proof -
  have "cxx_init port p options g = sentry_init_logged p (Some options) (g\<lparr>g_logger := logger_after port options (g_logger g)\<rparr>)"
    by (cases g) (auto simp: cxx_init_def logger_after_def sentry_get_logger_def sentry_set_logger_def split: option.split)
  then show ?thesis by (simp add: sentry_init_said)
qed

section \<open>Properties\<close>

text \<open>
  C39: Starting the SDK from C++ explains itself and changes nothing by it. The answer and the state
  are those of \<open>sentry_init\<close>; a logger the application has chosen stays, and only a debug build of
  an application without one gets the serial port; and when debugging is on and there is a logger,
  it hears, each line cut to 191 bytes and nothing else, on failure the one line that names which of
  the three causes left the SDK disabled, and otherwise the fate of the log ring, the ingest URL, the chip with its
  reset reason, and a crash if that was one.
\<close>

theorem init_explains_itself:
  "cxx_init port p options g =
    (let (ok, m) = sentry_init p (Some options) (pg_micro g);
         logger = logger_after port options (g_logger g)
     in (ok, \<lparr>pg_micro = m\<lparr>m_world := hears logger (op_debug options)
                (if ok then boot_lines m else [refusal options]) (m_world (pg_micro g))\<rparr>,
              g_logger = logger\<rparr>))"
proof -
  obtain ok m where "sentry_init p (Some options) (pg_micro g) = (ok, m)" by fastforce
  with init_keeps [OF this] show ?thesis
    by (cases g; cases m) (simp add: cxx_init_said said_def init_lines_def Let_def)
qed

text \<open>
  A null pointer is the one failure that is never explained: the options, and with them \<open>debug\<close>,
  have been cleared before the line is written.
\<close>

lemma null_options_unheard:
  "sentry_init_logged p None g = (False, on_micro (\<lambda>m. m\<lparr>m_state := state_zero\<rparr>) g)"
  by (simp add: sentry_init_logged_def debug_log_def Let_def state_zero_def options_zero_def split: option.split)

end
