(* ===== verification/Sentry_Micro_World.thy ===== *)
theory Sentry_Micro_World
  imports Sentry_Micro_Delivery Sentry_Front_End Sentry_Storage_Nvs
begin

text \<open>
  What the SDK touches outside itself: the clocks and random numbers of the chip, the transport and
  the storage it was given, and nothing else. Whatever those keep of the world, every sequence of
  calls keeps; so a guarantee about one of them, such as how a transport speaks to the network,
  carries over to a program that uses the SDK.
\<close>

definition transport_keeps :: "'w sentry_transport option \<Rightarrow> ('w \<Rightarrow> bool) \<Rightarrow> bool" where
  "transport_keeps transport P \<longleftrightarrow> (case transport of
     None \<Rightarrow> True
   | Some t \<Rightarrow>
       (\<forall>send. tp_send t = Some send \<longrightarrow> (\<forall>url headers body. keeps P (\<lambda>w. snd (send url headers body w)))) \<and>
       (\<forall>available. tp_is_available t = Some available \<longrightarrow> keeps P (\<lambda>w. snd (available w))))"

text \<open>All that the SDK has been given keeps \<open>P\<close>.\<close>

definition parts_keep :: "'w platform \<Rightarrow> ('w \<Rightarrow> bool) \<Rightarrow> 'w micro \<Rightarrow> bool" where
  "parts_keep p P m \<longleftrightarrow> chip_keeps p P \<and> transport_keeps (gs_transport (m_state m)) P \<and>
     storage_keeps (sb_storage (gs_buffer (m_state m))) P"

definition confined :: "'w platform \<Rightarrow> ('w \<Rightarrow> bool) \<Rightarrow> 'w micro \<Rightarrow> bool" where
  "confined p P m \<longleftrightarrow> parts_keep p P m \<and> P (m_world m)"

named_theorems confined_intros

lemma confined_clock [confined_intros]:
  assumes "confined p P m"
  shows "confined p P (snd (uptime_ms p m))" "confined p P (snd (uptime_us p m))"
    "confined p P (snd (unix_time p m))" "confined p P (snd (unix_time_us p m))"
    "confined p P (snd (random p n m))" "confined p P (snd (in_backoff p m))"
  using assms by (simp_all add: confined_def parts_keep_def chip_keeps_def keeps_def in_backoff_def case_prod_beta)

lemma confined_state [confined_intros]:
  assumes "confined p P m"
  shows "confined p P (upd (gs_metrics_update fs) m)"
    "confined p P (upd (gs_metrics_dropped_update fm) m)" "confined p P (upd (gs_logs_truncated_update fl) m)"
    "confined p P (upd (gs_throttle_update fh) m)" "confined p P (upd (gs_retry_after_uptime_ms_update fr) m)"
    "confined p P (count_logs_dropped lost m)" "confined p P (set_trace p t m)" "confined p P (set_log_ring r m)"
  using assms by (simp_all add: confined_def parts_keep_def count_logs_dropped_def)

lemma confined_if [confined_intros]:
  "(c \<Longrightarrow> confined p P x) \<Longrightarrow> (\<not> c \<Longrightarrow> confined p P y) \<Longrightarrow> confined p P (if c then x else y)"
  by simp

lemma confined_on_log_ring [confined_intros]: "confined p P m \<Longrightarrow> confined p P (on_log_ring f m)"
  by (auto simp: on_log_ring_def intro: confined_state split: option.split)

lemma confined_transport [confined_intros]:
  assumes "confined p P m"
  shows "confined p P (snd (available m))" "confined p P (snd (deliver p e m))"
proof -
  show "confined p P (snd (available m))"
    using assms
    by (auto simp: confined_def parts_keep_def available_def sentry_transport_is_available_def transport_keeps_def keeps_def
        case_prod_beta split: option.splits)
  have "confined p P (m\<lparr>m_world := snd (sentry_transport_send (gs_transport (m_state m)) url headers body (m_world m))\<rparr>)"
    for url headers body
    using assms
    by (auto simp: confined_def parts_keep_def sentry_transport_send_def transport_keeps_def keeps_def split: option.splits)
  then show "confined p P (snd (deliver p e m))"
    unfolding deliver_def Let_def case_prod_beta by (auto intro!: confined_intros simp del: clock_state)
qed

lemma confined_buffer [confined_intros]:
  assumes "confined p P m"
  shows "confined p P (snd (buffer_push e m))" "confined p P (buffer_pop m)" "confined p P (snd (buffer_peek cap m))"
proof -
  let ?b = "gs_buffer (m_state m)"
  have b: "storage_keeps (sb_storage ?b) P" "P (m_world m)" using assms by (simp_all add: confined_def parts_keep_def)
  show "confined p P (snd (buffer_push e m))"
    using assms push_keeps [OF b] by (simp add: confined_def parts_keep_def buffer_push_def case_prod_beta buffer_storage_ops)
  show "confined p P (buffer_pop m)"
    using assms pop_keeps(1) [OF b] by (simp add: confined_def parts_keep_def buffer_pop_def case_prod_beta buffer_storage_ops)
  show "confined p P (snd (buffer_peek cap m))"
    using assms pop_keeps(2) [OF b] by (simp add: confined_def parts_keep_def buffer_peek_def case_prod_beta)
qed

lemma confined_send [confined_intros]: "confined p P m \<Longrightarrow> confined p P (snd (sentry_send_envelope p e m))"
  unfolding sentry_send_envelope_def case_prod_beta bool.case_eq_if
  by (auto intro!: confined_intros)

interpretation confined_steps: kept_by_steps p "confined p P" for p P
  by unfold_locales (auto intro: confined_intros)

lemma confined_settle [confined_intros]:
  assumes "confined p P m"
  shows "confined p P (drop_logs r m)" "confined p P (settle_logs r resp m)" "confined p P (settle_metrics resp m)"
  using assms by (auto simp: drop_logs_def settle_logs_def settle_metrics_def intro!: confined_intros)

lemma confined_batches [confined_intros]:
  assumes "confined p P m"
  shows "confined p P (flush_logs p m)" "confined p P (flush_metrics p m)"
  using assms unfolding flush_logs_def flush_metrics_def Let_def case_prod_beta
  by (auto intro!: confined_intros confined_steps.kept_trace simp del: clock_state)

lemma confined_flush_loop: "flush_loop p n d m = Some r \<Longrightarrow> confined p P m \<Longrightarrow> confined p P (snd r)"
proof (induction rule: flush_loop_induct)
  case (round loop p n d m r)
  show ?case
  proof (cases "d < n \<and> 0 < sentry_buffer_count (gs_buffer (m_state m))")
    case True
    then show ?thesis
      using round(2,3)
      by (auto simp: case_prod_beta split: option.splits if_splits elim!: round(1) intro!: confined_intros)
  qed (use round(2,3) in auto)
qed

lemma confined_flush:
  "sentry_flush p n m = Some (k, m') \<Longrightarrow> confined p P m \<Longrightarrow> confined p P m'"
  unfolding sentry_flush_def case_prod_beta bool.case_eq_if Let_def
  by (auto split: if_splits intro!: confined_intros dest!: confined_flush_loop)

section \<open>The logger and the flash\<close>

text \<open>
  What else a start touches: the lines go to a logger, and the offline buffer to the NVS adapter,
  which keeps whatever every call of the flash keeps.
\<close>

definition flash_keeps :: "'w nvs_api \<Rightarrow> ('w \<Rightarrow> bool) \<Rightarrow> bool" where
  "flash_keeps api P \<longleftrightarrow>
     (\<forall>name. keeps P (\<lambda>w. fst (nv_open api w name))) \<and> (\<forall>h key d. keeps P (\<lambda>w. fst (nv_set_blob api w h key d))) \<and>
     (\<forall>h key n. keeps P (\<lambda>w. fst (nv_get_blob api w h key n))) \<and> (\<forall>h key. keeps P (\<lambda>w. fst (nv_erase_key api w h key))) \<and>
     (\<forall>h. keeps P (\<lambda>w. fst (nv_commit api w h))) \<and> (\<forall>h. keeps P (\<lambda>w. nv_close api w h))"

definition loggers_keep :: "'w serial_port option \<Rightarrow> 'w sentry_logger_fn option \<Rightarrow> ('w \<Rightarrow> bool) \<Rightarrow> bool" where
  "loggers_keep port logger P \<longleftrightarrow>
     (\<forall>f line. logger = Some f \<longrightarrow> keeps P (f line)) \<and>
     (\<forall>serial line. port = Some serial \<longrightarrow> keeps P (serial_print serial line) \<and> keeps P (serial_println serial line))"

lemma hears_keeps:
  assumes "loggers_keep port logger P" and "P w"
  shows "P (hears (logger_after port options logger) debug lines w)"
proof -
  have "P (fold (\<lambda>line. f (snprintf_content 192 line)) lines w)"
    if "\<And>line. keeps P (f line)" "P w" for f :: "'a sentry_logger_fn" and w
    using that(2) by (induction lines arbitrary: w) (use that(1) in \<open>auto simp: keeps_def\<close>)
  then show ?thesis
    using assms
    by (auto simp: hears_def loggers_keep_def logger_after_def serial_logger_def keeps_def split: option.split)
qed

lemma open_handle_keeps:
  assumes "flash_keeps api P" and "P w"
  shows "P (fst (open_handle api w))" "P (nv_close api w h)" "P (fst (nv_set_blob api w h key d))"
    "P (fst (nv_get_blob api w h key n))" "P (fst (nv_erase_key api w h key))" "P (fst (nv_commit api w h))"
  using assms by (simp_all add: flash_keeps_def keeps_def open_handle_def case_prod_beta Let_def)

lemma nvs_operations_keep:
  assumes "flash_keeps api P" and "P w"
  shows "P (fst (nvs_write api w i d))" "P (fst (nvs_read api w i n))" "P (fst (nvs_erase api w i))"
    "P (fst (nvs_load_meta api w))" "P (fst (nvs_save_meta api w h t e))" "P (fst (sentry_storage_nvs api slots w))"
  unfolding nvs_write_def nvs_read_def nvs_erase_def nvs_load_meta_def nvs_save_meta_def sentry_storage_nvs_def
    case_prod_beta Let_def
  using assms by (auto intro!: open_handle_keeps [OF assms(1)] split: option.split)

lemma storage_nvs_keeps:
  assumes "flash_keeps api P"
  shows "storage_keeps (snd (sentry_storage_nvs api slots w)) P"
    "snd (sentry_storage_nvs api slots w) = Some st \<Longrightarrow> st_load_meta st = Some load \<Longrightarrow> keeps P (\<lambda>w. fst (load w))"
  using nvs_operations_keep(1-5) [OF assms]
  by (auto simp: sentry_storage_nvs_def storage_of_def storage_keeps_def keeps_def split: prod.splits option.splits if_splits)

lemma init_fresh:
  assumes "sentry_init p options m = (ok, m')"
  shows "gs_transport (m_state m') = None" "gs_buffer (m_state m') = buffer_zero"
proof -
  let ?same = "\<lambda>x y. gs_transport (m_state x) = gs_transport (m_state y) \<and> gs_buffer (m_state x) = gs_buffer (m_state y)"
  have "?same (snd (init_dsn dsn x)) x" for dsn and x :: "'a micro"
    by (simp add: init_dsn_def Let_def split: prod.split)
  moreover have "?same (init_boot p opts x) x" for opts and x :: "'a micro"
    by (auto simp: init_boot_def init_log_ring_def claim_log_ring_def recover_boot_def persist_trace_def on_log_ring_def
        set_log_ring_def Let_def split: prod.split option.split)
  ultimately have "gs_transport (m_state m') = gs_transport (state_zero :: 'a sentry_state) \<and>
      gs_buffer (m_state m') = gs_buffer (state_zero :: 'a sentry_state)"
    using assms by (auto simp: sentry_init_def Let_def case_prod_beta bool.case_eq_if split: option.splits if_splits)
  then show "gs_transport (m_state m') = None" "gs_buffer (m_state m') = buffer_zero" by (simp_all add: state_zero_def)
qed

end
