(* ===== verification/Sentry_Wifi_Basic.thy ===== *)
theory Sentry_Wifi_Basic
  imports Sentry_Crash_Report Sentry_Front_End Sentry_Micro_World Sentry_Storage_Nvs Sentry_Wifi_Transport
    Sentry_Serial_Transport
begin

text \<open>
  The sketch \<open>examples/wifi_basic/src/main.cpp\<close>: it starts the SDK, joins a network, sets the clock,
  reports a crash or the boot, and then flushes every half minute. \<open>setup\<close> and \<open>loop\<close> are whole
  programs over the SDK, the C++ layer, the flash and the two transports, so what is shown of those
  is put together here: every wait ends, and no request leaves over TLS that is not verified.

  The Arduino calls are a parameter, a record over the state \<open>'w\<close> of the board. What the sketch
  prints is not modelled, but the clock and the status it reads for a line are read. The state of
  the transports is part of the board: \<open>'v board\<close> has the position the chain chose last, the
  members of the WiFi transport, and the rest.
\<close>

section \<open>The board\<close>

text \<open>The numbers of the Arduino headers the code compares with are part of the parameter.\<close>

record 'w arduino =
  WL_CONNECTED :: int
  WIFI_SCAN_RUNNING :: int
  ar_serial_ready :: "'w \<Rightarrow> bool \<times> 'w"
  ar_millis :: "'w \<Rightarrow> u32 \<times> 'w"
  ar_delay :: "u32 \<Rightarrow> 'w \<Rightarrow> 'w"
  wifi_mode_sta :: "'w \<Rightarrow> 'w"
  wifi_begin :: "string \<Rightarrow> string \<Rightarrow> 'w \<Rightarrow> 'w"
  wifi_status :: "'w \<Rightarrow> int \<times> 'w"
  wifi_localIP :: "'w \<Rightarrow> string"
  wifi_RSSI :: "'w \<Rightarrow> int"
  wifi_disconnect :: "bool \<Rightarrow> bool \<Rightarrow> 'w \<Rightarrow> 'w"
  wifi_scanNetworks :: "bool \<Rightarrow> bool \<Rightarrow> bool \<Rightarrow> u32 \<Rightarrow> 'w \<Rightarrow> int \<times> 'w"
  wifi_scanComplete :: "'w \<Rightarrow> int \<times> 'w"
  wifi_SSID :: "nat \<Rightarrow> 'w \<Rightarrow> string"
  wifi_scanDelete :: "'w \<Rightarrow> 'w"
  ar_configTime :: "'w \<Rightarrow> 'w"
  ar_time :: "'w \<Rightarrow> int \<times> 'w"

definition WIFI_CONNECT_TIMEOUT_MS :: u32 where "WIFI_CONNECT_TIMEOUT_MS = 20000"

definition TIME_SYNC_TIMEOUT_MS :: u32 where "TIME_SYNC_TIMEOUT_MS = 20000"

definition TIME_SYNC_PLAUSIBLE_EPOCH_S :: int where "TIME_SYNC_PLAUSIBLE_EPOCH_S = 1600000000"

section \<open>Waiting\<close>

text \<open>
  A loop of the source: its condition may read the board, its body goes from one state to the next.
  \<open>None\<close> is a loop that does not end.
\<close>

partial_function (option) c_while :: "('s \<Rightarrow> bool \<times> 's) \<Rightarrow> ('s \<Rightarrow> 's) \<Rightarrow> 's \<Rightarrow> 's option" where
  "c_while test body s = (case test s of (go, s) \<Rightarrow> if go then c_while test body (body s) else Some s)"

declare c_while.simps [code]

text \<open>The condition \<open>millis() - started < timeout\<close>.\<close>

definition before_timeout :: "'w arduino \<Rightarrow> u32 \<Rightarrow> u32 \<Rightarrow> 'w \<Rightarrow> bool \<times> 'w" where
  "before_timeout io started timeout w = (case ar_millis io w of (now, w) \<Rightarrow> (now - started < timeout, w))"

text \<open>The four loops that wait for the board, each from a reading of the clock.\<close>

definition await_serial :: "'w arduino \<Rightarrow> u32 \<Rightarrow> 'w \<Rightarrow> 'w option" where
  "await_serial io serial_wait =
     c_while
       (\<lambda>w. case ar_serial_ready io w of
              (ready, w) \<Rightarrow> if \<not> ready then before_timeout io serial_wait 3000 w else (False, w))
       (ar_delay io 10)"

text \<open>The state of the scan has \<open>found\<close>, and whether \<open>break\<close> has left the loop.\<close>

definition await_scan :: "'w arduino \<Rightarrow> u32 \<Rightarrow> int \<Rightarrow> 'w \<Rightarrow> (int \<times> 'w) option" where
  "await_scan io waited found w =
     map_option (\<lambda>(found, broken, w). (found, w))
       (c_while
         (\<lambda>(found, broken, w).
            if broken then (False, (found, broken, w))
            else (case before_timeout io waited 15000 w of (go, w) \<Rightarrow> (go, (found, broken, w))))
         (\<lambda>(found, broken, w).
            case wifi_scanComplete io (ar_delay io 250 w) of
              (complete, w) \<Rightarrow> if complete \<ge> 0 then (complete, True, w) else (found, False, w))
         (found, False, w))"

definition await_connection :: "'w arduino \<Rightarrow> u32 \<Rightarrow> 'w \<Rightarrow> 'w option" where
  "await_connection io started =
     c_while
       (\<lambda>w. case wifi_status io w of
              (status, w) \<Rightarrow>
                if status \<noteq> WL_CONNECTED io then before_timeout io started WIFI_CONNECT_TIMEOUT_MS w else (False, w))
       (ar_delay io 250)"

definition await_time :: "'w arduino \<Rightarrow> u32 \<Rightarrow> int \<times> 'w \<Rightarrow> (int \<times> 'w) option" where
  "await_time io started =
     c_while
       (\<lambda>(now, w).
          if now < TIME_SYNC_PLAUSIBLE_EPOCH_S
          then (case before_timeout io started TIME_SYNC_TIMEOUT_MS w of (go, w) \<Rightarrow> (go, (now, w)))
          else (False, (now, w)))
       (\<lambda>(now, w). ar_time io (ar_delay io 250 w))"

section \<open>Networks and the clock\<close>

text \<open>What the scan is reported as; \<open>Listed\<close> has the names and whether the configured one is among them.\<close>

datatype scan_report = Scan_failed int | None_found | Listed "string list" bool

definition report_visible_networks :: "'w arduino \<Rightarrow> string \<Rightarrow> 'w \<Rightarrow> (scan_report \<times> 'w) option" where
  "report_visible_networks io ssid w =
     (let w = ar_delay io 100 (wifi_disconnect io False False w);
          (found, w) = wifi_scanNetworks io False True False 500 w
      in case (if found = WIFI_SCAN_RUNNING io
               then (case ar_millis io w of (waited, w) \<Rightarrow> await_scan io waited found w)
               else Some (found, w)) of
           None \<Rightarrow> None
         | Some (found, w) \<Rightarrow>
             if found < 0 then Some (Scan_failed found, w)
             else if found = 0 then Some (None_found, w)
             else (let names = map (\<lambda>i. wifi_SSID io i w) [0..<nat found]
                   in Some (Listed names (ssid \<in> set names), wifi_scanDelete io w)))"

text \<open>The text of a log line, when its format is a constant of the code.\<close>

abbreviation says :: "string \<Rightarrow> format_args" where "says text \<equiv> (\<lambda>_. Inr text)"

definition connect_wifi ::
    "'w platform \<Rightarrow> 'w arduino \<Rightarrow> string \<Rightarrow> string \<Rightarrow> 'w micro \<Rightarrow> (bool \<times> 'w micro) option" where
  "connect_wifi p io ssid password m =
     (let w = wifi_begin io ssid password (wifi_mode_sta io (m_world m));
          (started, w) = ar_millis io w
      in case await_connection io started w of
           None \<Rightarrow> None
         | Some w \<Rightarrow>
            (let (status, w) = wifi_status io w
             in if status \<noteq> WL_CONNECTED io
                then
                 (let w = snd (wifi_status io (snd (ar_millis io w)));
                      (now, w) = ar_millis io w;
                      (status, w) = wifi_status io w;
                      m = cxx_log p SENTRY_LEVEL_WARNING (Some ''WiFi connect failed after %lums (status %d)'')
                        (says (''WiFi connect failed after '' @ dec (unat (now - started)) @ ''ms (status '' @
                           dec_signed status @ '')'')) (m\<lparr>m_world := w\<rparr>)
                  in map_option (\<lambda>(_, w). (False, m\<lparr>m_world := w\<rparr>)) (report_visible_networks io ssid (m_world m)))
                else
                 (let w = snd (ar_millis io w);
                      (now, w) = ar_millis io w
                  in Some (True, cxx_log p SENTRY_LEVEL_INFO (Some ''WiFi connected: ip=%s rssi=%ddBm in %lums'')
                       (says (''WiFi connected: ip='' @ wifi_localIP io w @ '' rssi='' @ dec_signed (wifi_RSSI io w) @
                          ''dBm in '' @ dec (unat (now - started)) @ ''ms'')) (m\<lparr>m_world := w\<rparr>)))))"

definition sync_time :: "'w arduino \<Rightarrow> 'w \<Rightarrow> (bool \<times> 'w) option" where
  "sync_time io w =
     (let (started, w) = ar_millis io (ar_configTime io w)
      in map_option (\<lambda>(now, w). (\<not> now < TIME_SYNC_PLAUSIBLE_EPOCH_S, w)) (await_time io started (0, w)))"

fun send_result_name :: "sentry_send_result \<Rightarrow> string" where
  "send_result_name SENTRY_SEND_OK = ''delivered''"
| "send_result_name SENTRY_SEND_UNAVAILABLE = ''no route (buffer and retry)''"
| "send_result_name SENTRY_SEND_REJECTED = ''rejected (do not retry)''"
| "send_result_name SENTRY_SEND_RATE_LIMITED = ''rate limited''"
| "send_result_name SENTRY_SEND_ERROR = ''error''"

section \<open>The flood\<close>

text \<open>Twenty captures of the same message: how many were not answered as rate limited.\<close>

fun flood_loop :: "'w platform \<Rightarrow> nat \<Rightarrow> u32 \<Rightarrow> 'w micro \<Rightarrow> u32 \<times> 'w micro" where
  "flood_loop p 0 captured m = (captured, m)"
| "flood_loop p (Suc i) captured m =
     (case cxx_capture_message p SENTRY_LEVEL_WARNING (Some ''Sensor read failed'') m of
        (response, m) \<Rightarrow>
          flood_loop p i (if rs_result response \<noteq> SENTRY_SEND_RATE_LIMITED then captured + 1 else captured) m)"

definition demo_flood :: "'w platform \<Rightarrow> 'w micro \<Rightarrow> (u32 \<times> u32 \<times> string) \<times> 'w micro" where
  "demo_flood p m =
     (let (captured, m) = flood_loop p 20 0 m;
          suppressed = cxx_suppressed_count m;
          (other, m) = cxx_capture_message p SENTRY_LEVEL_WARNING (Some ''Something else'') m
      in ((captured, suppressed, send_result_name (rs_result other)), m))"

section \<open>The sketch\<close>

text \<open>What the build names; what it leaves undefined has a default.\<close>

record sketch_build = firmware +
  WIFI_SSID :: string
  WIFI_PASSWORD :: string
  SENTRY_INGEST_CA_CERT :: string
  SENTRY_MICRO_WIFI_TLS :: bool
  SENTRY_DEMO_SCAN :: bool
  SENTRY_DEMO_FLOOD :: bool
  SENTRY_DEMO_CRASH :: bool

definition FIRMWARE_RELEASE :: "sketch_build \<Rightarrow> string" where
  "FIRMWARE_RELEASE b =
     (case SENTRY_RELEASE b of Some release \<Rightarrow> release | None \<Rightarrow> ''sentry-micro-example@'' @ SENTRY_MICRO_SDK_VERSION)"

definition BOARD_NAME :: "sketch_build \<Rightarrow> string" where
  "BOARD_NAME b = (case ARDUINO_BOARD b of Some board \<Rightarrow> board | None \<Rightarrow> ''unknown'')"

definition sketch_options :: "sketch_build \<Rightarrow> 'w platform \<Rightarrow> sentry_options" where
  "sketch_options b p =
     (Options p)\<lparr>op_dsn := Some (case SENTRY_DSN b of
         Some dsn \<Rightarrow> dsn | None \<Rightarrow> ''https://examplePublicKey@o0.ingest.sentry.io/0''),
       op_release := Some (FIRMWARE_RELEASE b), op_environment := Some ''development'',
       op_board := Some (BOARD_NAME b), op_debug := SENTRY_MICRO_DEBUG b\<rparr>"

text \<open>The network and the serial port the two transports talk to, and the chain over them.\<close>

type_synonym 'v board = "nat option \<times> wifi_transport \<times> 'v"

record 'v routes =
  ro_net :: "'v http_client"
  ro_errors :: http_errors
  ro_serial :: "'v stream_io"

definition beside_wifi :: "'v transport_class \<Rightarrow> (wifi_transport \<times> 'v) transport_class" where
  "beside_wifi route =
     \<lparr>vt_send = (\<lambda>url headers body (t, v). case vt_send route url headers body v of (r, v) \<Rightarrow> (r, (t, v))),
      vt_is_available = (\<lambda>(t, v). case vt_is_available route v of (yes, v) \<Rightarrow> (yes, (t, v))),
      vt_name = (\<lambda>(t, v). vt_name route v)\<rparr>"

definition transport_chain :: "sketch_build \<Rightarrow> 'v routes \<Rightarrow> sentry_dsn \<Rightarrow> 'v board transport_class" where
  "transport_chain b r dsn =
     auto_class (AutoTransport
       [wifi_class (ro_net r) (ro_errors r) (SENTRY_MICRO_WIFI_TLS b) (Some dsn),
        beside_wifi (serial_class (SerialTransport (ro_serial r) 15000) (Some dsn))])"

definition on_wifi_transport :: "(wifi_transport \<Rightarrow> wifi_transport) \<Rightarrow> 'v board \<Rightarrow> 'v board" where
  "on_wifi_transport f w = (case w of (chosen, t, v) \<Rightarrow> (chosen, f t, v))"

text \<open>The static variables of the file and of \<open>loop\<close>.\<close>

record 'w sketch =
  sk_program :: "'w program"
  time_synced :: bool
  last_time_sync_attempt :: u32
  last_flush :: u32
  last_report :: u32

abbreviation sk_micro :: "'w sketch \<Rightarrow> 'w micro" where "sk_micro s \<equiv> pg_micro (sk_program s)"

text \<open>\<open>setup\<close> up to where the transport comes in.\<close>

definition setup_start ::
    "sketch_build \<Rightarrow> 'w arduino \<Rightarrow> 'w serial_port option \<Rightarrow> 'w nvs_api \<Rightarrow> 'w platform \<Rightarrow> 'w program \<Rightarrow> 'w program option" where
  "setup_start b io port nvs p g =
     (let (serial_wait, w) = ar_millis io (m_world (pg_micro g))
      in case await_serial io serial_wait w of
           None \<Rightarrow> None
         | Some w \<Rightarrow>
            (let g = snd (cxx_init port p (sketch_options b p) (on_world (\<lambda>_. w) g));
                 (w, storage) = sentry_storage_nvs nvs 16 (m_world (pg_micro g));
                 g = on_micro (\<lambda>m. snd (sentry_enable_buffering storage (m\<lparr>m_world := w\<rparr>))) g;
                 g = on_micro (cxx_log p SENTRY_LEVEL_INFO (Some ''%s starting on %s'')
                       (says (FIRMWARE_RELEASE b @ '' starting on '' @ BOARD_NAME b))) g
             in if SENTRY_DEMO_SCAN b
                then map_option (\<lambda>(_, w). on_world (\<lambda>_. w) g)
                       (report_visible_networks io (WIFI_SSID b) (m_world (pg_micro g)))
                else Some g))"

text \<open>The certificate is set before the transport is registered.\<close>

definition setup_transport :: "sketch_build \<Rightarrow> 'v routes \<Rightarrow> 'v board program \<Rightarrow> 'v board program" where
  "setup_transport b r g =
     (let g = (if SENTRY_MICRO_WIFI_TLS b
               then on_world (on_wifi_transport (set_ca_cert (Some (SENTRY_INGEST_CA_CERT b)))) g else g)
      in cxx_set_transport (transport_chain b r (cxx_dsn (pg_micro g))) g)"

text \<open>The connection, as a traced operation; the clock is set before it ends.\<close>

definition setup_wifi ::
    "sketch_build \<Rightarrow> 'w arduino \<Rightarrow> 'w platform \<Rightarrow> 'w micro \<Rightarrow> (bool \<times> 'w micro) option" where
  "setup_wifi b io p m =
     (let (_, wifi_txn, m) = cxx_transaction_start p Transaction (Some ''wifi-connect'') (Some ''device.operation'') m
      in case connect_wifi p io (WIFI_SSID b) (WIFI_PASSWORD b) m of
           None \<Rightarrow> None
         | Some (wifi_connected, m) \<Rightarrow>
            (case (if wifi_connected then sync_time io (m_world m) else Some (False, m_world m)) of
               None \<Rightarrow> None
             | Some (synced, w) \<Rightarrow>
                (let (_, _, m) = cxx_transaction_finish p wifi_txn (m\<lparr>m_world := w\<rparr>)
                 in Some (synced, cxx_trace_release p m))))"

text \<open>The deliberate crash: the state the device dies in.\<close>

definition demo_crash :: "'w arduino \<Rightarrow> 'w platform \<Rightarrow> 'w micro \<Rightarrow> 'w micro option" where
  "demo_crash io p m =
     (let (_, _, m) = cxx_transaction_start p Transaction (Some ''demo-crash'') (Some ''device.operation'') m;
          m = cxx_log p SENTRY_LEVEL_FATAL (Some ''Deliberately crashing in demo_crash_outer() in 3s'')
                (says ''Deliberately crashing in demo_crash_outer() in 3s'') m
      in map_option (\<lambda>(_, m). m\<lparr>m_world := ar_delay io 3000 (m_world m)\<rparr>) (sentry_flush p 4 m))"

text \<open>\<open>Inl\<close> is a \<open>setup\<close> that ends in the panic, \<open>Inr\<close> one that returns.\<close>

definition wifi_basic_setup ::
    "sketch_build \<Rightarrow> 'v routes \<Rightarrow> 'v board arduino \<Rightarrow> 'v board serial_port option \<Rightarrow> 'v board nvs_api \<Rightarrow>
     'v board platform \<Rightarrow> 'v board program \<Rightarrow> ('v board micro + 'v board sketch) option" where
  "wifi_basic_setup b r io port nvs p g =
     (case map_option (setup_transport b r) (setup_start b io port nvs p g) of
        None \<Rightarrow> None
      | Some g \<Rightarrow>
         (case setup_wifi b io p (pg_micro g) of
            None \<Rightarrow> None
          | Some (synced, m) \<Rightarrow>
             (let (reported, m) = report_crash p m;
                  m = (if \<not> reported then report_boot p m else m);
                  m = (if SENTRY_DEMO_FLOOD b then snd (demo_flood p m) else m)
              in if SENTRY_DEMO_CRASH b \<and> \<not> sentry_reset_reason_is_crash (di_reset_reason (cxx_device_info m))
                 then map_option Inl (demo_crash io p m)
                 else Some (Inr \<lparr>sk_program = g\<lparr>pg_micro := m\<rparr>, time_synced = synced,
                        last_time_sync_attempt = 0, last_flush = 0, last_report = 0\<rparr>))))"

section \<open>The loop\<close>

definition loop_time :: "'w arduino \<Rightarrow> 'w sketch \<Rightarrow> 'w sketch option" where
  "loop_time io s =
     (if time_synced s then Some s
      else
       (let (status, w) = wifi_status io (m_world (sk_micro s))
        in if status \<noteq> WL_CONNECTED io then Some (s\<lparr>sk_program := on_world (\<lambda>_. w) (sk_program s)\<rparr>)
           else
            (let (now, w) = ar_millis io w
             in if now - last_time_sync_attempt s \<ge> 30000
                then (case ar_millis io w of
                    (again, w) \<Rightarrow>
                      map_option (\<lambda>(synced, w). s\<lparr>sk_program := on_world (\<lambda>_. w) (sk_program s),
                          last_time_sync_attempt := again, time_synced := synced\<rparr>) (sync_time io w))
                else Some (s\<lparr>sk_program := on_world (\<lambda>_. w) (sk_program s)\<rparr>))))"

definition loop_flush :: "'w arduino \<Rightarrow> 'w platform \<Rightarrow> 'w sketch \<Rightarrow> 'w sketch option" where
  "loop_flush io p s =
     (let (now, w) = ar_millis io (m_world (sk_micro s))
      in if now - last_flush s \<ge> 30000
         then (case ar_millis io w of
             (again, w) \<Rightarrow>
               map_option (\<lambda>(_, m). s\<lparr>sk_program := (sk_program s)\<lparr>pg_micro := m\<rparr>, last_flush := again\<rparr>)
                 (sentry_flush p 2 ((sk_micro s)\<lparr>m_world := w\<rparr>)))
         else Some (s\<lparr>sk_program := on_world (\<lambda>_. w) (sk_program s)\<rparr>))"

text \<open>The heartbeat, of which only the readings remain, and the pause.\<close>

definition loop_report :: "'w arduino \<Rightarrow> 'w platform \<Rightarrow> 'w sketch \<Rightarrow> 'w sketch" where
  "loop_report io p s =
     (let (now, w) = ar_millis io (m_world (sk_micro s))
      in if now - last_report s \<ge> 60000
         then (let (again, w) = ar_millis io w;
                   w = snd (sentry_device_uptime_ms (pf_esp p) w);
                   w = snd (wifi_status io w)
               in s\<lparr>sk_program := on_world (\<lambda>_. w) (sk_program s), last_report := again\<rparr>)
         else s\<lparr>sk_program := on_world (\<lambda>_. w) (sk_program s)\<rparr>)"

definition wifi_basic_loop :: "'w arduino \<Rightarrow> 'w platform \<Rightarrow> 'w sketch \<Rightarrow> 'w sketch option" where
  "wifi_basic_loop io p s =
     (case loop_time io s of
        None \<Rightarrow> None
      | Some s \<Rightarrow>
         (case loop_flush io p s of
            None \<Rightarrow> None
          | Some s \<Rightarrow>
              (let s = loop_report io p s
               in Some (s\<lparr>sk_program := on_world (ar_delay io 50) (sk_program s)\<rparr>))))"

text \<open>The loop, called \<open>n\<close> times.\<close>

fun loop_times :: "'w arduino \<Rightarrow> 'w platform \<Rightarrow> nat \<Rightarrow> 'w sketch \<Rightarrow> 'w sketch option" where
  "loop_times io p 0 s = Some s"
| "loop_times io p (Suc n) s = Option.bind (wifi_basic_loop io p s) (loop_times io p n)"

section \<open>The waits end\<close>

text \<open>
  What the waits rely on. \<open>uptime\<close> is the true number of milliseconds, of which \<open>millis\<close> is the
  lower half. A call that only reads takes at most \<open>d\<close>; a delay lasts what it was asked to, less
  the tick that had begun, and at most \<open>d\<close> longer.
\<close>

definition within :: "('w \<Rightarrow> nat) \<Rightarrow> nat \<Rightarrow> 'w \<Rightarrow> 'w \<Rightarrow> bool" where
  "within uptime d w w' \<longleftrightarrow> uptime w \<le> uptime w' \<and> uptime w' \<le> uptime w + d"

definition board_ticks :: "'w arduino \<Rightarrow> ('w \<Rightarrow> nat) \<Rightarrow> nat \<Rightarrow> bool" where
  "board_ticks io uptime d \<longleftrightarrow> d < 2 ^ 29 \<and>
     (\<forall>w. fst (ar_millis io w) = of_nat (uptime (snd (ar_millis io w))) \<and> within uptime d w (snd (ar_millis io w))) \<and>
     (\<forall>w. within uptime d w (snd (ar_serial_ready io w))) \<and> (\<forall>w. within uptime d w (snd (wifi_status io w))) \<and>
     (\<forall>w. within uptime d w (snd (wifi_scanComplete io w))) \<and> (\<forall>w. within uptime d w (snd (ar_time io w))) \<and>
     (\<forall>ms w. uptime w + unat ms \<le> Suc (uptime (ar_delay io ms w)) \<and> uptime (ar_delay io ms w) \<le> uptime w + unat ms + d)"

lemma elapsed_less_than:
  fixes started :: u32
  assumes "S \<le> u" and "u < S + 2 ^ 32" and "started = of_nat S"
  shows "of_nat u - started < timeout \<longleftrightarrow> u < S + unat timeout"
proof -
  have "of_nat u - started = of_nat (u - S)" using assms(1,3) by simp
  moreover have "unat (of_nat (u - S) :: u32) = u - S" using assms(1,2) by (simp only: unat_of_nat) simp
  ultimately show ?thesis using assms(1) by (auto simp: word_less_nat_alt)
qed

lemma before_timeout_reads:
  assumes "board_ticks io uptime d" and "before_timeout io started timeout w = (go, w')" and "started = of_nat S"
    and "S \<le> uptime w" and "uptime w < S + 2 ^ 31"
  shows "within uptime d w w'" "go \<longleftrightarrow> uptime w' < S + unat timeout"
proof -
  obtain now where m: "ar_millis io w = (now, w')" and go: "go \<longleftrightarrow> now - started < timeout"
    using assms(2) by (auto simp: before_timeout_def split: prod.splits)
  have now: "now = of_nat (uptime w')" and w: "within uptime d w w'" and d: "d < 2 ^ 29"
    using assms(1) m by (simp_all add: board_ticks_def) (metis fst_conv snd_conv)+
  show "within uptime d w w'" by (rule w)
  have "uptime w' < S + 2 ^ 32" "S \<le> uptime w'" using w d assms(4,5) by (simp_all add: within_def)
  then show "go \<longleftrightarrow> uptime w' < S + unat timeout"
    using elapsed_less_than [of S "uptime w'" started timeout] assms(3) by (simp add: go now)
qed

text \<open>
  A loop whose condition takes at most \<open>e\<close> and fails from \<open>S + T\<close> on, and whose body takes some time but at most
  \<open>D\<close>, ends, and not much later than \<open>S + T\<close>.
\<close>

lemma timed_while_returns:
  fixes uptime :: "'s \<Rightarrow> nat"
  assumes test: "\<And>s go s'. test s = (go, s') \<Longrightarrow> S \<le> uptime s \<Longrightarrow> uptime s \<le> S + T + D \<Longrightarrow>
      uptime s \<le> uptime s' \<and> uptime s' \<le> uptime s + e \<and> (go \<longrightarrow> uptime s' < S + T)"
    and body: "\<And>s. uptime s < uptime (body s) \<and> uptime (body s) \<le> uptime s + D"
    and "S \<le> uptime s" and "uptime s \<le> S + T + D"
  shows "\<exists>s'. c_while test body s = Some s' \<and> uptime s \<le> uptime s' \<and> uptime s' \<le> S + T + D + e"
  using assms(3,4)
proof (induction "S + T + D - uptime s" arbitrary: s rule: less_induct)
  case less
  obtain go s1 where t: "test s = (go, s1)" by fastforce
  note s1 = test [OF t less.prems]
  show ?case
  proof (cases go)
    case True
    then have next_round: "S \<le> uptime (body s1)" "uptime (body s1) \<le> S + T + D" "uptime s < uptime (body s1)"
      using s1 less.prems body [of s1] by auto
    then have "S + T + D - uptime (body s1) < S + T + D - uptime s" by linarith
    from less.hyps [OF this next_round(1,2)] next_round(3) show ?thesis
      using True t by (subst c_while.simps) auto
  next
    case False
    then show ?thesis using t s1 less.prems by (subst c_while.simps) auto
  qed
qed

lemma delay_takes:
  assumes "board_ticks io uptime d" and "1 < unat ms"
  shows "uptime w < uptime (ar_delay io ms w)" "uptime (ar_delay io ms w) \<le> uptime w + (unat ms + d)"
proof -
  have "uptime w + unat ms \<le> Suc (uptime (ar_delay io ms w)) \<and> uptime (ar_delay io ms w) \<le> uptime w + unat ms + d"
    using assms(1) by (simp add: board_ticks_def)
  then show "uptime w < uptime (ar_delay io ms w)" "uptime (ar_delay io ms w) \<le> uptime w + (unat ms + d)"
    using assms(2) by simp_all
qed

lemma reading_takes:
  assumes "board_ticks io uptime d"
  shows "within uptime d w (snd (ar_millis io w))" "within uptime d w (snd (ar_serial_ready io w))"
    "within uptime d w (snd (wifi_status io w))" "within uptime d w (snd (wifi_scanComplete io w))"
    "within uptime d w (snd (ar_time io w))" "fst (ar_millis io w) = of_nat (uptime (snd (ar_millis io w)))" "d < 2 ^ 29"
  using assms by (simp_all add: board_ticks_def)

lemma await_serial_returns:
  assumes ticks: "board_ticks io uptime d" and S: "started = of_nat S" "S \<le> uptime w" "uptime w \<le> S + d"
  shows "\<exists>w'. await_serial io started w = Some w' \<and> uptime w \<le> uptime w' \<and> uptime w' \<le> S + 3000 + (10 + d) + 2 * d"
  unfolding await_serial_def
proof (rule timed_while_returns)
  fix v go v'
  assume v: "(case ar_serial_ready io v of (ready, w) \<Rightarrow> if \<not> ready then before_timeout io started 3000 w else (False, w)) = (go, v')"
    "S \<le> uptime v" "uptime v \<le> S + 3000 + (10 + d)"
  obtain ready v1 where r: "ar_serial_ready io v = (ready, v1)" "within uptime d v v1"
    using reading_takes(2) [OF ticks, of v] by (metis snd_conv surj_pair)
  then show "uptime v \<le> uptime v' \<and> uptime v' \<le> uptime v + 2 * d \<and> (go \<longrightarrow> uptime v' < S + 3000)"
    using v before_timeout_reads [OF ticks _ S(1), of 3000 v1 go v'] reading_takes(7) [OF ticks]
    by (cases ready) (auto simp: within_def)
qed (use delay_takes [OF ticks, of 10] S(2,3) in auto)

lemma await_connection_returns:
  assumes ticks: "board_ticks io uptime d" and S: "started = of_nat S" "S \<le> uptime w" "uptime w \<le> S + d"
  shows "\<exists>w'. await_connection io started w = Some w' \<and> uptime w \<le> uptime w' \<and> uptime w' \<le> S + 20000 + (250 + d) + 2 * d"
  unfolding await_connection_def
proof (rule timed_while_returns)
  fix v go v'
  assume v: "(case wifi_status io v of (status, w) \<Rightarrow> if status \<noteq> WL_CONNECTED io
      then before_timeout io started WIFI_CONNECT_TIMEOUT_MS w else (False, w)) = (go, v')"
    "S \<le> uptime v" "uptime v \<le> S + 20000 + (250 + d)"
  obtain status v1 where r: "wifi_status io v = (status, v1)" "within uptime d v v1"
    using reading_takes(3) [OF ticks, of v] by (metis snd_conv surj_pair)
  then show "uptime v \<le> uptime v' \<and> uptime v' \<le> uptime v + 2 * d \<and> (go \<longrightarrow> uptime v' < S + 20000)"
    using v before_timeout_reads [OF ticks _ S(1), of 20000 v1 go v'] reading_takes(7) [OF ticks]
    by (auto simp: within_def WIFI_CONNECT_TIMEOUT_MS_def split: if_splits)
qed (use delay_takes [OF ticks, of 250] S(2,3) in auto)

lemma await_scan_returns:
  assumes ticks: "board_ticks io uptime d" and S: "started = of_nat S" "S \<le> uptime w" "uptime w \<le> S + d"
  shows "\<exists>found' w'. await_scan io started found w = Some (found', w') \<and> uptime w \<le> uptime w' \<and>
    uptime w' \<le> S + 15000 + (250 + d + d) + d"
proof -
  let ?up = "\<lambda>(found :: int, broken :: bool, w). uptime w"
  let ?test = "\<lambda>(found, broken, w). if broken then (False, (found, broken, w))
      else (case before_timeout io started 15000 w of (go, w) \<Rightarrow> (go, (found, broken, w)))"
  let ?body = "\<lambda>(found, broken, w). case wifi_scanComplete io (ar_delay io 250 w) of
      (complete, w) \<Rightarrow> if complete \<ge> 0 then (complete, True, w) else (found, False, w)"
  have "\<exists>s. c_while ?test ?body (found, False, w) = Some s \<and> ?up (found, False, w) \<le> ?up s \<and>
      ?up s \<le> S + 15000 + (250 + d + d) + d"
  proof (rule timed_while_returns)
    fix s go s'
    assume "?test s = (go, s')" "S \<le> ?up s" "?up s \<le> S + 15000 + (250 + d + d)"
    then show "?up s \<le> ?up s' \<and> ?up s' \<le> ?up s + d \<and> (go \<longrightarrow> ?up s' < S + 15000)"
      using before_timeout_reads [OF ticks _ S(1), of 15000] reading_takes(7) [OF ticks]
      by (auto simp: within_def split: prod.splits if_splits)
  next
    fix s :: "int \<times> bool \<times> 'a"
    obtain f b v where s: "s = (f, b, v)" by (rule prod_cases3)
    show "?up s < ?up (?body s) \<and> ?up (?body s) \<le> ?up s + (250 + d + d)"
      using delay_takes [OF ticks, of 250 v] reading_takes(4) [OF ticks, of "ar_delay io 250 v"]
      by (auto simp: s within_def split: prod.split)
  qed (use S(2,3) in auto)
  then show ?thesis by (auto simp: await_scan_def)
qed

lemma await_time_returns:
  assumes ticks: "board_ticks io uptime d" and S: "started = of_nat S" "S \<le> uptime w" "uptime w \<le> S + d"
  shows "\<exists>now w'. await_time io started (0, w) = Some (now, w') \<and> uptime w \<le> uptime w' \<and>
    uptime w' \<le> S + 20000 + (250 + d + d) + d"
proof -
  let ?up = "\<lambda>(now :: int, w). uptime w"
  let ?test = "\<lambda>(now, w). if now < TIME_SYNC_PLAUSIBLE_EPOCH_S
      then (case before_timeout io started TIME_SYNC_TIMEOUT_MS w of (go, w) \<Rightarrow> (go, (now, w))) else (False, (now, w))"
  let ?body = "\<lambda>(now :: int, w). ar_time io (ar_delay io 250 w)"
  have "\<exists>s. c_while ?test ?body (0, w) = Some s \<and> ?up (0, w) \<le> ?up s \<and> ?up s \<le> S + 20000 + (250 + d + d) + d"
  proof (rule timed_while_returns)
    fix s go s'
    assume "?test s = (go, s')" "S \<le> ?up s" "?up s \<le> S + 20000 + (250 + d + d)"
    then show "?up s \<le> ?up s' \<and> ?up s' \<le> ?up s + d \<and> (go \<longrightarrow> ?up s' < S + 20000)"
      using before_timeout_reads [OF ticks _ S(1), of 20000] reading_takes(7) [OF ticks]
      by (auto simp: within_def TIME_SYNC_TIMEOUT_MS_def split: prod.splits if_splits)
  next
    fix s :: "int \<times> 'a"
    obtain n v where s: "s = (n, v)" by fastforce
    show "?up s < ?up (?body s) \<and> ?up (?body s) \<le> ?up s + (250 + d + d)"
      using delay_takes [OF ticks, of 250 v] reading_takes(5) [OF ticks, of "ar_delay io 250 v"]
      by (auto simp: s within_def split: prod.split)
  qed (use S(2,3) in auto)
  then show ?thesis by (auto simp: await_time_def)
qed

lemma sync_time_returns:
  assumes "board_ticks io uptime d"
  shows "\<exists>synced w'. sync_time io w = Some (synced, w')"
proof -
  let ?w = "snd (ar_millis io (ar_configTime io w))"
  have "fst (ar_millis io (ar_configTime io w)) = of_nat (uptime ?w)" by (rule reading_takes(6) [OF assms])
  from await_time_returns [OF assms this order_refl le_add1] show ?thesis by (auto simp: sync_time_def case_prod_beta)
qed

lemma report_visible_networks_returns:
  assumes "board_ticks io uptime d"
  shows "\<exists>report w'. report_visible_networks io ssid w = Some (report, w')"
proof -
  obtain found v where
    scan: "wifi_scanNetworks io False True False 500 (ar_delay io 100 (wifi_disconnect io False False w)) = (found, v)"
    by fastforce
  let ?result = "if found = WIFI_SCAN_RUNNING io then await_scan io (fst (ar_millis io v)) found (snd (ar_millis io v))
    else Some (found, v)"
  have "\<exists>found' w'. await_scan io (fst (ar_millis io v)) found (snd (ar_millis io v)) = Some (found', w')"
    using await_scan_returns [OF assms reading_takes(6) [OF assms] order_refl le_add1] by blast
  then have "\<exists>found' v'. ?result = Some (found', v')" by auto
  then obtain found' v' where "?result = Some (found', v')" by blast
  then show ?thesis
    unfolding report_visible_networks_def Let_def scan case_prod_beta fst_conv snd_conv by auto
qed

lemma connect_wifi_returns:
  assumes "board_ticks io uptime d"
  shows "\<exists>connected m'. connect_wifi p io ssid password m = Some (connected, m')"
proof -
  let ?v = "wifi_begin io ssid password (wifi_mode_sta io (m_world m))"
  have "\<exists>w'. await_connection io (fst (ar_millis io ?v)) (snd (ar_millis io ?v)) = Some w'"
    using await_connection_returns [OF assms reading_takes(6) [OF assms] order_refl le_add1] by blast
  then show ?thesis
    using report_visible_networks_returns [OF assms, of ssid]
    by (fastforce simp: connect_wifi_def Let_def case_prod_beta)
qed

section \<open>What a pass through the sketch keeps\<close>

text \<open>Everything the board does keeps \<open>P\<close>.\<close>

definition board_keeps :: "'w arduino \<Rightarrow> ('w \<Rightarrow> bool) \<Rightarrow> bool" where
  "board_keeps io P \<longleftrightarrow>
     keeps P (\<lambda>w. snd (ar_serial_ready io w)) \<and> keeps P (\<lambda>w. snd (ar_millis io w)) \<and>
     (\<forall>ms. keeps P (ar_delay io ms)) \<and> keeps P (wifi_mode_sta io) \<and>
     (\<forall>ssid password. keeps P (wifi_begin io ssid password)) \<and> keeps P (\<lambda>w. snd (wifi_status io w)) \<and>
     (\<forall>off erase. keeps P (wifi_disconnect io off erase)) \<and>
     (\<forall>a h q ms. keeps P (\<lambda>w. snd (wifi_scanNetworks io a h q ms w))) \<and> keeps P (\<lambda>w. snd (wifi_scanComplete io w)) \<and>
     keeps P (wifi_scanDelete io) \<and> keeps P (ar_configTime io) \<and> keeps P (\<lambda>w. snd (ar_time io w))"

lemma board_keeps_apply:
  assumes "board_keeps io P" and "P w"
  shows "P (snd (ar_serial_ready io w))" "P (snd (ar_millis io w))" "P (ar_delay io ms w)" "P (wifi_mode_sta io w)"
    "P (wifi_begin io ssid password w)" "P (snd (wifi_status io w))" "P (wifi_disconnect io off e w)"
    "P (snd (wifi_scanNetworks io a h q ms w))" "P (snd (wifi_scanComplete io w))" "P (wifi_scanDelete io w)"
    "P (ar_configTime io w)" "P (snd (ar_time io w))" "P (snd (before_timeout io started timeout w))"
  using assms by (simp_all add: board_keeps_def keeps_def before_timeout_def case_prod_beta)

lemmas c_while_induct = c_while.raw_induct [rotated, consumes 1, case_names round]

lemma c_while_keeps:
  assumes "c_while test body s = Some s'" and "I s"
    and "\<And>s. I s \<Longrightarrow> I (snd (test s))" and "\<And>s. I s \<Longrightarrow> I (body s)"
  shows "I s'"
  using assms
proof (induction rule: c_while_induct)
  case (round loop test body s s')
  then show ?case by (auto simp: case_prod_beta split: if_splits)
qed

lemma c_while_keeps_map:
  assumes "map_option f (c_while test body s) = Some r" and "I s"
    and "\<And>s. I s \<Longrightarrow> I (snd (test s))" and "\<And>s. I s \<Longrightarrow> I (body s)" and "\<And>s. I s \<Longrightarrow> J (f s)"
  shows "J r"
proof -
  obtain s' where "c_while test body s = Some s'" "r = f s'" using assms(1) by auto
  with c_while_keeps [OF this(1) assms(2-4)] assms(5) show ?thesis by simp
qed

lemma waits_keep:
  assumes "board_keeps io P" and "P w"
  shows "await_serial io started w = Some w' \<Longrightarrow> P w'" "await_connection io started w = Some w' \<Longrightarrow> P w'"
    "await_scan io started found w = Some (found', w') \<Longrightarrow> P w'"
    "await_time io started (now, w) = Some (now', w') \<Longrightarrow> P w'"
proof -
  note keep = board_keeps_apply [OF assms(1)]
  have reads: "before_timeout io started t v = (go, v') \<Longrightarrow> P v \<Longrightarrow> P v'"
    "wifi_scanComplete io (ar_delay io ms v) = (complete, v') \<Longrightarrow> P v \<Longrightarrow> P v'" for t v go v' ms complete
    using keep(13) [of v started t] keep(9) [OF keep(3), of v ms] by simp_all
  show "P w'" if "await_serial io started w = Some w'"
    using that unfolding await_serial_def
    by (rule c_while_keeps [where I = P]) (auto simp: assms(2) case_prod_beta intro: keep)
  show "P w'" if "await_connection io started w = Some w'"
    using that unfolding await_connection_def
    by (rule c_while_keeps [where I = P]) (auto simp: assms(2) case_prod_beta intro: keep)
  show "P w'" if "await_scan io started found w = Some (found', w')"
  proof -
    have "(\<lambda>(found, w). P w) (found', w')"
      using that unfolding await_scan_def
      by (rule c_while_keeps_map [where I = "\<lambda>(found, broken, w). P w"])
        (auto simp: assms(2) split: prod.splits if_splits dest: reads)
    then show ?thesis by simp
  qed
  show "P w'" if "await_time io started (now, w) = Some (now', w')"
  proof -
    have "(\<lambda>(now, w). P w) (now', w')"
      using that unfolding await_time_def
      by (rule c_while_keeps) (auto simp: assms(2) case_prod_beta intro: keep)
    then show ?thesis by simp
  qed
qed

lemma sync_time_keeps:
  assumes "sync_time io w = Some (synced, w')" and "board_keeps io P" and "P w"
  shows "P w'"
proof -
  obtain now where "await_time io (fst (ar_millis io (ar_configTime io w))) (0, snd (ar_millis io (ar_configTime io w))) =
      Some (now, w')"
    using assms(1) by (auto simp: sync_time_def case_prod_beta)
  then show ?thesis by (rule waits_keep(4) [OF assms(2) board_keeps_apply(2) [OF assms(2) board_keeps_apply(11) [OF assms(2,3)]]])
qed

lemma report_visible_networks_keeps:
  assumes "report_visible_networks io ssid w = Some (report, w')" and "board_keeps io P" and "P w"
  shows "P w'"
proof -
  note keep = board_keeps_apply [OF assms(2)]
  let ?v = "snd (wifi_scanNetworks io False True False 500 (ar_delay io 100 (wifi_disconnect io False False w)))"
  have v: "P ?v" by (intro keep assms(3))
  have scan: "await_scan io (fst (ar_millis io ?v)) found (snd (ar_millis io ?v)) = Some (found', u) \<Longrightarrow> P u" for found found' u
    using waits_keep(3) [OF assms(2) keep(2) [OF v]] by blast
  then show ?thesis
    using assms(1) v unfolding report_visible_networks_def Let_def case_prod_beta
    by (auto split: if_splits option.splits intro: keep)
qed

text \<open>
  A predicate of the whole program that the steps of the SDK keep, and whose part \<open>P\<close> about the
  world is kept by the board, by a flush and by the erasure of a core dump.
\<close>

locale kept_on_board = kept_by_steps p Q for p :: "'w platform" and Q +
  fixes io :: "'w arduino" and P :: "'w \<Rightarrow> bool"
  assumes world: "Q m \<Longrightarrow> P (m_world m)"
    and to_world: "Q m \<Longrightarrow> P w \<Longrightarrow> Q (m\<lparr>m_world := w\<rparr>)"
    and board: "board_keeps io P"
    and kept_flush: "sentry_flush p n m = Some (k, m') \<Longrightarrow> Q m \<Longrightarrow> Q m'"
    and kept_erase: "P w \<Longrightarrow> P (snd (sentry_coredump_erase (pf_core_dump p) w))"
    and kept_uptime: "P w \<Longrightarrow> P (snd (sentry_device_uptime_ms (pf_esp p) w))"
begin

lemmas keep = board_keeps_apply [OF board]

lemma kept_connect:
  assumes "connect_wifi p io ssid password m = Some (connected, m')" and "Q m"
  shows "Q m'"
proof -
  have log: "Q (cxx_log p level msg args m)" if "Q m" for level msg args m
    unfolding cxx_log_def by (rule kept_record(3) [OF that])
  have report: "Q (x\<lparr>m_world := w\<rparr>)" if "report_visible_networks io ssid (m_world x) = Some (r, w)" "Q x" for r w x
    using to_world [OF that(2)] report_visible_networks_keeps [OF that(1) board world [OF that(2)]] by simp
  obtain u where u: "await_connection io (fst (ar_millis io (wifi_begin io ssid password (wifi_mode_sta io (m_world m)))))
      (snd (ar_millis io (wifi_begin io ssid password (wifi_mode_sta io (m_world m))))) = Some u"
    using assms(1) by (auto simp: connect_wifi_def Let_def case_prod_beta split: option.splits)
  have "P u" by (rule waits_keep(2) [OF board _ u]) (intro keep world assms(2))
  then have v: "Q (m\<lparr>m_world := snd (wifi_status io (snd (ar_millis io (snd (wifi_status io (snd (ar_millis io (snd (wifi_status io u)))))))))\<rparr>)"
    "Q (m\<lparr>m_world := snd (ar_millis io (snd (ar_millis io (snd (wifi_status io u)))))\<rparr>)"
    by (auto intro!: to_world [OF assms(2)] keep)
  show ?thesis
    using assms(1) u unfolding connect_wifi_def Let_def case_prod_beta
    by (auto split: if_splits intro!: log v report)
qed
end

context kept_on_board
begin

lemma kept_reports:
  assumes "Q m"
  shows "Q (snd (crash_event p m))" "Q (snd (report_crash p m))" "Q (report_boot p m)" "Q (erase_dump p m)"
proof -
  have "snd (crash_event p m) = snd (snd (sentry_event_prepare p m))"
    by (simp add: crash_event_def split: prod.split bool.split option.split)
  then show event: "Q (snd (crash_event p m))" using kept_capture(1) [OF assms] by simp
  have erase: "Q (erase_dump p x)" if "Q x" for x
    unfolding erase_dump_def by (intro to_world kept_erase world that)
  show "Q (erase_dump p m)" by (rule erase [OF assms])
  obtain r x where ev: "crash_event p m = (r, x)" by fastforce
  then have x: "Q x" using event by simp
  show "Q (snd (report_crash p m))"
    unfolding report_crash_def ev using x by (cases r) (auto simp: case_prod_beta Let_def intro!: erase kept_send)
  show "Q (report_boot p m)"
    unfolding report_boot_def Let_def by (rule kept_capture(2) [OF assms])
qed

lemma kept_flood: "Q m \<Longrightarrow> Q (snd (flood_loop p i captured m))"
proof (induction i arbitrary: captured m)
  case (Suc i)
  then show ?case
    using kept_capture(2) [OF Suc.prems] by (auto simp: cxx_capture_message_def split: prod.split) (metis snd_conv)+
qed simp

lemma kept_demo_flood: "Q m \<Longrightarrow> Q (snd (demo_flood p m))"
  using kept_capture(2) [OF kept_flood] by (simp add: demo_flood_def Let_def case_prod_beta cxx_capture_message_def)

lemma kept_setup_wifi:
  assumes "setup_wifi b io p m = Some (synced, m')" and "Q m"
  shows "Q m'"
proof -
  let ?start = "cxx_transaction_start p Transaction (Some ''wifi-connect'') (Some ''device.operation'') m"
  have start: "Q (snd (snd ?start))"
    using kept_transaction(1) [OF assms(2)] by (simp add: cxx_transaction_start_def case_prod_beta)
  have finish: "Q (cxx_trace_release p (snd (snd (cxx_transaction_finish p txn x))))" if "Q x" for txn x
    using kept_trace(2) [OF kept_transaction(4) [OF that]]
    by (simp add: cxx_trace_release_def cxx_transaction_finish_def case_prod_beta)
  have sync: "Q (x\<lparr>m_world := w\<rparr>)" if "Q x" "sync_time io (m_world x) = Some (synced', w)" for x synced' w
    by (rule to_world [OF that(1) sync_time_keeps [OF that(2) board world [OF that(1)]]])
  have same: "Q (x\<lparr>m_world := m_world x\<rparr>)" if "Q x" for x
    by (rule to_world [OF that world [OF that]])
  obtain connected x where "connect_wifi p io (WIFI_SSID b) (WIFI_PASSWORD b) (snd (snd ?start)) = Some (connected, x)"
    using assms(1) by (auto simp: setup_wifi_def Let_def case_prod_beta split: option.splits)
  with kept_connect [OF this start] assms(1) show ?thesis
    by (cases connected) (auto simp: setup_wifi_def Let_def case_prod_beta split: option.splits intro!: finish intro: sync same)
qed

lemma kept_loop:
  assumes "wifi_basic_loop io p s = Some s'" and "Q (sk_micro s)"
  shows "Q (sk_micro s')"
proof -
  have world': "Q (m\<lparr>m_world := w\<rparr>)" if "Q m" "P (m_world m) \<Longrightarrow> P w" for m w
    using to_world [OF that(1)] that(2) world [OF that(1)] by blast
  have time: "Q (sk_micro t')" if "loop_time io t = Some t'" "Q (sk_micro t)" for t t'
    using that unfolding loop_time_def Let_def case_prod_beta
    by (auto split: if_splits intro!: world' keep elim!: sync_time_keeps [OF _ board])
  have flush: "Q (sk_micro t')" if "loop_flush io p t = Some t'" "Q (sk_micro t)" for t t'
    using that unfolding loop_flush_def Let_def case_prod_beta
    by (auto split: if_splits intro!: world' keep elim!: kept_flush)
  have report: "Q (sk_micro (loop_report io p t))" if "Q (sk_micro t)" for t
    using that unfolding loop_report_def Let_def case_prod_beta
    by (auto intro!: world' keep kept_uptime)
  show ?thesis
    using assms unfolding wifi_basic_loop_def Let_def
    by (auto split: option.splits intro!: world' keep report dest!: time flush)
qed

lemma kept_loops: "loop_times io p n s = Some s' \<Longrightarrow> Q (sk_micro s) \<Longrightarrow> Q (sk_micro s')"
  by (induction n arbitrary: s) (auto dest: kept_loop split: Option.bind_splits)

lemma kept_demo_crash:
  assumes "demo_crash io p m = Some m'" and "Q m"
  shows "Q m'"
proof -
  have "Q (cxx_log p level msg args (snd (snd (cxx_transaction_start p txn name op m))))" for level msg args txn name op
    unfolding cxx_log_def cxx_transaction_start_def case_prod_beta snd_conv
    by (intro kept_record kept_transaction assms(2))
  then show ?thesis
    using assms(1) unfolding demo_crash_def Let_def case_prod_beta
    by (auto intro!: to_world keep world dest!: kept_flush)
qed

end

section \<open>Starting\<close>

context kept_on_board
begin

lemma kept_start:
  assumes start: "setup_start b io port nvs p g = Some g'" and "P (m_world (pg_micro g))"
    and fresh: "\<And>x ok m1 m. sentry_init p (Some (sketch_options b p)) x = (ok, m1) \<Longrightarrow> m_state m = m_state m1 \<Longrightarrow>
        P (m_world m) \<Longrightarrow> Q m"
    and loggers: "loggers_keep port (g_logger g) P"
    and buffering: "\<And>m. Q m \<Longrightarrow> case sentry_storage_nvs nvs 16 (m_world m) of
        (w, storage) \<Rightarrow> Q (snd (sentry_enable_buffering storage (m\<lparr>m_world := w\<rparr>)))"
  shows "Q (pg_micro g')"
proof -
  obtain serial_wait w where clock: "ar_millis io (m_world (pg_micro g)) = (serial_wait, w)" by fastforce
  then have "P w" using keep(2) [OF assms(2)] by simp
  obtain w1 where serial: "await_serial io serial_wait w = Some w1"
    using start clock by (auto simp: setup_start_def Let_def split: option.splits)
  have "P w1" by (rule waits_keep(1) [OF board \<open>P w\<close> serial])
  let ?g = "g\<lparr>pg_micro := (pg_micro g)\<lparr>m_world := w1\<rparr>\<rparr>"
  obtain ok m1 where init: "sentry_init p (Some (sketch_options b p)) (pg_micro ?g) = (ok, m1)" by fastforce
  let ?g1 = "snd (cxx_init port p (sketch_options b p) ?g)"
  have "P (m_world m1)" using init_keeps(2) [OF init] \<open>P w1\<close> by simp
  then have "P (m_world (pg_micro ?g1))"
    using hears_keeps [OF loggers] init by (simp add: cxx_init_said said_def)
  moreover have "m_state (pg_micro ?g1) = m_state m1" using init by (simp add: cxx_init_said)
  ultimately have q1: "Q (pg_micro ?g1)" using fresh [OF init] by simp
  obtain v storage where flash: "sentry_storage_nvs nvs 16 (m_world (pg_micro ?g1)) = (v, storage)" by fastforce
  then have "Q (snd (sentry_enable_buffering storage ((pg_micro ?g1)\<lparr>m_world := v\<rparr>)))"
    using buffering [OF q1] by simp
  then have q2: "Q (cxx_log p level msg args (snd (sentry_enable_buffering storage ((pg_micro ?g1)\<lparr>m_world := v\<rparr>))))"
    for level msg args
    unfolding cxx_log_def by (rule kept_record(3))
  show ?thesis
    using start q2 report_visible_networks_keeps [OF _ board world [OF q2]]
    by (auto simp: setup_start_def clock serial flash Let_def split: if_splits intro!: to_world)
qed

end

section \<open>The sketch keeps running\<close>

lemma updates_buffer_wf: "updates p m m' \<Longrightarrow> buffer_wf (gs_buffer (m_state m)) \<Longrightarrow> buffer_wf (gs_buffer (m_state m'))"
proof (induction rule: rtranclp_induct)
  case (step y z)
  from step.hyps(2) step.IH [OF step.prems] show ?case
    by (induction rule: micro_update.induct) (simp_all add: set_trace_def persist_trace_def set_log_ring_def)
qed

interpretation buffer_sound: kept_on_board p "\<lambda>m. buffer_wf (gs_buffer (m_state m))" io "\<lambda>_. True" for p io
proof unfold_locales
  show "buffer_wf (gs_buffer (m_state (snd (sentry_send_envelope p e m))))"
    if "buffer_wf (gs_buffer (m_state m))" for m :: "'a micro" and e
    by (rule updates_buffer_wf [OF updates_send [OF rtranclp.rtrancl_refl] that])
  show "buffer_wf (gs_buffer (m_state m'))"
    if "sentry_flush p n m = Some (k, m')" "buffer_wf (gs_buffer (m_state m))" for n m k and m' :: "'a micro"
    using updates_buffer_wf [OF updates_flush [OF that(1) rtranclp.rtrancl_refl]] that(2) by simp
qed (auto simp: board_keeps_def keeps_def count_logs_dropped_def)

lemma buffering_wf:
  fixes m :: "'w micro"
  shows "buffer_wf (gs_buffer (m_state (snd (sentry_enable_buffering storage m))))"
  using buffer_wf_ops(3) [of buffer_zero storage "m_world m"]
  by (simp add: sentry_enable_buffering_def case_prod_beta buffer_wf_def buffer_zero_def)

lemma buffer_zero_wf: "buffer_wf buffer_zero"
  by (simp add: buffer_wf_def buffer_zero_def)

lemma setup_start_returns:
  assumes "board_ticks io uptime d"
  shows "\<exists>g'. setup_start b io port nvs p g = Some g' \<and> buffer_wf (gs_buffer (m_state (pg_micro g')))"
proof -
  obtain w where "await_serial io (fst (ar_millis io (m_world (pg_micro g)))) (snd (ar_millis io (m_world (pg_micro g)))) = Some w"
    using await_serial_returns [OF assms reading_takes(6) [OF assms] order_refl le_add1] by blast
  moreover have "report_visible_networks io ssid v \<noteq> None" for ssid v
    using report_visible_networks_returns [OF assms, of ssid v] by auto
  ultimately have "setup_start b io port nvs p g \<noteq> None"
    unfolding setup_start_def Let_def case_prod_beta by simp
  then obtain g' where g': "setup_start b io port nvs p g = Some g'" by blast
  moreover have "buffer_wf (gs_buffer (m_state (pg_micro g')))"
    by (rule buffer_sound.kept_start [OF g'])
      (simp_all add: init_fresh buffer_zero_wf buffering_wf loggers_keep_def keeps_def case_prod_beta)
  ultimately show ?thesis by blast
qed

lemma setup_transport_state:
  "m_state (pg_micro (setup_transport b r g)) =
     (m_state (pg_micro g))\<lparr>gs_transport := Some (c_transport (transport_chain b r (cxx_dsn (pg_micro g))))\<rparr>"
  by (simp add: setup_transport_def cxx_set_transport_def sentry_set_transport_logged_def sentry_set_transport_def Let_def
      cxx_dsn_def sentry_get_dsn_def)

lemma setup_wifi_returns:
  assumes "board_ticks io uptime d"
  shows "\<exists>synced m'. setup_wifi b io p m = Some (synced, m')"
proof -
  obtain connected x where "connect_wifi p io (WIFI_SSID b) (WIFI_PASSWORD b)
      (snd (snd (cxx_transaction_start p Transaction (Some ''wifi-connect'') (Some ''device.operation'') m))) =
      Some (connected, x)"
    using connect_wifi_returns [OF assms] by blast
  moreover obtain synced w where "sync_time io (m_world x) = Some (synced, w)"
    using sync_time_returns [OF assms] by blast
  ultimately show ?thesis by (cases connected) (auto simp: setup_wifi_def Let_def case_prod_beta)
qed

lemma loop_returns:
  assumes "board_ticks io uptime d" and "buffer_wf (gs_buffer (m_state (sk_micro s)))"
  shows "\<exists>s'. wifi_basic_loop io p s = Some s' \<and> buffer_wf (gs_buffer (m_state (sk_micro s')))"
proof -
  have time: "\<exists>t'. loop_time io t = Some t' \<and> m_state (sk_micro t') = m_state (sk_micro t)" for t
    using sync_time_returns [OF assms(1)]
    by (fastforce simp: loop_time_def Let_def case_prod_beta)
  have flush: "\<exists>t'. loop_flush io p t = Some t'" if "buffer_wf (gs_buffer (m_state (sk_micro t)))" for t
  proof -
    have "buffer_wf (gs_buffer (m_state ((sk_micro t)\<lparr>m_world := w\<rparr>)))" for w using that by simp
    from flush_returns_wf [OF this, of p 2] show ?thesis
      by (fastforce simp: loop_flush_def Let_def case_prod_beta)
  qed
  obtain s1 where s1: "loop_time io s = Some s1" "buffer_wf (gs_buffer (m_state (sk_micro s1)))"
    using time [of s] assms(2) by auto
  then obtain s2 where "loop_flush io p s1 = Some s2" using flush by blast
  with s1(1) have s': "\<exists>s'. wifi_basic_loop io p s = Some s'" by (simp add: wifi_basic_loop_def Let_def)
  then show ?thesis using buffer_sound.kept_loop assms(2) by blast
qed

lemma loop_times_return:
  assumes "board_ticks io uptime d"
  shows "buffer_wf (gs_buffer (m_state (sk_micro s))) \<Longrightarrow> \<exists>s'. loop_times io p n s = Some s'"
proof (induction n arbitrary: s)
  case (Suc n)
  then show ?case using loop_returns [OF assms Suc.prems, of p] by auto
qed simp

lemma serial_send_returns:
  assumes "stream_ticks io uptime backlog"
  shows "serial_send (SerialTransport io timeout_ms) dsn url headers body w \<noteq> None"
proof -
  have "serial_request io timeout_ms u headers data w \<noteq> None" for u data
  proof -
    let ?c = "case sh_content_type headers of Some ct \<Rightarrow> ct | None \<Rightarrow> ''application/x-sentry-envelope''"
    let ?a = "case sh_auth headers of Some auth \<Rightarrow> auth | None \<Rightarrow> ''''"
    let ?v = "io_flush io (io_print io [NEWLINE] (write_field io data (write_text_field io ?c
      (write_text_field io ?a (write_text_field io u (io_print io SENTRY_RELAY_REQUEST_PREFIX w))))))"
    let ?w = "snd (io_millis io ?v)"
    have "fst (io_millis io ?v) = of_nat (uptime ?w)" using assms by (simp add: stream_ticks_def)
    then have "fst (io_millis io ?v) + timeout_ms = of_nat (uptime ?w + unat timeout_ms)" by simp
    moreover have "uptime ?w < uptime ?w + unat timeout_ms + 2 ^ 30" by simp
    ultimately show ?thesis
      using await_result_returns [OF assms, of ?w "uptime ?w + unat timeout_ms"]
      by (auto simp: serial_request_def Let_def case_prod_beta)
  qed
  then show ?thesis
    by (auto simp: serial_send_def SerialTransport_def split: option.split)
qed

lemma wifi_basic_returns:
  assumes "board_ticks io uptime d" and "stream_ticks (ro_serial r) serial_uptime backlog"
  shows "\<exists>result. wifi_basic_setup b r io port nvs p g = Some result \<and>
    (case result of
       Inl m \<Rightarrow> SENTRY_DEMO_CRASH b
     | Inr s \<Rightarrow> (\<forall>n. \<exists>s'. loop_times io p n s = Some s')) \<and>
    (\<forall>dsn url headers body v. \<exists>response v'.
       serial_send (SerialTransport (ro_serial r) 15000) (Some dsn) url headers body v = Some (response, v'))"
proof -
  obtain g0 where g0: "setup_start b io port nvs p g = Some g0" "buffer_wf (gs_buffer (m_state (pg_micro g0)))"
    using setup_start_returns [OF assms(1)] by blast
  let ?g = "setup_transport b r g0"
  obtain synced m where m: "setup_wifi b io p (pg_micro ?g) = Some (synced, m)"
    using setup_wifi_returns [OF assms(1)] by blast
  have "buffer_wf (gs_buffer (m_state (pg_micro ?g)))" using g0(2) by (simp add: setup_transport_state)
  from buffer_sound.kept_setup_wifi [OF m this] have wf: "buffer_wf (gs_buffer (m_state m))" .
  define m1 where "m1 = (let (reported, m) = report_crash p m; m = (if \<not> reported then report_boot p m else m)
    in if SENTRY_DEMO_FLOOD b then snd (demo_flood p m) else m)"
  have wf1: "buffer_wf (gs_buffer (m_state m1))"
    unfolding m1_def Let_def case_prod_beta
    using buffer_sound.kept_reports(2) [OF wf] by (auto intro!: buffer_sound.kept_demo_flood buffer_sound.kept_reports(3))
  have "demo_crash io p m1 \<noteq> None"
  proof -
    let ?x = "cxx_log p SENTRY_LEVEL_FATAL (Some ''Deliberately crashing in demo_crash_outer() in 3s'')
      (says ''Deliberately crashing in demo_crash_outer() in 3s'')
      (snd (snd (cxx_transaction_start p Transaction (Some ''demo-crash'') (Some ''device.operation'') m1)))"
    have "buffer_wf (gs_buffer (m_state ?x))"
      unfolding cxx_log_def cxx_transaction_start_def case_prod_beta snd_conv
      by (intro buffer_sound.kept_record buffer_sound.kept_transaction wf1)
    then show ?thesis using flush_returns_wf [of ?x p 4] by (fastforce simp: demo_crash_def Let_def case_prod_beta)
  qed
  moreover have "wifi_basic_setup b r io port nvs p g =
      (if SENTRY_DEMO_CRASH b \<and> \<not> sentry_reset_reason_is_crash (di_reset_reason (cxx_device_info m1))
       then map_option Inl (demo_crash io p m1)
       else Some (Inr \<lparr>sk_program = ?g\<lparr>pg_micro := m1\<rparr>, time_synced = synced,
              last_time_sync_attempt = 0, last_flush = 0, last_report = 0\<rparr>))"
    by (simp add: wifi_basic_setup_def g0(1) m m1_def Let_def case_prod_beta)
  moreover have "\<exists>response v'. serial_send (SerialTransport (ro_serial r) 15000) (Some dsn) url headers body v = Some (response, v')"
    for dsn url headers body v
    using serial_send_returns [OF assms(2), of 15000 "Some dsn" url headers body v] by auto
  ultimately show ?thesis
    using loop_times_return [OF assms(1)] wf1 by auto
qed

text \<open>
  C7: The sketch never hangs. On a board whose clock ticks, \<open>millis\<close> wrapping as it may, whatever the
  network, the flash, the server and the host of the serial port do: \<open>setup\<close> comes to its end, in
  the deliberate crash only if the build asks for it; after it the loop may be called any number of
  times and always returns, however the flushes in it end; and no send over the serial port, the
  one transport that waits in a loop of its own, is without a result.
\<close>

theorem wifi_basic_keeps_running:
  assumes "board_ticks io uptime d" and "stream_ticks (ro_serial r) serial_uptime backlog"
  shows "\<exists>result. wifi_basic_setup b r io port nvs p g = Some result \<and>
    (case result of
       Inl m \<Rightarrow> SENTRY_DEMO_CRASH b
     | Inr s \<Rightarrow> (\<forall>n. \<exists>s'. loop_times io p n s = Some s')) \<and>
    (\<forall>dsn url headers body v. \<exists>response v'.
       serial_send (SerialTransport (ro_serial r) 15000) (Some dsn) url headers body v = Some (response, v'))"
  by (rule wifi_basic_returns [OF assms])

text \<open>
  A board without a network, a host or a clock: nothing ever becomes ready, and the clock is about
  to come round.
\<close>

definition lonely_arduino :: "(nat \<times> string) board arduino" where
  "lonely_arduino =
     \<lparr>WL_CONNECTED = 3, WIFI_SCAN_RUNNING = -1, ar_serial_ready = (\<lambda>w. (False, w)),
      ar_millis = (\<lambda>w. (of_nat (fst (snd (snd w))), w)),
      ar_delay = (\<lambda>ms (chosen, t, now, input). (chosen, t, now + unat ms, input)),
      wifi_mode_sta = (\<lambda>w. w), wifi_begin = (\<lambda>ssid password w. w), wifi_status = (\<lambda>w. (6, w)),
      wifi_localIP = (\<lambda>w. ''0.0.0.0''), wifi_RSSI = (\<lambda>w. 0), wifi_disconnect = (\<lambda>off e w. w),
      wifi_scanNetworks = (\<lambda>a h q ms w. (-1, w)), wifi_scanComplete = (\<lambda>w. (-1, w)), wifi_SSID = (\<lambda>i w. ''''),
      wifi_scanDelete = (\<lambda>w. w), ar_configTime = (\<lambda>w. w), ar_time = (\<lambda>w. (0, w))\<rparr>"

lemma lonely_board_ticks: "board_ticks lonely_arduino (\<lambda>w. fst (snd (snd w))) 0"
  by (auto simp: board_ticks_def lonely_arduino_def within_def split: prod.split)

definition no_flash :: "'w nvs_api" where
  "no_flash = \<lparr>nv_open = (\<lambda>w name. (w, 0x1102, 0)), nv_set_blob = (\<lambda>w h key d. (w, 0x1102)),
     nv_get_blob = (\<lambda>w h key n. (w, 0x1102, [])), nv_erase_key = (\<lambda>w h key. (w, 0x1102)),
     nv_commit = (\<lambda>w h. (w, 0x1102)), nv_close = (\<lambda>w h. w)\<rparr>"

definition sample_build :: sketch_build where
  "sample_build =
     \<lparr>SENTRY_DSN = Some ''https://abc@o1.ingest.io/42'', SENTRY_RELEASE = None, ARDUINO_BOARD = None,
      SENTRY_MICRO_DEBUG = False, WIFI_SSID = ''home'', WIFI_PASSWORD = ''secret'', SENTRY_INGEST_CA_CERT = ''PEM'',
      SENTRY_MICRO_WIFI_TLS = True, SENTRY_DEMO_SCAN = True, SENTRY_DEMO_FLOOD = False, SENTRY_DEMO_CRASH = False\<rparr>"

definition silent_net :: "'w http_client" where
  "silent_net =
     \<lparr>wf_connected = (\<lambda>w. (False, w)), wf_has_address = (\<lambda>w. (False, w)), hc_begin = (\<lambda>c u w. (False, w)),
      hc_set = (\<lambda>x w. w), hc_POST = (\<lambda>b w. (-1, w)), hc_header = (\<lambda>name w. ('''', w)), hc_end = (\<lambda>w. w)\<rparr>"

definition sample_http_errors :: http_errors where
  "sample_http_errors =
     \<lparr>HTTPC_ERROR_CONNECTION_REFUSED = -1, HTTPC_ERROR_CONNECTION_LOST = -5, HTTPC_ERROR_NO_HTTP_SERVER = -7\<rparr>"

theorem wifi_basic_keeps_running_witness:
  "\<exists>s. wifi_basic_setup sample_build \<lparr>ro_net = silent_net, ro_errors = sample_http_errors, ro_serial = scripted_io\<rparr>
      lonely_arduino None no_flash (sample_platform no_core_dump)
      \<lparr>pg_micro = power_on sample_rtc (None, WiFiTransport, 4294967290, []), g_logger = None\<rparr> = Some (Inr s) \<and>
    (\<forall>n. \<exists>s'. loop_times lonely_arduino (sample_platform no_core_dump) n s = Some s')"
proof -
  let ?r = "\<lparr>ro_net = silent_net, ro_errors = sample_http_errors, ro_serial = scripted_io\<rparr>"
  have "stream_ticks (ro_serial ?r) fst (\<lambda>w. length (snd w))" using scripted_io_ticks by simp
  from wifi_basic_keeps_running [OF lonely_board_ticks this, of sample_build None no_flash
      "sample_platform no_core_dump" "\<lparr>pg_micro = power_on sample_rtc (None, WiFiTransport, 4294967290, []), g_logger = None\<rparr>"]
  obtain result where result: "wifi_basic_setup sample_build ?r lonely_arduino None no_flash (sample_platform no_core_dump)
      \<lparr>pg_micro = power_on sample_rtc (None, WiFiTransport, 4294967290, []), g_logger = None\<rparr> = Some result"
    "case result of Inl m \<Rightarrow> SENTRY_DEMO_CRASH sample_build
     | Inr s \<Rightarrow> (\<forall>n. \<exists>s'. loop_times lonely_arduino (sample_platform no_core_dump) n s = Some s')"
    by blast
  have "\<not> SENTRY_DEMO_CRASH sample_build" by (simp add: sample_build_def)
  with result show ?thesis by (cases result) auto
qed

section \<open>The flood is throttled\<close>

text \<open>
  Once the message has been captured, each repeat of it inside the repeat window is answered as rate
  limited, counted, and costs one reading of the clock and nothing else: it is never built into an event. \<open>since\<close> are
  the readings of the clock from a world on.
\<close>

definition uptime_after :: "'w platform \<Rightarrow> nat \<Rightarrow> 'w \<Rightarrow> 'w" where
  "uptime_after p i w = ((\<lambda>w. snd (sentry_device_uptime_ms (pf_esp p) w)) ^^ i) w"

lemma uptime_after_next: "uptime_after p (Suc k) w = uptime_after p k (snd (sentry_device_uptime_ms (pf_esp p) w))"
  by (simp only: uptime_after_def funpow_Suc_right o_apply)

lemma flood_is_suppressed:
  assumes "sentry_is_enabled m" and "th_has_last_digest (gs_throttle (m_state m))"
    and "th_last_digest (gs_throttle (m_state m)) = digest_of SENTRY_LEVEL_WARNING ''Sensor read failed''"
    and "\<And>i. i < k \<Longrightarrow> fst (sentry_device_uptime_ms (pf_esp p) (uptime_after p i (m_world m))) -
      th_last_digest_ms (gs_throttle (m_state m)) < ucast (th_repeat_window_ms (gs_throttle (m_state m)))"
  shows "flood_loop p k captured m =
    (captured, (upd (gs_throttle_update (\<lambda>th. th\<lparr>th_suppressed := th_suppressed th + of_nat k\<rparr>)) m)
       \<lparr>m_world := uptime_after p k (m_world m)\<rparr>)"
  using assms
proof (induction k arbitrary: m)
  case 0
  then show ?case by (simp add: uptime_after_def)
next
  case (Suc k)
  let ?th = "gs_throttle (m_state m)" and ?w = "snd (sentry_device_uptime_ms (pf_esp p) (m_world m))"
  let ?m = "(upd (gs_throttle_update (\<lambda>th. th\<lparr>th_suppressed := th_suppressed th + 1\<rparr>)) m)\<lparr>m_world := ?w\<rparr>"
  have now: "fst (sentry_device_uptime_ms (pf_esp p) (m_world m)) - th_last_digest_ms ?th < ucast (th_repeat_window_ms ?th)"
    using Suc.prems(4) [of 0] by (simp add: uptime_after_def)
  then have "th_repeat_window_ms ?th > 0" by (simp add: word_gt_0) (metis unsigned_0 word_not_simps(1))
  then have "cxx_capture_message p SENTRY_LEVEL_WARNING (Some ''Sensor read failed'') m =
      (sentry_response_make SENTRY_SEND_RATE_LIMITED, ?m)"
    using Suc.prems(1-3) now
    by (simp add: cxx_capture_message_def sentry_capture_message_def sentry_is_enabled_def uptime_ms_def
        sentry_throttle_allow_def Let_def case_prod_beta)
  moreover have "flood_loop p k captured ?m =
      (captured, (upd (gs_throttle_update (\<lambda>th. th\<lparr>th_suppressed := th_suppressed th + of_nat k\<rparr>)) ?m)
         \<lparr>m_world := uptime_after p k (m_world ?m)\<rparr>)"
  proof (rule Suc.IH)
    fix i
    assume "i < k"
    then show "fst (sentry_device_uptime_ms (pf_esp p) (uptime_after p i (m_world ?m))) -
        th_last_digest_ms (gs_throttle (m_state ?m)) < ucast (th_repeat_window_ms (gs_throttle (m_state ?m)))"
      using Suc.prems(4) [of "Suc i"] by (simp add: uptime_after_next)
  qed (use Suc.prems(1-3) in \<open>simp_all add: sentry_is_enabled_def\<close>)
  ultimately show ?case
    by (simp add: sentry_response_make_def uptime_after_next add.commute add.left_commute)
qed

end
