(* ===== verification/Sentry_Verified_Tls.thy ===== *)
theory Sentry_Verified_Tls
  imports Sentry_Wifi_Basic
begin

text \<open>
  What leaves the device that runs \<open>examples/wifi_basic\<close>. The network is the one of the WiFi
  transport with its calls recorded, and the board, the flash, the chip and the serial port leave
  the record and the members of the transport alone. From power-on, through \<open>setup\<close> and any number
  of passes through \<open>loop\<close>, whatever is captured, buffered or retried on the way: every connection
  goes to the host of the DSN, and every TLS connection checks the certificate of the build.
\<close>

section \<open>Transports that keep a predicate\<close>

definition class_keeps :: "'w transport_class \<Rightarrow> ('w \<Rightarrow> bool) \<Rightarrow> bool" where
  "class_keeps c P \<longleftrightarrow> (\<forall>url headers body. keeps P (\<lambda>w. snd (vt_send c url headers body w))) \<and>
     keeps P (\<lambda>w. snd (vt_is_available c w))"

lemma c_transport_keeps: "class_keeps c P \<Longrightarrow> transport_keeps (Some (c_transport c)) P"
  by (auto simp: class_keeps_def transport_keeps_def c_transport_def trampoline_send_def keeps_def)

lemma select_from_keeps:
  "select_from ts i w = (chosen, w') \<Longrightarrow> \<forall>c \<in> set ts. class_keeps c P \<Longrightarrow> P w \<Longrightarrow> P w'"
proof (induction ts arbitrary: i w)
  case (Cons c ts)
  obtain yes w1 where c: "vt_is_available c w = (yes, w1)" by fastforce
  then have "P w1" using Cons.prems(2,3) by (auto simp: class_keeps_def keeps_def dest: arg_cong [where f = snd])
  then show ?case using Cons c by (cases yes) auto
qed simp

lemma auto_class_keeps:
  assumes "\<forall>c \<in> set ts. class_keeps c P"
  shows "class_keeps (auto_class (AutoTransport ts)) (\<lambda>w. P (snd w))"
proof -
  let ?ts = "at_transports (AutoTransport ts)"
  have ts: "\<forall>c \<in> set ?ts. class_keeps c P" using assms by (auto simp: AutoTransport_def dest: in_set_takeD)
  have select: "P (snd s')" if "auto_select (AutoTransport ts) s = (chosen, s')" "P (snd s)" for s s' chosen
    using select_from_keeps [OF prod.collapse [symmetric] ts that(2)] that(1)
    by (auto simp: auto_select_def case_prod_beta)
  have chosen: "i < length ?ts" if "auto_select (AutoTransport ts) s = (Some i, s')" for s s' i
    using that select_from_spec [of ?ts 0 "snd s" "Some i"] by (auto simp: auto_select_def split: prod.splits)
  have "P (snd (snd (auto_send (AutoTransport ts) url headers body s)))" if "P (snd s)" for url headers body s
  proof -
    obtain c s1 where s1: "auto_select (AutoTransport ts) s = (c, s1)" by (metis surj_pair)
    have p: "P (snd s1)" by (rule select [OF s1 that])
    show ?thesis
    proof (cases c)
      case None
      then show ?thesis using s1 p by (simp add: auto_send_def)
    next
      case (Some i)
      then have "class_keeps (?ts ! i) P" using ts chosen s1 by (simp add: nth_mem)
      then have "P (snd (vt_send (?ts ! i) url headers body (snd s1)))" using p by (simp add: class_keeps_def keeps_def)
      then show ?thesis using s1 Some by (cases s1) (simp add: auto_send_def case_prod_beta)
    qed
  qed
  moreover have "P (snd (snd (auto_is_available (AutoTransport ts) s)))" if "P (snd s)" for s
    using select [OF _ that] by (auto simp: auto_is_available_def split: prod.split)
  ultimately show ?thesis by (simp add: class_keeps_def auto_class_def keeps_def)
qed

section \<open>The serial port\<close>

definition stream_keeps :: "'w stream_io \<Rightarrow> ('w \<Rightarrow> bool) \<Rightarrow> bool" where
  "stream_keeps io P \<longleftrightarrow> (\<forall>text. keeps P (io_print io text)) \<and> keeps P (io_flush io) \<and>
     keeps P (\<lambda>w. snd (io_available io w)) \<and> keeps P (\<lambda>w. snd (io_read io w)) \<and>
     keeps P (\<lambda>w. snd (io_millis io w)) \<and> (\<forall>ms. keeps P (io_delay io ms))"

lemma stream_keeps_apply:
  assumes "stream_keeps io P"
  shows "P w \<Longrightarrow> P (io_print io text w)" "P w \<Longrightarrow> P (io_flush io w)" "P w \<Longrightarrow> P (io_delay io ms w)"
    "io_available io w = (ready, w') \<Longrightarrow> P w \<Longrightarrow> P w'" "io_read io w = (c, w') \<Longrightarrow> P w \<Longrightarrow> P w'"
    "io_millis io w = (now, w') \<Longrightarrow> P w \<Longrightarrow> P w'"
  using assms by (auto simp: stream_keeps_def keeps_def dest: arg_cong [where f = snd])

lemmas read_line_induct = read_line.raw_induct [rotated, consumes 1, case_names round]
lemmas await_result_induct = await_result.raw_induct [rotated, consumes 1, case_names round]

lemma read_line_keeps:
  "read_line io cap deadline buf w = Some r \<Longrightarrow> stream_keeps io P \<Longrightarrow> P w \<Longrightarrow> P (snd r)"
proof (induction rule: read_line_induct)
  case (round loop io cap deadline buf w r)
  note keep = stream_keeps_apply [OF round(3)]
  have again: "P (snd r)" if "loop io cap deadline b v = Some r" "P v" for b v
    by (rule round(1) [OF that(1) round(3) that(2)])
  obtain now w1 where now: "io_millis io w = (now, w1)" by fastforce
  obtain ready w2 where ready: "io_available io w1 = (ready, w2)" by fastforce
  obtain c w3 where c: "io_read io w2 = (c, w3)" by fastforce
  have p: "P w1" "P w2" "P w3" using keep(6) [OF now round(4)] keep(4) [OF ready] keep(5) [OF c] by simp_all
  show ?case
    using round(2) p keep(3) by (auto simp: now ready c split: if_splits intro: again)
qed

lemma await_result_keeps:
  "await_result io deadline w = Some r \<Longrightarrow> stream_keeps io P \<Longrightarrow> P w \<Longrightarrow> P (snd r)"
proof (induction rule: await_result_induct)
  case (round loop io deadline w r)
  obtain l w1 where line: "read_line io 96 deadline [] w = Some (l, w1)"
    using round(2) by (auto split: option.splits)
  have w1: "P w1" using read_line_keeps [OF line round(3,4)] by simp
  show ?case
  proof (cases "\<exists>s. l = Some s \<and> serial_verdict (c_str s) = None")
    case True
    then have "loop io deadline w1 = Some r" using round(2) by (auto simp: line)
    then show ?thesis by (rule round(1)) (rule round(3) w1)+
  next
    case False
    then show ?thesis using round(2) w1 by (auto simp: line split: option.splits)
  qed
qed

lemma write_chunks_keeps: "stream_keeps io P \<Longrightarrow> P w \<Longrightarrow> P (write_chunks io data w)"
proof (induction io data w rule: write_chunks.induct)
  case (2 io b data w)
  show ?case unfolding write_chunks.simps Let_def by (rule 2(1)) (use 2 in \<open>auto intro: stream_keeps_apply(1)\<close>)
qed simp

lemma write_fields_keep:
  assumes "stream_keeps io P"
  shows "P w \<Longrightarrow> P (write_field io data w)" "P w \<Longrightarrow> P (write_text_field io text w)"
  by (simp_all add: write_text_field_def write_field_def write_chunks_keeps [OF assms] stream_keeps_apply(1) [OF assms])

lemma serial_send_keeps:
  assumes "serial_send (SerialTransport io timeout_ms) dsn url headers body w = Some (r, w')"
    and "stream_keeps io P" and "P w"
  shows "P w'"
proof -
  note keep = stream_keeps_apply [OF assms(2)]
  have "P w'" if "serial_request io timeout_ms u headers data w = Some (r, w')" for u data
  proof -
    let ?v = "io_flush io (io_print io [NEWLINE] (write_field io data (write_text_field io
      (case sh_content_type headers of Some ct \<Rightarrow> ct | None \<Rightarrow> ''application/x-sentry-envelope'')
      (write_text_field io (case sh_auth headers of Some auth \<Rightarrow> auth | None \<Rightarrow> '''')
        (write_text_field io u (io_print io SENTRY_RELAY_REQUEST_PREFIX w))))))"
    have "P ?v" by (intro keep(1,2) write_fields_keep [OF assms(2)] assms(3))
    then have "P (snd (io_millis io ?v))" by (rule keep(6) [OF prod.collapse [symmetric]])
    moreover have "await_result io (fst (io_millis io ?v) + timeout_ms) (snd (io_millis io ?v)) = Some (r, w')"
      using that by (simp add: serial_request_def Let_def case_prod_beta)
    ultimately show ?thesis using await_result_keeps [OF _ assms(2)] by fastforce
  qed
  then show ?thesis
    using assms(1,3) by (auto simp: serial_send_def SerialTransport_def split: option.splits if_splits)
qed

section \<open>The record of the network\<close>

text \<open>The members of the WiFi transport and the calls made on the network so far.\<close>

definition net_view :: "('u \<times> net_call list) board \<Rightarrow> wifi_transport \<times> net_call list" where
  "net_view w = (case w of (chosen, t, u, log) \<Rightarrow> (t, log))"

text \<open>A connection to the host, whose certificate is checked when the URL says so.\<close>

fun verified_call :: "string \<Rightarrow> string \<Rightarrow> net_call \<Rightarrow> bool" where
  "verified_call cert host (Began client url ok) \<longleftrightarrow>
     sentry_url_host_matches (Some url) (Some host) \<and>
     (take 8 url = ''https://'' \<longrightarrow> (case client of WiFiClientSecure c _ \<Rightarrow> c = Some cert | WiFiClient _ \<Rightarrow> False))"
| "verified_call cert host _ \<longleftrightarrow> True"

definition verified :: "string \<Rightarrow> string \<Rightarrow> wifi_transport \<times> net_call list \<Rightarrow> bool" where
  "verified cert host v \<longleftrightarrow>
     (case v of (t, log) \<Rightarrow> wt_ca_cert t = Some cert \<and> wt_allowed_host t = None \<and> \<not> wt_warned_insecure t \<and>
        list_all (verified_call cert host) log)"

lemma one_post_verified:
  "one_post client url headers body r log \<Longrightarrow> verified_call cert host (Began client url True) \<Longrightarrow>
    list_all (verified_call cert host) log"
  by (auto simp: one_post_def list_all_iff)

lemma wifi_send_verified:
  assumes "wifi_send (logged_net net) err tls (Some dsn) url headers body t v = (r, t', v')"
    and "verified cert host (t, snd v)" and "ds_valid dsn \<longrightarrow> ds_host dsn = host"
  shows "verified cert host (t', snd v')"
proof (cases "url = None \<or> body = None \<or> body = Some []")
  case True
  then show ?thesis using assms(1,2) by (auto simp: wifi_send_def split: option.splits)
next
  case False
  then obtain u data where req: "url = Some u" "body = Some data" "data \<noteq> []" by auto
  obtain on v1 where av: "wifi_is_available (logged_net net) v = (on, v1)" by (metis surj_pair)
  then have v1: "snd v1 = snd v" using available_logged [of net "fst v" "snd v"] by auto
  have t: "wt_ca_cert t = Some cert" "wt_allowed_host t = None" using assms(2) by (simp_all add: verified_def)
  have post: "verified cert host (t, snd v2)"
    if "post_envelope (logged_net net) err client u headers data (wt_timeout_ms t) v1 = (r', v2)"
      "verified_call cert host (Began client u True)" for client r' v2
    using post_envelope_posts_once [OF that(1)] one_post_verified [OF _ that(2)] assms(2) v1 by (auto simp: verified_def)
  show ?thesis
  proof (cases "on \<and> ds_valid dsn \<and> sentry_url_host_matches url (Some host)")
    case True
    then have dsn: "ds_host dsn = host" using assms(3) by simp
    have "t' = t \<and> (v' = v1 \<or> (\<exists>client r'. verified_call cert host (Began client u True) \<and>
        post_envelope (logged_net net) err client u headers data (wt_timeout_ms t) v1 = (r', v')))"
      using assms(1) True t by (auto simp: wifi_send_def av dsn req Let_def split: prod.splits if_splits)
    then show ?thesis using post assms(2) v1 by metis
  next
    case False
    then have "(r, t', v') = (r, t, v1)"
      using assms(1,3) req t by (auto simp: wifi_send_def av Let_def split: if_splits bool.splits)
    then show ?thesis using assms(2) v1 by simp
  qed
qed

lemma wifi_class_verified:
  assumes "ds_valid dsn \<longrightarrow> ds_host dsn = host"
  shows "class_keeps (wifi_class (logged_net net) err tls (Some dsn)) (\<lambda>(t, v). verified cert host (t, snd v))"
proof -
  have "verified cert host (t, snd (snd (wifi_is_available (logged_net net) v)))" if "verified cert host (t, snd v)" for t v
    using that available_logged [of net "fst v" "snd v"] by simp
  moreover have "verified cert host (fst (snd s), snd (snd (snd s)))"
    if "s = wifi_send (logged_net net) err tls (Some dsn) url headers body t v" "verified cert host (t, snd v)"
    for s url headers body t v
    by (rule wifi_send_verified [OF _ that(2) assms, of net err tls url headers body "fst s"]) (simp add: that(1))
  ultimately show ?thesis
    by (simp add: class_keeps_def wifi_class_def keeps_def case_prod_beta)
qed

lemma chain_verified:
  fixes r :: "('u \<times> net_call list) routes"
  assumes "ro_net r = logged_net net" and "ds_valid dsn \<longrightarrow> ds_host dsn = host"
    and "stream_ticks (ro_serial r) uptime backlog" and "\<forall>log. stream_keeps (ro_serial r) (\<lambda>v. snd v = log)"
  shows "transport_keeps (Some (c_transport (transport_chain b r dsn))) (\<lambda>w. verified cert host (net_view w))"
proof -
  let ?P = "\<lambda>(t, v). verified cert host (t, snd v)"
  have "snd v' = snd v" if "serial_send (SerialTransport (ro_serial r) 15000) (Some dsn) url headers body v = Some (x, v')"
    for url headers body v x v'
    using serial_send_keeps [OF that, where P = "\<lambda>u. snd u = snd v"] assms(4) by simp
  moreover have "\<exists>x v'. serial_send (SerialTransport (ro_serial r) 15000) (Some dsn) url headers body v = Some (x, v')"
    for url headers body v
    using serial_send_returns [OF assms(3), of 15000 "Some dsn" url headers body v] by auto
  ultimately have "snd (snd (the (serial_send (SerialTransport (ro_serial r) 15000) (Some dsn) url headers body v))) = snd v"
    for url headers body v
    by (metis option.sel snd_conv)
  then have "class_keeps (beside_wifi (serial_class (SerialTransport (ro_serial r) 15000) (Some dsn))) ?P"
    by (auto simp: class_keeps_def beside_wifi_def serial_class_def keeps_def split: prod.split) (metis snd_conv)+
  moreover have "class_keeps (wifi_class (ro_net r) (ro_errors r) (SENTRY_MICRO_WIFI_TLS b) (Some dsn)) ?P"
    unfolding assms(1) by (rule wifi_class_verified [OF assms(2)])
  ultimately have "class_keeps (transport_chain b r dsn) (\<lambda>w. ?P (snd w))"
    unfolding transport_chain_def by (intro auto_class_keeps) simp
  moreover have "(\<lambda>w. ?P (snd w)) = (\<lambda>w :: ('u \<times> net_call list) board. verified cert host (net_view w))"
    by (auto simp: net_view_def fun_eq_iff)
  ultimately show ?thesis by (simp add: c_transport_keeps)
qed

section \<open>The whole sketch\<close>

text \<open>What is not the transport leaves the record alone.\<close>

definition leaves_net ::
    "('u \<times> net_call list) board arduino \<Rightarrow> ('u \<times> net_call list) board platform \<Rightarrow> ('u \<times> net_call list) board nvs_api \<Rightarrow>
     ('u \<times> net_call list) board serial_port option \<Rightarrow> ('u \<times> net_call list) board sentry_logger_fn option \<Rightarrow> bool" where
  "leaves_net io p nvs port logger \<longleftrightarrow>
     (\<forall>v. board_keeps io (\<lambda>w. net_view w = v) \<and> chip_keeps p (\<lambda>w. net_view w = v) \<and>
        flash_keeps nvs (\<lambda>w. net_view w = v) \<and> loggers_keep port logger (\<lambda>w. net_view w = v) \<and>
        keeps (\<lambda>w. net_view w = v) (\<lambda>w. snd (esp_core_dump_image_erase (pf_core_dump p) w)))"

lemma keeps_view:
  assumes "\<forall>v. keeps (\<lambda>w. view w = v) f"
  shows "keeps (\<lambda>w. R (view w)) f"
  using assms by (auto simp: keeps_def)

lemma leaves_net_keeps:
  assumes "leaves_net io p nvs port logger"
  shows "board_keeps io (\<lambda>w. R (net_view w))" "chip_keeps p (\<lambda>w. R (net_view w))" "flash_keeps nvs (\<lambda>w. R (net_view w))"
    "loggers_keep port logger (\<lambda>w. R (net_view w))"
    "keeps (\<lambda>w. R (net_view w)) (\<lambda>w. snd (esp_core_dump_image_erase (pf_core_dump p) w))"
  using assms
  by (simp_all add: leaves_net_def board_keeps_def chip_keeps_def flash_keeps_def loggers_keep_def keeps_view)

lemma confined_on_board:
  assumes "leaves_net io p nvs port logger"
  shows "kept_on_board p (confined p (\<lambda>w. R (net_view w))) io (\<lambda>w. R (net_view w))"
proof -
  let ?P = "\<lambda>w. R (net_view w)"
  note keep = leaves_net_keeps [OF assms, of R]
  have "kept_by_steps p (confined p ?P)" by (rule confined_steps.kept_by_steps_axioms)
  moreover have "kept_on_board_axioms p (confined p ?P) io ?P"
  proof
    show "?P (m_world m)" if "confined p ?P m" for m using that by (simp add: confined_def)
    show "confined p ?P (m\<lparr>m_world := w\<rparr>)" if "confined p ?P m" "?P w" for m w
      using that by (simp add: confined_def parts_keep_def)
    show "confined p ?P m'" if "sentry_flush p n m = Some (k, m')" "confined p ?P m" for n m k m'
      by (rule confined_flush [OF that])
    show "?P (snd (sentry_coredump_erase (pf_core_dump p) w))" if "?P w" for w
      using that keep(5) [unfolded keeps_def, rule_format, of w] by (simp add: sentry_coredump_erase_def case_prod_beta)
    have "?P w \<Longrightarrow> ?P (snd (esp_timer_get_time (pf_esp p) w))" for w
      using keep(2) unfolding chip_keeps_def keeps_def by blast
    then show "?P (snd (sentry_device_uptime_ms (pf_esp p) w))" if "?P w" for w
      using that by (simp add: sentry_device_uptime_ms_def case_prod_beta)
  qed (rule keep(1))
  ultimately show ?thesis by (rule kept_on_board.intro)
qed

text \<open>The DSN of the SDK is the parsed one, or not valid; nothing after the start changes it.\<close>

lemma updates_dsn: "updates p m m' \<Longrightarrow> gs_dsn (m_state m') = gs_dsn (m_state m)"
  by (induction rule: rtranclp_induct, simp)
    (erule micro_update.cases, auto simp: set_trace_def persist_trace_def set_log_ring_def)

interpretation dsn_kept: kept_on_board p "\<lambda>m. R (gs_dsn (m_state m))" io "\<lambda>_. True" for p R io
proof unfold_locales
  show "R (gs_dsn (m_state (snd (sentry_send_envelope p e m))))" if "R (gs_dsn (m_state m))" for m :: "'a micro" and e
    using that updates_dsn [OF updates_send [OF rtranclp.rtrancl_refl], of p e m] by simp
  show "R (gs_dsn (m_state m'))" if "sentry_flush p n m = Some (k, m')" "R (gs_dsn (m_state m))" for n m k and m' :: "'a micro"
    using that(2) updates_dsn [OF updates_flush [OF that(1) rtranclp.rtrancl_refl]] by simp
qed (auto simp: board_keeps_def keeps_def count_logs_dropped_def set_trace_def persist_trace_def set_log_ring_def)

lemma send_storage:
  fixes m :: "'w micro"
  shows "sb_storage (gs_buffer (m_state (snd (sentry_send_envelope p e m)))) = sb_storage (gs_buffer (m_state m))"
proof -
  have "gs_buffer (m_state (snd (deliver p d x))) = gs_buffer (m_state x)" for d and x :: "'w micro"
    by (simp add: deliver_def Let_def case_prod_beta)
  moreover have "sb_storage (gs_buffer (m_state (snd (buffer_push d x)))) = sb_storage (gs_buffer (m_state x))"
    for d and x :: "'w micro"
    by (simp add: buffer_push_def case_prod_beta buffer_storage_ops)
  ultimately show ?thesis by (simp add: sentry_send_envelope_def case_prod_beta bool.case_eq_if)
qed

lemma flush_loop_storage:
  "flush_loop p n d m = Some r \<Longrightarrow> sb_storage (gs_buffer (m_state (snd r))) = sb_storage (gs_buffer (m_state m))"
proof (induction rule: flush_loop_induct)
  case (round loop p n d m r)
  have pop: "sb_storage (gs_buffer (m_state (buffer_pop x))) = sb_storage (gs_buffer (m_state x))" for x :: "'a micro"
    by (simp add: buffer_pop_def case_prod_beta buffer_storage_ops)
  have send: "gs_buffer (m_state (snd (deliver p e x))) = gs_buffer (m_state x)" for e x
    by (simp add: deliver_def Let_def case_prod_beta)
  show ?case
    using round(2) by (auto simp: case_prod_beta pop send dest: round(1) split: option.splits if_splits)
qed

interpretation storage_kept: kept_on_board p "\<lambda>m. R (sb_storage (gs_buffer (m_state m)))" io "\<lambda>_. True" for p R io
proof unfold_locales
  show "R (sb_storage (gs_buffer (m_state m')))"
    if "sentry_flush p n m = Some (k, m')" "R (sb_storage (gs_buffer (m_state m)))" for n m k and m' :: "'a micro"
    using that flush_loop_storage [of p n 0 _ "(k, m')"]
    by (auto simp: sentry_flush_def case_prod_beta bool.case_eq_if Let_def split: if_splits)
qed (auto simp: send_storage board_keeps_def keeps_def count_logs_dropped_def set_trace_def persist_trace_def set_log_ring_def)

definition ingest_host_of :: "sentry_options \<Rightarrow> string" where
  "ingest_host_of options = ds_host (fst (sentry_dsn_parse (op_dsn options)))"

lemma init_dsn_host:
  assumes "sentry_init p (Some options) m = (ok, m')"
  shows "ds_valid (gs_dsn (m_state m')) \<longrightarrow> ds_host (gs_dsn (m_state m')) = ingest_host_of options"
proof -
  let ?ok = "\<lambda>d. ds_valid d \<longrightarrow> ds_host d = ingest_host_of options"
  let ?m = "m\<lparr>m_state := state_zero\<lparr>gs_options := options\<rparr>\<rparr>"
  have zero: "?ok dsn_zero" by (simp add: dsn_zero_def)
  have dsn: "?ok (gs_dsn (m_state (snd (init_dsn (op_dsn options) x))))" for x :: "'a micro"
    using zero by (auto simp: init_dsn_def ingest_host_of_def Let_def split: prod.split)
  have boot: "gs_dsn (m_state (init_boot p options x)) = gs_dsn (m_state x)" for x :: "'a micro"
    by (auto simp: init_boot_def init_log_ring_def claim_log_ring_def recover_boot_def persist_trace_def on_log_ring_def
        set_log_ring_def Let_def split: prod.split option.split)
  have "m' = ?m \<or> m' = snd (init_dsn (op_dsn options) ?m) \<or> m' = init_boot p options (snd (init_dsn (op_dsn options) ?m))"
    using assms by (auto simp: sentry_init_def Let_def case_prod_beta bool.case_eq_if split: if_splits)
  then show ?thesis using zero dsn [of ?m] boot by (auto simp: state_zero_def)
qed

lemma enable_buffering_confined:
  assumes "confined p P m" and "flash_keeps nvs P" and "sentry_storage_nvs nvs n (m_world m) = (w, storage)"
  shows "confined p P (snd (sentry_enable_buffering storage (m\<lparr>m_world := w\<rparr>)))"
proof -
  have w: "P w" using nvs_operations_keep(6) [OF assms(2), of "m_world m" n] assms(1,3) by (simp add: confined_def)
  have st: "storage_keeps storage P" "\<And>x load. storage = Some x \<Longrightarrow> st_load_meta x = Some load \<Longrightarrow> keeps P (\<lambda>w. fst (load w))"
    using storage_nvs_keeps [OF assms(2), of n "m_world m"] assms(3) by simp_all
  have "sb_storage (fst (snd (sentry_buffer_init storage w))) \<in> {None, storage}"
    by (auto simp: sentry_buffer_init_def buffer_zero_def Let_def case_prod_beta split: option.split)
  moreover have "P (fst (sentry_buffer_init storage w))"
    using w st(2)
    by (auto simp: sentry_buffer_init_def storage_usable_def keeps_def Let_def case_prod_beta split: option.split)
  ultimately show ?thesis
    using assms(1) st(1)
    by (auto simp: confined_def parts_keep_def sentry_enable_buffering_def storage_keeps_def case_prod_beta)
qed

lemma setup_start_facts:
  assumes "setup_start b io port nvs p g = Some g'"
  shows "g_logger g' = logger_after port (sketch_options b p) (g_logger g)"
    "ds_valid (cxx_dsn (pg_micro g')) \<longrightarrow> ds_host (cxx_dsn (pg_micro g')) = ingest_host_of (sketch_options b p)"
proof -
  show "g_logger g' = logger_after port (sketch_options b p) (g_logger g)"
    using assms by (auto simp: setup_start_def cxx_init_said said_def Let_def case_prod_beta split: option.splits if_splits)
  have "ds_valid (gs_dsn (m_state (pg_micro g'))) \<longrightarrow>
      ds_host (gs_dsn (m_state (pg_micro g'))) = ingest_host_of (sketch_options b p)"
    by (rule dsn_kept.kept_start [OF assms, where R = "\<lambda>d. ds_valid d \<longrightarrow> ds_host d = ingest_host_of (sketch_options b p)"])
      (auto simp: loggers_keep_def keeps_def sentry_enable_buffering_def case_prod_beta dest: init_dsn_host)
  then show "ds_valid (cxx_dsn (pg_micro g')) \<longrightarrow> ds_host (cxx_dsn (pg_micro g')) = ingest_host_of (sketch_options b p)"
    by (simp add: cxx_dsn_def sentry_get_dsn_def)
qed

lemma debug_log_world:
  "m_world (pg_micro (debug_log text g)) =
     hears (g_logger g) (op_debug (gs_options (m_state (pg_micro g)))) [text] (m_world (pg_micro g))"
  by (cases "g_logger g") (simp_all add: debug_log_def hears_def)

text \<open>Once the certificate is in, the transport may be registered.\<close>

lemma setup_transport_confined:
  fixes r :: "('u \<times> net_call list) routes"
  assumes "SENTRY_MICRO_WIFI_TLS b" and "leaves_net io p nvs port logger"
    and "confined p (\<lambda>w. net_view w = (WiFiTransport, [])) (pg_micro g)" and "g_logger g = logger_after port options logger"
    and "sb_storage (gs_buffer (m_state (pg_micro g))) = storage" and "storage_keeps storage (\<lambda>w. verified cert host (net_view w))"
    and "transport_keeps (Some (c_transport (transport_chain b r (cxx_dsn (pg_micro g))))) (\<lambda>w. verified cert host (net_view w))"
    and "cert = SENTRY_INGEST_CA_CERT b"
  shows "confined p (\<lambda>w. verified cert host (net_view w)) (pg_micro (setup_transport b r g))"
proof -
  let ?P = "\<lambda>w. verified cert host (net_view w)"
  let ?w = "on_wifi_transport (set_ca_cert (Some cert)) (m_world (pg_micro g))"
  have "?P ?w"
    using assms(3)
    by (auto simp: confined_def net_view_def on_wifi_transport_def verified_def WiFiTransport_def set_ca_cert_def split: prod.splits)
  then have "?P (hears (logger_after port options logger) debug lines ?w)" for debug lines
    by (rule hears_keeps [OF leaves_net_keeps(4) [OF assms(2)]])
  moreover have "\<exists>debug lines. m_world (pg_micro (setup_transport b r g)) = hears (g_logger g) debug lines ?w"
    using assms(1,8)
    by (simp add: setup_transport_def cxx_set_transport_def sentry_set_transport_logged_def sentry_set_transport_def
        debug_log_world) blast
  ultimately show ?thesis
    using assms(4-7) leaves_net_keeps(2) [OF assms(2)]
    by (auto simp: confined_def parts_keep_def setup_transport_state)
qed

lemma start_storage_keeps:
  assumes "setup_start b io port nvs p g = Some g'" and "flash_keeps nvs P"
  shows "storage_keeps (sb_storage (gs_buffer (m_state (pg_micro g')))) P"
proof (rule storage_kept.kept_start [OF assms(1), where R = "\<lambda>st. storage_keeps st P"])
  show "case sentry_storage_nvs nvs 16 (m_world m) of
      (w, storage) \<Rightarrow> storage_keeps (sb_storage (gs_buffer (m_state (snd (sentry_enable_buffering storage (m\<lparr>m_world := w\<rparr>)))))) P"
    for m :: "'a micro"
  proof -
    have "sb_storage (fst (snd (sentry_buffer_init storage w))) \<in> {None, storage}" for storage and w :: 'a
      by (auto simp: sentry_buffer_init_def buffer_zero_def Let_def case_prod_beta split: option.split)
    from this [of "snd (sentry_storage_nvs nvs 16 (m_world m))" "fst (sentry_storage_nvs nvs 16 (m_world m))"]
    show ?thesis
      using storage_nvs_keeps(1) [OF assms(2), of 16 "m_world m"]
      by (simp add: sentry_enable_buffering_def case_prod_beta) (erule disjE; simp add: storage_keeps_def)
  qed
qed (auto simp: init_fresh buffer_zero_def storage_keeps_def loggers_keep_def keeps_def)

text \<open>
  C6: The WiFi example never talks to a stranger. From power-on, through \<open>setup\<close> and any number of
  passes through \<open>loop\<close>, whatever is captured, buffered and sent again on the way and whatever the
  server, the network, the flash and the serial port answer: every connection the device opens
  goes to the host of its DSN, and every one for an https URL is a TLS connection that checks the
  certificate the build names, so the transport never has to warn that it does not; for the
  certificate is set before there is a transport to send with.
\<close>

theorem wifi_basic_verifies_tls:
  fixes r :: "('u \<times> net_call list) routes"
  assumes net: "ro_net r = logged_net net"
    and serial: "stream_ticks (ro_serial r) serial_uptime backlog" "\<forall>log. stream_keeps (ro_serial r) (\<lambda>v. snd v = log)"
    and rest: "leaves_net io p nvs port (g_logger g)"
    and power_on: "net_view (m_world (pg_micro g)) = (WiFiTransport, [])"
    and tls: "SENTRY_MICRO_WIFI_TLS b"
    and result: "wifi_basic_setup b r io port nvs p g = Some result"
    and moment: "case result of Inl m \<Rightarrow> w = m_world m
      | Inr s \<Rightarrow> (\<exists>n s'. loop_times io p n s = Some s' \<and> w = m_world (sk_micro s'))"
  shows "list_all (verified_call (SENTRY_INGEST_CA_CERT b) (ingest_host_of (sketch_options b p))) (snd (net_view w)) \<and>
    \<not> wt_warned_insecure (fst (net_view w))"
proof -
  let ?cert = "SENTRY_INGEST_CA_CERT b" and ?host = "ingest_host_of (sketch_options b p)"
  let ?P = "\<lambda>w. verified ?cert ?host (net_view w)" and ?start = "\<lambda>w. net_view w = (WiFiTransport, [])"
  note board0 = confined_on_board [OF rest, of "\<lambda>v. v = (WiFiTransport, [])"] and board = confined_on_board [OF rest, of "verified ?cert ?host"]
  obtain g0 where g0: "setup_start b io port nvs p g = Some g0" using result by (auto simp: wifi_basic_setup_def split: option.splits)
  have "confined p ?start (pg_micro g0)"
  proof (rule kept_on_board.kept_start [OF board0 g0 power_on])
    show "confined p ?start m" if "sentry_init p (Some (sketch_options b p)) x = (ok, m1)" "m_state m = m_state m1" "?start (m_world m)"
      for x ok m1 m
      using that init_fresh [OF that(1)] leaves_net_keeps(2) [OF rest, of "\<lambda>v. v = (WiFiTransport, [])"]
      by (simp add: confined_def parts_keep_def transport_keeps_def storage_keeps_def buffer_zero_def)
    show "case sentry_storage_nvs nvs 16 (m_world m) of
        (w, storage) \<Rightarrow> confined p ?start (snd (sentry_enable_buffering storage (m\<lparr>m_world := w\<rparr>)))"
      if "confined p ?start m" for m
      using enable_buffering_confined [OF that leaves_net_keeps(3) [OF rest, of "\<lambda>v. v = (WiFiTransport, [])"]]
      by (auto split: prod.split)
  qed (rule leaves_net_keeps(4) [OF rest])
  moreover have "transport_keeps (Some (c_transport (transport_chain b r (cxx_dsn (pg_micro g0))))) ?P"
    by (rule chain_verified [OF net setup_start_facts(2) [OF g0] serial])
  ultimately have "confined p ?P (pg_micro (setup_transport b r g0))"
    by (intro setup_transport_confined [OF tls rest _ setup_start_facts(1) [OF g0] refl
          start_storage_keeps [OF g0 leaves_net_keeps(3) [OF rest]]]) simp_all
  note q0 = this
  obtain synced m where m: "setup_wifi b io p (pg_micro (setup_transport b r g0)) = Some (synced, m)"
    using result by (auto simp: wifi_basic_setup_def g0 split: option.splits)
  have q: "confined p ?P m" by (rule kept_on_board.kept_setup_wifi [OF board m q0])
  have reports: "confined p ?P (snd (report_crash p x))" "confined p ?P (report_boot p x)" "confined p ?P (snd (demo_flood p x))"
    if "confined p ?P x" for x
    using kept_on_board.kept_reports(2,3) [OF board that] kept_on_board.kept_demo_flood [OF board that] by simp_all
  define m1 where "m1 = (let (reported, m) = report_crash p m; m = (if \<not> reported then report_boot p m else m)
    in if SENTRY_DEMO_FLOOD b then snd (demo_flood p m) else m)"
  have q1: "confined p ?P m1"
    unfolding m1_def Let_def case_prod_beta using reports [OF q] by (auto intro: reports)
  have crash: "confined p ?P m2" if "demo_crash io p m1 = Some m2" for m2
    by (rule kept_on_board.kept_demo_crash [OF board that q1])
  have loop: "confined p ?P (sk_micro s')" if "loop_times io p n s = Some s'" "confined p ?P (sk_micro s)" for n s s'
    by (rule kept_on_board.kept_loops [OF board that])
  have "(\<exists>m2. demo_crash io p m1 = Some m2 \<and> result = Inl m2) \<or> (\<exists>s. result = Inr s \<and> sk_micro s = m1)"
    using result by (auto simp: wifi_basic_setup_def g0 m m1_def Let_def case_prod_beta split: if_splits)
  then have "?P w" using moment crash loop q1 by (auto simp: confined_def)
  then show ?thesis by (auto simp: verified_def split: prod.splits)
qed

text \<open>
  A board that joins the network at once, a server that answers 200, and the host of the serial
  port beside it.
\<close>

definition joined_arduino :: "((nat \<times> string) \<times> net_call list) board arduino" where
  "joined_arduino =
     \<lparr>WL_CONNECTED = 3, WIFI_SCAN_RUNNING = -1, ar_serial_ready = (\<lambda>w. (True, w)),
      ar_millis = (\<lambda>w. (of_nat (fst (fst (snd (snd w)))), w)),
      ar_delay = (\<lambda>ms (chosen, t, (now, input), log). (chosen, t, (now + unat ms, input), log)),
      wifi_mode_sta = (\<lambda>w. w), wifi_begin = (\<lambda>ssid password w. w), wifi_status = (\<lambda>w. (3, w)),
      wifi_localIP = (\<lambda>w. ''10.0.0.7''), wifi_RSSI = (\<lambda>w. -60), wifi_disconnect = (\<lambda>off e w. w),
      wifi_scanNetworks = (\<lambda>a h q ms w. (0, w)), wifi_scanComplete = (\<lambda>w. (0, w)), wifi_SSID = (\<lambda>i w. ''home''),
      wifi_scanDelete = (\<lambda>w. w), ar_configTime = (\<lambda>w. w), ar_time = (\<lambda>w. (1700000000, w))\<rparr>"

definition beside_log :: "'u stream_io \<Rightarrow> ('u \<times> net_call list) stream_io" where
  "beside_log io =
     \<lparr>io_print = (\<lambda>text (u, log). (io_print io text u, log)), io_flush = (\<lambda>(u, log). (io_flush io u, log)),
      io_available = (\<lambda>(u, log). case io_available io u of (ready, u) \<Rightarrow> (ready, (u, log))),
      io_read = (\<lambda>(u, log). case io_read io u of (c, u) \<Rightarrow> (c, (u, log))),
      io_millis = (\<lambda>(u, log). case io_millis io u of (now, u) \<Rightarrow> (now, (u, log))),
      io_delay = (\<lambda>ms (u, log). (io_delay io ms u, log))\<rparr>"

lemma beside_log_ticks:
  "stream_ticks io uptime backlog \<Longrightarrow> stream_ticks (beside_log io) (\<lambda>v. uptime (fst v)) (\<lambda>v. backlog (fst v))"
  by (simp add: stream_ticks_def quick_def beside_log_def Let_def case_prod_beta)

lemma beside_log_keeps: "stream_keeps (beside_log io) (\<lambda>v. snd v = log)"
  by (auto simp: stream_keeps_def beside_log_def keeps_def split: prod.split)

definition welcoming_net :: "'u http_client" where
  "welcoming_net =
     \<lparr>wf_connected = (\<lambda>w. (True, w)), wf_has_address = (\<lambda>w. (True, w)), hc_begin = (\<lambda>c u w. (True, w)),
      hc_set = (\<lambda>x w. w), hc_POST = (\<lambda>b w. (200, w)), hc_header = (\<lambda>name w. ('''', w)), hc_end = (\<lambda>w. w)\<rparr>"

theorem wifi_basic_verifies_tls_witness:
  "\<exists>s s'. wifi_basic_setup sample_build
      \<lparr>ro_net = logged_net welcoming_net, ro_errors = sample_http_errors, ro_serial = beside_log scripted_io\<rparr>
      joined_arduino None no_flash (sample_platform no_core_dump)
      \<lparr>pg_micro = power_on sample_rtc (None, WiFiTransport, (0, []), []), g_logger = None\<rparr> = Some (Inr s) \<and>
    loop_times joined_arduino (sample_platform no_core_dump) 1000 s = Some s' \<and>
    list_all (verified_call ''PEM'' ''o1.ingest.io'') (snd (net_view (m_world (sk_micro s'))))"
proof -
  let ?r = "\<lparr>ro_net = logged_net welcoming_net, ro_errors = sample_http_errors, ro_serial = beside_log scripted_io\<rparr>"
    and ?p = "sample_platform no_core_dump :: ((nat \<times> string) \<times> net_call list) board platform"
    and ?g = "\<lparr>pg_micro = power_on sample_rtc (None, WiFiTransport, (0, []), []), g_logger = None\<rparr>"
  have board: "board_ticks joined_arduino (\<lambda>w. fst (fst (snd (snd w)))) 0"
    by (auto simp: board_ticks_def joined_arduino_def within_def split: prod.split)
  have serial: "stream_ticks (ro_serial ?r) (\<lambda>v. fst (fst v)) (\<lambda>v. length (snd (fst v)))"
    using beside_log_ticks [OF scripted_io_ticks] by simp
  have keep: "\<forall>log. stream_keeps (ro_serial ?r) (\<lambda>v. snd v = log)" by (simp add: beside_log_keeps)
  have rest: "leaves_net joined_arduino ?p no_flash None (g_logger ?g)"
    by (auto simp: leaves_net_def board_keeps_def joined_arduino_def keeps_def chip_keeps_def sample_platform_def
        sample_esp_def flash_keeps_def no_flash_def loggers_keep_def no_core_dump_def net_view_def split: prod.splits)
  obtain result where result: "wifi_basic_setup sample_build ?r joined_arduino None no_flash ?p ?g = Some result"
    "case result of Inl m \<Rightarrow> SENTRY_DEMO_CRASH sample_build
     | Inr s \<Rightarrow> (\<forall>n. \<exists>s'. loop_times joined_arduino ?p n s = Some s')"
    using wifi_basic_returns [OF board serial, of sample_build None no_flash ?p ?g] by blast
  have build: "\<not> SENTRY_DEMO_CRASH sample_build" "SENTRY_MICRO_WIFI_TLS sample_build" "SENTRY_INGEST_CA_CERT sample_build = ''PEM''"
    by (simp_all add: sample_build_def)
  then obtain s where s: "result = Inr s" using result(2) by (cases result) auto
  then obtain s' where s': "loop_times joined_arduino ?p 1000 s = Some s'" using result(2) by auto
  have "ds_host (fst (sentry_dsn_parse (Some ''https://abc@o1.ingest.io/42''))) = ''o1.ingest.io''" by code_simp
  then have host: "ingest_host_of (sketch_options sample_build ?p) = ''o1.ingest.io''"
    by (simp add: ingest_host_of_def sketch_options_def sample_build_def)
  have "case result of Inl m \<Rightarrow> m_world (sk_micro s') = m_world m
      | Inr s \<Rightarrow> (\<exists>n x. loop_times joined_arduino ?p n s = Some x \<and> m_world (sk_micro s') = m_world (sk_micro x))"
    using s s' by auto
  from wifi_basic_verifies_tls [OF _ serial keep rest _ build(2) result(1) this, of welcoming_net] s s' show ?thesis
    using result(1) by (auto simp: build(3) host power_on_def net_view_def)
qed

end
