(* ===== verification/Sentry_Wled_Firmware.thy ===== *)
theory Sentry_Wled_Firmware
  imports Sentry_Wled_Relay Sentry_Crash_Report Sentry_Micro_World Json_Document "HOL-Library.AList"
begin

text \<open>
  The rest of the WLED relay usermod
  (\<open>examples/wled_browser_relay/usermods/sentry/usermod_sentry.cpp\<close>) around the link of
  \<open>Sentry_Wled_Relay\<close>: \<open>setup\<close>, \<open>loop\<close>, the routes of the web server with the status page, and the two
  lines on WLED's own info page. The firmware runs in a world whose first part is the usermod
  and whose second is everything else. What is shown is that the status page is JSON and says what the
  SDK knows, and that a crash of the previous boot is in flash when \<open>setup\<close> returns, with nothing sent
  and nobody waited for.
\<close>

section \<open>The transport of the usermod\<close>

text \<open>
  What the SDK calls through the relay transport. A wait of the transport, or a write of a frame, lets the
  other tasks run: \<open>other_tasks\<close> gives what they delivered meanwhile, \<open>ar_delay_relay\<close> the default
  wait of the transport.
\<close>

record 'w wled_tasks =
  xSemaphoreTake :: "'w \<Rightarrow> bool \<times> 'w"
  other_tasks :: "'w \<Rightarrow> 'w \<times> link_event list"
  default_wait :: "'w wait_fn"
  default_clock :: "'w clock_fn"

type_synonym 'v wled = "usermod \<times> 'v"

abbreviation on_usermod :: "(usermod \<Rightarrow> usermod) \<Rightarrow> 'v wled \<Rightarrow> 'v wled" where
  "on_usermod \<equiv> apfst"

definition relayWrite :: "'v wled wled_tasks \<Rightarrow> 'v wled write_fn" where
  "relayWrite io frame w =
     (let (taken, w) = xSemaphoreTake io w;
          (u, queued) = enqueueFrame taken frame (fst w);
          (w, events) = other_tasks io (on_usermod (\<lambda>_. u) w)
      in (queued, w, events))"

definition usermod_link :: "'v wled wled_tasks \<Rightarrow> 'v wled relay_link" where
  "usermod_link io =
     \<lparr>rl_write = Some (relayWrite io), rl_wait = Some (default_wait io), rl_clock = Some (default_clock io)\<rparr>"

text \<open>\<open>relay_\<close> is a member of the usermod, so the class of the transport reads and writes it there.\<close>

definition usermod_class :: "'v wled wled_tasks \<Rightarrow> sentry_dsn \<Rightarrow> 'v wled transport_class" where
  "usermod_class io dsn =
     \<lparr>vt_send = (\<lambda>url headers body w.
        case the (relay_send (usermod_link io) (Some dsn) url headers body (um_relay (fst w)) w) of
          (response, relay, w) \<Rightarrow> (response, on_usermod (um_relay_update (\<lambda>_. relay)) w)),
      vt_is_available = (\<lambda>w. (host_ready (um_relay (fst w)), w)),
      vt_name = (\<lambda>_. Some ''relay'')\<rparr>"

section \<open>Setup\<close>

text \<open>The members of a new usermod.\<close>

definition UsermodSentry :: usermod where
  "UsermodSentry =
     \<lparr>um_relay = RelayTransport, um_queueLock = False, um_queue = [], um_crashPending = False, um_crashAtMs = 0,
      um_testPending = False, um_lastPollMs = 0\<rparr>"

lemma usermod_setup_fields:
  "usermod_setup mutex =
     UsermodSentry\<lparr>um_queueLock := mutex, um_relay := set_chunk_bytes kRelayChunkBytes (um_relay UsermodSentry)\<rparr>"
  by (simp add: usermod_setup_def UsermodSentry_def)

text \<open>
  \<open>mutex\<close> is the answer of \<open>xSemaphoreCreateMutex\<close>. The delivery task that is created before the
  report does nothing before a page has announced itself.
\<close>

definition wled_setup ::
    "firmware \<Rightarrow> 'v wled wled_tasks \<Rightarrow> 'v wled serial_port option \<Rightarrow> 'v wled nvs_api \<Rightarrow> bool \<Rightarrow> 'v wled platform \<Rightarrow>
     'v wled program \<Rightarrow> 'v wled program" where
  "wled_setup fw io port nvs mutex p g =
     (let g = on_world (on_usermod (um_queueLock_update (\<lambda>_. mutex))) g;
          g = snd (cxx_init port p (usermod_options fw p) g);
          (w, storage) = sentry_storage_nvs nvs 16 (m_world (pg_micro g));
          g = on_micro (\<lambda>m. snd (sentry_enable_buffering storage (m\<lparr>m_world := w\<rparr>))) g;
          g = on_world (on_usermod (um_relay_update (set_chunk_bytes kRelayChunkBytes))) g;
          g = cxx_set_transport (usermod_class io (cxx_dsn (pg_micro g))) g
      in on_micro (report_at_boot p) g)"

section \<open>The loop\<close>

text \<open>Whether the deliberate crash is called, and what is left of the request for it.\<close>

definition wled_loop :: "u32 \<Rightarrow> usermod \<Rightarrow> bool \<times> usermod" where
  "wled_loop now u =
     (if um_crashPending u \<and> now \<ge> um_crashAtMs u then (True, u\<lparr>um_crashPending := False\<rparr>) else (False, u))"

text \<open>The delivery task, for \<open>n\<close> rounds; the clock is read where there is a host.\<close>

fun deliveryTask :: "'v wled wled_tasks \<Rightarrow> (u32 \<Rightarrow> 'v wled \<Rightarrow> 'v wled) \<Rightarrow> 'v wled platform \<Rightarrow> nat \<Rightarrow> 'v wled micro \<Rightarrow>
    'v wled micro option" where
  "deliveryTask io vTaskDelay p 0 m = Some m"
| "deliveryTask io vTaskDelay p (Suc n) m =
     (let (now, w) = (if host_ready (um_relay (fst (m_world m))) then default_clock io (m_world m) else (0, m_world m))
      in case deliveryTick fst on_usermod p now (m\<lparr>m_world := w\<rparr>) of
           None \<Rightarrow> None
         | Some m \<Rightarrow> deliveryTask io vTaskDelay p n (m\<lparr>m_world := vTaskDelay 1000 (m_world m)\<rparr>))"

section \<open>The pages\<close>

text \<open>\<open>root\<close> is the members of the JSON object the usermod is given.\<close>

definition addToJsonInfo :: "'v wled micro \<Rightarrow> (string \<times> json) list \<Rightarrow> (string \<times> json) list" where
  "addToJsonInfo m root =
     (let user = (case map_of root ''u'' of Some (JObject members) \<Rightarrow> members | _ \<Rightarrow> []);
          relayInfo = JArray [JString (if host_ready (um_relay (fst (m_world m))) then ''attached'' else ''no browser attached'')];
          queueInfo = JArray [JNumber (dec (unat (sentry_buffered_count m))), JString '' events'']
      in AList.update ''u''
           (JObject (AList.update ''Sentry queue'' queueInfo (AList.update ''Sentry relay'' relayInfo user))) root)"

text \<open>The text of the status page, put together piece by piece; \<open>quoted\<close> adds the quotes of the literals.\<close>

definition bool_text :: "bool \<Rightarrow> string" where
  "bool_text b = (if b then ''true'' else ''false'')"

definition quoted :: "string \<Rightarrow> string" where
  "quoted s = [QUOTE] @ s @ [QUOTE]"

definition statusJson :: "firmware \<Rightarrow> 'v wled platform \<Rightarrow> u32 \<Rightarrow> 'v wled micro \<Rightarrow> string" where
  "statusJson fw p now m =
     (let dsn = cxx_dsn m
      in ''{'' @ quoted ''enabled'' @ '':'' @ bool_text (cxx_is_enabled m) @
         '','' @ quoted ''host'' @ '':'' @ quoted (if ds_valid dsn then ds_host dsn else '''') @
         '','' @ quoted ''project'' @ '':'' @ quoted (if ds_valid dsn then ds_project_id dsn else '''') @
         '','' @ quoted ''release'' @ '':'' @ quoted (cptr_text (SENTRY_RELEASE fw)) @
         '','' @ quoted ''attached'' @ '':'' @ bool_text (host_ready (um_relay (fst (m_world m)))) @
         '','' @ quoted ''buffered'' @ '':'' @ dec (unat (sentry_buffered_count m)) @
         '','' @ quoted ''dropped'' @ '':'' @ dec (unat (sentry_dropped_count m)) @
         '','' @ quoted ''coredumpSupported'' @ '':'' @ bool_text (sentry_coredump_is_supported (pf_core_dump p)) @
         '','' @ quoted ''coredumpAvailable'' @ '':'' @ bool_text (sentry_coredump_available (pf_core_dump p) (m_world m)) @
         '','' @ quoted ''uptime'' @ '':'' @ dec (unat (now div 1000)) @ ''}'')"

section \<open>The routes\<close>

datatype http_method = HTTP_GET | HTTP_POST

datatype wled_route = Status_page | Relay_poll | Relay_status | Test_event | Crash_request

definition registerRoutes :: "(string \<times> http_method \<times> wled_route) list" where
  "registerRoutes =
     [(''/sentry/status'', HTTP_GET, Status_page), (''/sentry/relay/poll'', HTTP_GET, Relay_poll),
      (''/sentry/relay/status'', HTTP_POST, Relay_status), (''/sentry/test'', HTTP_GET, Test_event),
      (''/sentry/crash'', HTTP_GET, Crash_request)]"

text \<open>
  The web server takes the first handler that accepts; \<open>accepts\<close> is how it compares the URI of a
  handler with the URL of a request.
\<close>

definition dispatch ::
    "(string \<Rightarrow> string \<Rightarrow> bool) \<Rightarrow> (string \<times> http_method \<times> wled_route) list \<Rightarrow> http_method \<Rightarrow> string \<Rightarrow> wled_route option" where
  "dispatch accepts routes requested url =
     map_option (\<lambda>(_, _, route). route) (find (\<lambda>(uri, verb, _). verb = requested \<and> accepts uri url) routes)"

text \<open>The handlers: the state after the request, the code, the type and the text of the answer.\<close>

definition serve ::
    "firmware \<Rightarrow> 'v wled platform \<Rightarrow> u32 \<Rightarrow> request_args \<Rightarrow> poll_luck \<Rightarrow> wled_route \<Rightarrow> 'v wled micro \<Rightarrow>
     'v wled micro \<times> nat \<times> string \<times> string" where
  "serve fw p now args luck route m =
     (let u = fst (m_world m);
          become = (\<lambda>u. m\<lparr>m_world := on_usermod (\<lambda>_. u) (m_world m)\<rparr>)
      in case route of
           Status_page \<Rightarrow> (m, 200, ''application/json'', statusJson fw p now m)
         | Relay_poll \<Rightarrow> (case handlePoll now args luck u of (u, body) \<Rightarrow> (become u, 200, ''text/plain'', body))
         | Relay_status \<Rightarrow>
             (case handleRelayStatus args u of
                (u, code) \<Rightarrow> (become u, code, ''text/plain'', (if code = 400 then ''missing req'' else ''ok'') @ [NEWLINE]))
         | Test_event \<Rightarrow> (become (handle_test u), 200, ''text/plain'', ''Test event queued.'' @ [NEWLINE])
         | Crash_request \<Rightarrow>
             (become (handle_crash now u), 200, ''text/plain'',
              ''Crashing in 500ms. The report is built on the next boot and relayed by '' @
              ''whichever browser next has WLED open.'' @ [NEWLINE]))"

lemma routes_apart:
  "\<forall>r \<in> set registerRoutes. \<forall>r' \<in> set registerRoutes.
     fst (snd r) = fst (snd r') \<longrightarrow> take 9 (fst r) = take 9 (fst r') \<longrightarrow> r = r'"
  "\<forall>r \<in> set registerRoutes. 9 \<le> length (fst r)"
  by (simp_all add: registerRoutes_def)

text \<open>
  A handler accepts its own URI and whatever lies below it. No route lies below another, so
  whatever the order they are registered in, the same one answers.
\<close>

lemma routes_do_not_shadow:
  assumes "\<And>uri url. accepts uri url \<longleftrightarrow> url = uri \<or> (\<exists>below. url = uri @ ''/'' @ below)"
    and "set routes = set registerRoutes"
  shows "dispatch accepts routes = dispatch accepts registerRoutes"
proof (intro ext)
  fix requested url
  let ?P = "\<lambda>(uri, verb :: http_method, route :: wled_route). verb = requested \<and> accepts uri url"
  have "take (length uri) url = uri" if "accepts uri url" for uri using that assms(1) by auto
  then have prefix: "take 9 uri = take 9 url" if "accepts uri url" "9 \<le> length uri" for uri
    using that by (metis min.absorb2 min.commute take_take)
  have same: "r = r'" if "?P r" "?P r'" "r \<in> set registerRoutes" "r' \<in> set registerRoutes" for r r'
  proof -
    have "9 \<le> length (fst r)" "9 \<le> length (fst r')" using routes_apart(2) that(3,4) by blast+
    then have "take 9 (fst r) = take 9 (fst r')" using prefix that(1,2) by (auto split: prod.splits)
    moreover have "fst (snd r) = fst (snd r')" using that(1,2) by (auto split: prod.splits)
    ultimately show ?thesis using routes_apart(1) that(3,4) by blast
  qed
  have "find ?P routes = find ?P registerRoutes"
  proof (cases "\<exists>r \<in> set registerRoutes. ?P r")
    case True
    then obtain r where r: "r \<in> set registerRoutes" "?P r" by blast
    have "find ?P rs = Some r" if "set rs = set registerRoutes" for rs
      using that r same by (metis (no_types, lifting) find_Some_iff find_None_iff2 not_Some_eq nth_mem)
    then show ?thesis using assms(2) by simp
  next
    case False
    then have "find ?P routes = None" "find ?P registerRoutes = None"
      using assms(2) by (auto simp: find_None_iff)
    then show ?thesis by simp
  qed
  then show "dispatch accepts routes requested url = dispatch accepts registerRoutes requested url"
    by (simp add: dispatch_def)
qed

section \<open>The deliberate crash\<close>

text \<open>
  It comes once, not before the answer of its request has had half a second, and only after a request; but the
  deadline is compared as a number, so in the last half second before the clock comes round the crash comes at once.
\<close>

lemma crash_waits:
  assumes "unat since + 500 < 2 ^ 32" and "since \<le> now"
  shows "fst (wled_loop now (handle_crash since u)) \<longleftrightarrow> 500 \<le> now - since"
    "fst (wled_loop now (handle_crash since u)) \<Longrightarrow> \<not> fst (wled_loop later (snd (wled_loop now (handle_crash since u))))"
  using assms
  by (auto simp: wled_loop_def handle_crash_def word_le_nat_alt unat_sub unat_word_ariths)

lemma crash_comes_at_once:
  "0xFFFFFFFF - 500 < since \<Longrightarrow> fst (wled_loop since (handle_crash since u))"
proof -
  assume "0xFFFFFFFF - 500 < since"
  then have "2 ^ 32 \<le> unat since + 500" by (simp add: word_less_nat_alt)
  moreover have "unat since < 2 ^ 32" using unsigned_less [of since, where ?'a = nat] by simp
  ultimately have "(unat since + 500) mod 2 ^ 32 = unat since + 500 - 2 ^ 32" by (subst le_mod_geq) simp_all
  then have "unat (since + 500) = unat since + 500 - 2 ^ 32" by (simp add: unat_word_ariths)
  then show ?thesis
    using \<open>unat since < 2 ^ 32\<close> by (simp add: wled_loop_def handle_crash_def word_le_nat_alt)
qed

section \<open>The status page\<close>

text \<open>What the page is about, as a document.\<close>

definition status_document :: "firmware \<Rightarrow> 'v wled platform \<Rightarrow> u32 \<Rightarrow> 'v wled micro \<Rightarrow> json" where
  "status_document fw p now m =
     (let dsn = sentry_get_dsn m
      in JObject
       [(''enabled'', JBool (sentry_is_enabled m)),
        (''host'', JString (if ds_valid dsn then ds_host dsn else '''')),
        (''project'', JString (if ds_valid dsn then ds_project_id dsn else '''')),
        (''release'', JString (cptr_text (SENTRY_RELEASE fw))),
        (''attached'', JBool (host_ready (um_relay (fst (m_world m))))),
        (''buffered'', JNumber (dec (unat (sentry_buffered_count m)))),
        (''dropped'', JNumber (dec (unat (sentry_dropped_count m)))),
        (''coredumpSupported'', JBool (sentry_coredump_is_supported (pf_core_dump p))),
        (''coredumpAvailable'', JBool (sentry_coredump_available (pf_core_dump p) (m_world m))),
        (''uptime'', JNumber (dec (unat (now div 1000))))])"

text \<open>Text that JSON does not escape.\<close>

definition plain :: "string \<Rightarrow> bool" where
  "plain s \<longleftrightarrow> list_all (\<lambda>c. 0x20 \<le> code_of c \<and> c \<noteq> QUOTE \<and> c \<noteq> BSLASH) s"

lemma plain_Nil [simp]: "plain []"
  by (simp add: plain_def)

lemma plain_subset: "plain s \<Longrightarrow> set t \<subseteq> set s \<Longrightarrow> plain t"
  by (auto simp: plain_def list_all_iff)

lemma plain_quoted: "plain s \<Longrightarrow> json_text_string s = quoted s"
proof -
  have "escape_byte c = [c]" if "0x20 \<le> code_of c" "c \<noteq> QUOTE" "c \<noteq> BSLASH" for c
    using that by (auto simp: escape_byte_def)
  then have "plain s \<Longrightarrow> concat (map escape_byte s) = s"
    by (induction s) (auto simp: plain_def)
  then show "plain s \<Longrightarrow> json_text_string s = quoted s"
    by (simp add: json_text_string_def quoted_def)
qed

lemma dsn_host_plain:
  assumes "sentry_dsn_parse (Some text) = (d, True)" and "plain text"
  shows "plain (ds_host d)" "plain (ds_project_id d)"
proof -
  have "set (ds_host d) \<union> set (ds_project_id d) \<subseteq> set text"
    using parse_ok(2) [OF assms(1)] by (auto simp: dsn_written_def)
  then show "plain (ds_host d)" "plain (ds_project_id d)" using plain_subset [OF assms(2)] by simp_all
qed

lemma status_is_json:
  assumes "plain (cptr_text (SENTRY_RELEASE fw))" and "plain dsn"
    and "ds_valid (sentry_get_dsn m) \<Longrightarrow> sentry_dsn_parse (Some dsn) = (sentry_get_dsn m, True)"
  shows "statusJson fw p now m = json_text (status_document fw p now m)"
    and "wf_json (status_document fw p now m)"
proof -
  let ?d = "sentry_get_dsn m"
  have names: "plain ''enabled''" "plain ''host''" "plain ''project''" "plain ''release''" "plain ''attached''"
    "plain ''buffered''" "plain ''dropped''" "plain ''coredumpSupported''" "plain ''coredumpAvailable''" "plain ''uptime''"
    by (simp_all add: plain_def)
  have "plain (if ds_valid ?d then ds_host ?d else '''')" "plain (if ds_valid ?d then ds_project_id ?d else '''')"
    using dsn_host_plain [OF assms(3,2)] by simp_all
  note plain = this assms(1) names
  show "statusJson fw p now m = json_text (status_document fw p now m)"
    by (simp only: statusJson_def status_document_def Let_def json_text.simps json_text_members.simps comma_if_def
        plain [THEN plain_quoted] bool_text_def cxx_dsn_def cxx_is_enabled_def if_True if_False append_Nil append_assoc)
  show "wf_json (status_document fw p now m)"
    by (simp add: status_document_def Let_def wf_number_dec)
qed

definition sample_firmware :: "string \<Rightarrow> firmware" where
  "sample_firmware release =
     \<lparr>SENTRY_DSN = Some ''https://k@h/1'', SENTRY_RELEASE = Some release, ARDUINO_BOARD = None, SENTRY_MICRO_DEBUG = False\<rparr>"

text \<open>The usermod in a device that has just been switched on, before \<open>setup\<close>.\<close>

definition sample_wled :: "unit wled micro" where
  "sample_wled = \<lparr>m_state = state_zero, m_rtc = sample_rtc, m_world = (UsermodSentry, ())\<rparr>"

text \<open>A release with a quote in it makes the page one that no JSON reader takes.\<close>

lemma unescaped_release:
  "read_json (statusJson (sample_firmware [CHR ''v'', QUOTE]) (sample_platform no_core_dump) 0 sample_wled) = None"
  unfolding sample_wled_def statusJson_def
  by (simp add: sample_firmware_def cxx_dsn_def cxx_is_enabled_def sentry_get_dsn_def sentry_is_enabled_def)
    code_simp

section \<open>A boot without a route\<close>

context reliable_storage
begin

lemma refines_world:
  "refines (s, b) ql \<Longrightarrow> inv s' = inv s \<Longrightarrow> slots s' = slots s \<Longrightarrow> meta s' = meta s \<Longrightarrow> refines (s', b) ql"
  using holds_world [of s b "fst ql" s'] by (simp add: refines_def saved_def)

text \<open>A boot finds the queue, where it has not been filled to the last slot; a push then has room.\<close>

lemma boot_finds:
  assumes "refines (s, b0) (q, lost)" and "length q < N" and "sentry_buffer_init (Some st) s = (s', b, ok)"
  shows "ok" "refines (s', b) (q, lost)"
  using reboot_refines [OF assms(1)] assms(2,3) by simp_all

lemma push_with_room:
  assumes "refines (s, b) (q, lost)" and "length q < N" and "fits d" and "d \<noteq> []"
    and "sentry_buffer_push d s b = (s', b', ok)"
  shows "ok" "refines (s', b') (q @ [d], lost)" "sentry_buffer_count b < sentry_buffer_count b'"
proof -
  show "ok" and r: "refines (s', b') (q @ [d], lost)"
    using push_refines [OF assms(1,3)] assms(2,4,5) by (simp_all add: bounded_push_def)
  show "sentry_buffer_count b < sentry_buffer_count b'"
    using assms(1) r by (simp add: refines_def holds_def sentry_buffer_count_def word_less_nat_alt)
qed

end

text \<open>An SDK that has just started, and the send of an envelope when there is no host.\<close>

lemma init_ready:
  assumes "sentry_init p (Some opts) m = (True, m')"
  shows "gs_enabled (m_state m')" "gs_retry_after_uptime_ms (m_state m') = 0"
proof -
  have dsn: "gs_retry_after_uptime_ms (m_state (snd (init_dsn dsn x))) = gs_retry_after_uptime_ms (m_state x)"
    for dsn and x :: "'a micro" by (simp add: init_dsn_def Let_def split: prod.split)
  have boot: "gs_enabled (m_state (init_boot p opts x)) \<and>
      gs_retry_after_uptime_ms (m_state (init_boot p opts x)) = gs_retry_after_uptime_ms (m_state x)" for x :: "'a micro"
    by (auto simp: init_boot_def init_log_ring_def claim_log_ring_def recover_boot_def persist_trace_def on_log_ring_def
        set_log_ring_def Let_def split: prod.split option.split)
  obtain x where x: "init_dsn (op_dsn opts) (m\<lparr>m_state := state_zero\<lparr>gs_options := opts\<rparr>\<rparr>) = (True, x)"
    and m': "m' = init_boot p opts x"
    using assms by (auto simp: sentry_init_def Let_def split: if_splits prod.splits bool.splits)
  have "gs_retry_after_uptime_ms (m_state x) = 0"
    using dsn [of "op_dsn opts" "m\<lparr>m_state := state_zero\<lparr>gs_options := opts\<rparr>\<rparr>"] x by (simp add: state_zero_def)
  then show "gs_enabled (m_state m')" "gs_retry_after_uptime_ms (m_state m') = 0" using boot m' by simp_all
qed

lemma unrouted_send:
  assumes "gs_enabled (m_state m)" and "gs_retry_after_uptime_ms (m_state m) = 0" and "gs_buffering (m_state m)" and "e \<noteq> []"
    and "deliver p e m = (sentry_response_make SENTRY_SEND_UNAVAILABLE, m)"
  shows "sentry_send_envelope p (Some e) m = (sentry_response_make SENTRY_SEND_UNAVAILABLE, snd (buffer_push e m))"
  using assms
  by (simp add: sentry_send_envelope_def in_backoff_def sentry_response_make_def worth_retrying_def)

lemma no_host_no_send:
  assumes "\<not> host_ready (um_relay (fst (m_world m)))" and "gs_transport (m_state m) = Some (c_transport (usermod_class io dsn))"
  shows "deliver p e m = (sentry_response_make SENTRY_SEND_UNAVAILABLE, m)"
proof -
  have "on_usermod (um_relay_update (\<lambda>_. um_relay (fst w))) w = w" for w :: "'a wled" by (cases w) simp
  then show ?thesis
    using assms
    by (simp add: deliver_def sentry_transport_send_def c_transport_def trampoline_send_def usermod_class_def relay_send_def
        usermod_link_def sentry_response_make_def)
qed

lemma new_usermod_alone: "\<not> host_ready (um_relay (usermod_setup mutex))"
  by (simp add: usermod_setup_def host_ready_def RelayTransport_def set_chunk_bytes_def Let_def)

lemma length_envelope_bytes: "length (envelope_bytes envelope n) \<le> n"
  by (simp add: envelope_bytes_def bytes_of_def)

context reliable_storage
begin

text \<open>
  The report of a crash when nothing can be sent. \<open>D\<close> is what the storage and the chip leave alone.
\<close>

lemma report_is_stored:
  fixes m :: "'s micro" and D :: "'s \<Rightarrow> 'd"
  assumes queue: "refines (m_world m, gs_buffer (m_state m)) (q, lost)" "length q < N"
    and fits: "\<And>d. length d < SENTRY_MICRO_ENVELOPE_BUFFER_BYTES \<Longrightarrow> fits d"
    and ready: "gs_enabled (m_state m)" "gs_retry_after_uptime_ms (m_state m) = 0" "gs_buffering (m_state m)"
    and unrouted: "\<And>x e. m_state x = m_state m \<Longrightarrow> D (m_world x) = D (m_world m) \<Longrightarrow>
        deliver p e x = (sentry_response_make SENTRY_SEND_UNAVAILABLE, x)"
    and random: "\<And>w. length (fst (esp_fill_random (pf_esp p) 16 w)) = 16"
    and frames: "\<And>summary. esp_core_dump_get_summary (pf_core_dump p) (m_world m) = Some summary \<Longrightarrow> length (es_bt summary) = 16"
    and chip: "\<forall>v. chip_keeps p (\<lambda>w. ((((inv w, slots w, meta w), D w), stored_dump p w), ()) = v)"
    and flash: "\<forall>v. storage_keeps (Some st) (\<lambda>w. (D w, stored_dump p w) = v)"
    and dump: "snd (sentry_coredump_read (pf_core_dump p) (m_world m))"
  obtains ev m2 body where "is_crash_event p m ev"
    "D (m_world m2) = D (m_world m)" "stored_dump p (m_world m2) = stored_dump p (m_world m)"
    "if snd (sentry_envelope_write (Some ev) None 0) < SENTRY_MICRO_ENVELOPE_BUFFER_BYTES
     then carries body ev \<and> refines (m_world m2, gs_buffer (m_state m2)) (q @ [body], lost) \<and>
       reportCrash p m = (True, erase_dump p m2)
     else refines (m_world m2, gs_buffer (m_state m2)) (q, lost) \<and> reportCrash p m = (True, m2)"
proof -
  from crash_event_cases [OF ready(1) random frames chip] obtain r m1 where
    ev: "crash_event p m = (r, m1)" "r \<noteq> None"
      "\<And>e. r = Some e \<Longrightarrow> is_crash_event p m e \<and> (\<exists>event_id. ev_event_id e = Some event_id \<and> hex_id 32 event_id)"
    and m1: "m_state m1 = m_state m" "(((inv (m_world m1), slots (m_world m1), meta (m_world m1)), D (m_world m1))) =
        ((inv (m_world m), slots (m_world m), meta (m_world m)), D (m_world m))"
      "stored_dump p (m_world m1) = stored_dump p (m_world m)"
    using dump by metis
  obtain e where e: "r = Some e" using ev(2) by blast
  from ev(3) [OF e] obtain event_id where id: "is_crash_event p m e" "ev_event_id e = Some event_id" "hex_id 32 event_id"
    by blast
  obtain envelope needed where
    w: "sentry_envelope_write (Some e) (Some envelope_array) SENTRY_MICRO_ENVELOPE_BUFFER_BYTES = (envelope, needed)"
    by fastforce
  note size = crash_envelope_length [OF id w]
  have q1: "refines (m_world m1, gs_buffer (m_state m1)) (q, lost)"
    using refines_world [OF queue(1), of "m_world m1"] m1(1,2) by simp
  show ?thesis
  proof (cases "needed < SENTRY_MICRO_ENVELOPE_BUFFER_BYTES")
    case False
    then have "reportCrash p m = (True, m1)" using ev(1) e w by (simp add: reportCrash_def)
    with False show ?thesis using that [of e m1 undefined] id(1) m1 q1 size(1) by simp
  next
    case True
    define body where "body = envelope_bytes envelope needed"
    note env = crash_envelope [OF id w True, folded body_def]
    obtain s b ok where push: "sentry_buffer_push body (m_world m1) (gs_buffer (m_state m1)) = (s, b, ok)" by (rule prod_cases3)
    define m2 where "m2 = snd (buffer_push body m1)"
    have m2: "m_world m2 = s" "gs_buffer (m_state m2) = b" "gs_enabled (m_state m2)" "gs_buffering (m_state m2)"
      using push m1(1) ready by (simp_all add: m2_def buffer_push_def)
    have "fits body" using fits le_less_trans [OF length_envelope_bytes True] by (simp add: body_def)
    note stored = push_with_room [OF q1 queue(2) this env(2) push]
    have "sb_storage (gs_buffer (m_state m1)) = Some st" using q1 by (simp add: refines_def holds_def)
    then have "storage_keeps (sb_storage (gs_buffer (m_state m1)))
        (\<lambda>w. (D w, stored_dump p w) = (D (m_world m1), stored_dump p (m_world m1)))"
      by (simp only: flash [rule_format])
    from push_keeps [OF this refl, of body] have keep: "(D s, stored_dump p s) = (D (m_world m1), stored_dump p (m_world m1))"
      by (simp only: push fst_conv)
    have "sentry_send_envelope p (Some body) m1 = (sentry_response_make SENTRY_SEND_UNAVAILABLE, m2)"
      unfolding m2_def using m1(1,2) ready env(2) by (intro unrouted_send unrouted) auto
    moreover have "sentry_buffered_count m1 < sentry_buffered_count m2"
      using stored(3) m1(1) m2 ready(3) by (simp add: sentry_buffered_count_def)
    ultimately have "reportCrash p m = (True, erase_dump p m2)"
      using ev(1) e w True size(2) by (simp add: reportCrash_def body_def [symmetric])
    then show ?thesis
      using that [of e m2 body] id(1) m1 m2 keep stored(2) env(1) size(1) True by simp
  qed
qed

end

section \<open>The parts of the firmware\<close>

text \<open>
  The flash of the NVS and the core dump are beside the usermod: \<open>blob\<close> is what the namespace of the SDK
  holds and \<open>sound\<close> that NVS is in order. What the chip, the console, the NVS and the erasure of a
  core dump do leaves the rest alone.
\<close>

definition parts :: "'v wled platform \<Rightarrow> ('v \<Rightarrow> string \<Rightarrow> bytes option) \<Rightarrow> ('v \<Rightarrow> bool) \<Rightarrow> 'v wled \<Rightarrow>
    usermod \<times> (string \<Rightarrow> bytes option) \<times> bool \<times> Sentry_Coredump_Device.esp_err \<times> esp_core_dump_summary option" where
  "parts p blob sound w = (fst w, blob (snd w), sound (snd w), stored_dump p w)"

lemma parts_eq:
  "parts p blob sound w = parts p blob sound w' \<longleftrightarrow> fst w = fst w' \<and> blob (snd w) = blob (snd w') \<and>
     sound (snd w) = sound (snd w') \<and> stored_dump p w = stored_dump p w'"
  by (auto simp: parts_def)

definition parts_apart ::
    "'v wled platform \<Rightarrow> 'v wled nvs_api \<Rightarrow> 'v wled serial_port option \<Rightarrow> 'v wled sentry_logger_fn option \<Rightarrow>
     ('v \<Rightarrow> string \<Rightarrow> bytes option) \<Rightarrow> ('v \<Rightarrow> bool) \<Rightarrow> bool" where
  "parts_apart p nvs port logger blob sound \<longleftrightarrow>
     (\<forall>v. chip_keeps p (\<lambda>w. parts p blob sound w = v) \<and> loggers_keep port logger (\<lambda>w. parts p blob sound w = v)) \<and>
     (\<forall>v. flash_keeps nvs (\<lambda>w. (fst w, stored_dump p w) = v)) \<and>
     (\<forall>v. keeps (\<lambda>w. (fst w, blob (snd w), sound (snd w)) = v) (\<lambda>w. snd (esp_core_dump_image_erase (pf_core_dump p) w))) \<and>
     (\<forall>f w. stored_dump p (on_usermod f w) = stored_dump p w)"

lemma parts_apartD:
  assumes "parts_apart p nvs port logger blob sound"
  shows "chip_keeps p (\<lambda>w. parts p blob sound w = v)" "loggers_keep port logger (\<lambda>w. parts p blob sound w = v)"
    "flash_keeps nvs (\<lambda>w. (fst w, stored_dump p w) = x)"
    "keeps (\<lambda>w. (fst w, blob (snd w), sound (snd w)) = y) (\<lambda>w. snd (esp_core_dump_image_erase (pf_core_dump p) w))"
    "stored_dump p (on_usermod f w) = stored_dump p w"
  using assms unfolding parts_apart_def by blast+

text \<open>The buffer over the sixteen slots of NVS holds the envelopes \<open>q\<close>, and has dropped \<open>lost\<close>.\<close>

abbreviation flash_queue ::
    "'v wled nvs_api \<Rightarrow> ('v \<Rightarrow> string \<Rightarrow> bytes option) \<Rightarrow> ('v \<Rightarrow> bool) \<Rightarrow> 'v wled \<Rightarrow> 'v wled sentry_buffer \<Rightarrow>
     bytes list \<Rightarrow> nat \<Rightarrow> bool" where
  "flash_queue nvs blob sound w b q lost \<equiv>
     reliable_storage.refines (nvs_write nvs) (nvs_read nvs) (nvs_erase nvs) (nvs_load_meta nvs) (nvs_save_meta nvs) 16
       (nvs_slots (\<lambda>w. blob (snd w))) (nvs_meta (\<lambda>w. blob (snd w))) (\<lambda>w. sound (snd w)) (w, b) (q, lost)"

text \<open>
  What the next boot finds: after a reset that leaves what the flash has stored, and nothing else that
  is known, the SDK's buffer over the sixteen slots comes up with the envelopes \<open>q\<close>.
\<close>

definition waits_in_flash ::
    "'v wled nvs_api \<Rightarrow> ('v \<Rightarrow> string \<Rightarrow> bytes option) \<Rightarrow> ('v \<Rightarrow> bool) \<Rightarrow> 'v wled \<Rightarrow> bytes list \<Rightarrow> nat \<Rightarrow> bool" where
  "waits_in_flash nvs blob sound w q lost \<longleftrightarrow>
     (\<forall>v. sound (snd v) \<and> blob (snd v) = blob (snd w) \<longrightarrow>
        (case sentry_buffer_init (Some (storage_of (nvs_write nvs) (nvs_read nvs) (nvs_erase nvs) (nvs_load_meta nvs)
            (nvs_save_meta nvs) 16)) v of
           (v', b, ok) \<Rightarrow> ok \<and> flash_queue nvs blob sound v' b q lost))"

lemma queue_waits:
  fixes w :: "'v wled"
  assumes flash: "working_flash nvs (\<lambda>w. blob (snd w)) view opened (\<lambda>w. sound (snd w)) 16 fits"
    and queue: "flash_queue nvs blob sound w b q lost" "length q < 16"
  shows "waits_in_flash nvs blob sound w q lost"
proof -
  note reliable = working_flash.adapter_is_reliable [OF flash]
  have inv: "sound (snd w)"
    using queue(1) slot_storage.holds_def [OF reliable_storage.axioms(1) [OF reliable]]
    by (simp add: reliable_storage.refines_def [OF reliable])
  show ?thesis
    unfolding waits_in_flash_def
  proof (intro allI impI)
    let ?st = "storage_of (nvs_write nvs) (nvs_read nvs) (nvs_erase nvs) (nvs_load_meta nvs) (nvs_save_meta nvs) 16"
    fix v :: "'v wled" assume v: "sound (snd v) \<and> blob (snd v) = blob (snd w)"
    obtain v' b' ok where boot: "sentry_buffer_init (Some ?st) v = (v', b', ok)" by (rule prod_cases3)
    have "flash_queue nvs blob sound v b q lost"
      by (rule reliable_storage.refines_world [OF reliable queue(1)]) (simp_all add: v inv nvs_slots_def nvs_meta_def fun_eq_iff)
    from reliable_storage.boot_finds [OF reliable this _ boot] queue(2)
    show "case sentry_buffer_init (Some ?st) v of (v', b, ok) \<Rightarrow> ok \<and> flash_queue nvs blob sound v' b q lost"
      by (simp add: boot)
  qed
qed

abbreviation with_lock :: "bool \<Rightarrow> 'v wled program \<Rightarrow> 'v wled program" where
  "with_lock mutex g \<equiv> on_world (on_usermod (um_queueLock_update (\<lambda>_. mutex))) g"

lemma debug_log_keeps:
  assumes "loggers_keep port logger P" and "g_logger g = logger_after port options logger" and "P (m_world (pg_micro g))"
  shows "P (m_world (pg_micro (debug_log text g)))"
proof -
  have "m_world (pg_micro (debug_log text g)) =
      hears (logger_after port options logger) (op_debug (gs_options (m_state (pg_micro g)))) [text] (m_world (pg_micro g))"
    using assms(2) by (simp add: debug_log_def hears_def split: option.split)
  then show ?thesis using hears_keeps [OF assms(1,3)] by simp
qed

text \<open>The SDK when \<open>setup\<close> comes to its report: the flash as it was, the usermod as it has set it up.\<close>

lemma setup_before_report:
  fixes g :: "'v wled program"
  assumes flash: "working_flash nvs (\<lambda>w. blob (snd w)) view opened (\<lambda>w. sound (snd w)) 16 fits"
    and apart: "parts_apart p nvs port (g_logger g) blob sound"
    and new: "fst (m_world (pg_micro g)) = UsermodSentry"
    and init: "sentry_init p (Some (usermod_options fw p)) (pg_micro (with_lock mutex g)) = (True, m1)"
    and queue: "flash_queue nvs blob sound (m_world (pg_micro g)) b0 q lost" "length q < 16"
  obtains m dsn where "pg_micro (wled_setup fw io port nvs mutex p g) = report_at_boot p m"
    "fst (m_world m) = usermod_setup mutex" "stored_dump p (m_world m) = stored_dump p (m_world (pg_micro g))"
    "flash_queue nvs blob sound (m_world m) (gs_buffer (m_state m)) q lost"
    "gs_enabled (m_state m)" "gs_retry_after_uptime_ms (m_state m) = 0" "gs_buffering (m_state m)"
    "gs_crash_trace (m_state m) = gs_crash_trace (m_state m1)"
    "gs_transport (m_state m) = Some (c_transport (usermod_class io dsn))"
proof -
  let ?V = "parts p blob sound"
  let ?opts = "usermod_options fw p" and ?w = "m_world (pg_micro g)" and ?w0 = "m_world (pg_micro (with_lock mutex g))"
  let ?logger = "logger_after port ?opts (g_logger g)" and ?st = "storage_of (nvs_write nvs) (nvs_read nvs) (nvs_erase nvs)
    (nvs_load_meta nvs) (nvs_save_meta nvs) 16"
  note dump = parts_apartD(5) [OF apart] and loggers = parts_apartD(2) [OF apart]
  note reliable = working_flash.adapter_is_reliable [OF flash]
  define g2 where "g2 = snd (cxx_init port p ?opts (with_lock mutex g))"
  have g2: "g2 = said ((with_lock mutex g)\<lparr>g_logger := ?logger\<rparr>) (init_lines ?opts True m1) m1"
    using init by (simp add: g2_def cxx_init_said)
  have w2: "?V (m_world (pg_micro g2)) = ?V ?w0"
    using hears_keeps [OF loggers [of "?V ?w0"] refl] init_keeps(2) [OF init] by (simp add: g2 said_def)
  have st2: "m_state (pg_micro g2) = m_state m1" "g_logger g2 = ?logger" by (simp_all add: g2 said_def)
  note refines = reliable_storage.refines_def [OF reliable] and moved = reliable_storage.refines_world [OF reliable]
  have "sound (snd (m_world (pg_micro g2)))"
    using queue(1) w2 reliable slot_storage.holds_def [OF reliable_storage.axioms(1) [OF reliable]] by (simp add: refines parts_eq)
  then obtain w' h where "open_handle nvs (m_world (pg_micro g2)) = (w', Some h)" "sound (snd w')" "opened w' h"
    "blob (snd w') = blob (snd (m_world (pg_micro g2)))" "view w' h = blob (snd (m_world (pg_micro g2)))"
    by (rule working_flash.handle_had [OF flash])
  then have nvs: "sentry_storage_nvs nvs 16 (m_world (pg_micro g2)) = (nv_close nvs w' h, Some ?st)"
    and closed: "sound (snd (nv_close nvs w' h))" "blob (snd (nv_close nvs w' h)) = blob (snd (m_world (pg_micro g2)))"
    using nvs_flash.close_unchanged [OF working_flash.axioms(1) [OF flash], of w' h]
    by (simp_all add: sentry_storage_nvs_def SENTRY_NVS_MAX_SLOTS_def)
  let ?w3 = "nv_close nvs w' h"
  have "(fst ?w3, stored_dump p ?w3) = (fst (m_world (pg_micro g2)), stored_dump p (m_world (pg_micro g2)))"
    using nvs_operations_keep(6) [OF parts_apartD(3) [OF apart] refl, of 16 "m_world (pg_micro g2)"] nvs by simp
  then have w3: "?V ?w3 = ?V ?w0" using w2 closed \<open>sound (snd (m_world (pg_micro g2)))\<close> by (simp add: parts_eq)
  obtain w4 b ok where boot: "sentry_buffer_init (Some ?st) ?w3 = (w4, b, ok)" by (rule prod_cases3)
  have "flash_queue nvs blob sound ?w3 b0 q lost"
    by (rule moved [OF queue(1)]) (use w3 in \<open>simp_all add: parts_eq nvs_slots_def nvs_meta_def fun_eq_iff\<close>)
  from reliable_storage.boot_finds [OF reliable this _ boot] queue(2)
  have "ok" and q4: "flash_queue nvs blob sound w4 b q lost" by simp_all
  have "(fst w4, stored_dump p w4) = (fst ?w3, stored_dump p ?w3)"
    using nvs_operations_keep(4) [OF parts_apartD(3) [OF apart] refl, of ?w3] boot
    by (auto simp: sentry_buffer_init_def storage_of_def Let_def case_prod_beta split: if_splits option.splits)
  then have w4: "fst w4 = UsermodSentry\<lparr>um_queueLock := mutex\<rparr>" "stored_dump p w4 = stored_dump p ?w"
    using w3 new by (simp_all add: parts_eq dump)
  define g4 where "g4 = on_world (on_usermod (um_relay_update (set_chunk_bytes kRelayChunkBytes)))
    (on_micro (\<lambda>m. snd (sentry_enable_buffering (Some ?st) (m\<lparr>m_world := ?w3\<rparr>))) g2)"
  have g4: "m_world (pg_micro g4) = on_usermod (um_relay_update (set_chunk_bytes kRelayChunkBytes)) w4"
    "m_state (pg_micro g4) = (m_state m1)\<lparr>gs_buffer := b, gs_buffering := True\<rparr>" "g_logger g4 = ?logger"
    using boot \<open>ok\<close> st2 by (simp_all add: g4_def sentry_enable_buffering_def)
  define route where "route = usermod_class io (cxx_dsn (pg_micro g4))"
  define m where "m = pg_micro (cxx_set_transport route g4)"
  have "wled_setup fw io port nvs mutex p g = on_micro (report_at_boot p) (cxx_set_transport route g4)"
    by (simp add: wled_setup_def g2_def [symmetric] nvs g4_def route_def Let_def)
  then have run: "pg_micro (wled_setup fw io port nvs mutex p g) = report_at_boot p m" by (simp add: m_def)
  have state: "m_state m = (m_state m1)\<lparr>gs_buffer := b, gs_buffering := True, gs_transport := Some (c_transport route)\<rparr>"
    by (simp add: m_def cxx_set_transport_def sentry_set_transport_logged_def sentry_set_transport_def Let_def g4(2))
  have "?V (m_world m) = ?V (m_world (pg_micro g4))"
    unfolding m_def cxx_set_transport_def sentry_set_transport_logged_def Let_def
    by (rule debug_log_keeps [OF loggers]) (simp_all add: g4(3) sentry_set_transport_def)
  then have world: "fst (m_world m) = usermod_setup mutex" "stored_dump p (m_world m) = stored_dump p ?w"
    "blob (snd (m_world m)) = blob (snd w4)" "sound (snd (m_world m)) = sound (snd w4)"
    using w4 by (simp_all add: parts_eq g4(1) usermod_setup_fields dump)
  have "flash_queue nvs blob sound (m_world m) (gs_buffer (m_state m)) q lost"
    using moved [OF q4, of "m_world m"] world(3,4) by (simp add: state nvs_slots_def nvs_meta_def fun_eq_iff)
  with run world(1,2) state init_ready [OF init] show ?thesis
    by (intro that [of m "cxx_dsn (pg_micro g4)"]) (simp_all add: route_def dump)
qed

lemma chip_keeps_through:
  assumes "\<And>v. chip_keeps p (\<lambda>w. f w = v)" and "\<And>w. h w = k (f w)"
  shows "\<forall>u. chip_keeps p (\<lambda>w. h w = u)"
  using chip_keeps_part [of p f k] assms(1) by (simp add: assms(2))

lemma nvs_storage_keeps:
  assumes "flash_keeps api P"
  shows "storage_keeps (Some (storage_of (nvs_write api) (nvs_read api) (nvs_erase api) (nvs_load_meta api) (nvs_save_meta api) n)) P"
  by (simp add: storage_keeps_def keeps_def nvs_operations_keep [OF assms])

lemma crash_stored_by_setup:
  fixes g :: "'v wled program"
  assumes flash: "working_flash nvs (\<lambda>w. blob (snd w)) view opened (\<lambda>w. sound (snd w)) 16
      (\<lambda>d. length d < SENTRY_MICRO_ENVELOPE_BUFFER_BYTES)"
    and apart: "parts_apart p nvs port (g_logger g) blob sound"
    and new: "fst (m_world (pg_micro g)) = UsermodSentry"
    and init: "sentry_init p (Some (usermod_options fw p)) (pg_micro (with_lock mutex g)) = (True, m1)"
    and queue: "flash_queue nvs blob sound (m_world (pg_micro g)) b0 q lost" "length q < 16"
    and random: "\<And>w. length (fst (esp_fill_random (pf_esp p) 16 w)) = 16"
    and frames: "\<And>summary. snd (stored_dump p (m_world (pg_micro g))) = Some summary \<Longrightarrow> length (es_bt summary) = 16"
    and dump: "snd (sentry_coredump_read (pf_core_dump p) (m_world (pg_micro g)))"
  shows "case pg_micro (wled_setup fw io port nvs mutex p g) of m' \<Rightarrow>
    fst (m_world m') = usermod_setup mutex \<and>
    (\<exists>ev body w. is_crash_event p m1 ev \<and> stored_dump p w = stored_dump p (m_world (pg_micro g)) \<and>
      (if snd (sentry_envelope_write (Some ev) None 0) < SENTRY_MICRO_ENVELOPE_BUFFER_BYTES
       then carries body ev \<and> flash_queue nvs blob sound (m_world m') (gs_buffer (m_state m')) (q @ [body]) lost \<and>
         m_world m' = snd (sentry_coredump_erase (pf_core_dump p) w)
       else flash_queue nvs blob sound (m_world m') (gs_buffer (m_state m')) q lost \<and> m_world m' = w))"
proof -
  let ?w = "m_world (pg_micro g)"
  note reliable = working_flash.adapter_is_reliable [OF flash]
  from setup_before_report [OF flash apart new init queue] obtain m dsn where
    run: "pg_micro (wled_setup fw io port nvs mutex p g) = report_at_boot p m"
    and m: "fst (m_world m) = usermod_setup mutex" "stored_dump p (m_world m) = stored_dump p ?w"
      "flash_queue nvs blob sound (m_world m) (gs_buffer (m_state m)) q lost"
      "gs_enabled (m_state m)" "gs_retry_after_uptime_ms (m_state m) = 0" "gs_buffering (m_state m)"
      "gs_crash_trace (m_state m) = gs_crash_trace (m_state m1)"
      "gs_transport (m_state m) = Some (c_transport (usermod_class io dsn))"
    by metis
  have read: "sentry_coredump_read (pf_core_dump p) (m_world m) = sentry_coredump_read (pf_core_dump p) ?w"
    by (rule read_stored [OF m(2)])
  have "sentry_coredump_read (pf_core_dump p) (m_world m1) = sentry_coredump_read (pf_core_dump p) ?w"
    using init_keeps(2) [OF init] parts_apartD(5) [OF apart] by (intro read_stored) simp
  then have same: "is_crash_event p m ev \<longleftrightarrow> is_crash_event p m1 ev" for ev
    by (simp only: is_crash_event_def read m(7))
  have unrouted: "deliver p e x = (sentry_response_make SENTRY_SEND_UNAVAILABLE, x)"
    if "m_state x = m_state m" "fst (m_world x) = fst (m_world m)" for x e
    by (rule no_host_no_send) (simp_all add: that m(1,8) new_usermod_alone)
  have chip: "\<forall>v. chip_keeps p (\<lambda>w. ((((sound (snd w), nvs_slots (\<lambda>w. blob (snd w)) w, nvs_meta (\<lambda>w. blob (snd w)) w), fst w),
      stored_dump p w), ()) = v)"
    by (rule chip_keeps_through [OF parts_apartD(1) [OF apart], where k =
          "\<lambda>(u, b, s, d). ((((s, nvs_slots (\<lambda>_. b) (), nvs_meta (\<lambda>_. b) ()), u), d), ())"])
      (simp add: parts_def nvs_slots_def [abs_def] nvs_meta_def)
  have storage: "\<forall>v. storage_keeps (Some (storage_of (nvs_write nvs) (nvs_read nvs) (nvs_erase nvs) (nvs_load_meta nvs)
      (nvs_save_meta nvs) 16)) (\<lambda>w. (fst w, stored_dump p w) = v)"
    by (intro allI nvs_storage_keeps parts_apartD(3) [OF apart])
  have summary: "length (es_bt summary) = 16" if "esp_core_dump_get_summary (pf_core_dump p) (m_world m) = Some summary" for summary
    using frames that m(2) by (simp add: stored_dump_def)
  have room: "length q < unat (16 :: u32)" using queue(2) by simp
  show ?thesis
  proof (rule reliable_storage.report_is_stored [OF reliable m(3) room _ m(4-6), where D = fst and p = p])
    show "\<forall>v. chip_keeps p (\<lambda>w. ((((sound (snd w), nvs_slots (\<lambda>w. blob (snd w)) w, nvs_meta (\<lambda>w. blob (snd w)) w), fst w),
      stored_dump p w), ()) = v)" by (rule chip)
    show "snd (sentry_coredump_read (pf_core_dump p) (m_world m))" unfolding read by (rule dump)
  next
    fix ev m2 body
    assume ev: "is_crash_event p m ev" "fst (m_world m2) = fst (m_world m)"
      "stored_dump p (m_world m2) = stored_dump p (m_world m)"
      "if snd (sentry_envelope_write (Some ev) None 0) < SENTRY_MICRO_ENVELOPE_BUFFER_BYTES
       then carries body ev \<and> flash_queue nvs blob sound (m_world m2) (gs_buffer (m_state m2)) (q @ [body]) lost \<and>
         reportCrash p m = (True, erase_dump p m2)
       else flash_queue nvs blob sound (m_world m2) (gs_buffer (m_state m2)) q lost \<and> reportCrash p m = (True, m2)"
    have w: "fst (m_world m2) = usermod_setup mutex" "stored_dump p (m_world m2) = stored_dump p ?w"
      using ev(2,3) m(1,2) by simp_all
    let ?e = "snd (sentry_coredump_erase (pf_core_dump p) (m_world m2))"
    have e: "fst ?e = fst (m_world m2)" "blob (snd ?e) = blob (snd (m_world m2))" "sound (snd ?e) = sound (snd (m_world m2))"
      using parts_apartD(4) [OF apart, unfolded keeps_def, rule_format, OF refl, of "m_world m2"]
      by (simp_all add: sentry_coredump_erase_def case_prod_beta)
    have kept: "flash_queue nvs blob sound ?e b x y" if "flash_queue nvs blob sound (m_world m2) b x y" for b x y
      by (rule reliable_storage.refines_world [OF reliable that]) (simp_all add: e nvs_slots_def nvs_meta_def fun_eq_iff)
    show ?thesis
    proof (cases "snd (sentry_envelope_write (Some ev) None 0) < SENTRY_MICRO_ENVELOPE_BUFFER_BYTES")
      case True
      then have "report_at_boot p m = erase_dump p m2" using ev(4) by (simp add: report_at_boot_def)
      then show ?thesis
        unfolding run using True ev(1,4) w e(1) kept same
        by (intro conjI exI [of _ ev] exI [of _ body] exI [of _ "m_world m2"]) simp_all
    next
      case False
      then have "report_at_boot p m = m2" using ev(4) by (simp add: report_at_boot_def)
      then show ?thesis
        unfolding run using False ev(1,4) w same
        by (intro conjI exI [of _ ev] exI [of _ body] exI [of _ "m_world m2"]) simp_all
    qed
  qed (rule unrouted random summary storage; assumption | assumption)+
qed

section \<open>Properties\<close>

text \<open>
  C40: The status page is JSON and says what the SDK knows. Whatever the state of the SDK, as long as the DSN
  of the build and its release are printable text without quotes and backslashes: a reader
  of JSON takes the page, and finds in it, under their names and in order, whether the SDK is enabled, the ingest host and
  the project of a valid DSN, the release, whether a page is attached, the envelopes waiting and
  dropped, what is known of a core dump, and the seconds since boot.
\<close>

theorem status_page_reads_back:
  assumes "SENTRY_DSN fw = Some dsn" and "plain dsn" and "plain (cptr_text (SENTRY_RELEASE fw))"
    and "ds_valid (sentry_get_dsn m) \<Longrightarrow> sentry_dsn_parse (SENTRY_DSN fw) = (sentry_get_dsn m, True)"
  shows "read_json (statusJson fw p now m) = Some (status_document fw p now m)"
proof -
  have "ds_valid (sentry_get_dsn m) \<Longrightarrow> sentry_dsn_parse (Some dsn) = (sentry_get_dsn m, True)"
    using assms(1,4) by simp
  from status_is_json [OF assms(3,2) this] show ?thesis by (simp add: read_json_text)
qed

theorem status_page_reads_back_witness:
  "read_json (statusJson (sample_firmware ''wled@1'') (sample_platform no_core_dump) 61000
     (sample_wled\<lparr>m_state := state_zero\<lparr>gs_enabled := True, gs_dsn := fst (sentry_dsn_parse (Some ''https://k@h/1''))\<rparr>\<rparr>)) =
   Some (JObject [(''enabled'', JBool True), (''host'', JString ''h''), (''project'', JString ''1''),
     (''release'', JString ''wled@1''), (''attached'', JBool False), (''buffered'', JNumber ''0''), (''dropped'', JNumber ''0''),
     (''coredumpSupported'', JBool False), (''coredumpAvailable'', JBool False), (''uptime'', JNumber ''61'')])"
proof -
  let ?m = "sample_wled\<lparr>m_state := state_zero\<lparr>gs_enabled := True, gs_dsn := fst (sentry_dsn_parse (Some ''https://k@h/1''))\<rparr>\<rparr>"
  have parsed: "snd (sentry_dsn_parse (Some ''https://k@h/1''))" "ds_host (fst (sentry_dsn_parse (Some ''https://k@h/1''))) = ''h''"
    "ds_project_id (fst (sentry_dsn_parse (Some ''https://k@h/1''))) = ''1''" "ds_valid (fst (sentry_dsn_parse (Some ''https://k@h/1'')))"
    by code_simp+
  have dec: "dec 0 = ''0''" "dec 61 = ''61''" by code_simp+
  have "read_json (statusJson (sample_firmware ''wled@1'') (sample_platform no_core_dump) 61000 ?m) =
      Some (status_document (sample_firmware ''wled@1'') (sample_platform no_core_dump) 61000 ?m)"
  proof (rule status_page_reads_back)
    show "SENTRY_DSN (sample_firmware ''wled@1'') = Some ''https://k@h/1''" by (simp add: sample_firmware_def)
    show "plain ''https://k@h/1''" "plain (cptr_text (SENTRY_RELEASE (sample_firmware ''wled@1'')))"
      by (simp_all add: plain_def sample_firmware_def cptr_text_def)
    show "sentry_dsn_parse (SENTRY_DSN (sample_firmware ''wled@1'')) = (sentry_get_dsn ?m, True)"
      using parsed(1) by (simp add: sample_firmware_def sentry_get_dsn_def prod_eq_iff)
  qed
  then show ?thesis
    using parsed dec
    by (simp add: status_document_def sentry_get_dsn_def sentry_is_enabled_def sample_firmware_def sample_wled_def
        host_ready_def UsermodSentry_def RelayTransport_def sentry_buffered_count_def sentry_dropped_count_def
        sentry_coredump_is_supported_def sentry_coredump_available_def sample_platform_def no_core_dump_def Let_def
        cptr_text_def)
qed

text \<open>
  C4: A crash of the WLED firmware waits in flash for a browser. On a device that comes up after a panic, with NVS that works
  and room for one more envelope in it, and a DSN the SDK accepts: when \<open>setup\<close> returns, no page is attached, no frame
  is queued and nobody has been waited for, since the usermod is as \<open>setup\<close> made it; the envelopes that an earlier boot left
  are all still in the queue, in order; behind them is the report of the crash, which reads back as the fatal event of the
  dump with its message and the trace that was active; and only then the dump has been erased. The queue is in flash and not
  in the memory of an NVS handle: whatever state a reset leaves, as long as the flash stores what it had committed by
  then, the next boot finds these envelopes; what is not committed may be lost. The exception is a ring of which every slot
  is in use, which a boot takes for an empty one, so this needs a second free slot. A report too large for the array of the
  stack leaves the flash and the dump as they were.
\<close>

theorem crash_waits_in_flash:
  assumes "working_flash nvs (\<lambda>w. blob (snd w)) view opened (\<lambda>w. sound (snd w)) 16
      (\<lambda>d. length d < SENTRY_MICRO_ENVELOPE_BUFFER_BYTES)"
    and "parts_apart p nvs port (g_logger g) blob sound"
    and "fst (m_world (pg_micro g)) = UsermodSentry"
    and "sentry_init p (Some (usermod_options fw p)) (pg_micro (with_lock mutex g)) = (True, m1)"
    and "flash_queue nvs blob sound (m_world (pg_micro g)) b0 q lost" and "length q < 16"
    and "\<And>w. length (fst (esp_fill_random (pf_esp p) 16 w)) = 16"
    and "\<And>summary. snd (stored_dump p (m_world (pg_micro g))) = Some summary \<Longrightarrow> length (es_bt summary) = 16"
    and "snd (sentry_coredump_read (pf_core_dump p) (m_world (pg_micro g)))"
  shows "case pg_micro (wled_setup fw io port nvs mutex p g) of m' \<Rightarrow>
    fst (m_world m') = usermod_setup mutex \<and>
    (\<exists>ev body w. is_crash_event p m1 ev \<and> stored_dump p w = stored_dump p (m_world (pg_micro g)) \<and>
      (if snd (sentry_envelope_write (Some ev) None 0) < SENTRY_MICRO_ENVELOPE_BUFFER_BYTES
       then carries body ev \<and> flash_queue nvs blob sound (m_world m') (gs_buffer (m_state m')) (q @ [body]) lost \<and>
         (length q < 15 \<longrightarrow> waits_in_flash nvs blob sound (m_world m') (q @ [body]) lost) \<and>
         m_world m' = snd (sentry_coredump_erase (pf_core_dump p) w)
       else flash_queue nvs blob sound (m_world m') (gs_buffer (m_state m')) q lost \<and>
         waits_in_flash nvs blob sound (m_world m') q lost \<and> m_world m' = w))"
proof -
  have waits: "flash_queue nvs blob sound w b x lost \<Longrightarrow> length x < 16 \<Longrightarrow> waits_in_flash nvs blob sound w x lost" for w b x
    by (rule queue_waits [OF assms(1)])
  let ?m' = "pg_micro (wled_setup fw io port nvs mutex p g)"
  from crash_stored_by_setup [OF assms, of io] obtain ev body w where alone: "fst (m_world ?m') = usermod_setup mutex"
    and ev: "is_crash_event p m1 ev" "stored_dump p w = stored_dump p (m_world (pg_micro g))"
    and stored: "if snd (sentry_envelope_write (Some ev) None 0) < SENTRY_MICRO_ENVELOPE_BUFFER_BYTES
       then carries body ev \<and> flash_queue nvs blob sound (m_world ?m') (gs_buffer (m_state ?m')) (q @ [body]) lost \<and>
         m_world ?m' = snd (sentry_coredump_erase (pf_core_dump p) w)
       else flash_queue nvs blob sound (m_world ?m') (gs_buffer (m_state ?m')) q lost \<and> m_world ?m' = w"
    by blast
  have more: "length (q @ [body]) < 16 \<longleftrightarrow> length q < 15" by simp
  show ?thesis
  proof (cases "snd (sentry_envelope_write (Some ev) None 0) < SENTRY_MICRO_ENVELOPE_BUFFER_BYTES")
    case True
    note st = stored [unfolded if_P [OF True]]
    then have "length q < 15 \<longrightarrow> waits_in_flash nvs blob sound (m_world ?m') (q @ [body]) lost" using waits more by blast
    with st alone ev show ?thesis
      by (intro conjI exI [of _ ev] exI [of _ body] exI [of _ w]; (subst if_P [OF True])?; blast)
  next
    case False
    note st = stored [unfolded if_not_P [OF False]]
    then have "waits_in_flash nvs blob sound (m_world ?m') q lost" using waits assms(6) by blast
    with st alone ev show ?thesis
      by (intro conjI exI [of _ ev] exI [of _ body] exI [of _ w]; (subst if_not_P [OF False])?; blast)
  qed
qed

text \<open>NVS as a map beside the usermod, and a device that panicked.\<close>

definition wled_nvs :: "map_flash wled nvs_api" where
  "wled_nvs =
     \<lparr>nv_open = (\<lambda>w ns. case nv_open map_nvs (snd w) ns of (v, r) \<Rightarrow> ((fst w, v), r)),
      nv_set_blob = (\<lambda>w h k d. case nv_set_blob map_nvs (snd w) h k d of (v, r) \<Rightarrow> ((fst w, v), r)),
      nv_get_blob = (\<lambda>w h k cap. case nv_get_blob map_nvs (snd w) h k cap of (v, r) \<Rightarrow> ((fst w, v), r)),
      nv_erase_key = (\<lambda>w h k. case nv_erase_key map_nvs (snd w) h k of (v, r) \<Rightarrow> ((fst w, v), r)),
      nv_commit = (\<lambda>w h. case nv_commit map_nvs (snd w) h of (v, r) \<Rightarrow> ((fst w, v), r)),
      nv_close = (\<lambda>w h. (fst w, nv_close map_nvs (snd w) h))\<rparr>"

interpretation wled_flash: working_flash wled_nvs "\<lambda>w. map_stored (snd w)" "\<lambda>w. map_view (snd w)" "\<lambda>w h. True" "\<lambda>w. True" 16
  "\<lambda>d. length d < SENTRY_MICRO_ENVELOPE_BUFFER_BYTES"
  by unfold_locales
    (auto simp: wled_nvs_def map_nvs_def SENTRY_MICRO_ENVELOPE_BUFFER_BYTES_def SENTRY_NVS_NAMESPACE_def
      ESP_OK_def ESP_ERR_NVS_NOT_FOUND_def split: option.splits if_splits)

definition panicked :: "'w esp_core_dump" where
  "panicked =
     \<lparr>SENTRY_COREDUMP_SUPPORTED = True, SENTRY_COREDUMP_ARCH_RISCV = False,
      esp_core_dump_image_check = (\<lambda>w. esp_core_dump_image_check sample_core_dump ()),
      esp_core_dump_get_summary = (\<lambda>w. esp_core_dump_get_summary sample_core_dump ()),
      esp_core_dump_image_erase = (\<lambda>w. (fst (esp_core_dump_image_erase sample_core_dump ()), w))\<rparr>"

definition idle_tasks :: "'w wled_tasks" where
  "idle_tasks = \<lparr>xSemaphoreTake = (\<lambda>w. (True, w)), other_tasks = (\<lambda>w. (w, [])),
     default_wait = (\<lambda>ms w. (w, [])), default_clock = (\<lambda>w. (0, w))\<rparr>"

definition new_program :: "map_flash wled program" where
  "new_program = \<lparr>pg_micro = power_on sample_rtc (UsermodSentry, (\<lambda>_. None, \<lambda>_. None)), g_logger = None\<rparr>"

theorem crash_waits_in_flash_witness:
  "case pg_micro (wled_setup (sample_firmware ''wled@1'') idle_tasks None wled_nvs True (sample_platform panicked) new_program) of m' \<Rightarrow>
     fst (m_world m') = usermod_setup True \<and>
     (\<exists>(m1 :: map_flash wled micro) ev body.
        is_crash_event (sample_platform panicked :: map_flash wled platform) m1 ev \<and>
       (if snd (sentry_envelope_write (Some ev) None 0) < SENTRY_MICRO_ENVELOPE_BUFFER_BYTES
        then carries body ev \<and> waits_in_flash wled_nvs map_stored (\<lambda>_. True) (m_world m') [body] 0
        else flash_queue wled_nvs map_stored (\<lambda>_. True) (m_world m') (gs_buffer (m_state m')) [] 0))"
proof -
  let ?p = "sample_platform panicked :: map_flash wled platform" and ?fw = "sample_firmware ''wled@1''"
  have apart: "parts_apart ?p wled_nvs None (g_logger new_program) map_stored (\<lambda>_. True)"
    by (simp add: parts_apart_def parts_def chip_keeps_def keeps_def loggers_keep_def flash_keeps_def stored_dump_def
        sample_platform_def sample_esp_def panicked_def wled_nvs_def new_program_def case_prod_beta)
  have "snd (sentry_dsn_parse (op_dsn (usermod_options ?fw ?p)))"
    by (simp add: usermod_options_def sample_firmware_def) code_simp
  then obtain m1 where init: "sentry_init ?p (Some (usermod_options ?fw ?p)) (pg_micro (with_lock True new_program)) = (True, m1)"
    by (cases rule: init_cases [of "Some (usermod_options ?fw ?p)" ?p "pg_micro (with_lock True new_program)"]) auto
  obtain w b ok where boot: "sentry_buffer_init (Some (storage_of (nvs_write wled_nvs) (nvs_read wled_nvs) (nvs_erase wled_nvs)
      (nvs_load_meta wled_nvs) (nvs_save_meta wled_nvs) 16)) (m_world (pg_micro new_program)) = (w, b, ok)"
    by (rule prod_cases3)
  have "nvs_meta (\<lambda>w. map_stored (snd w)) (m_world (pg_micro new_program)) = None"
    by (simp add: nvs_meta_def new_program_def power_on_def)
  from wled_flash.nvsr.refines_boot(1) [OF _ this boot]
  have "flash_queue wled_nvs map_stored (\<lambda>_. True) w b [] 0" by simp
  moreover have "w = m_world (pg_micro new_program)"
    using boot by (auto simp: sentry_buffer_init_def storage_of_def nvs_load_meta_def open_handle_def wled_nvs_def map_nvs_def
        Let_def case_prod_beta new_program_def power_on_def split: if_splits option.splits)
  ultimately have queue: "flash_queue wled_nvs map_stored (\<lambda>_. True) (m_world (pg_micro new_program)) b [] 0" by simp
  have new: "fst (m_world (pg_micro new_program)) = UsermodSentry" by (simp add: new_program_def power_on_def)
  have chip: "length (fst (esp_fill_random (pf_esp ?p) 16 w)) = 16" for w
    by (simp add: sample_platform_def sample_esp_def)
  have dump: "snd (stored_dump ?p w) = Some summary \<Longrightarrow> length (es_bt summary) = 16" "snd (sentry_coredump_read (pf_core_dump ?p) w)"
    for w summary
    by (auto simp: stored_dump_def sample_platform_def panicked_def sample_core_dump_def sentry_coredump_read_def Let_def)
  let ?m' = "pg_micro (wled_setup ?fw idle_tasks None wled_nvs True ?p new_program)"
  have room: "length ([] :: bytes list) < 16" by simp
  have frames: "length (es_bt summary) = 16" if "snd (stored_dump ?p (m_world (pg_micro new_program))) = Some summary" for summary
    using that by (rule dump(1))
  have "case ?m' of m' \<Rightarrow> fst (m_world m') = usermod_setup True \<and>
    (\<exists>ev body w. is_crash_event ?p m1 ev \<and> stored_dump ?p w = stored_dump ?p (m_world (pg_micro new_program)) \<and>
      (if snd (sentry_envelope_write (Some ev) None 0) < SENTRY_MICRO_ENVELOPE_BUFFER_BYTES
       then carries body ev \<and> flash_queue wled_nvs map_stored (\<lambda>_. True) (m_world m') (gs_buffer (m_state m')) ([] @ [body]) 0 \<and>
         (length ([] :: bytes list) < 15 \<longrightarrow> waits_in_flash wled_nvs map_stored (\<lambda>_. True) (m_world m') ([] @ [body]) 0) \<and>
         m_world m' = snd (sentry_coredump_erase (pf_core_dump ?p) w)
       else flash_queue wled_nvs map_stored (\<lambda>_. True) (m_world m') (gs_buffer (m_state m')) [] 0 \<and>
         waits_in_flash wled_nvs map_stored (\<lambda>_. True) (m_world m') [] 0 \<and> m_world m' = w))"
    by (rule crash_waits_in_flash [OF wled_flash.working_flash_axioms apart new init queue room chip frames dump(2)])
  then obtain ev body w where alone: "fst (m_world ?m') = usermod_setup True" and ev: "is_crash_event ?p m1 ev"
    and result: "if snd (sentry_envelope_write (Some ev) None 0) < SENTRY_MICRO_ENVELOPE_BUFFER_BYTES
       then carries body ev \<and> flash_queue wled_nvs map_stored (\<lambda>_. True) (m_world ?m') (gs_buffer (m_state ?m')) [body] 0 \<and>
         (length ([] :: bytes list) < 15 \<longrightarrow> waits_in_flash wled_nvs map_stored (\<lambda>_. True) (m_world ?m') [body] 0) \<and>
         m_world ?m' = snd (sentry_coredump_erase (pf_core_dump ?p) w)
       else flash_queue wled_nvs map_stored (\<lambda>_. True) (m_world ?m') (gs_buffer (m_state ?m')) [] 0 \<and>
         waits_in_flash wled_nvs map_stored (\<lambda>_. True) (m_world ?m') [] 0 \<and> m_world ?m' = w"
    unfolding append_Nil by blast
  have "if snd (sentry_envelope_write (Some ev) None 0) < SENTRY_MICRO_ENVELOPE_BUFFER_BYTES
       then carries body ev \<and> waits_in_flash wled_nvs map_stored (\<lambda>_. True) (m_world ?m') [body] 0
       else flash_queue wled_nvs map_stored (\<lambda>_. True) (m_world ?m') (gs_buffer (m_state ?m')) [] 0"
    by (cases "snd (sentry_envelope_write (Some ev) None 0) < SENTRY_MICRO_ENVELOPE_BUFFER_BYTES") (use result in auto)
  show ?thesis by (intro conjI exI [of _ m1] exI [of _ ev] exI [of _ body]) fact+
qed

end
