(* ===== verification/Sentry_Wled_Forwarder.thy ===== *)
theory Sentry_Wled_Forwarder
  imports Sentry_Wifi_Basic
begin

text \<open>
  The usermod of WLED that posts to a forwarder on the local network
  (\<open>examples/wled_http_forwarder/usermods/sentry/usermod_sentry.cpp\<close>), as a whole: \<open>setup\<close> over the
  flash and the WiFi transport, the request for a deliberate crash, and \<open>loop\<close>. Its reports are those
  of the relay usermod. What is shown is that the firmware goes on whatever its flushes meet,
  crashes on purpose only when asked, and leaves 30 seconds between the flushes of its loop.
\<close>

section \<open>The reports\<close>

text \<open>The copies of this usermod; the array is given by a number here.\<close>

definition forwarder_reportCrash :: "'w platform \<Rightarrow> 'w micro \<Rightarrow> bool \<times> 'w micro" where
  "forwarder_reportCrash p m =
     (case crash_event p m of
        (None, m) \<Rightarrow> (False, m)
      | (Some event, m) \<Rightarrow>
          (case sentry_envelope_write (Some event) (Some (replicate 2048 NUL)) 2048 of
             (envelope, needed) \<Rightarrow>
               if needed = 0 \<or> needed \<ge> 2048 then (True, m)
               else
                (let bufferedBefore = sentry_buffered_count m;
                     (response, m) = sentry_send_envelope p (Some (envelope_bytes envelope needed)) m;
                     durablyHeld = (rs_result response = SENTRY_SEND_OK \<or> sentry_buffered_count m > bufferedBefore)
                 in (True, if durablyHeld then erase_dump p m else m))))"

definition forwarder_reportBoot :: "'w platform \<Rightarrow> 'w micro \<Rightarrow> 'w micro" where
  "forwarder_reportBoot p m =
     (let dev = sentry_get_device_info m;
          crashed = sentry_reset_reason_is_crash (di_reset_reason dev)
      in snd (sentry_capture_message p (if crashed then SENTRY_LEVEL_FATAL else SENTRY_LEVEL_INFO)
           (Some (boot_message ''WLED'' dev)) m))"

lemma forwarder_reports_like_the_relay:
  "forwarder_reportCrash p m = reportCrash p m" "forwarder_reportBoot p m = reportBoot p m"
  by (simp_all only: forwarder_reportCrash_def reportCrash_def envelope_array_def SENTRY_MICRO_ENVELOPE_BUFFER_BYTES_def
      forwarder_reportBoot_def reportBoot_def)

section \<open>Setup and loop\<close>

text \<open>The members of the usermod beside its transport, and the static variable of its loop.\<close>

record forwarder =
  fo_crashPending :: bool
  fo_crashAtMs :: u32
  fo_lastFlushMs :: u32

definition Forwarder :: forwarder where
  "Forwarder = \<lparr>fo_crashPending = False, fo_crashAtMs = 0, fo_lastFlushMs = 0\<rparr>"

text \<open>The handler of \<open>/sentry/crash\<close>.\<close>

definition forwarder_crash :: "u32 \<Rightarrow> forwarder \<Rightarrow> forwarder" where
  "forwarder_crash now f = f\<lparr>fo_crashAtMs := now + 500, fo_crashPending := True\<rparr>"

text \<open>
  The world holds the WiFi transport, a member of the usermod. The build has no TLS, so there is no
  certificate to set.
\<close>

definition forwarder_firmware ::
    "firmware \<Rightarrow> 'v http_client \<Rightarrow> http_errors \<Rightarrow> (wifi_transport \<times> 'v) serial_port option \<Rightarrow>
     (wifi_transport \<times> 'v) nvs_api \<Rightarrow> (wifi_transport \<times> 'v) platform \<Rightarrow> (wifi_transport \<times> 'v) program \<Rightarrow>
     (wifi_transport \<times> 'v) program" where
  "forwarder_firmware fw net err port nvs p g =
     (let g = snd (cxx_init port p (usermod_options fw p) g);
          (w, storage) = sentry_storage_nvs nvs 16 (m_world (pg_micro g));
          g = on_micro (\<lambda>m. snd (sentry_enable_buffering storage (m\<lparr>m_world := w\<rparr>))) g;
          g = cxx_set_transport (wifi_class net err False (Some (cxx_dsn (pg_micro g)))) g
      in on_micro (\<lambda>m. case forwarder_reportCrash p m of (reported, m) \<Rightarrow>
           if \<not> reported then forwarder_reportBoot p m else m) g)"

text \<open>
  One pass of \<open>loop\<close>. \<open>Inl\<close> is the deliberate crash, from which the call does not come back; \<open>None\<close>
  is a flush that does not return. The clock is read where the code reads it.
\<close>

definition forwarder_pass ::
    "('w \<Rightarrow> u32 \<times> 'w) \<Rightarrow> 'w platform \<Rightarrow> forwarder \<times> 'w micro \<Rightarrow> (forwarder \<times> 'w micro + forwarder \<times> 'w micro) option" where
  "forwarder_pass millis p s =
     (case s of (f, m) \<Rightarrow>
       let (now, w) = (if fo_crashPending f then millis (m_world m) else (0, m_world m)); m = m\<lparr>m_world := w\<rparr>
       in if fo_crashPending f \<and> now \<ge> fo_crashAtMs f then Some (Inl (f\<lparr>fo_crashPending := False\<rparr>, m))
          else
           (let (now, w) = (if sentry_buffered_count m > 0 then millis (m_world m) else (0, m_world m));
                (again, w) = (if sentry_buffered_count m > 0 \<and> now - fo_lastFlushMs f \<ge> 30000 then millis w else (0, w))
            in map_option (\<lambda>(lastFlushMs, m). Inr (f\<lparr>fo_lastFlushMs := lastFlushMs\<rparr>, m))
                 (forwarder_loop p now again (fo_lastFlushMs f) (m\<lparr>m_world := w\<rparr>))))"

text \<open>
  Passes of the loop, each after whatever a request for a crash, at the given time, has
  left; the run ends with a crash or the list.
\<close>

fun forwarder_run ::
    "('w \<Rightarrow> u32 \<times> 'w) \<Rightarrow> 'w platform \<Rightarrow> u32 option list \<Rightarrow> forwarder \<times> 'w micro \<Rightarrow>
     (forwarder \<times> 'w micro + forwarder \<times> 'w micro) option" where
  "forwarder_run millis p [] s = Some (Inr s)"
| "forwarder_run millis p (asks # rest) (f, m) =
     (case forwarder_pass millis p (case asks of Some now \<Rightarrow> forwarder_crash now f | None \<Rightarrow> f, m) of
        None \<Rightarrow> None
      | Some (Inl s) \<Rightarrow> Some (Inl s)
      | Some (Inr s) \<Rightarrow> forwarder_run millis p rest s)"

section \<open>The setup leaves a sound buffer\<close>

context kept_on_board
begin

lemma kept_report_at_boot:
  assumes "Q m"
  shows "Q (report_at_boot p m)"
proof -
  obtain r x where ev: "crash_event p m = (r, x)" by fastforce
  then have x: "Q x" using kept_reports(1) [OF assms] by simp
  have "Q (snd (reportCrash p m))"
    unfolding reportCrash_def ev using x by (cases r) (auto simp: case_prod_beta Let_def intro!: kept_reports(4) kept_send)
  then show ?thesis
    unfolding report_at_boot_def reportBoot_def Let_def case_prod_beta by (simp add: kept_capture(2))
qed

end

lemma forwarder_firmware_wf:
  "buffer_wf (gs_buffer (m_state (pg_micro (forwarder_firmware fw net err port nvs p g))))"
proof -
  have "(case forwarder_reportCrash p m of (reported, m) \<Rightarrow> if \<not> reported then forwarder_reportBoot p m else m) =
      report_at_boot p m" for m
    by (simp only: report_at_boot_def forwarder_reports_like_the_relay)
  then have "forwarder_firmware fw net err port nvs p g =
      (let g = snd (cxx_init port p (usermod_options fw p) g);
          (w, storage) = sentry_storage_nvs nvs 16 (m_world (pg_micro g));
          g = on_micro (\<lambda>m. snd (sentry_enable_buffering storage (m\<lparr>m_world := w\<rparr>))) g;
          g = cxx_set_transport (wifi_class net err False (Some (cxx_dsn (pg_micro g)))) g
       in on_micro (report_at_boot p) g)"
    by (simp only: forwarder_firmware_def)
  then show ?thesis
    unfolding Let_def case_prod_beta
    by (auto intro!: buffer_sound.kept_report_at_boot
        simp: cxx_set_transport_def sentry_set_transport_logged_def sentry_set_transport_def Let_def buffering_wf)
qed

section \<open>The firmware keeps running\<close>

lemma forwarder_pass_cases:
  assumes "buffer_wf (gs_buffer (m_state m))"
  shows "\<exists>r. forwarder_pass millis p (f, m) = Some r \<and>
    (case r of
       Inl (f', _) \<Rightarrow> fo_crashPending f \<and> \<not> fo_crashPending f'
     | Inr (f', m') \<Rightarrow> fo_crashPending f' = fo_crashPending f \<and> buffer_wf (gs_buffer (m_state m')))"
proof -
  have "\<exists>last m'. forwarder_loop p now again (fo_lastFlushMs f) (m\<lparr>m_world := w\<rparr>) = Some (last, m') \<and>
      buffer_wf (gs_buffer (m_state m'))" for now again w
  proof -
    have wf: "buffer_wf (gs_buffer (m_state (m\<lparr>m_world := w\<rparr>)))" using assms by simp
    from forwarder_loop_returns [OF this] obtain last m' where
      "forwarder_loop p now again (fo_lastFlushMs f) (m\<lparr>m_world := w\<rparr>) = Some (last, m')" by blast
    moreover from this have "buffer_wf (gs_buffer (m_state m'))"
      using wf by (auto simp: forwarder_loop_def split: if_splits intro: buffer_sound.kept_flush)
    ultimately show ?thesis by blast
  qed
  then obtain loop where loop: "\<And>now again w. \<exists>last. forwarder_loop p now again (fo_lastFlushMs f) (m\<lparr>m_world := w\<rparr>) =
      Some (last, loop now again w) \<and> buffer_wf (gs_buffer (m_state (loop now again w)))"
    by metis
  obtain now w where first: "(if fo_crashPending f then millis (m_world m) else (0, m_world m)) = (now, w)" by fastforce
  show ?thesis
  proof (cases "fo_crashPending f \<and> fo_crashAtMs f \<le> now")
    case True
    then have "millis (m_world m) = (now, w)" using first by simp
    with True show ?thesis by (simp add: forwarder_pass_def)
  next
    case False
    obtain now' v where second: "(if sentry_buffered_count (m\<lparr>m_world := w\<rparr>) > 0
        then millis (m_world (m\<lparr>m_world := w\<rparr>)) else (0, m_world (m\<lparr>m_world := w\<rparr>))) = (now', v)"
      by fastforce
    obtain again u where third: "(if sentry_buffered_count (m\<lparr>m_world := w\<rparr>) > 0 \<and> now' - fo_lastFlushMs f \<ge> 30000
        then millis v else (0, v)) = (again, u)" by fastforce
    obtain last where "forwarder_loop p now' again (fo_lastFlushMs f) (m\<lparr>m_world := u\<rparr>) = Some (last, loop now' again u)"
      "buffer_wf (gs_buffer (m_state (loop now' again u)))" using loop by blast
    moreover have "forwarder_pass millis p (f, m) =
        map_option (\<lambda>(lastFlushMs, m). Inr (f\<lparr>fo_lastFlushMs := lastFlushMs\<rparr>, m))
          (forwarder_loop p now' again (fo_lastFlushMs f) (m\<lparr>m_world := u\<rparr>))"
      by (simp add: forwarder_pass_def first second third if_not_P [OF False] Let_def split del: if_split)
    ultimately show ?thesis by simp
  qed
qed

text \<open>
  The firmware does not hang after its setup, whatever the clock and the network do, and a crash
  on purpose has been asked for.
\<close>

lemma forwarder_run_returns:
  assumes "buffer_wf (gs_buffer (m_state m))"
  shows "\<exists>r. forwarder_run millis p asks (f, m) = Some r \<and>
    (case r of Inl _ \<Rightarrow> fo_crashPending f \<or> (\<exists>now. Some now \<in> set asks) | Inr _ \<Rightarrow> True)"
  using assms
proof (induction asks arbitrary: f m)
  case (Cons ask asks)
  let ?f = "case ask of Some now \<Rightarrow> forwarder_crash now f | None \<Rightarrow> f"
  have asked: "fo_crashPending ?f \<Longrightarrow> fo_crashPending f \<or> (\<exists>now. ask = Some now)" by (cases ask) auto
  from forwarder_pass_cases [OF Cons.prems, of millis p ?f] obtain r where
    r: "forwarder_pass millis p (?f, m) = Some r"
    and cases: "case r of Inl (f', _) \<Rightarrow> fo_crashPending ?f \<and> \<not> fo_crashPending f'
      | Inr (f', m') \<Rightarrow> fo_crashPending f' = fo_crashPending ?f \<and> buffer_wf (gs_buffer (m_state m'))"
    by blast
  show ?case
  proof (cases r)
    case (Inl s)
    then show ?thesis using r cases asked by (auto simp: split_beta)
  next
    case (Inr s)
    obtain f' m' where s: "s = (f', m')" by fastforce
    then have kept: "fo_crashPending f' = fo_crashPending ?f" and wf: "buffer_wf (gs_buffer (m_state m'))"
      using cases Inr by simp_all
    from Cons.IH [OF wf, of f'] obtain r' where "forwarder_run millis p asks (f', m') = Some r'"
      "case r' of Inl _ \<Rightarrow> fo_crashPending f' \<or> (\<exists>now. Some now \<in> set asks) | Inr _ \<Rightarrow> True" by blast
    then show ?thesis using r Inr s asked kept by (cases r') auto
  qed
qed simp

lemma forwarder_keeps_running:
  "\<exists>r. forwarder_run millis p asks (Forwarder, pg_micro (forwarder_firmware fw net err port nvs p g)) = Some r \<and>
    (case r of Inl _ \<Rightarrow> \<exists>now. Some now \<in> set asks | Inr _ \<Rightarrow> True)"
  using forwarder_run_returns [OF forwarder_firmware_wf [of fw net err port nvs p g], of millis p asks Forwarder]
  by (simp only: Forwarder_def forwarder.select_convs simp_thms)

text \<open>A pass that flushes has found the last flush at least 30 seconds ago, by its clock.\<close>

lemma forwarder_flushes_apart:
  assumes "forwarder_pass millis p (f, m) = Some (Inr (f', m'))" and "fo_lastFlushMs f' \<noteq> fo_lastFlushMs f"
  shows "\<exists>w. 30000 \<le> fst (millis w) - fo_lastFlushMs f \<and> fo_lastFlushMs f' = fst (millis (snd (millis w)))"
  using assms by (auto simp: forwarder_pass_def forwarder_loop_def Let_def case_prod_beta split: if_splits)

end
