(* ===== verification/Spec2Isabelle.thy ===== *)
theory Spec2Isabelle
  imports Sentry_Envelope_Correct Sentry_Storage_Ram Sentry_Storage_Nvs Sentry_Throttle Sentry_Dsn
    Sentry_Log Sentry_Metrics Sentry_Base64 Sentry_Storage_Fs Sentry_Serial_Transport
    Sentry_Wifi_Transport Sentry_Relay_Transport Sentry_Micro_Delivery Sentry_Crash_Report
    Sentry_Wled_Relay Sentry_Relayed_Flush Sentry_Front_End Sentry_Micro_World Sentry_Wifi_Basic
    Sentry_Verified_Tls Sentry_Wled_Firmware Sentry_Wled_Forwarder
begin

text \<open>
  A formal model of sentry-micro, the error-reporting SDK for ESP32 microcontrollers: its C core
  under \<open>src/core\<close>, its device layer under \<open>src/device\<close>, its transports under \<open>src/transport\<close>, the
  SDK itself in \<open>src/sentry_micro.c\<close>, and what the firmware of the examples does with it. Paths
  are relative to the repository.

  \<^bold>\<open>The program.\<close> A device captures messages, transactions, metrics and log lines, and finds in
  flash the core dump of a crash of the boot before. The SDK writes each of these as an envelope,
  a few lines of JSON, into an array of the stack, and hands it to the transport the application
  registered. An envelope that could not be delivered but may be later is pushed to a ring buffer
  in flash; \<open>sentry_flush\<close> works that ring off. A throttle keeps a loop of messages from being sent,
  a Retry-After of the server silences the SDK until it has passed. A trace that is active when
  the device dies is kept in memory that survives the reset, so the report of the crash joins it;
  so are the log lines.

  \<^bold>\<open>Conventions\<close> (\<open>Sentry_Prelude\<close>). A C string is a \<open>string\<close>, a pointer that may be NULL an
  \<open>option\<close> (\<open>cptr\<close> for strings), a fixed \<open>char\<close> array that holds a string the string in it.
  Integers with a width are words and wrap; lengths of type \<open>size_t\<close> are naturals. An out-buffer
  is the list of its characters, and a function that writes to it returns the memory after the
  call, so what lies behind the end is part of the result. A struct is a record whose fields carry
  a prefix, an enum a datatype with the constants of the source, an error the value the source
  returns. The one static \<open>g_state\<close> of the SDK is passed through every function in a record
  \<open>micro\<close>, beside the memory that survives a reset and the world of the platform. What is not
  in the repository (ESP-IDF, the Arduino classes, the functions of a transport or a storage that
  the application supplies) is a record of functions over an arbitrary type \<open>'w\<close> of worlds; what
  the code relies on of it is stated in locales or as a hypothesis, and each is shown to be met by
  a concrete instance. Where C leaves the order of two calls open, the model goes from left to
  right.

  \<^bold>\<open>The theories.\<close>

  \<^item> \<open>Sentry_Json\<close> (\<open>core/sentry_json.c\<close>) is the bounded streaming writer, function by function,
    with its counting mode for a NULL buffer. \<open>Json_Document\<close> is its specification: documents, their text
    and a reader for it. \<open>Sentry_Json_Correct\<close> shows that the writer stays in its buffer, that
    counting is exact, and that a string read back is the string written. Its predicate \<open>emits\<close>,
    with the collection \<open>json_emits\<close>, turns a program over the writer into a document, piece by piece.
  \<^item> \<open>Sentry_Trace\<close> (\<open>core/sentry_trace.c\<close>): which \<open>sentry-trace\<close> headers are adopted, exactly;
    baggage as a map; the header sent on is adopted as the same trace.
  \<^item> \<open>Sentry_Span\<close> (\<open>core/sentry_span.c\<close>): the span table of a transaction and its counts.
  \<^item> \<open>Sentry_Device_Info\<close> (\<open>core/sentry_device_info.c\<close> and the core dump record) and
    \<open>Sentry_Envelope\<close> (\<open>core/sentry_envelope.c\<close>): the event and transaction writers, cut at the
    objects they open. \<open>Envelope_Frame\<close> is the frame of header lines around a payload and
    the locale \<open>envelope_payload\<close>: whoever supplies a payload writer that is exact gets the round
    trip of its envelope. It is interpreted for events, transactions (\<open>Sentry_Envelope_Correct\<close>),
    logs and metrics. \<open>Sentry_Envelope_Correct\<close> gives the documents written and the frames of a
    crash report as they are read back.
  \<^item> \<open>Sentry_Buffer\<close> (\<open>core/sentry_buffer.c\<close>): the ring of envelopes. The locale \<open>ring_storage\<close> is
    what any storage is to it, and three contracts extend it. With \<open>slot_storage\<close>, where a write
    that answers yes has stored its envelope, and \<open>reliable_storage\<close>, where no call fails, the ring
    is a bounded queue that counts what it drops, across reboots. With \<open>bounded_damage\<close>, where any
    call may fail and leave a slot as it was, empty or begun, it is the queue of \<open>queue_may\<close>, from
    whatever the storage holds and over boots and resets; that relation says what each call may do to the
    queue and to what the next boot finds. \<open>Sentry_Storage_Ram\<close> (the storage of the
    host tests), \<open>Sentry_Storage_Nvs\<close> (\<open>device/sentry_storage_nvs.c\<close>) and \<open>Sentry_Storage_Fs\<close>
    (\<open>device/sentry_storage_fs.cpp\<close>) are the providers. The locale \<open>nvs_flash\<close> keeps what the flash has
    stored apart from what a handle has set: only a commit that succeeds has stored it, and a reset
    leaves what is stored; \<open>working_flash\<close> adds that no call fails. \<open>file_system\<close> lets a close commit
    all, a part or nothing of what was written, which \<open>fs_write\<close> has no way to see; \<open>fs_storage\<close> is
    the context of the adapter, and \<open>committing_storage\<close> the case where closes commit. Sublocales
    give the storage contracts from these, and interpretations on a map of blobs with a handle, a map
    of files and the test storage show that they can be met.
  \<^item> \<open>Sentry_Throttle\<close> (\<open>core/sentry_throttle.c\<close>), \<open>Sentry_Dsn\<close> (\<open>core/sentry_dsn.c\<close>),
    \<open>Sentry_Log\<close> (\<open>core/sentry_log.c\<close>), \<open>Sentry_Metrics\<close> (\<open>core/sentry_metrics.c\<close>) and
    \<open>Sentry_Base64\<close> (\<open>core/sentry_base64.c\<close>): each with its operations and the specification they
    meet: what the throttle lets through in any minute, the grammar of a DSN and the URLs
    the relay check lets through, the newest lines of a ring, a map of at most ten keys, a decoder.
  \<^item> \<open>Sentry_Transport\<close> (\<open>core/sentry_transport.c\<close> and the C++ classes over it) is the interface
    and the choice of a route; \<open>Sentry_Relay\<close> (\<open>core/sentry_relay.c\<close>) the frames of the relay
    protocol; \<open>Sentry_Relay_Transport\<close>, \<open>Sentry_Serial_Transport\<close> and \<open>Sentry_Wifi_Transport\<close>
    (\<open>transport/\<close>) the three transports, with \<open>Sentry_Http\<close> for what the last two share. A host
    written from the protocol's description reads back what was sent; sends return; and no request
    leaves for a host that is not the ingest host.
  \<^item> \<open>Sentry_Device\<close> and \<open>Sentry_Coredump_Device\<close> (\<open>device/sentry_device_esp32.c\<close>,
    \<open>device/sentry_coredump_esp32.c\<close>): clocks, chip facts, the blocks of memory that survive a
    reset, and the stored core dump.
  \<^item> \<open>Sentry_Micro\<close> (\<open>src/sentry_micro.c\<close>): every function of the API. \<open>Sentry_Micro_Invariant\<close>
    breaks them into elementary updates of the state (\<open>micro_update\<close>), so that an invariant is proved
    once for those and holds under any API calls, changes of the world and resets (\<open>device_step\<close>): the
    state is well formed, a crash keeps its trace, the log survives. \<open>Sentry_Micro_Delivery\<close> follows
    envelopes: a flush returns and answers for each, a back-off is kept, a captured message is
    sent as the event of that message. \<open>Sentry_Relayed_Flush\<close> puts the SDK, the buffer in flash and
    the relay transport together: an envelope leaves the flash only when the host of the relay has
    read it whole and accepted it, or has refused it. The collections \<open>update_intros\<close>, \<open>waiting_intros\<close> and
    \<open>talks_intros\<close> carry these proofs over the functions of the API. The locale \<open>kept_by_steps\<close> takes
    a predicate of the whole SDK that each kind of step keeps and gives it after any function of the
    API; \<open>Sentry_Micro_World\<close> is its instance for a predicate of the world that the transport and the
    storage keep.
  \<^item> \<open>Sentry_Front_End\<close> is what an application sees: the debug logger of \<open>sentry_micro.c\<close> and the
    C++ functions of \<open>sentry_micro.hpp\<close> and \<open>sentry_micro_cxx.cpp\<close>. A start is the start of
    \<open>Sentry_Micro\<close>, and the lines it says are a function of the state it leaves.
  \<^item> \<open>Sentry_Crash_Report\<close> and \<open>Sentry_Wled_Relay\<close> (\<open>examples/\<close>): the firmware around the SDK. A
    core dump is erased only when its report is somewhere durable; the byte queue between the relay
    transport and a browser is a queue of frames.
  \<^item> \<open>Sentry_Wled_Firmware\<close> is the rest of the relay usermod: its \<open>setup\<close> and \<open>loop\<close>, the routes of its
    web server and what it reports of itself. \<open>setup\<close> leaves the report of a crash in flash, behind
    what waits there already, where the next boot finds it after any reset; the status page is JSON that says what the SDK knows, as long as the
    names in it need no escape. \<open>Sentry_Wled_Forwarder\<close> is the usermod that posts to a forwarder
    (\<open>examples/wled_http_forwarder\<close>): it runs on after any flush and crashes only when asked.
  \<^item> \<open>Sentry_Wifi_Basic\<close> and \<open>Sentry_Verified_Tls\<close> (\<open>examples/wifi_basic/src/main.cpp\<close>): a whole
    sketch, \<open>setup\<close> and \<open>loop\<close>, over the SDK, the C++ layer, the flash and a chain of the WiFi and
    serial transports. The locale \<open>kept_on_board\<close> adds to \<open>kept_by_steps\<close> what the Arduino calls keep
    and carries a predicate through the sketch. It always comes back from its waits, and every
    request it makes over TLS is verified.

  \<^bold>\<open>Termination and fuel.\<close> No function takes fuel. The loops that end by a decreasing length or
  count are recursive functions with that measure. The loops that end only because of what the
  platform answers are partial functions whose value \<open>None\<close> is not returning: \<open>flush_loop\<close>,
  \<open>await_loop\<close> of the relay, \<open>read_line\<close> and \<open>await_result\<close> of the serial transport, and the
  waits of the WiFi sketch, instances of one \<open>c_while\<close>. That they return is proved, for a flush
  without any assumption on the platform, for the waits from a clock that keeps time modulo
  \<open>2 ^ 32\<close> milliseconds.

  \<^bold>\<open>Bounds.\<close> Arrays have the sizes of the headers, whose defaults are the definitions of the same
  name (\<open>SENTRY_MICRO_ENVELOPE_BUFFER_BYTES\<close>, \<open>SENTRY_MICRO_MAX_FRAMES\<close> and so on). Counters and clocks keep their width;
  where one wraps, the theorems say so. Slot numbers and counts of the buffer are 32-bit words, and its
  theorems hold for any number of slots from one.

  \<^bold>\<open>Concurrency.\<close> The SDK is used by one task. The relay transport is the exception: a host frame
  may arrive at any moment, and the model lets it arrive whenever \<open>send\<close> calls the link. The order
  of memory operations within its atomics is not modelled.

  \<^bold>\<open>Not modelled.\<close> The debug lines other than those of \<open>sentry_init\<close> and \<open>sentry_set_transport\<close>, and
  every line printed to a console, which no other state depends on; a logger that calls the SDK back;
  in the examples, the fault of the deliberate crashes; the Python, shell
  and JavaScript of the build and of the hosts, except as the host side of a protocol; the host tests,
  of which only the test storage is used.
\<close>

end
